(* ===== verification/Prelude.thy ===== *)
theory Prelude
  imports Main "HOL-Library.Word" "HOL-Library.Monad_Syntax"
begin

text \<open>
  Shared vocabulary of the development: the machine integers of the 32-bit ARM target,
  the object store (\<open>new\<close>, \<open>delete\<close> and pointer access), the doubly linked
  segments that the kernel queue, the heap allocator and the mount list are made of, and
  the collections of simplification rules used by the component theories.

  Every operation that dereferences a pointer or indexes a buffer has a result of type
  \<open>'a option\<close>. \<open>None\<close> is a fault: a null or dangling pointer, an index outside a
  buffer, or a loop that does not return. A theorem that an operation works states that
  the result is \<open>Some\<close>.
\<close>

section \<open>Machine integers and pointers\<close>

type_synonym u8 = "8 word"
type_synonym u16 = "16 word"
type_synonym u32 = "32 word"
type_synonym u64 = "64 word"
type_synonym bytes = "u8 list"

text \<open>A pointer to an object of a store; \<open>None\<close> is \<open>nullptr\<close>.\<close>

type_synonym ptr = "nat option"

lemma unat_word_of_nat_small:
  "n < 2 ^ LENGTH('a) \<Longrightarrow> unat (word_of_nat n :: 'a :: len word) = n"
  by (simp add: unat_of_nat take_bit_nat_eq_self)

lemma unat_pow2: "k < LENGTH('a) \<Longrightarrow> unat (2 ^ k :: 'a :: len word) = 2 ^ k"
  using unat_word_of_nat_small [of "2 ^ k", where 'a = 'a] by simp

lemma unat_u32: "unat (x :: u32) < 2 ^ 32"
  using unsigned_less [where ?'a = nat, of x] by simp

lemma unat_add_small:
  "unat (x :: u32) + unat y < 2 ^ 32 \<Longrightarrow> unat (x + y) = unat x + unat y"
  by (simp add: unat_add_lem [THEN iffD1])

lemma sint_u32_small: "unat (x :: u32) < 2 ^ 31 \<Longrightarrow> sint x = int (unat x)"
proof -
  assume "unat x < 2 ^ 31"
  then have "uint x < 2 ^ 31" by (metis uint_nat of_nat_less_numeral_power_cancel_iff)
  moreover have "- (2 ^ 31) \<le> uint x" using unsigned_greater_eq [of x] by (rule order_trans [rotated]) simp
  ultimately have "signed_take_bit 31 (uint x) = uint x"
    by (intro signed_take_bit_int_eq_self)
  then show "sint x = int (unat x)" by (simp add: sint_uint)
qed

named_theorems store_simps \<open>reading and writing the object store\<close>
named_theorems rep_intros \<open>introduction rules for representation relations\<close>

section \<open>The object store\<close>

text \<open>
  The objects of one class that were made with \<open>new\<close> and not yet deleted. Objects
  are named by natural numbers, a name is never reused: using a deleted object is visible
  as a fault, as it has to be for the use-after-free defects of the code.
\<close>

record 'a store =
  cells :: "nat \<rightharpoonup> 'a"
  fresh :: nat

definition empty_store :: "'a store" where
  "empty_store = \<lparr>cells = Map.empty, fresh = 0\<rparr>"

definition store_ok :: "'a store \<Rightarrow> bool" where
  "store_ok s \<longleftrightarrow> (\<forall>a. fresh s \<le> a \<longrightarrow> cells s a = None)"

definition new_obj :: "'a \<Rightarrow> 'a store \<Rightarrow> nat \<times> 'a store" where
  "new_obj v s = (fresh s, s\<lparr>cells := (cells s)(fresh s \<mapsto> v), fresh := Suc (fresh s)\<rparr>)"

definition deref :: "'a store \<Rightarrow> ptr \<Rightarrow> 'a option" where
  "deref s p = (case p of None \<Rightarrow> None | Some a \<Rightarrow> cells s a)"

definition modify :: "ptr \<Rightarrow> ('a \<Rightarrow> 'a) \<Rightarrow> 'a store \<Rightarrow> 'a store option" where
  "modify p f s =
     (case p of None \<Rightarrow> None
      | Some a \<Rightarrow> (case cells s a of None \<Rightarrow> None
                  | Some v \<Rightarrow> Some (s\<lparr>cells := (cells s)(a \<mapsto> f v)\<rparr>)))"

text \<open>\<open>delete\<close> of a null pointer does nothing; of a dangling one it is a fault.\<close>

definition delete_obj :: "ptr \<Rightarrow> 'a store \<Rightarrow> 'a store option" where
  "delete_obj p s =
     (case p of None \<Rightarrow> Some s
      | Some a \<Rightarrow> (case cells s a of None \<Rightarrow> None
                  | Some v \<Rightarrow> Some (s\<lparr>cells := (cells s)(a := None)\<rparr>)))"

lemma deref_simps [simp, store_simps]:
  "deref s None = None" "deref s (Some a) = cells s a"
  by (simp_all add: deref_def)

lemma modify_None [simp, store_simps]: "modify None f s = None"
  by (simp add: modify_def)

lemma modify_cell [store_simps]:
  "cells s a = Some v \<Longrightarrow> modify (Some a) f s = Some (s\<lparr>cells := (cells s)(a \<mapsto> f v)\<rparr>)"
  by (simp add: modify_def)

lemma modify_dangling [store_simps]: "cells s a = None \<Longrightarrow> modify (Some a) f s = None"
  by (simp add: modify_def)

lemma delete_None [simp, store_simps]: "delete_obj None s = Some s"
  by (simp add: delete_obj_def)

lemma delete_cell [store_simps]:
  "cells s a = Some v \<Longrightarrow> delete_obj (Some a) s = Some (s\<lparr>cells := (cells s)(a := None)\<rparr>)"
  by (simp add: delete_obj_def)

lemma delete_dangling [store_simps]: "cells s a = None \<Longrightarrow> delete_obj (Some a) s = None"
  by (simp add: delete_obj_def)

lemma store_ok_fresh: "store_ok s \<Longrightarrow> cells s (fresh s) = None"
  by (simp add: store_ok_def)

lemma store_ok_cell: "store_ok s \<Longrightarrow> cells s a = Some v \<Longrightarrow> a < fresh s"
  by (metis not_le option.distinct(1) store_ok_def)

lemma store_ok_empty [simp]: "store_ok empty_store"
  by (simp add: store_ok_def empty_store_def)

lemma store_ok_upd [simp]:
  "store_ok s \<Longrightarrow> cells s a = Some v \<Longrightarrow> store_ok (s\<lparr>cells := (cells s)(a := x)\<rparr>)"
  by (auto simp: store_ok_def)

lemma store_ok_new [simp]:
  "store_ok s \<Longrightarrow> store_ok (s\<lparr>cells := (cells s)(fresh s \<mapsto> v), fresh := Suc (fresh s)\<rparr>)"
  by (auto simp: store_ok_def)

section \<open>Doubly linked segments\<close>

text \<open>
  \<open>dseg nx pv h p as q\<close>: in the heap \<open>h\<close> the nodes at the addresses \<open>as\<close> are
  linked in this order through \<open>nx\<close> and \<open>pv\<close>; \<open>p\<close> is the previous pointer
  of the first node and \<open>q\<close> the next pointer of the last.
\<close>

definition hd_ptr :: "'a list \<Rightarrow> 'a option \<Rightarrow> 'a option" where
  "hd_ptr as q = (case as of [] \<Rightarrow> q | a # _ \<Rightarrow> Some a)"

definition last_ptr :: "'a option \<Rightarrow> 'a list \<Rightarrow> 'a option" where
  "last_ptr p as = (if as = [] then p else Some (last as))"

primrec dseg :: "('n \<Rightarrow> 'a option) \<Rightarrow> ('n \<Rightarrow> 'a option) \<Rightarrow> ('a \<rightharpoonup> 'n) \<Rightarrow>
    'a option \<Rightarrow> 'a list \<Rightarrow> 'a option \<Rightarrow> bool" where
  "dseg nx pv h p [] q \<longleftrightarrow> True"
| "dseg nx pv h p (a # as) q \<longleftrightarrow>
     (case h a of None \<Rightarrow> False
      | Some n \<Rightarrow> pv n = p \<and> nx n = hd_ptr as q \<and> dseg nx pv h (Some a) as q)"

lemma hd_ptr_simps [simp]:
  "hd_ptr [] q = q" "hd_ptr (a # as) q = Some a"
  by (simp_all add: hd_ptr_def)

lemma hd_ptr_append [simp]: "hd_ptr (as @ bs) q = hd_ptr as (hd_ptr bs q)"
  by (cases as) simp_all

lemma hd_ptr_None [simp]: "hd_ptr as None = None \<longleftrightarrow> as = []"
  by (cases as) simp_all

lemma last_ptr_simps [simp]:
  "last_ptr p [] = p" "last_ptr p (as @ [a]) = Some a" "last_ptr p (a # as) = last_ptr (Some a) as"
  by (simp_all add: last_ptr_def)

lemma last_ptr_append [simp]: "last_ptr p (as @ bs) = last_ptr (last_ptr p as) bs"
  by (simp add: last_ptr_def)

lemma last_ptr_None [simp]: "last_ptr None as = None \<longleftrightarrow> as = []"
  by (simp add: last_ptr_def)

lemma dseg_append:
  "dseg nx pv h p (as @ bs) q \<longleftrightarrow>
     dseg nx pv h p as (hd_ptr bs q) \<and> dseg nx pv h (last_ptr p as) bs q"
  by (induction as arbitrary: p) (auto split: option.splits)

lemma dseg_cong:
  "(\<And>a. a \<in> set as \<Longrightarrow> h a = h' a) \<Longrightarrow> dseg nx pv h p as q = dseg nx pv h' p as q"
  by (induction as arbitrary: p) (auto split: option.splits)

lemma dseg_upd_notin [simp]:
  "a \<notin> set as \<Longrightarrow> dseg nx pv (h(a := x)) p as q = dseg nx pv h p as q"
  by (rule dseg_cong) auto

lemma dseg_dom: "dseg nx pv h p as q \<Longrightarrow> a \<in> set as \<Longrightarrow> \<exists>n. h a = Some n"
  by (induction as arbitrary: p) (auto split: option.splits)

lemma dseg_notin: "dseg nx pv h p as q \<Longrightarrow> h a = None \<Longrightarrow> a \<notin> set as"
  by (auto dest: dseg_dom)

lemma dseg_split:
  "dseg nx pv h p (as @ a # bs) q \<longleftrightarrow>
     dseg nx pv h p as (Some a) \<and>
     (\<exists>n. h a = Some n \<and> pv n = last_ptr p as \<and> nx n = hd_ptr bs q) \<and>
     dseg nx pv h (Some a) bs q"
  by (auto simp: dseg_append split: option.splits)

text \<open>
  The interface a node type has to offer: the two links are read and written
  independently. Relinking the ends of a segment is proved once for all node types.
\<close>

locale dlink =
  fixes nx :: "'n \<Rightarrow> 'a option" and pv :: "'n \<Rightarrow> 'a option"
    and set_nx :: "'a option \<Rightarrow> 'n \<Rightarrow> 'n" and set_pv :: "'a option \<Rightarrow> 'n \<Rightarrow> 'n"
  assumes nx_set_nx: "nx (set_nx q n) = q"
    and pv_set_nx: "pv (set_nx q n) = pv n"
    and nx_set_pv: "nx (set_pv p n) = nx n"
    and pv_set_pv: "pv (set_pv p n) = p"
begin

lemma relink_last:
  assumes "dseg nx pv h p (as @ [a]) q" and "a \<notin> set as" and "h a = Some n"
  shows "dseg nx pv (h(a \<mapsto> set_nx q' n)) p (as @ [a]) q'"
  using assms by (auto simp: dseg_append nx_set_nx pv_set_nx)

lemma relink_first:
  assumes "dseg nx pv h p (a # as) q" and "a \<notin> set as" and "h a = Some n"
  shows "dseg nx pv (h(a \<mapsto> set_pv p' n)) p' (a # as) q"
  using assms by (auto simp: nx_set_pv pv_set_pv)

text \<open>The optional forms, as the code writes them: relink a neighbour if there is one.\<close>

lemma relink_last_opt:
  assumes "dseg nx pv h p as q" and "distinct as"
    and "h' = (case last_ptr None as of None \<Rightarrow> h | Some a \<Rightarrow> h(a \<mapsto> set_nx q' (the (h a))))"
  shows "dseg nx pv h' p as q'"
proof (cases as rule: rev_cases)
  case Nil
  then show ?thesis by simp
next
  case (snoc bs b)
  then obtain n where "h b = Some n"
    using assms(1) dseg_dom [of nx pv h p as q b] by auto
  then show ?thesis using relink_last [of h p bs b q n q'] assms snoc by auto
qed

lemma relink_first_opt:
  assumes "dseg nx pv h p as q" and "distinct as"
    and "h' = (case hd_ptr as None of None \<Rightarrow> h | Some a \<Rightarrow> h(a \<mapsto> set_pv p' (the (h a))))"
  shows "dseg nx pv h' p' as q"
proof (cases as)
  case Nil
  then show ?thesis by simp
next
  case (Cons b bs)
  then obtain n where "h b = Some n"
    using assms(1) dseg_dom [of nx pv h p as q b] by auto
  then show ?thesis using relink_first [of h p b bs q n p'] assms Cons by auto
qed

end

section \<open>Words in memory\<close>

unbundle bit_operations_syntax

text \<open>The little-endian word that the bytes at an address make up.\<close>

definition load_word :: "u32 \<Rightarrow> (u32 \<Rightarrow> u8) \<Rightarrow> u32" where
  "load_word a m = ucast (m a) OR push_bit 8 (ucast (m (a + 1)))
     OR push_bit 16 (ucast (m (a + 2))) OR push_bit 24 (ucast (m (a + 3)))"

end
