(* ===== verification/Kqueue.thy ===== *)
theory Kqueue
  imports Prelude
begin

text \<open>
  The kernel queue of \<open>kernel/kqueue.h\<close>, pointer by pointer: a record with the
  \<open>front\<close> and \<open>back\<close> pointers, the \<open>length\<close> counter and the store of its nodes.
  The contract a client relies on is the locale \<open>deque\<close>; the queue of the code is its
  interpretation \<open>kq\<close>, for the relation \<open>kq_rep\<close> between a queue and the list of its
  elements. The functions \<open>clear\<close> and \<open>remove\<close> of the code are modelled as they
  are written; both leave the queue object in a state that the other operations do not
  expect, and the last section shows in which way.
\<close>

section \<open>The queue and its operations\<close>

record 'a node =
  node_data :: 'a
  node_next :: ptr
  node_prev :: ptr

record 'a kqueue =
  qfront :: ptr
  qback :: ptr
  qlength :: u32
  nodes :: "'a node store"

definition kqueue_new :: "'a kqueue" where
  "kqueue_new = \<lparr>qfront = None, qback = None, qlength = 0, nodes = empty_store\<rparr>"

text \<open>\<open>clear\<close>: the loop deletes the nodes one by one; the fields keep their values.\<close>

partial_function (option) clear_loop :: "'a node store \<Rightarrow> ptr \<Rightarrow> 'a node store option" where
  "clear_loop s current_node =
     (case current_node of
        None \<Rightarrow> Some s
      | Some temp \<Rightarrow> do {
          n \<leftarrow> deref s (Some temp);
          s' \<leftarrow> delete_obj (Some temp) s;
          clear_loop s' (node_next n) })"

definition kqueue_clear :: "'a kqueue \<Rightarrow> 'a kqueue option" where
  "kqueue_clear q = do { s \<leftarrow> clear_loop (nodes q) (qfront q); Some (q\<lparr>nodes := s\<rparr>) }"

definition push_front :: "'a \<Rightarrow> 'a kqueue \<Rightarrow> 'a kqueue option" where
  "push_front d q =
     (let (n, s) = new_obj \<lparr>node_data = d, node_next = qfront q, node_prev = None\<rparr> (nodes q) in
      case qfront q of
        None \<Rightarrow> Some (q\<lparr>qfront := Some n, qback := Some n, qlength := qlength q + 1, nodes := s\<rparr>)
      | Some f \<Rightarrow> do {
          s' \<leftarrow> modify (Some f) (node_prev_update (\<lambda>_. Some n)) s;
          Some (q\<lparr>qfront := Some n, qlength := qlength q + 1, nodes := s'\<rparr>) })"

definition push_back :: "'a \<Rightarrow> 'a kqueue \<Rightarrow> 'a kqueue option" where
  "push_back d q =
     (let (n, s) = new_obj \<lparr>node_data = d, node_next = None, node_prev = qback q\<rparr> (nodes q) in
      case qback q of
        None \<Rightarrow> Some (q\<lparr>qfront := Some n, qback := Some n, qlength := qlength q + 1, nodes := s\<rparr>)
      | Some b \<Rightarrow> do {
          s' \<leftarrow> modify (Some b) (node_next_update (\<lambda>_. Some n)) s;
          Some (q\<lparr>qback := Some n, qlength := qlength q + 1, nodes := s'\<rparr>) })"

text \<open>
  The pops return whether an element was taken, here as an option: \<open>None\<close> is the
  result \<open>false\<close>, which leaves the output parameter unwritten.
\<close>

definition pop_back :: "'a kqueue \<Rightarrow> ('a option \<times> 'a kqueue) option" where
  "pop_back q =
     (case qback q of
        None \<Rightarrow> Some (None, q)
      | Some b \<Rightarrow> do {
          n \<leftarrow> deref (nodes q) (Some b);
          q' \<leftarrow> (case node_prev n of
                  None \<Rightarrow> Some (q\<lparr>qback := None, qfront := None\<rparr>)
                | Some p \<Rightarrow> do {
                    s \<leftarrow> modify (Some p) (node_next_update (\<lambda>_. None)) (nodes q);
                    Some (q\<lparr>qback := Some p, nodes := s\<rparr>) });
          s' \<leftarrow> delete_obj (Some b) (nodes q');
          Some (Some (node_data n), q'\<lparr>qlength := qlength q' - 1, nodes := s'\<rparr>) })"

definition pop_front :: "'a kqueue \<Rightarrow> ('a option \<times> 'a kqueue) option" where
  "pop_front q =
     (case qfront q of
        None \<Rightarrow> Some (None, q)
      | Some f \<Rightarrow> do {
          n \<leftarrow> deref (nodes q) (Some f);
          q' \<leftarrow> (case node_next n of
                  None \<Rightarrow> Some (q\<lparr>qback := None, qfront := None\<rparr>)
                | Some p \<Rightarrow> do {
                    s \<leftarrow> modify (Some p) (node_prev_update (\<lambda>_. None)) (nodes q);
                    Some (q\<lparr>qfront := Some p, nodes := s\<rparr>) });
          s' \<leftarrow> delete_obj (Some f) (nodes q');
          Some (Some (node_data n), q'\<lparr>qlength := qlength q' - 1, nodes := s'\<rparr>) })"

definition kqueue_length :: "'a kqueue \<Rightarrow> u32" where
  "kqueue_length q = qlength q"

text \<open>
  A ranged \<open>for\<close> over the queue visits the data of the nodes from \<open>begin()\<close> to
  \<open>end()\<close>; a position is the node pointer of an \<open>iterator\<close>.
\<close>

partial_function (option) iterate_from :: "'a node store \<Rightarrow> ptr \<Rightarrow> (nat \<times> 'a) list option" where
  "iterate_from s p =
     (case p of
        None \<Rightarrow> Some []
      | Some a \<Rightarrow> do {
          n \<leftarrow> deref s (Some a);
          rest \<leftarrow> iterate_from s (node_next n);
          Some ((a, node_data n) # rest) })"

definition iterate :: "'a kqueue \<Rightarrow> (nat \<times> 'a) list option" where
  "iterate q = iterate_from (nodes q) (qfront q)"

definition elements :: "'a kqueue \<Rightarrow> 'a list option" where
  "elements q = map_option (map snd) (iterate q)"

text \<open>\<open>remove\<close> unlinks a node and returns the iterator after it.\<close>

definition kqueue_remove :: "nat \<Rightarrow> 'a kqueue \<Rightarrow> (ptr \<times> 'a kqueue) option" where
  "kqueue_remove n q = do {
     nd \<leftarrow> deref (nodes q) (Some n);
     s1 \<leftarrow> (case node_prev nd of None \<Rightarrow> Some (nodes q)
           | Some p \<Rightarrow> modify (Some p) (node_next_update (\<lambda>_. node_next nd)) (nodes q));
     s2 \<leftarrow> (case node_next nd of None \<Rightarrow> Some s1
           | Some p \<Rightarrow> modify (Some p) (node_prev_update (\<lambda>_. node_prev nd)) s1);
     Some (node_next nd,
       q\<lparr>qfront := (if qfront q = Some n then node_next nd else qfront q),
         qback := (if qback q = Some n then node_prev nd else qback q),
         nodes := s2\<rparr>) }"

section \<open>The list a queue represents\<close>

interpretation qnode: dlink node_next node_prev
  "\<lambda>p. node_next_update (\<lambda>_. p)" "\<lambda>p. node_prev_update (\<lambda>_. p)"
  by unfold_locales simp_all

abbreviation qseg where "qseg \<equiv> dseg node_next node_prev"

definition kq_nodes :: "'a kqueue \<Rightarrow> nat list \<Rightarrow> bool" where
  "kq_nodes q as \<longleftrightarrow> qseg (cells (nodes q)) None as None \<and> distinct as \<and>
     qfront q = hd_ptr as None \<and> qback q = last_ptr None as \<and> store_ok (nodes q)"

definition node_values :: "'a kqueue \<Rightarrow> nat list \<Rightarrow> 'a list" where
  "node_values q as = map (\<lambda>a. node_data (the (cells (nodes q) a))) as"

text \<open>
  \<open>kq_links\<close> relates the linked nodes to a list; \<open>kq_rep\<close> adds that the length
  counter agrees, which all operations but \<open>remove\<close> and \<open>clear\<close> keep.
\<close>

definition kq_links :: "'a kqueue \<Rightarrow> 'a list \<Rightarrow> bool" where
  "kq_links q xs \<longleftrightarrow> (\<exists>as. kq_nodes q as \<and> node_values q as = xs)"

definition kq_rep :: "'a kqueue \<Rightarrow> 'a list \<Rightarrow> bool" where
  "kq_rep q xs \<longleftrightarrow> kq_links q xs \<and> qlength q = word_of_nat (length xs)"

lemma kq_nodes_empty: "kq_nodes kqueue_new []"
  by (simp add: kq_nodes_def kqueue_new_def)

lemma kq_nodes_fresh: "kq_nodes q as \<Longrightarrow> fresh (nodes q) \<notin> set as"
  by (auto simp: kq_nodes_def dest: store_ok_fresh dseg_notin)

lemma kq_nodes_push_front:
  assumes "kq_nodes q as"
  shows "\<exists>q'. push_front d q = Some q' \<and> kq_nodes q' (fresh (nodes q) # as) \<and>
           node_values q' (fresh (nodes q) # as) = d # node_values q as \<and>
           qlength q' = qlength q + 1"
proof (cases as)
  case Nil
  with assms show ?thesis
    by (simp add: push_front_def new_obj_def kq_nodes_def node_values_def store_ok_fresh)
next
  case (Cons f bs)
  with assms obtain v where v: "cells (nodes q) f = Some v"
    by (auto simp: kq_nodes_def split: option.splits)
  have "fresh (nodes q) \<noteq> f" "fresh (nodes q) \<notin> set bs"
    using kq_nodes_fresh [OF assms] Cons by auto
  with assms Cons v show ?thesis
    by (auto simp: push_front_def new_obj_def modify_def kq_nodes_def node_values_def
        store_ok_def split: option.splits)
qed

lemma kq_nodes_push_back:
  assumes "kq_nodes q as"
  shows "\<exists>q'. push_back d q = Some q' \<and> kq_nodes q' (as @ [fresh (nodes q)]) \<and>
           node_values q' (as @ [fresh (nodes q)]) = node_values q as @ [d] \<and>
           qlength q' = qlength q + 1"
proof (cases as rule: rev_cases)
  case Nil
  with assms show ?thesis
    by (simp add: push_back_def new_obj_def kq_nodes_def node_values_def store_ok_fresh)
next
  case (snoc bs b)
  with assms obtain v where v: "cells (nodes q) b = Some v"
    by (auto simp: kq_nodes_def dseg_append split: option.splits)
  have "fresh (nodes q) \<noteq> b" "fresh (nodes q) \<notin> set bs"
    using kq_nodes_fresh [OF assms] snoc by auto
  with assms snoc v show ?thesis
    by (auto simp: push_back_def new_obj_def modify_def kq_nodes_def node_values_def
        dseg_append store_ok_def split: option.splits)
qed

lemma kq_nodes_pop_front:
  assumes "kq_nodes q (a # as)"
  shows "\<exists>q'. pop_front q = Some (Some (node_data (the (cells (nodes q) a))), q') \<and>
           kq_nodes q' as \<and> node_values q' as = node_values q as \<and> qlength q' = qlength q - 1"
proof (cases as)
  case Nil
  with assms show ?thesis
    by (auto simp: pop_front_def delete_obj_def kq_nodes_def node_values_def
        split: option.splits)
next
  case (Cons b bs)
  with assms obtain v w where v: "cells (nodes q) a = Some v" "node_next v = Some b"
    and w: "cells (nodes q) b = Some w"
    by (auto simp: kq_nodes_def split: option.splits)
  define q' where "q' = q\<lparr>qfront := Some b, qlength := qlength q - 1, nodes :=
    nodes q\<lparr>cells := (cells (nodes q))(b \<mapsto> w\<lparr>node_prev := None\<rparr>, a := None)\<rparr>\<rparr>"
  have "a \<noteq> b" "qfront q = Some a"
    using assms Cons by (auto simp: kq_nodes_def)
  with v w have "pop_front q = Some (Some (node_data v), q')"
    by (simp add: pop_front_def store_simps q'_def)
  moreover have "kq_nodes q' as \<and> node_values q' as = node_values q as"
    using assms Cons v w by (auto simp: q'_def kq_nodes_def node_values_def store_ok_def)
  ultimately show ?thesis using v by (simp add: q'_def)
qed

lemma kq_nodes_pop_back:
  assumes "kq_nodes q (as @ [a])"
  shows "\<exists>q'. pop_back q = Some (Some (node_data (the (cells (nodes q) a))), q') \<and>
           kq_nodes q' as \<and> node_values q' as = node_values q as \<and> qlength q' = qlength q - 1"
proof (cases as rule: rev_cases)
  case Nil
  with assms show ?thesis
    by (auto simp: pop_back_def delete_obj_def kq_nodes_def node_values_def
        split: option.splits)
next
  case (snoc bs b)
  with assms obtain v w where v: "cells (nodes q) a = Some v" "node_prev v = Some b"
    and w: "cells (nodes q) b = Some w"
    by (auto simp: kq_nodes_def dseg_append split: option.splits)
  define q' where "q' = q\<lparr>qback := Some b, qlength := qlength q - 1, nodes :=
    nodes q\<lparr>cells := (cells (nodes q))(b \<mapsto> w\<lparr>node_next := None\<rparr>, a := None)\<rparr>\<rparr>"
  have "a \<noteq> b" "qback q = Some a"
    using assms snoc by (auto simp: kq_nodes_def)
  with v w have "pop_back q = Some (Some (node_data v), q')"
    by (simp add: pop_back_def store_simps q'_def)
  moreover have "kq_nodes q' as \<and> node_values q' as = node_values q as"
    using assms snoc v w
    by (auto simp: q'_def kq_nodes_def node_values_def store_ok_def dseg_append)
  ultimately show ?thesis using v by (simp add: q'_def)
qed

lemma kq_nodes_pop_empty:
  assumes "kq_nodes q []"
  shows "pop_front q = Some (None, q)" and "pop_back q = Some (None, q)"
  using assms by (simp_all add: kq_nodes_def pop_front_def pop_back_def)

lemma iterate_from_seg:
  "qseg (cells s) p as None \<Longrightarrow>
   iterate_from s (hd_ptr as None) = Some (map (\<lambda>a. (a, node_data (the (cells s a)))) as)"
  by (induction as arbitrary: p)
    (auto simp: iterate_from.simps [of s "None"] iterate_from.simps [of s "Some _"]
      split: option.splits)

lemma iterate_nodes:
  "kq_nodes q as \<Longrightarrow> iterate q = Some (zip as (node_values q as))"
  using iterate_from_seg [of "nodes q" None as]
  by (simp add: kq_nodes_def iterate_def node_values_def zip_map2 zip_same_conv_map o_def)

section \<open>The contract of a queue and its implementation by the code\<close>

text \<open>
  What a client of the queue relies on: the operations act on the represented list as
  their names say, they never fault, and the length counter is the length of the list
  modulo the width of \<open>int\<close>.
\<close>

locale deque =
  fixes rep :: "'q \<Rightarrow> 'e list \<Rightarrow> bool"
    and init :: 'q
    and pushf :: "'e \<Rightarrow> 'q \<Rightarrow> 'q option" and pushb :: "'e \<Rightarrow> 'q \<Rightarrow> 'q option"
    and popf :: "'q \<Rightarrow> ('e option \<times> 'q) option" and popb :: "'q \<Rightarrow> ('e option \<times> 'q) option"
    and len :: "'q \<Rightarrow> u32" and elems :: "'q \<Rightarrow> 'e list option"
  assumes rep_init: "rep init []"
    and rep_pushf: "rep q xs \<Longrightarrow> \<exists>q'. pushf x q = Some q' \<and> rep q' (x # xs)"
    and rep_pushb: "rep q xs \<Longrightarrow> \<exists>q'. pushb x q = Some q' \<and> rep q' (xs @ [x])"
    and popf_Nil: "rep q [] \<Longrightarrow> popf q = Some (None, q)"
    and popf_Cons: "rep q (x # xs) \<Longrightarrow> \<exists>q'. popf q = Some (Some x, q') \<and> rep q' xs"
    and popb_Nil: "rep q [] \<Longrightarrow> popb q = Some (None, q)"
    and popb_snoc: "rep q (xs @ [x]) \<Longrightarrow> \<exists>q'. popb q = Some (Some x, q') \<and> rep q' xs"
    and rep_len: "rep q xs \<Longrightarrow> len q = word_of_nat (length xs)"
    and rep_elems: "rep q xs \<Longrightarrow> elems q = Some xs"
begin

lemma popf_cases:
  assumes "rep q xs"
  shows "\<exists>r q'. popf q = Some (r, q') \<and>
    (case xs of [] \<Rightarrow> r = None \<and> rep q' [] | y # ys \<Rightarrow> r = Some y \<and> rep q' ys)"
  using assms by (cases xs) (auto dest: popf_Nil popf_Cons)

lemma popb_cases:
  assumes "rep q xs"
  shows "\<exists>r q'. popb q = Some (r, q') \<and>
    (if xs = [] then r = None \<and> rep q' [] else r = Some (last xs) \<and> rep q' (butlast xs))"
  using assms by (cases xs rule: rev_cases) (auto dest: popb_Nil popb_snoc)

text \<open>One round of a round-robin client: the new element goes to the back, the front comes out.\<close>

lemma rotate:
  assumes "rep q (y # ys)"
  shows "\<exists>q' q''. pushb x q = Some q' \<and> popf q' = Some (Some y, q'') \<and> rep q'' (ys @ [x])"
  using rep_pushb [OF assms] popf_Cons by fastforce

lemma rep_unique: "rep q xs \<Longrightarrow> rep q ys \<Longrightarrow> xs = ys"
  using rep_elems [of q xs] rep_elems [of q ys] by simp

end

lemma elements_links: "kq_links q xs \<Longrightarrow> elements q = Some xs"
  by (auto simp: kq_links_def elements_def iterate_nodes node_values_def)

lemma node_values_Nil [simp]: "node_values q as = [] \<longleftrightarrow> as = []"
  by (simp add: node_values_def)

lemma kq_links_Cons:
  assumes "kq_links q (x # xs)"
  obtains a as where "kq_nodes q (a # as)" "node_data (the (cells (nodes q) a)) = x"
    "node_values q as = xs"
  using assms by (auto simp: kq_links_def node_values_def Cons_eq_map_conv map_eq_Cons_conv)

lemma kq_links_snoc:
  assumes "kq_links q (xs @ [x])"
  obtains a as where "kq_nodes q (as @ [a])" "node_data (the (cells (nodes q) a)) = x"
    "node_values q as = xs"
  using assms by (fastforce simp: kq_links_def node_values_def map_eq_append_conv)

lemma kq_linksI: "kq_nodes q as \<Longrightarrow> node_values q as = xs \<Longrightarrow> kq_links q xs"
  by (auto simp: kq_links_def)

lemma kq_links_push_front:
  assumes "kq_links q xs"
  shows "\<exists>q'. push_front x q = Some q' \<and> kq_links q' (x # xs) \<and> qlength q' = qlength q + 1"
proof -
  obtain as where as: "kq_nodes q as" "node_values q as = xs"
    using assms by (auto simp: kq_links_def)
  from kq_nodes_push_front [OF as(1), of x] show ?thesis
    using as(2) by (auto intro: kq_linksI)
qed

lemma kq_links_push_back:
  assumes "kq_links q xs"
  shows "\<exists>q'. push_back x q = Some q' \<and> kq_links q' (xs @ [x]) \<and> qlength q' = qlength q + 1"
proof -
  obtain as where as: "kq_nodes q as" "node_values q as = xs"
    using assms by (auto simp: kq_links_def)
  from kq_nodes_push_back [OF as(1), of x] show ?thesis
    using as(2) by (auto intro: kq_linksI)
qed

lemma kq_links_pop_front:
  assumes "kq_links q (x # xs)"
  shows "\<exists>q'. pop_front q = Some (Some x, q') \<and> kq_links q' xs \<and> qlength q' = qlength q - 1"
  using assms by (rule kq_links_Cons) (auto dest!: kq_nodes_pop_front intro: kq_linksI)

lemma kq_links_pop_back:
  assumes "kq_links q (xs @ [x])"
  shows "\<exists>q'. pop_back q = Some (Some x, q') \<and> kq_links q' xs \<and> qlength q' = qlength q - 1"
  using assms by (rule kq_links_snoc) (auto dest!: kq_nodes_pop_back intro: kq_linksI)

lemma kq_links_Nil: "kq_links q [] \<Longrightarrow> kq_nodes q []"
  by (auto simp: kq_links_def)

interpretation kq: deque kq_rep kqueue_new push_front push_back pop_front pop_back
  kqueue_length elements
proof (unfold_locales, goal_cases)
  case 1
  show ?case
    using kq_nodes_empty by (auto simp: kq_rep_def kqueue_new_def intro: kq_linksI)
next
  case (2 q xs x)
  then show ?case
    using kq_links_push_front [of q xs x] by (auto simp: kq_rep_def add.commute)
next
  case (3 q xs x)
  then show ?case
    using kq_links_push_back [of q xs x] by (auto simp: kq_rep_def add.commute)
next
  case (4 q)
  then show ?case by (simp add: kq_rep_def kq_nodes_pop_empty kq_links_Nil)
next
  case (5 q x xs)
  then show ?case
    using kq_links_pop_front [of q x xs] by (auto simp: kq_rep_def)
next
  case (6 q)
  then show ?case by (simp add: kq_rep_def kq_nodes_pop_empty kq_links_Nil)
next
  case (7 q xs x)
  then show ?case
    using kq_links_pop_back [of q xs x] by (auto simp: kq_rep_def)
next
  case (8 q xs)
  then show ?case by (simp add: kq_rep_def kqueue_length_def)
next
  case (9 q xs)
  then show ?case by (simp add: kq_rep_def elements_links)
qed

section \<open>Sequences of operations\<close>

datatype 'a qop = PushFront 'a | PushBack 'a | PopFront | PopBack

fun kq_step :: "'a qop \<Rightarrow> 'a kqueue \<Rightarrow> ('a option \<times> 'a kqueue) option" where
  "kq_step (PushFront x) q = map_option (Pair None) (push_front x q)"
| "kq_step (PushBack x) q = map_option (Pair None) (push_back x q)"
| "kq_step PopFront q = pop_front q"
| "kq_step PopBack q = pop_back q"

fun kq_run :: "'a qop list \<Rightarrow> 'a kqueue \<Rightarrow> ('a option list \<times> 'a kqueue) option" where
  "kq_run [] q = Some ([], q)"
| "kq_run (c # cs) q = do {
     (r, q') \<leftarrow> kq_step c q;
     (rs, q'') \<leftarrow> kq_run cs q';
     Some (r # rs, q'') }"

text \<open>The same operations on a list.\<close>

fun list_step :: "'a qop \<Rightarrow> 'a list \<Rightarrow> 'a option \<times> 'a list" where
  "list_step (PushFront x) xs = (None, x # xs)"
| "list_step (PushBack x) xs = (None, xs @ [x])"
| "list_step PopFront xs = (case xs of [] \<Rightarrow> (None, []) | y # ys \<Rightarrow> (Some y, ys))"
| "list_step PopBack xs = (if xs = [] then (None, []) else (Some (last xs), butlast xs))"

fun list_run :: "'a qop list \<Rightarrow> 'a list \<Rightarrow> 'a option list \<times> 'a list" where
  "list_run [] xs = ([], xs)"
| "list_run (c # cs) xs =
     (let (r, ys) = list_step c xs; (rs, zs) = list_run cs ys in (r # rs, zs))"

lemma kq_step_rep:
  assumes "kq_rep q xs"
  shows "\<exists>q'. kq_step c q = Some (fst (list_step c xs), q') \<and> kq_rep q' (snd (list_step c xs))"
proof (cases c)
  case (PushFront x)
  with kq.rep_pushf [OF assms, of x] show ?thesis by auto
next
  case (PushBack x)
  with kq.rep_pushb [OF assms, of x] show ?thesis by auto
next
  case PopFront
  with kq.popf_cases [OF assms] show ?thesis by (auto split: list.splits)
next
  case PopBack
  with kq.popb_cases [OF assms] show ?thesis by auto
qed

lemma kq_run_rep:
  assumes "kq_rep q xs"
  shows "\<exists>q'. kq_run cs q = Some (fst (list_run cs xs), q') \<and> kq_rep q' (snd (list_run cs xs))"
  using assms
proof (induction cs arbitrary: q xs)
  case Nil
  then show ?case by simp
next
  case (Cons c cs)
  obtain q1 where q1: "kq_step c q = Some (fst (list_step c xs), q1)"
    "kq_rep q1 (snd (list_step c xs))"
    using kq_step_rep [OF Cons.prems] by blast
  from Cons.IH [OF q1(2)] q1(1) show ?case
    by (auto simp: Let_def split: prod.splits)
qed

text \<open>
  C3: every sequence of pushes and pops on a new queue runs without a fault and returns,
  pop by pop, exactly what the same sequence returns on a list; afterwards the ranged
  \<open>for\<close> loop visits the elements of that list and \<open>get_length\<close> is its length modulo
  \<open>2 ^ 32\<close>.
\<close>

theorem kqueue_simulates_list:
  "\<exists>q'. kq_run cs kqueue_new = Some (fst (list_run cs []), q') \<and>
     elements q' = Some (snd (list_run cs [])) \<and>
     kqueue_length q' = word_of_nat (length (snd (list_run cs [])))"
  using kq_run_rep [OF kq.rep_init, of cs] kq.rep_elems kq.rep_len by blast

section \<open>Removing by iterator and clearing\<close>

lemma kq_nodes_remove:
  assumes "kq_nodes q (as @ a # bs)"
  shows "\<exists>q'. kqueue_remove a q = Some (hd_ptr bs None, q') \<and> kq_nodes q' (as @ bs) \<and>
           node_values q' (as @ bs) = node_values q (as @ bs) \<and> qlength q' = qlength q"
proof -
  let ?h = "cells (nodes q)"
  obtain n where n: "?h a = Some n" "node_prev n = last_ptr None as" "node_next n = hd_ptr bs None"
    and segs: "qseg ?h None as (Some a)" "qseg ?h (Some a) bs None"
    and d: "distinct (as @ a # bs)"
    using assms by (auto simp: kq_nodes_def dseg_split)
  define h1 where "h1 = (case last_ptr None as of None \<Rightarrow> ?h
      | Some p \<Rightarrow> ?h(p \<mapsto> node_next_update (\<lambda>_. node_next n) (the (?h p))))"
  define h2 where "h2 = (case hd_ptr bs None of None \<Rightarrow> h1
      | Some p \<Rightarrow> h1(p \<mapsto> node_prev_update (\<lambda>_. node_prev n) (the (h1 p))))"
  have bs_h1: "h1 x = ?h x" if "x \<in> set bs" for x
    using d that by (cases as rule: rev_cases) (auto simp: h1_def)
  have as_h2: "h2 x = h1 x" if "x \<in> set as" for x
    using d that by (cases bs) (auto simp: h2_def)
  have "qseg h1 None as (hd_ptr bs None)"
    using qnode.relink_last_opt [OF segs(1) _ h1_def] d n by simp
  moreover have "qseg h2 (last_ptr None as) bs None"
    using qnode.relink_first_opt [OF _ _ h2_def, of "Some a" None] segs(2) d n
      dseg_cong [of bs h1 ?h] bs_h1 by simp
  ultimately have seg: "qseg h2 None (as @ bs) None"
    using dseg_cong [of as h2 h1] as_h2 by (simp add: dseg_append)
  have dom_as: "?h x \<noteq> None" if "x \<in> set as \<union> set bs" for x
    using segs that by (auto dest: dseg_dom)
  define q' where "q' = q\<lparr>qfront := (if qfront q = Some a then node_next n else qfront q),
         qback := (if qback q = Some a then node_prev n else qback q),
         nodes := (nodes q)\<lparr>cells := h2\<rparr>\<rparr>"
  have "kqueue_remove a q = Some (hd_ptr bs None, q')"
    using n d
    by (cases as rule: rev_cases; cases bs)
      (auto simp: dom_as kqueue_remove_def q'_def h2_def h1_def modify_def split: option.splits)
  moreover have "store_ok (nodes q')"
    using assms
    by (cases as rule: rev_cases; cases bs)
      (auto simp: dom_as q'_def h2_def h1_def kq_nodes_def store_ok_def dseg_append
        split: option.splits)
  moreover have "node_values q' (as @ bs) = node_values q (as @ bs)"
    using d
    by (cases as rule: rev_cases; cases bs) (auto simp: dom_as node_values_def q'_def h2_def h1_def)
  moreover have "qfront q' = hd_ptr (as @ bs) None" "qback q' = last_ptr None (as @ bs)"
    using assms n d by (cases as; cases bs rule: rev_cases; auto simp: q'_def kq_nodes_def)+
  ultimately show ?thesis
    using seg d by (auto simp: kq_nodes_def q'_def)
qed

lemma kq_links_remove:
  assumes q: "kq_links q xs" and ps: "iterate q = Some ps" and i: "i < length ps"
  shows "\<exists>q'. kqueue_remove (fst (ps ! i)) q =
             Some (if Suc i < length ps then Some (fst (ps ! Suc i)) else None, q') \<and>
           kq_links q' (take i xs @ drop (Suc i) xs) \<and> qlength q' = qlength q"
proof -
  obtain as where as: "kq_nodes q as" "node_values q as = xs"
    using q by (auto simp: kq_links_def)
  have ps_zip: "ps = zip as xs"
    using iterate_nodes [OF as(1)] as(2) ps by simp
  have len: "length as = length xs"
    using as(2) by (auto simp: node_values_def)
  have split: "as = take i as @ as ! i # drop (Suc i) as"
    using i ps_zip len by (simp add: id_take_nth_drop)
  obtain q' where q': "kqueue_remove (as ! i) q = Some (hd_ptr (drop (Suc i) as) None, q')"
    "kq_nodes q' (take i as @ drop (Suc i) as)"
    "node_values q' (take i as @ drop (Suc i) as) = node_values q (take i as @ drop (Suc i) as)"
    "qlength q' = qlength q"
    using kq_nodes_remove [of q "take i as" "as ! i" "drop (Suc i) as"] as(1) split by metis
  have "node_values q (take i as @ drop (Suc i) as) = take i xs @ drop (Suc i) xs"
    using as(2) by (auto simp: node_values_def take_map drop_map)
  moreover have "hd_ptr (drop (Suc i) as) None =
      (if Suc i < length as then Some (as ! Suc i) else None)"
    by (simp add: Cons_nth_drop_Suc [symmetric])
  ultimately show ?thesis
    using q' len ps_zip i by (auto intro: kq_linksI)
qed

text \<open>
  Removing the element at position \<open>i\<close> of a queue through the iterator that points at
  it takes exactly this element out of the queue and returns the iterator of its successor,
  but \<open>remove\<close> does not decrement the length counter: \<open>get_length\<close> goes on reporting the
  length from before the removal.
\<close>

theorem remove_element_keeps_length:
  assumes "kq_rep q xs" and "iterate q = Some ps" and "i < length ps"
  shows "\<exists>q'. kqueue_remove (fst (ps ! i)) q =
             Some (if Suc i < length ps then Some (fst (ps ! Suc i)) else None, q') \<and>
           elements q' = Some (take i xs @ drop (Suc i) xs) \<and>
           kqueue_length q' = word_of_nat (length xs)"
  using kq_links_remove [of q xs ps i] assms
  by (auto simp: kq_rep_def kqueue_length_def dest: elements_links)

lemma kq_rep_two:
  "kq_rep (the (push_back y (the (push_back x kqueue_new)))) [x, y]"
proof -
  obtain q1 where q1: "push_back x kqueue_new = Some q1" "kq_rep q1 [x]"
    using kq.rep_pushb [OF kq.rep_init, of x] by auto
  with kq.rep_pushb [OF q1(2), of y] show ?thesis by auto
qed

theorem remove_element_keeps_length_witness:
  "\<exists>q'. kqueue_remove 0 (the (push_back 7 (the (push_back (5::nat) kqueue_new)))) = Some (Some 1, q') \<and>
     elements q' = Some [7] \<and> kqueue_length q' = 2"
proof -
  let ?q = "the (push_back 7 (the (push_back (5::nat) kqueue_new)))"
  have it: "iterate ?q = Some [(0, 5), (1, 7)]"
    by (simp add: iterate_def push_back_def kqueue_new_def new_obj_def empty_store_def
        modify_def iterate_from.simps)
  show ?thesis
    using remove_element_keeps_length [OF kq_rep_two it, of 0] by simp
qed

lemma clear_loop_seg:
  assumes "qseg (cells s) p as None" and "distinct as"
  shows "clear_loop s (hd_ptr as None) =
    Some (s\<lparr>cells := (\<lambda>a. if a \<in> set as then None else cells s a)\<rparr>)"
  using assms
proof (induction as arbitrary: s p)
  case Nil
  then show ?case by (simp add: clear_loop.simps)
next
  case (Cons a as)
  then obtain n where n: "cells s a = Some n" "node_next n = hd_ptr as None"
    by (auto split: option.splits)
  let ?s = "s\<lparr>cells := (cells s)(a := None)\<rparr>"
  have seg: "qseg (cells ?s) (Some a) as None" and "distinct as"
    using Cons.prems by (auto split: option.splits)
  moreover have "(\<lambda>x. if x \<in> set as then None else cells ?s x) =
      (\<lambda>x. if x \<in> set (a # as) then None else cells s x)"
    by auto
  ultimately have "clear_loop ?s (hd_ptr as None) =
      Some (s\<lparr>cells := (\<lambda>x. if x \<in> set (a # as) then None else cells s x)\<rparr>)"
    using Cons.IH [OF seg] by simp
  with n show ?case
    by (simp add: clear_loop.simps [of s "Some a"] store_simps)
qed

text \<open>
  \<open>clear\<close> on a queue that is not empty returns with every node of the queue deleted, but
  it leaves the front and back pointers, and the length counter, as they were: both now
  dangle, and each of the four push and pop operations on the cleared queue touches a deleted
  node.
\<close>

theorem clear_leaves_dangling_queue:
  assumes "kq_rep q (x # xs)"
  shows "\<exists>q'. kqueue_clear q = Some q' \<and> qfront q' = qfront q \<and> qback q' = qback q \<and>
           kqueue_length q' = word_of_nat (Suc (length xs)) \<and>
           push_front y q' = None \<and> push_back y q' = None \<and>
           pop_front q' = None \<and> pop_back q' = None"
proof -
  obtain as where as: "kq_nodes q as" "node_values q as = x # xs"
    using assms by (auto simp: kq_rep_def kq_links_def)
  define q' where
    "q' = q\<lparr>nodes := (nodes q)\<lparr>cells := \<lambda>a. if a \<in> set as then None else cells (nodes q) a\<rparr>\<rparr>"
  have cl: "kqueue_clear q = Some q'"
    using clear_loop_seg [of "nodes q" None as] as(1) by (simp add: kqueue_clear_def kq_nodes_def q'_def)
  have "as \<noteq> []"
    using as(2) by (auto simp: node_values_def)
  then obtain f b where fb: "qfront q' = Some f" "qback q' = Some b" "f \<in> set as" "b \<in> set as"
    using as(1) by (cases as) (auto simp: kq_nodes_def q'_def last_ptr_def)
  then have "f \<noteq> fresh (nodes q)" "b \<noteq> fresh (nodes q)"
    "cells (nodes q') f = None" "cells (nodes q') b = None" "fresh (nodes q') = fresh (nodes q)"
    using kq_nodes_fresh [OF as(1)] by (auto simp: q'_def)
  with fb have "push_front y q' = None" "push_back y q' = None"
    "pop_front q' = None" "pop_back q' = None"
    by (simp_all add: push_front_def push_back_def pop_front_def pop_back_def new_obj_def
        modify_def)
  moreover have "kqueue_length q' = word_of_nat (Suc (length xs))"
    using assms by (simp add: q'_def kq_rep_def kqueue_length_def)
  ultimately show ?thesis using cl by (auto simp: q'_def)
qed

theorem clear_leaves_dangling_queue_witness:
  "\<exists>q'. kqueue_clear (the (push_back 7 (the (push_back (5::nat) kqueue_new)))) = Some q' \<and>
     kqueue_length q' = 2 \<and> push_back 9 q' = None \<and> pop_front q' = None"
  using clear_leaves_dangling_queue [OF kq_rep_two [of 7 5], of 9] by auto

end
