(* ===== verification/Utils.thy ===== *)
theory Utils
  imports Prelude
begin

text \<open>
  The helpers of \<open>kernel/utils.cpp\<close> and the memory functions of
  \<open>kernel/cxx_support.cpp\<close>: bit masks, and C strings in byte buffers. A buffer is a list of
  cells; a cell that was never written has no value, and reading it is a fault, as is any
  access outside the buffer.
\<close>

unbundle bit_operations_syntax

section \<open>Bit masks\<close>

text \<open>The ARM instruction \<open>clz\<close>: the number of zero bits above the highest one.\<close>

primrec clz_below :: "nat \<Rightarrow> u32 \<Rightarrow> nat" where
  "clz_below 0 x = 0"
| "clz_below (Suc n) x = (if bit x n then 0 else Suc (clz_below n x))"

definition clz :: "u32 \<Rightarrow> nat" where
  "clz x = clz_below 32 x"

definition mask_left :: "u32 \<Rightarrow> u32" where
  "mask_left b =
     (let v1 = clz b;
          v2 = (NOT 0 :: u32);
          v1' = v1 + 1;
          v2' = drop_bit v1' v2
      in NOT v2')"

lemma clz_below_highest:
  "k < n \<Longrightarrow> bit x k \<Longrightarrow> (\<And>j. k < j \<Longrightarrow> j < n \<Longrightarrow> \<not> bit x j) \<Longrightarrow> clz_below n x = n - Suc k"
proof (induction n)
  case 0
  then show ?case by simp
next
  case (Suc n)
  show ?case
  proof (cases "k = n")
    case True
    with Suc.prems show ?thesis by simp
  next
    case False
    then have "k < n" using Suc.prems(1) by simp
    moreover have "\<not> bit x n" using Suc.prems(3) [of n] \<open>k < n\<close> by simp
    ultimately show ?thesis using Suc by (simp add: Suc_diff_Suc)
  qed
qed

lemma mask_left_highest:
  fixes b :: u32
  assumes k: "k < 32" and b: "bit b k" and above: "\<And>j. k < j \<Longrightarrow> j < 32 \<Longrightarrow> \<not> bit b j"
  shows "mask_left b = NOT (mask k)"
proof -
  have c: "clz b = 31 - k"
    using clz_below_highest [of k 32 b] assms by (simp add: clz_def)
  have "drop_bit (32 - k) (NOT 0 :: u32) = mask k"
    using k by (auto intro!: bit_word_eqI simp: bit_simps)
  moreover have "clz b + 1 = 32 - k"
    using c k by simp
  ultimately show ?thesis by (simp only: mask_left_def Let_def)
qed

lemma mask_left_pow2:
  assumes "k < 32"
  shows "mask_left (2 ^ k) = NOT (mask k)"
  using assms by (intro mask_left_highest) (auto simp: bit_simps)

lemma unat_and_mask: "unat (x AND mask k :: u32) = unat x mod 2 ^ k"
  by (simp flip: take_bit_eq_mask take_bit_eq_mod unsigned_take_bit_eq)

lemma unat_and_not_mask: "unat (x AND NOT (mask k) :: u32) = unat x - unat x mod 2 ^ k"
proof -
  have "x AND NOT (mask k) = x - (x AND mask k)"
    by (subst disjunctive_diff_eq_and_not) (auto simp: bit_eq_iff bit_simps)
  then show ?thesis
    using unat_sub [of "x AND mask k" x] by (simp add: unat_and_mask word_and_le2)
qed

text \<open>The two ways the code rounds an address to a multiple of a power of two.\<close>

lemma round_down: "k < 32 \<Longrightarrow> unat (x AND mask_left (2 ^ k)) = unat x - unat x mod 2 ^ k"
  by (simp add: mask_left_pow2 unat_and_not_mask)

lemma round_down_dvd: "k < 32 \<Longrightarrow> 2 ^ k dvd unat (x AND mask_left (2 ^ k))"
  by (simp add: round_down dvd_minus_mod)

lemma nat_round_up:
  fixes n m :: nat
  assumes "0 < m"
  defines "r \<equiv> n + (m - 1) - (n + (m - 1)) mod m"
  shows "n \<le> r" and "r < n + m" and "m dvd r"
proof -
  have "(n + (m - 1)) mod m < m" "(n + (m - 1)) mod m \<le> n + (m - 1)"
    using assms(1) by (auto intro: mod_less_divisor)
  then show "n \<le> r" "r < n + m"
    unfolding r_def using assms(1) by linarith+
  show "m dvd r"
    by (simp add: r_def dvd_minus_mod)
qed

lemma least_multiple:
  fixes n r m :: nat
  assumes "n \<le> r" and "r < n + m" and "m dvd r"
  shows "(LEAST j. n \<le> j \<and> m dvd j) = r"
proof (rule Least_equality)
  show "n \<le> r \<and> m dvd r" using assms by simp
next
  fix j assume j: "n \<le> j \<and> m dvd j"
  show "r \<le> j"
  proof (rule ccontr)
    assume "\<not> r \<le> j"
    then have "m \<le> r - j"
      using j assms(3) by (intro dvd_imp_le) (auto intro: dvd_diff_nat)
    with j assms(2) \<open>\<not> r \<le> j\<close> show False by linarith
  qed
qed

text \<open>
  For an alignment that is a power of two, \<open>mask_left\<close> keeps the bits from that bit
  upwards: \<open>(x + align - 1) & mask_left(align)\<close>, the rounding used by the memory manager and
  the process loader, is the least multiple of the alignment that is at least \<open>x\<close>, as long as
  the sum does not wrap around.
\<close>

theorem mask_left_rounds_up:
  assumes "k < 32" and "unat x + 2 ^ k \<le> 2 ^ 32"
  shows "unat ((x + 2 ^ k - 1) AND mask_left (2 ^ k)) =
    (LEAST m. unat x \<le> m \<and> 2 ^ k dvd m)"
proof -
  let ?r = "unat x + (2 ^ k - 1) - (unat x + (2 ^ k - 1)) mod 2 ^ k"
  have "x + 2 ^ k - 1 = word_of_nat (unat x + (2 ^ k - 1))"
    by (subst of_nat_add) (simp add: of_nat_diff)
  moreover have "unat x + (2 ^ k - 1) < 2 ^ 32"
    using assms(2) by (simp add: less_le_trans)
  ultimately have "unat ((x + 2 ^ k - 1) AND mask_left (2 ^ k)) = ?r"
    using assms(1) by (simp add: round_down unat_word_of_nat_small)
  moreover have "(LEAST m. unat x \<le> m \<and> 2 ^ k dvd m) = ?r"
    by (rule least_multiple) (use nat_round_up [of "2 ^ k" "unat x"] in simp_all)
  ultimately show ?thesis by simp
qed

theorem mask_left_rounds_up_witness:
  "unat ((0x8001 + 2 ^ 12 - 1 :: u32) AND mask_left (2 ^ 12)) =
     (LEAST m. unat (0x8001 :: u32) \<le> m \<and> 2 ^ 12 dvd m) \<and>
   (0x8001 + 2 ^ 12 - 1 :: u32) AND mask_left (2 ^ 12) = 0x9000"
  using mask_left_rounds_up [of 12 "0x8001"] mask_left_pow2 [of 12] by (simp add: mask_eq_decr_exp)

section \<open>Buffers\<close>

type_synonym cbuf = "u8 option list"

definition rd :: "cbuf \<Rightarrow> nat \<Rightarrow> u8 option" where
  "rd b i = (if i < length b then b ! i else None)"

definition wr :: "cbuf \<Rightarrow> nat \<Rightarrow> u8 \<Rightarrow> cbuf option" where
  "wr b i c = (if i < length b then Some (b[i := Some c]) else None)"

text \<open>A fresh array of characters, not yet written.\<close>

definition new_chars :: "nat \<Rightarrow> cbuf" where
  "new_chars n = replicate n None"

text \<open>The buffer of a C string constant, and its text from an ASCII literal.\<close>

definition cstr :: "bytes \<Rightarrow> cbuf" where
  "cstr xs = map Some (xs @ [0])"

definition ascii :: "string \<Rightarrow> bytes" where
  "ascii s = map of_char s"

function strlen_loop :: "cbuf \<Rightarrow> nat \<Rightarrow> nat option" where
  "strlen_loop b count =
     (case rd b count of
        None \<Rightarrow> None
      | Some c \<Rightarrow> if c \<noteq> 0 then strlen_loop b (count + 1) else Some count)"
  by pat_completeness auto
termination
  by (relation "measure (\<lambda>(b, count). length b - count)") (auto simp: rd_def split: if_splits)

declare strlen_loop.simps [simp del]

definition strlen :: "cbuf \<Rightarrow> nat option" where
  "strlen b = strlen_loop b 0"

text \<open>
  \<open>strcpy\<close> and \<open>strcat\<close>: both loops ask for the length of the source again in every
  iteration; the buffers do not overlap.
\<close>

function copy_loop :: "nat \<Rightarrow> cbuf \<Rightarrow> nat \<Rightarrow> cbuf \<Rightarrow> cbuf option" where
  "copy_loop offset dest i source =
     (case strlen source of
        None \<Rightarrow> None
      | Some l \<Rightarrow>
          if i < l + 1 then do {
            c \<leftarrow> rd source i;
            dest' \<leftarrow> wr dest (offset + i) c;
            copy_loop offset dest' (i + 1) source }
          else Some dest)"
  by pat_completeness auto
termination
  by (relation "measure (\<lambda>(offset, dest, i, source). length source - i)")
    (auto simp: rd_def split: if_splits)

declare copy_loop.simps [simp del]

definition strcpy :: "cbuf \<Rightarrow> cbuf \<Rightarrow> cbuf option" where
  "strcpy dest source = copy_loop 0 dest 0 source"

definition strcat :: "cbuf \<Rightarrow> cbuf \<Rightarrow> cbuf option" where
  "strcat dest source = do { offset \<leftarrow> strlen dest; copy_loop offset dest 0 source }"

definition strdup :: "cbuf \<Rightarrow> cbuf option" where
  "strdup source = do { l \<leftarrow> strlen source; strcpy (new_chars (l + 1)) source }"

text \<open>The two functions the compiler calls for copies and initialisations.\<close>

primrec memcpy_loop :: "nat \<Rightarrow> nat \<Rightarrow> cbuf \<Rightarrow> cbuf \<Rightarrow> cbuf option" where
  "memcpy_loop 0 i dest src = Some dest"
| "memcpy_loop (Suc n) i dest src = do {
     c \<leftarrow> rd src i;
     dest' \<leftarrow> wr dest i c;
     memcpy_loop n (i + 1) dest' src }"

definition memcpy :: "cbuf \<Rightarrow> cbuf \<Rightarrow> nat \<Rightarrow> cbuf option" where
  "memcpy dest src n = memcpy_loop n 0 dest src"

primrec memset_loop :: "nat \<Rightarrow> nat \<Rightarrow> cbuf \<Rightarrow> u8 \<Rightarrow> cbuf option" where
  "memset_loop 0 i d c = Some d"
| "memset_loop (Suc n) i d c = do { d' \<leftarrow> wr d i c; memset_loop n (i + 1) d' c }"

definition memset :: "cbuf \<Rightarrow> u8 \<Rightarrow> nat \<Rightarrow> cbuf option" where
  "memset d c n = memset_loop n 0 d c"

section \<open>C strings\<close>

lemma rd_append:
  "rd (as @ bs) i = (if i < length as then rd as i else rd bs (i - length as))"
  by (auto simp: rd_def nth_append)

lemma rd_map_Some: "rd (map Some xs) i = (if i < length xs then Some (xs ! i) else None)"
  by (simp add: rd_def)

lemma strlen_loop_prefix:
  assumes "0 \<notin> set xs" and "i \<le> length xs"
  shows "strlen_loop (map Some xs @ Some 0 # rest) i = Some (length xs)"
  using assms(2)
proof (induction "length xs - i" arbitrary: i)
  case 0
  then have "i = length xs" by simp
  then show ?case
    by (subst strlen_loop.simps) (simp add: rd_def nth_append)
next
  case (Suc n)
  then have i: "i < length xs" by simp
  then have "xs ! i \<noteq> 0"
    using assms(1) nth_mem by fastforce
  with i Suc.hyps show ?case
    by (subst strlen_loop.simps) (simp add: rd_append rd_map_Some)
qed

lemma strlen_prefix:
  "0 \<notin> set xs \<Longrightarrow> strlen (map Some xs @ Some 0 # rest) = Some (length xs)"
  by (simp add: strlen_def strlen_loop_prefix)

lemma strlen_cstr [simp]: "0 \<notin> set xs \<Longrightarrow> strlen (cstr xs) = Some (length xs)"
  using strlen_prefix [of xs "[]"] by (simp add: cstr_def)

lemma copy_loop_cstr:
  assumes "0 \<notin> set ys" and "i \<le> Suc (length ys)"
    and "length tail = Suc (length ys) - i"
  shows "copy_loop (length pre) (pre @ take i (cstr ys) @ tail @ rest) i (cstr ys) =
    Some (pre @ cstr ys @ rest)"
  using assms(2,3)
proof (induction "Suc (length ys) - i" arbitrary: i tail)
  case 0
  then have "i = Suc (length ys)" "tail = []" by simp_all
  then show ?case
    using assms(1) by (subst copy_loop.simps) (simp, simp add: cstr_def)
next
  case (Suc n)
  then have i: "i < Suc (length ys)" by simp
  obtain t ts where tail: "tail = t # ts"
    using Suc by (cases tail) auto
  let ?c = "(ys @ [0]) ! i"
  have rdc: "rd (cstr ys) i = Some ?c"
    using i by (simp add: cstr_def rd_map_Some del: map_append)
  have w: "wr (pre @ take i (cstr ys) @ tail @ rest) (length pre + i) ?c =
      Some (pre @ take (Suc i) (cstr ys) @ ts @ rest)"
    using i by (simp add: wr_def tail cstr_def list_update_append take_Suc_conv_app_nth
        del: map_append)
  have "copy_loop (length pre) (pre @ take (Suc i) (cstr ys) @ ts @ rest) (Suc i) (cstr ys) =
      Some (pre @ cstr ys @ rest)"
    using Suc.hyps(1) [of "Suc i" ts] Suc.hyps(2) Suc.prems i tail by simp
  then show ?case
    using assms(1) i rdc w by (subst copy_loop.simps) simp
qed

lemma strcpy_cstr:
  assumes "0 \<notin> set ys" and "length ys < length d"
  shows "strcpy d (cstr ys) = Some (cstr ys @ drop (Suc (length ys)) d)"
  using copy_loop_cstr [of ys 0 "take (Suc (length ys)) d" "[]" "drop (Suc (length ys)) d"] assms
  by (simp add: strcpy_def)

lemma strcat_cstr:
  assumes "0 \<notin> set xs" and "0 \<notin> set ys" and "length ys \<le> length rest"
  shows "strcat (map Some xs @ Some 0 # rest) (cstr ys) =
    Some (cstr (xs @ ys) @ drop (length ys) rest)"
proof -
  have "strcat (map Some xs @ Some 0 # rest) (cstr ys) =
      copy_loop (length xs) (map Some xs @ Some 0 # rest) 0 (cstr ys)"
    using assms by (simp add: strcat_def strlen_prefix)
  also have "\<dots> = Some (map Some xs @ cstr ys @ drop (length ys) rest)"
    using copy_loop_cstr [of ys 0 "Some 0 # take (length ys) rest" "map Some xs"
        "drop (length ys) rest"] assms by simp
  finally show ?thesis by (simp add: cstr_def)
qed

lemma strdup_cstr [simp]: "0 \<notin> set xs \<Longrightarrow> strdup (cstr xs) = Some (cstr xs)"
  by (simp add: strdup_def strcpy_cstr new_chars_def)

lemma memcpy_loop_full:
  assumes "length d = length xs" and "length p' = length p"
  shows "memcpy_loop (length d) (length p) (p @ d) (p' @ map Some xs) = Some (p @ map Some xs)"
  using assms
proof (induction d arbitrary: xs p p')
  case Nil
  then show ?case by simp
next
  case (Cons c d)
  then obtain x ys where xs: "xs = x # ys" by (cases xs) auto
  with Cons.IH [of ys "p' @ [Some x]" "p @ [Some x]"] Cons.prems show ?case
    by (simp add: rd_append rd_def wr_def list_update_append nth_append)
qed

lemma memcpy_full:
  "length d = length xs \<Longrightarrow> memcpy d (map Some xs) (length xs) = Some (map Some xs)"
  using memcpy_loop_full [of d xs "[]" "[]"] by (simp add: memcpy_def)

end
