(* ===== verification/Kstring.thy ===== *)
theory Kstring
  imports Utils
begin

text \<open>
  The string class of \<open>kernel/kstring.h\<close> and \<open>kernel/kstring.cpp\<close>. A string owns a
  buffer, the model keeps it cell by cell as the code allocates and writes it. \<open>kstr xs\<close>
  is the string object whose text is \<open>xs\<close>; the lemmas state what every operation does
  to such objects, the search \<open>rindex\<close> and its clients \<open>dirname\<close> and \<open>filename\<close>
  included.
\<close>

section \<open>The operations\<close>

record kstring =
  buffer :: cbuf

definition npos :: int where
  "npos = -1"

definition kstring_length :: "kstring \<Rightarrow> nat option" where
  "kstring_length s = strlen (buffer s)"

definition kstring_is_empty :: "kstring \<Rightarrow> bool option" where
  "kstring_is_empty s = map_option (\<lambda>l. l = 0) (kstring_length s)"

text \<open>Indexing takes an \<open>int\<close>; a negative kstring_index is outside the buffer.\<close>

definition char_at :: "kstring \<Rightarrow> int \<Rightarrow> u8 option" where
  "char_at s n = (if n < 0 then None else rd (buffer s) (nat n))"

text \<open>The constructors: from a C string, as a copy, the empty string, and a part of another.\<close>

definition kstring_c :: "cbuf \<Rightarrow> kstring option" where
  "kstring_c string = map_option (\<lambda>b. \<lparr>buffer = b\<rparr>) (strdup string)"

definition kstring_copy :: "kstring \<Rightarrow> kstring option" where
  "kstring_copy string = map_option (\<lambda>b. \<lparr>buffer = b\<rparr>) (strdup (buffer string))"

definition kstring_new :: "kstring option" where
  "kstring_new = map_option (\<lambda>b. \<lparr>buffer = b\<rparr>) (wr (new_chars 1) 0 0)"

primrec substring_loop :: "nat \<Rightarrow> nat \<Rightarrow> kstring \<Rightarrow> int \<Rightarrow> cbuf \<Rightarrow> cbuf option" where
  "substring_loop 0 i string start_offset b = Some b"
| "substring_loop (Suc n) i string start_offset b = do {
     c \<leftarrow> char_at string (start_offset + int i);
     b' \<leftarrow> wr b i c;
     substring_loop n (i + 1) string start_offset b' }"

definition substring :: "kstring \<Rightarrow> int \<Rightarrow> int \<Rightarrow> kstring option" where
  "substring string start_offset end_offset = do {
     len \<leftarrow> kstring_length string;
     let n = (if start_offset + end_offset > int len then int len - start_offset
              else end_offset - start_offset);
     if n < 0 then None else do {
       b \<leftarrow> substring_loop (nat n) 0 string start_offset (new_chars (nat n + 1));
       b' \<leftarrow> wr b (nat n) 0;
       Some \<lparr>buffer = b'\<rparr> } }"

definition kstring_clear :: "kstring \<Rightarrow> kstring option" where
  "kstring_clear s = map_option (\<lambda>b. s\<lparr>buffer := b\<rparr>) (wr (new_chars 1) 0 0)"

definition kstring_append_c :: "kstring \<Rightarrow> cbuf \<Rightarrow> kstring option" where
  "kstring_append_c s string = do {
     l \<leftarrow> strlen string;
     if l = 0 then Some s
     else do {
       bl \<leftarrow> strlen (buffer s);
       b1 \<leftarrow> strcpy (new_chars (bl + l + 1)) (buffer s);
       b2 \<leftarrow> strcat b1 string;
       Some (s\<lparr>buffer := b2\<rparr>) } }"

definition kstring_append :: "kstring \<Rightarrow> kstring \<Rightarrow> kstring option" where
  "kstring_append s string = kstring_append_c s (buffer string)"

definition kstring_prepend_c :: "kstring \<Rightarrow> cbuf \<Rightarrow> kstring option" where
  "kstring_prepend_c s string = do {
     l \<leftarrow> strlen string;
     if l = 0 then Some s
     else do {
       bl \<leftarrow> strlen (buffer s);
       b1 \<leftarrow> strcpy (new_chars (bl + l + 1)) string;
       b2 \<leftarrow> strcat b1 (buffer s);
       Some (s\<lparr>buffer := b2\<rparr>) } }"

definition kstring_prepend :: "kstring \<Rightarrow> kstring \<Rightarrow> kstring option" where
  "kstring_prepend s string = kstring_prepend_c s (buffer string)"

definition kstring_append_char :: "kstring \<Rightarrow> u8 \<Rightarrow> kstring option" where
  "kstring_append_char s c = kstring_append_c s [Some c, Some 0]"

text \<open>The two case conversions run the same loop with another character function.\<close>

definition lower_char :: "u8 \<Rightarrow> u8" where
  "lower_char c = (if 0x41 \<le> c \<and> c \<le> 0x5a then (c - 0x41) + 0x61 else c)"

definition upper_char :: "u8 \<Rightarrow> u8" where
  "upper_char c = (if 0x61 \<le> c \<and> c \<le> 0x7a then (c - 0x61) + 0x41 else c)"

partial_function (option) case_loop :: "(u8 \<Rightarrow> u8) \<Rightarrow> nat \<Rightarrow> cbuf \<Rightarrow> cbuf option" where
  "case_loop f i b = do {
     len \<leftarrow> strlen b;
     if i < len then do {
       c \<leftarrow> rd b i;
       b' \<leftarrow> wr b i (f c);
       case_loop f (i + 1) b' }
     else Some b }"

definition tolower :: "kstring \<Rightarrow> kstring option" where
  "tolower s = map_option (\<lambda>b. s\<lparr>buffer := b\<rparr>) (case_loop lower_char 0 (buffer s))"

definition toupper :: "kstring \<Rightarrow> kstring option" where
  "toupper s = map_option (\<lambda>b. s\<lparr>buffer := b\<rparr>) (case_loop upper_char 0 (buffer s))"

text \<open>\<open>index\<close> scans upwards, \<open>rindex\<close> downwards with an unsigned counter.\<close>

function index_loop :: "cbuf \<Rightarrow> u8 \<Rightarrow> nat \<Rightarrow> int option" where
  "index_loop b c i =
     (case strlen b of
        None \<Rightarrow> None
      | Some len \<Rightarrow>
          if i < len then
            (case rd b i of
               None \<Rightarrow> None
             | Some d \<Rightarrow> if d = c then Some (int i) else index_loop b c (i + 1))
          else Some npos)"
  by pat_completeness auto
termination
  by (relation "measure (\<lambda>(b, c, i). length b - i)") (auto simp: rd_def split: if_splits)

declare index_loop.simps [simp del]

definition kstring_index :: "kstring \<Rightarrow> u8 \<Rightarrow> int option" where
  "kstring_index s c = index_loop (buffer s) c 0"

partial_function (option) rindex_loop :: "cbuf \<Rightarrow> u8 \<Rightarrow> u32 \<Rightarrow> int option" where
  "rindex_loop b c i =
     (if i \<ge> 0 then do {
        d \<leftarrow> rd b (unat i);
        if d = c then Some (sint i) else rindex_loop b c (i - 1) }
      else Some npos)"

definition kstring_rindex :: "kstring \<Rightarrow> u8 \<Rightarrow> int option" where
  "kstring_rindex s c = do { len \<leftarrow> kstring_length s; rindex_loop (buffer s) c (word_of_nat len) }"

definition slash :: u8 where
  "slash = 0x2f"

definition dirname :: "kstring \<Rightarrow> kstring option" where
  "dirname s = do {
     last_slash \<leftarrow> kstring_rindex s slash;
     if last_slash = npos then kstring_c (cstr []) else substring s 0 last_slash }"

definition filename :: "kstring \<Rightarrow> kstring option" where
  "filename s = do {
     last_slash \<leftarrow> kstring_rindex s slash;
     if last_slash = npos then kstring_c (cstr [])
     else kstring_c (drop (nat (last_slash + 1)) (buffer s)) }"

definition kstring_assign_c :: "kstring \<Rightarrow> cbuf \<Rightarrow> kstring option" where
  "kstring_assign_c s string = map_option (\<lambda>b. s\<lparr>buffer := b\<rparr>) (strdup string)"

definition kstring_assign :: "kstring \<Rightarrow> kstring \<Rightarrow> kstring option" where
  "kstring_assign s string = kstring_assign_c s (buffer string)"

primrec equal_loop :: "nat \<Rightarrow> nat \<Rightarrow> cbuf \<Rightarrow> cbuf \<Rightarrow> bool option" where
  "equal_loop 0 i a b = Some True"
| "equal_loop (Suc n) i a b = do {
     c \<leftarrow> rd a i;
     d \<leftarrow> rd b i;
     if c \<noteq> d then Some False else equal_loop n (i + 1) a b }"

definition kstring_equals :: "kstring \<Rightarrow> kstring \<Rightarrow> bool option" where
  "kstring_equals s string = do {
     l1 \<leftarrow> kstring_length string;
     l2 \<leftarrow> kstring_length s;
     if l1 \<noteq> l2 then Some False else equal_loop l2 0 (buffer string) (buffer s) }"

definition kstring_not_equals :: "kstring \<Rightarrow> kstring \<Rightarrow> bool option" where
  "kstring_not_equals s string = map_option Not (kstring_equals s string)"

section \<open>The text of a string object\<close>

definition kstr :: "bytes \<Rightarrow> kstring" where
  "kstr xs = \<lparr>buffer = cstr xs\<rparr>"

definition text_ok :: "bytes \<Rightarrow> bool" where
  "text_ok xs \<longleftrightarrow> 0 \<notin> set xs \<and> length xs < 2 ^ 31"

named_theorems kstr_simps \<open>operations on string objects with a known text\<close>

lemma buffer_kstr [simp]: "buffer (kstr xs) = cstr xs"
  by (simp add: kstr_def)

lemma kstr_inject [simp]: "kstr xs = kstr ys \<longleftrightarrow> xs = ys"
  by (auto simp: kstr_def cstr_def dest: map_injective [OF _ inj_Some])

lemma text_ok_simps [simp]:
  "text_ok []"
  "text_ok xs \<Longrightarrow> text_ok (take n xs)" "text_ok xs \<Longrightarrow> text_ok (drop n xs)"
  by (auto simp: text_ok_def dest: in_set_takeD in_set_dropD)

lemma text_ok_zero: "text_ok xs \<Longrightarrow> 0 \<notin> set xs"
  by (simp add: text_ok_def)

lemma kstring_length_kstr [kstr_simps]: "text_ok xs \<Longrightarrow> kstring_length (kstr xs) = Some (length xs)"
  by (simp add: kstring_length_def text_ok_def)

lemma kstring_is_empty_kstr [kstr_simps]: "text_ok xs \<Longrightarrow> kstring_is_empty (kstr xs) = Some (xs = [])"
  by (simp add: kstring_is_empty_def kstring_length_kstr)

lemma kstring_c_kstr [kstr_simps]: "text_ok xs \<Longrightarrow> kstring_c (cstr xs) = Some (kstr xs)"
  by (simp add: kstring_c_def kstr_def text_ok_def)

lemma kstring_copy_kstr [kstr_simps]: "text_ok xs \<Longrightarrow> kstring_copy (kstr xs) = Some (kstr xs)"
  by (simp add: kstring_copy_def kstr_def text_ok_def)

lemma kstring_new_kstr [kstr_simps]: "kstring_new = Some (kstr [])"
  by (simp add: kstring_new_def kstr_def cstr_def new_chars_def wr_def)

lemma kstring_clear_kstr [kstr_simps]: "kstring_clear s = Some (kstr [])"
  by (simp add: kstring_clear_def kstr_def cstr_def new_chars_def wr_def)

lemma kstring_assign_c_kstr [kstr_simps]: "text_ok xs \<Longrightarrow> kstring_assign_c s (cstr xs) = Some (kstr xs)"
  by (simp add: kstring_assign_c_def kstr_def text_ok_def)

lemma kstring_assign_kstr [kstr_simps]: "text_ok xs \<Longrightarrow> kstring_assign s (kstr xs) = Some (kstr xs)"
  by (simp add: kstring_assign_def kstring_assign_c_kstr)

lemma kstring_append_c_kstr [kstr_simps]:
  assumes "text_ok xs" and "text_ok ys"
  shows "kstring_append_c (kstr xs) (cstr ys) = Some (kstr (xs @ ys))"
proof (cases "ys = []")
  case True
  with assms show ?thesis by (simp add: kstring_append_c_def text_ok_def)
next
  case False
  have "strcpy (new_chars (length xs + length ys + 1)) (cstr xs) =
      Some (map Some xs @ Some 0 # replicate (length ys) None)"
    using assms by (simp add: strcpy_cstr text_ok_def new_chars_def) (simp add: cstr_def)
  moreover have "strcat (map Some xs @ Some 0 # replicate (length ys) None) (cstr ys) =
      Some (cstr (xs @ ys))"
    using assms by (subst strcat_cstr) (auto simp: text_ok_def)
  ultimately show ?thesis
    using False assms by (simp add: kstring_append_c_def text_ok_def kstr_def)
qed

lemma kstring_append_kstr [kstr_simps]:
  "text_ok xs \<Longrightarrow> text_ok ys \<Longrightarrow> kstring_append (kstr xs) (kstr ys) = Some (kstr (xs @ ys))"
  by (simp add: kstring_append_def kstring_append_c_kstr)

lemma kstring_prepend_c_kstr [kstr_simps]:
  assumes "text_ok xs" and "text_ok ys"
  shows "kstring_prepend_c (kstr xs) (cstr ys) = Some (kstr (ys @ xs))"
proof (cases "ys = []")
  case True
  with assms show ?thesis by (simp add: kstring_prepend_c_def text_ok_def)
next
  case False
  have "strcpy (new_chars (length xs + length ys + 1)) (cstr ys) =
      Some (map Some ys @ Some 0 # replicate (length xs) None)"
    using assms by (simp add: strcpy_cstr text_ok_def new_chars_def) (simp add: cstr_def)
  moreover have "strcat (map Some ys @ Some 0 # replicate (length xs) None) (cstr xs) =
      Some (cstr (ys @ xs))"
    using assms by (subst strcat_cstr) (auto simp: text_ok_def)
  ultimately show ?thesis
    using False assms by (simp add: kstring_prepend_c_def text_ok_def kstr_def)
qed

lemma kstring_append_char_kstr [kstr_simps]:
  assumes "text_ok xs" and "c \<noteq> 0"
  shows "kstring_append_char (kstr xs) c = Some (kstr (xs @ [c]))"
proof -
  have "[Some c, Some 0] = cstr [c]" by (simp add: cstr_def)
  with kstring_append_c_kstr [of xs "[c]"] assms show ?thesis
    by (simp add: kstring_append_char_def text_ok_def)
qed

lemma char_at_kstr:
  "char_at (kstr xs) n =
     (if n < 0 then None else if nat n < length xs then Some (xs ! nat n)
      else if nat n = length xs then Some 0 else None)"
  by (auto simp: char_at_def cstr_def rd_def nth_append)

section \<open>Substrings\<close>

lemma substring_loop_kstr:
  assumes "start + n \<le> length xs" and "i \<le> n"
  shows "substring_loop (n - i) i (kstr xs) (int start)
      (map Some (take i (drop start xs)) @ replicate (n - i) None @ rest) =
    Some (map Some (take n (drop start xs)) @ rest)"
  using assms(2)
proof (induction "n - i" arbitrary: i)
  case 0
  then show ?case by simp
next
  case (Suc m)
  then have i: "i < n" and m: "n - i = Suc (n - Suc i)" "m = n - Suc i" by auto
  have c: "char_at (kstr xs) (int start + int i) = Some (xs ! (start + i))"
    using i assms(1) by (simp add: char_at_kstr nat_add_distrib)
  have w: "wr (map Some (take i (drop start xs)) @ replicate (n - i) None @ rest) i
        (xs ! (start + i)) =
      Some (map Some (take (Suc i) (drop start xs)) @ replicate (n - Suc i) None @ rest)"
    using i assms(1) m
    by (simp add: wr_def list_update_append take_Suc_conv_app_nth)
  show ?case
    using Suc.hyps(1) [of "Suc i"] m i c w by simp
qed

lemma substring_kstr:
  assumes "text_ok xs" and "start + n \<le> length xs"
    and "(if int start + e > int (length xs) then int (length xs) - int start
         else e - int start) = int n"
  shows "substring (kstr xs) (int start) e = Some (kstr (take n (drop start xs)))"
proof -
  have "substring_loop n 0 (kstr xs) (int start) (new_chars (n + 1)) =
      Some (map Some (take n (drop start xs)) @ [None])"
    using substring_loop_kstr [of start n xs 0 "[None]"] assms(2)
    by (simp add: new_chars_def replicate_append_same)
  moreover have "wr (map Some (take n (drop start xs)) @ [None]) n 0 =
      Some (cstr (take n (drop start xs)))"
    using assms(2) by (simp add: wr_def cstr_def list_update_append)
  ultimately show ?thesis
    by (simp add: substring_def kstring_length_kstr [OF assms(1)] assms(3) kstr_def [symmetric])
qed

lemma substring_prefix [kstr_simps]:
  assumes "text_ok xs" and "0 \<le> e"
  shows "substring (kstr xs) 0 e = Some (kstr (take (nat e) xs))"
proof (cases "nat e \<le> length xs")
  case True
  with substring_kstr [of xs 0 "nat e" e] assms show ?thesis by simp
next
  case False
  then have "int (length xs) < e" by simp
  with substring_kstr [of xs 0 "length xs" e] assms show ?thesis by simp
qed

lemma substring_suffix [kstr_simps]:
  "text_ok xs \<Longrightarrow> n \<le> length xs \<Longrightarrow>
   substring (kstr xs) (int n) (int (length xs)) = Some (kstr (drop n xs))"
  using substring_kstr [of xs n "length xs - n" "int (length xs)"]
  by (cases "n = 0") auto

text \<open>
  Which characters the substring constructor copies. For offsets \<open>a \<le> e\<close> inside the
  text the result is the requested range \<open>[a, e)\<close> when \<open>a + e\<close> is at most the length, and
  everything from \<open>a\<close> on otherwise: the bounds test of the code adds the two offsets, where
  only the end offset should count.
\<close>

theorem substring_range:
  assumes "text_ok xs" and "a \<le> e" and "e \<le> length xs"
  shows "substring (kstr xs) (int a) (int e) =
    Some (kstr (if a + e \<le> length xs then take (e - a) (drop a xs) else drop a xs))"
  using assms substring_kstr [of xs a "if a + e \<le> length xs then e - a else length xs - a" "int e"]
  by (auto split: if_splits)

theorem substring_range_witness:
  "substring (kstr (ascii ''abcdef'')) 2 5 = Some (kstr (ascii ''cdef'')) \<and>
   substring (kstr (ascii ''abcdef'')) 1 4 = Some (kstr (ascii ''bcd''))"
  using substring_range [of "ascii ''abcdef''" 2 5] substring_range [of "ascii ''abcdef''" 1 4]
  by (simp add: ascii_def text_ok_def)

section \<open>Searching\<close>

lemma index_loop_kstr:
  assumes "text_ok xs" and "i \<le> length xs"
  shows "index_loop (cstr xs) c i =
    Some (if c \<in> set (drop i xs) then int (i + length (takeWhile (\<lambda>d. d \<noteq> c) (drop i xs)))
      else npos)"
  using assms(2)
proof (induction "length xs - i" arbitrary: i)
  case 0
  then have "i = length xs" by simp
  then show ?case
    using assms(1) by (subst index_loop.simps) (simp add: text_ok_def)
next
  case (Suc n)
  then have i: "i < length xs" by simp
  have r: "rd (cstr xs) i = Some (xs ! i)"
    using i by (simp add: cstr_def rd_def nth_append)
  have IH: "index_loop (cstr xs) c (Suc i) =
    Some (if c \<in> set (drop (Suc i) xs)
      then int (Suc i + length (takeWhile (\<lambda>d. d \<noteq> c) (drop (Suc i) xs))) else npos)"
    using Suc by simp
  show ?case
    using assms(1) i r IH
    by (subst index_loop.simps) (simp add: text_ok_def Cons_nth_drop_Suc [symmetric])
qed

lemma kstring_index_kstr [kstr_simps]:
  "text_ok xs \<Longrightarrow> kstring_index (kstr xs) c =
    Some (if c \<in> set xs then int (length (takeWhile (\<lambda>d. d \<noteq> c) xs)) else npos)"
  using index_loop_kstr [of xs 0 c] by (simp add: kstring_index_def)

lemma sint_small: "n < 2 ^ 31 \<Longrightarrow> sint (word_of_nat n :: u32) = int n"
  by (simp add: signed_of_nat signed_take_bit_int_eq_self)

lemma rindex_loop_found:
  assumes "text_ok (d @ c # f)" and "c \<notin> set f" and "k \<le> Suc (length f)"
  shows "rindex_loop (cstr (d @ c # f)) c (word_of_nat (length d + k)) = Some (int (length d))"
  using assms(3)
proof (induction k)
  case 0
  have "unat (word_of_nat (length d) :: u32) = length d"
    using assms(1) by (intro unat_word_of_nat_small) (simp add: text_ok_def)
  then show ?case
    using assms(1)
    by (subst rindex_loop.simps) (simp add: cstr_def rd_def nth_append sint_small text_ok_def)
next
  case (Suc k)
  have "unat (word_of_nat (length d + Suc k) :: u32) = length d + Suc k"
    using assms(1) Suc.prems by (intro unat_word_of_nat_small) (simp add: text_ok_def)
  moreover have "rd (cstr (d @ c # f)) (length d + Suc k) =
      Some (if k < length f then f ! k else 0)"
    using Suc.prems by (auto simp: cstr_def rd_def nth_append)
  moreover have "(if k < length f then f ! k else 0) \<noteq> c"
    using assms by (auto simp: text_ok_def)
  moreover have "(word_of_nat (length d + Suc k) :: u32) - 1 = word_of_nat (length d + k)"
    by simp
  ultimately show ?case
    using Suc by (subst rindex_loop.simps) (simp del: of_nat_add of_nat_Suc)
qed

lemma kstring_rindex_found [kstr_simps]:
  assumes "text_ok (d @ c # f)" and "c \<notin> set f"
  shows "kstring_rindex (kstr (d @ c # f)) c = Some (int (length d))"
  using rindex_loop_found [of d c f "Suc (length f)"] assms
  by (simp add: kstring_rindex_def kstring_length_kstr)

text \<open>
  Without an occurrence the counter of \<open>rindex\<close> runs past zero: it is unsigned, so the loop
  condition holds for ever, and the next access is 4 gigabytes behind the buffer.
\<close>

lemma rindex_loop_missing:
  assumes "text_ok xs" and "c \<notin> set xs" and "c \<noteq> 0" and "k \<le> length xs"
  shows "rindex_loop (cstr xs) c (word_of_nat k) = None"
  using assms(4)
proof (induction k)
  case 0
  have "rd (cstr xs) 0 = Some (if xs = [] then 0 else xs ! 0)"
    by (cases xs) (simp_all add: cstr_def rd_def)
  moreover have "(if xs = [] then 0 else xs ! 0) \<noteq> c"
    using assms by (auto simp: neq_Nil_conv)
  moreover have "rindex_loop (cstr xs) c (- 1) = None"
    using assms(1) by (subst rindex_loop.simps)
      (simp add: rd_def cstr_def text_ok_def unsigned_minus_1_eq_mask mask_eq_exp_minus_1)
  ultimately show ?case by (subst rindex_loop.simps) simp
next
  case (Suc k)
  have "unat (word_of_nat (Suc k) :: u32) = Suc k"
    using assms(1) Suc.prems by (intro unat_word_of_nat_small) (simp add: text_ok_def)
  moreover have "rd (cstr xs) (Suc k) = Some (if Suc k < length xs then xs ! Suc k else 0)"
    using Suc.prems by (auto simp: cstr_def rd_def nth_append)
  moreover have "(if Suc k < length xs then xs ! Suc k else 0) \<noteq> c"
    using assms by auto
  moreover have "(word_of_nat (Suc k) :: u32) - 1 = word_of_nat k"
    by simp
  ultimately show ?case
    using Suc by (subst rindex_loop.simps) (simp del: of_nat_Suc)
qed

lemma kstring_rindex_missing:
  "text_ok xs \<Longrightarrow> c \<notin> set xs \<Longrightarrow> c \<noteq> 0 \<Longrightarrow> kstring_rindex (kstr xs) c = None"
  by (simp add: kstring_rindex_def kstring_length_kstr rindex_loop_missing)

section \<open>Paths\<close>

lemma split_last_unique:
  assumes "d @ x # f = d' @ x # f'" and "x \<notin> set f" and "x \<notin> set f'"
  shows "d = d' \<and> f = f'"
proof -
  have "rev f @ x # rev d = rev f' @ x # rev d'"
    using arg_cong [OF assms(1), of rev] by simp
  from arg_cong [OF this, of "takeWhile (\<lambda>y. y \<noteq> x)"] have "f = f'"
    using assms(2,3) by (auto simp: takeWhile_append split: if_splits)
  with assms(1) show ?thesis by simp
qed

lemma dirname_kstr [kstr_simps]:
  assumes "text_ok (d @ slash # f)" and "slash \<notin> set f"
  shows "dirname (kstr (d @ slash # f)) = Some (kstr d)"
  using kstring_rindex_found [OF assms] substring_prefix [OF assms(1), of "int (length d)"]
  by (simp add: dirname_def npos_def)

lemma filename_kstr [kstr_simps]:
  assumes "text_ok (d @ slash # f)" and "slash \<notin> set f"
  shows "filename (kstr (d @ slash # f)) = Some (kstr f)"
proof -
  have "drop (Suc (length d)) (cstr (d @ slash # f)) = cstr f"
    by (simp add: cstr_def)
  moreover have "text_ok f"
    using assms(1) by (simp add: text_ok_def)
  moreover have "nat (int (length d) + 1) = Suc (length d)" by simp
  ultimately show ?thesis
    using kstring_rindex_found [OF assms] kstring_c_kstr [of f]
    by (simp add: filename_def npos_def)
qed

text \<open>
  C38: \<open>dirname\<close> and \<open>filename\<close> split a path at its last slash: both return, and the
  directory, a slash and the file name put together are the path again, with no slash in the
  file name.
\<close>

theorem dirname_filename_roundtrip:
  assumes "text_ok p" and "slash \<in> set p"
  shows "\<exists>d f. dirname (kstr p) = Some (kstr d) \<and> filename (kstr p) = Some (kstr f) \<and>
    p = d @ slash # f \<and> slash \<notin> set f"
proof -
  obtain d f where "p = d @ slash # f" "slash \<notin> set f"
    using split_list_last [OF assms(2)] by blast
  with dirname_kstr [of d f] filename_kstr [of d f] assms(1) show ?thesis by blast
qed

theorem dirname_filename_roundtrip_witness:
  "dirname (kstr (ascii ''/usr/bin'')) = Some (kstr (ascii ''/usr'')) \<and>
   filename (kstr (ascii ''/usr/bin'')) = Some (kstr (ascii ''bin''))"
proof -
  have p: "text_ok (ascii ''/usr/bin'')" "slash \<in> set (ascii ''/usr/bin'')"
    by (simp_all add: ascii_def slash_def text_ok_def)
  obtain d f where df: "dirname (kstr (ascii ''/usr/bin'')) = Some (kstr d)"
    "filename (kstr (ascii ''/usr/bin'')) = Some (kstr f)"
    "ascii ''/usr/bin'' = d @ slash # f" "slash \<notin> set f"
    using dirname_filename_roundtrip [OF p] by blast
  have "ascii ''/usr/bin'' = ascii ''/usr'' @ slash # ascii ''bin''"
    "slash \<notin> set (ascii ''bin'')"
    by (simp_all add: ascii_def slash_def)
  with df(3,4) have "d = ascii ''/usr'' \<and> f = ascii ''bin''"
    by (metis split_last_unique)
  with df show ?thesis by simp
qed

text \<open>
  On a path without a slash the search of \<open>rindex\<close> leaves the buffer, so \<open>dirname\<close> and
  \<open>filename\<close> fault; the branch in which they would return the empty string is never taken.
\<close>

theorem dirname_without_slash_faults:
  assumes "text_ok p" and "slash \<notin> set p"
  shows "dirname (kstr p) = None \<and> filename (kstr p) = None"
  using kstring_rindex_missing [OF assms] by (simp add: dirname_def filename_def slash_def)

theorem dirname_without_slash_faults_witness:
  "dirname (kstr (ascii ''kernel'')) = None \<and> filename (kstr (ascii ''kernel'')) = None"
  using dirname_without_slash_faults [of "ascii ''kernel''"]
  by (simp add: ascii_def slash_def text_ok_def)

section \<open>Comparison and case conversion\<close>

lemma equal_loop_kstr:
  assumes "length xs = length ys" and "i + n = length xs"
  shows "equal_loop n i (cstr xs) (cstr ys) = Some (drop i xs = drop i ys)"
  using assms(2)
proof (induction n arbitrary: i)
  case 0
  with assms(1) show ?case by simp
next
  case (Suc n)
  then have i: "i < length xs" "i < length ys" using assms(1) by simp_all
  then have "rd (cstr xs) i = Some (xs ! i)" "rd (cstr ys) i = Some (ys ! i)"
    by (simp_all add: cstr_def rd_def nth_append)
  with Suc i show ?case
    by (simp add: Cons_nth_drop_Suc [symmetric])
qed

lemma kstring_equals_kstr [kstr_simps]:
  "text_ok xs \<Longrightarrow> text_ok ys \<Longrightarrow> kstring_equals (kstr xs) (kstr ys) = Some (xs = ys)"
  using equal_loop_kstr [of ys xs 0 "length xs"]
  by (auto simp: kstring_equals_def kstring_length_kstr)

lemma kstring_not_equals_kstr [kstr_simps]:
  "text_ok xs \<Longrightarrow> text_ok ys \<Longrightarrow> kstring_not_equals (kstr xs) (kstr ys) = Some (xs \<noteq> ys)"
  by (simp add: kstring_not_equals_def kstring_equals_kstr)

lemma case_loop_kstr:
  assumes f: "\<And>c. f c = 0 \<Longrightarrow> c = 0" and "0 \<notin> set xs" and "i \<le> length xs"
  shows "case_loop f i (cstr (map f (take i xs) @ drop i xs)) = Some (cstr (map f xs))"
  using assms(3)
proof (induction "length xs - i" arbitrary: i)
  case 0
  then have "i = length xs" by simp
  moreover have "0 \<notin> set (map f xs)" using assms(2) by (auto dest: f [OF sym])
  ultimately show ?case by (simp add: case_loop.simps)
next
  case (Suc n)
  let ?ys = "map f (take i xs) @ drop i xs"
  have nz: "0 \<notin> set ?ys"
    using assms(2) by (auto dest: f [OF sym] in_set_takeD in_set_dropD)
  have i: "i < length xs" using Suc.hyps(2) by simp
  then have "rd (cstr ?ys) i = Some (xs ! i)"
    by (simp add: cstr_def rd_def nth_append min_absorb2)
  moreover have "wr (cstr ?ys) i (f (xs ! i)) = Some (cstr (map f (take (Suc i) xs) @ drop (Suc i) xs))"
    using i
    by (simp add: wr_def cstr_def list_update_append min_absorb2 take_Suc_conv_app_nth
        Cons_nth_drop_Suc [symmetric])
  moreover have "case_loop f (Suc i) (cstr (map f (take (Suc i) xs) @ drop (Suc i) xs)) = Some (cstr (map f xs))"
    using Suc by (intro Suc.hyps(1)) simp_all
  ultimately show ?case
    using i nz by (simp add: case_loop.simps [of f i])
qed

lemma lower_char_zero:
  assumes "lower_char c = 0"
  shows "c = 0"
proof (rule ccontr)
  assume "c \<noteq> 0"
  with assms have "c + 0x20 = 0" and le: "c \<le> 0x5a"
    by (auto simp: lower_char_def add.commute split: if_splits)
  then have "c = - 0x20"
    by (simp add: eq_neg_iff_add_eq_0)
  with le show False by simp
qed

lemma upper_char_zero: "upper_char c = 0 \<Longrightarrow> c = 0"
  by (auto simp: upper_char_def split: if_splits)

text \<open>
  \<open>tolower\<close> and \<open>toupper\<close> return, and convert every character of the text, letters of
  the one case to the other and all other characters to themselves.
\<close>

theorem case_conversion:
  assumes "text_ok xs"
  shows "tolower (kstr xs) = Some (kstr (map lower_char xs)) \<and>
    toupper (kstr xs) = Some (kstr (map upper_char xs))"
proof -
  have zero: "0 \<notin> set xs" using assms by (simp add: text_ok_def)
  have "case_loop lower_char 0 (cstr xs) = Some (cstr (map lower_char xs))"
    "case_loop upper_char 0 (cstr xs) = Some (cstr (map upper_char xs))"
    using case_loop_kstr [of lower_char xs 0, OF lower_char_zero zero]
      case_loop_kstr [of upper_char xs 0, OF upper_char_zero zero] by simp_all
  then show ?thesis
    by (simp add: tolower_def toupper_def kstr_def)
qed

text \<open>A file name as the directory code folds it.\<close>
lemma case_conversion_witness:
  "tolower (kstr (ascii ''SD0P1'')) = Some (kstr (map lower_char (ascii ''SD0P1'')))"
proof -
  have "text_ok (ascii ''SD0P1'')"
    by (simp add: text_ok_def ascii_def)
  then show ?thesis
    using case_conversion [of "ascii ''SD0P1''"] by blast
qed

end
