(* ===== verification/Heap_Blocks.thy ===== *)
theory Heap_Blocks
  imports Utils
begin

text \<open>
  The blocks of the kernel heap (\<open>mm::block\<close> in \<open>kernel/mm.h\<close> and \<open>kernel/mm.cpp\<close>): headers
  of 16 bytes at the address of each block, doubly linked in address order, with the
  operations \<open>split\<close>, \<open>merge\<close> and \<open>is_contigouous\<close> on them, and the two searches of
  \<open>mm::allocate\<close> and \<open>mm::free\<close> through the list. The abstract view is the list of
  segments (address, size, used) in address order; the pointer operations refine the
  corresponding operations on this list.
\<close>

unbundle bit_operations_syntax

section \<open>Block headers\<close>

record block =
  bprev :: "u32 option"
  bnext :: "u32 option"
  bsize :: u32
  bused :: bool

type_synonym heap = "u32 \<rightharpoonup> block"

definition sizeof_block :: u32 where
  "sizeof_block = 16"

definition get_address :: "u32 \<Rightarrow> u32" where
  "get_address this = this + sizeof_block"

definition hmodify :: "u32 \<Rightarrow> (block \<Rightarrow> block) \<Rightarrow> heap \<Rightarrow> heap option" where
  "hmodify a f h = (case h a of None \<Rightarrow> None | Some b \<Rightarrow> Some (h(a \<mapsto> f b)))"

definition set_used :: "u32 \<Rightarrow> bool \<Rightarrow> heap \<Rightarrow> heap option" where
  "set_used this used h = hmodify this (bused_update (\<lambda>_. used)) h"

definition split :: "u32 \<Rightarrow> u32 \<Rightarrow> heap \<Rightarrow> (u32 option \<times> heap) option" where
  "split this offset h = do {
     b \<leftarrow> h this;
     if bsize b - offset \<le> sizeof_block then Some (None, h)
     else do {
       let new_block = get_address this + offset;
       let new_size = bsize b - (offset + sizeof_block);
       let h1 = h(new_block \<mapsto>
         \<lparr>bprev = Some this, bnext = bnext b, bsize = new_size, bused = False\<rparr>);
       h2 \<leftarrow> hmodify this (bnext_update (\<lambda>_. Some new_block)) h1;
       h3 \<leftarrow> (case bnext b of None \<Rightarrow> Some h2
             | Some n \<Rightarrow> hmodify n (bprev_update (\<lambda>_. Some new_block)) h2);
       h4 \<leftarrow> hmodify this (bsize_update (\<lambda>s. s - (new_size + sizeof_block))) h3;
       Some (Some new_block, h4) } }"

definition is_contigouous :: "u32 \<Rightarrow> u32 \<Rightarrow> heap \<Rightarrow> bool option" where
  "is_contigouous a b h = do {
     ba \<leftarrow> h a;
     if bnext ba = Some b then do { bb \<leftarrow> h b; Some (bprev bb = Some a) }
     else Some False }"

definition merge :: "u32 \<Rightarrow> u32 \<Rightarrow> heap \<Rightarrow> (u32 option \<times> heap) option" where
  "merge a b h = do {
     c \<leftarrow> is_contigouous a b h;
     if \<not> c then Some (None, h)
     else do {
       bb \<leftarrow> h b;
       h1 \<leftarrow> hmodify a (bsize_update (\<lambda>s. s + (bsize bb + sizeof_block))) h;
       h2 \<leftarrow> hmodify a (bnext_update (\<lambda>_. bnext bb)) h1;
       h3 \<leftarrow> (case bnext bb of None \<Rightarrow> Some h2
             | Some n \<Rightarrow> hmodify n (bprev_update (\<lambda>_. Some a)) h2);
       Some (Some a, h3) } }"

section \<open>Allocation and release\<close>

text \<open>
  The search of \<open>mm::allocate\<close> over the list of blocks; \<open>try_block\<close> is one iteration and
  says whether it ended the loop with \<open>break\<close>. \<open>ret\<close> is \<open>return_address\<close>, which
  the code assigns before it knows whether the block fits; a null pointer is 0 there.
\<close>

definition align_offset :: "u32 \<Rightarrow> u32 \<Rightarrow> u32" where
  "align_offset address alignment = ((address + alignment - 1) AND mask_left alignment) - address"

definition try_block :: "u32 \<Rightarrow> u32 \<Rightarrow> u32 \<Rightarrow> u32 \<Rightarrow> heap \<Rightarrow> (u32 \<times> heap \<times> bool) option" where
  "try_block sz alignment current ret h = do {
     b \<leftarrow> h current;
     if sz \<le> bsize b \<and> \<not> bused b then do {
       let ra = get_address current;
       let offset = align_offset ra alignment;
       if offset = 0 then do {
         h1 \<leftarrow> (if sz < bsize b then map_option snd (split current sz h) else Some h);
         h2 \<leftarrow> set_used current True h1;
         Some (get_address current, h2, True) }
       else if sizeof_block < offset \<and> sz \<le> bsize b - offset then do {
         (sb, h1) \<leftarrow> split current (offset - sizeof_block) h;
         split_block \<leftarrow> sb;
         b' \<leftarrow> h1 split_block;
         h2 \<leftarrow> (if sz < bsize b' then map_option snd (split split_block sz h1) else Some h1);
         h3 \<leftarrow> set_used split_block True h2;
         Some (get_address split_block, h3, True) }
       else Some (ra, h, False) }
     else Some (ret, h, False) }"

partial_function (option) allocate_loop ::
    "u32 \<Rightarrow> u32 \<Rightarrow> u32 \<Rightarrow> u32 \<Rightarrow> heap \<Rightarrow> (u32 \<times> heap) option" where
  "allocate_loop sz alignment current ret h = do {
     (ret', h', found) \<leftarrow> try_block sz alignment current ret h;
     if found then Some (ret', h')
     else do {
       b \<leftarrow> h' current;
       case bnext b of None \<Rightarrow> Some (ret', h')
       | Some n \<Rightarrow> allocate_loop sz alignment n ret' h' } }"

text \<open>\<open>mm::free\<close> for a pointer that is not null, at the header \<open>current\<close>.\<close>

definition free_block :: "u32 \<Rightarrow> heap \<Rightarrow> heap option" where
  "free_block current h = do {
     h1 \<leftarrow> set_used current False h;
     b \<leftarrow> h1 current;
     (cur2, h2) \<leftarrow> (case bprev b of None \<Rightarrow> Some (Some current, h1)
        | Some p \<Rightarrow> do {
            bp \<leftarrow> h1 p;
            if \<not> bused bp then merge p current h1 else Some (Some current, h1) });
     c2 \<leftarrow> cur2;
     b2 \<leftarrow> h2 c2;
     (case bnext b2 of None \<Rightarrow> Some h2
        | Some n \<Rightarrow> do {
            bn \<leftarrow> h2 n;
            if \<not> bused bn then map_option snd (merge c2 n h2) else Some h2 }) }"

section \<open>Segments\<close>

type_synonym seg = "u32 \<times> u32 \<times> bool"

abbreviation seg_addr :: "seg \<Rightarrow> u32" where "seg_addr \<equiv> fst"
abbreviation seg_size :: "seg \<Rightarrow> u32" where "seg_size s \<equiv> fst (snd s)"
abbreviation seg_used :: "seg \<Rightarrow> bool" where "seg_used s \<equiv> snd (snd s)"

text \<open>The segments tile the addresses from \<open>lo\<close> up to \<open>hi\<close>, headers included.\<close>

fun tiled :: "nat \<Rightarrow> seg list \<Rightarrow> nat \<Rightarrow> bool" where
  "tiled lo [] hi \<longleftrightarrow> lo = hi"
| "tiled lo ((a, s, u) # segs) hi \<longleftrightarrow> unat a = lo \<and> tiled (lo + 16 + unat s) segs hi"

text \<open>No two neighbours are both unused.\<close>

fun coalesced :: "seg list \<Rightarrow> bool" where
  "coalesced ((a, s, u) # (b, t, v) # segs) \<longleftrightarrow> (u \<or> v) \<and> coalesced ((b, t, v) # segs)"
| "coalesced _ \<longleftrightarrow> True"

interpretation hblock: dlink bnext bprev "\<lambda>p. bnext_update (\<lambda>_. p)" "\<lambda>p. bprev_update (\<lambda>_. p)"
  by unfold_locales simp_all

abbreviation hseg where "hseg \<equiv> dseg bnext bprev"

definition seg_data :: "heap \<Rightarrow> seg \<Rightarrow> bool" where
  "seg_data h = (\<lambda>(a, s, u). \<exists>b. h a = Some b \<and> bsize b = s \<and> bused b = u)"

definition heap_rep :: "heap \<Rightarrow> seg list \<Rightarrow> bool" where
  "heap_rep h segs \<longleftrightarrow> hseg h None (map fst segs) None \<and> list_all (seg_data h) segs"

lemma tiled_append:
  "tiled lo (xs @ ys) hi \<longleftrightarrow> (\<exists>mid. tiled lo xs mid \<and> tiled mid ys hi)"
  by (induction lo xs hi rule: tiled.induct) auto

lemma tiled_le: "tiled lo xs hi \<Longrightarrow> lo \<le> hi"
  by (induction lo xs hi rule: tiled.induct) auto

lemma tiled_addr:
  "tiled lo xs hi \<Longrightarrow> (a, s, u) \<in> set xs \<Longrightarrow> lo \<le> unat a \<and> unat a + 16 + unat s \<le> hi"
  by (induction lo xs hi rule: tiled.induct) (auto dest: tiled_le)

lemma tiled_fits:
  assumes "tiled lo xs hi" and "hi < 2 ^ 32" and "(a, s, u) \<in> set xs"
  shows "unat a + 16 + unat s < 2 ^ 32"
  using tiled_addr [OF assms(1,3)] assms(2) le_less_trans by blast

lemma tiled_distinct: "tiled lo xs hi \<Longrightarrow> distinct (map fst xs)"
  by (induction lo xs hi rule: tiled.induct) (force dest: tiled_addr)+

lemma coalesced_append:
  "coalesced (xs @ ys) \<longleftrightarrow> coalesced xs \<and> coalesced ys \<and>
     (xs = [] \<or> ys = [] \<or> seg_used (last xs) \<or> seg_used (hd ys))"
proof (induction xs rule: coalesced.induct)
  case (1 a s u b t v segs)
  then show ?case by auto
qed (cases ys; auto)+

lemma heap_rep_mid:
  "heap_rep h (xs @ (a, s, u) # ys) \<longleftrightarrow>
     hseg h None (map fst xs) (Some a) \<and> hseg h (Some a) (map fst ys) None \<and>
     h a = Some \<lparr>bprev = last_ptr None (map fst xs), bnext = hd_ptr (map fst ys) None,
       bsize = s, bused = u\<rparr> \<and>
     list_all (seg_data h) xs \<and> list_all (seg_data h) ys"
  by (auto simp: heap_rep_def dseg_split seg_data_def)

lemma seg_data_cong:
  "(\<And>x. x \<in> fst ` set xs \<Longrightarrow> map_option (\<lambda>b. (bsize b, bused b)) (h' x) =
      map_option (\<lambda>b. (bsize b, bused b)) (h x)) \<Longrightarrow>
   list_all (seg_data h') xs = list_all (seg_data h) xs"
proof (induction xs)
  case (Cons x xs)
  obtain a s u where x: "x = (a, s, u)" by (cases x)
  have "map_option (\<lambda>b. (bsize b, bused b)) (h' a) = map_option (\<lambda>b. (bsize b, bused b)) (h a)"
    using Cons.prems [of a] x by simp
  then have "seg_data h' x = seg_data h x"
    by (cases "h' a"; cases "h a") (auto simp: seg_data_def x)
  with Cons show ?case by simp
qed simp

lemma set_used_rep:
  assumes "heap_rep h (xs @ (a, s, u) # ys)" and "distinct (map fst (xs @ (a, s, u) # ys))"
  shows "\<exists>h'. set_used a v h = Some h' \<and> heap_rep h' (xs @ (a, s, v) # ys)"
proof -
  have "a \<notin> fst ` set xs" "a \<notin> fst ` set ys"
    using assms(2) by auto
  moreover have "list_all (seg_data (h(a := w))) zs = list_all (seg_data h) zs"
    if "a \<notin> fst ` set zs" for w zs
    using that by (intro seg_data_cong) auto
  ultimately show ?thesis
    using assms(1) by (simp add: set_used_def hmodify_def heap_rep_mid)
qed

lemma split_small:
  "h a = Some b \<Longrightarrow> bsize b - off \<le> 16 \<Longrightarrow> split a off h = Some (None, h)"
  by (simp add: split_def sizeof_block_def)

lemma split_rep:
  assumes rep: "heap_rep h (xs @ (a, s, u) # ys)"
    and dist: "distinct (map fst (xs @ (a, off, u) # (a + 16 + off, s - (off + 16), False) # ys))"
    and room: "16 < s - off"
  shows "\<exists>h'. split a off h = Some (Some (a + 16 + off), h') \<and>
    heap_rep h' (xs @ (a, off, u) # (a + 16 + off, s - (off + 16), False) # ys)"
proof -
  let ?A = "map fst xs" and ?B = "map fst ys" and ?nb = "a + 16 + off"
  let ?b = "\<lparr>bprev = last_ptr None ?A, bnext = hd_ptr ?B None, bsize = s, bused = u\<rparr>"
  have segs: "hseg h None ?A (Some a)" "hseg h (Some a) ?B None" and ha: "h a = Some ?b"
    and data: "list_all (seg_data h) xs" "list_all (seg_data h) ys"
    using rep by (auto simp: heap_rep_mid)
  have d: "a \<notin> set ?A" "a \<notin> set ?B" "?nb \<notin> set ?A" "?nb \<notin> set ?B" "a \<noteq> ?nb"
    "set ?A \<inter> set ?B = {}" "distinct ?B"
    using dist by auto
  define h2 where "h2 = h(?nb \<mapsto> \<lparr>bprev = Some a, bnext = hd_ptr ?B None,
      bsize = s - (off + 16), bused = False\<rparr>, a \<mapsto> ?b\<lparr>bnext := Some ?nb\<rparr>)"
  define h3 where "h3 = (case hd_ptr ?B None of None \<Rightarrow> h2
      | Some n \<Rightarrow> h2(n \<mapsto> bprev_update (\<lambda>_. Some ?nb) (the (h2 n))))"
  define h4 where "h4 = h3(a \<mapsto> ?b\<lparr>bnext := Some ?nb, bsize := off\<rparr>)"
  have B_h2: "h2 x = h x" if "x \<in> set ?B" for x
  proof -
    have "x \<noteq> ?nb" "x \<noteq> a" using d(2,4) that by blast+
    then show ?thesis by (simp add: h2_def)
  qed
  have h3_else: "h3 x = h2 x" if "x \<notin> set ?B" for x
    using that by (cases ys) (auto simp: h3_def)
  have B_data: "map_option (\<lambda>b. (bsize b, bused b)) (h3 x) =
      map_option (\<lambda>b. (bsize b, bused b)) (h x)" if "x \<in> set ?B" for x
    using that segs(2) B_h2 [OF that] by (cases ys) (auto simp: h3_def split: option.splits)
  have "hseg h2 (Some a) ?B None"
    using segs(2) dseg_cong [of ?B h2 h] B_h2 by simp
  from hblock.relink_first_opt [OF this d(7) h3_def]
  have "hseg h4 (Some ?nb) ?B None"
    using d by (simp add: h4_def)
  moreover have A_h4: "h4 x = h x" if "x \<in> set ?A" for x
  proof -
    have "x \<noteq> ?nb" "x \<noteq> a" "x \<notin> set ?B" using d(1,3,6) that by blast+
    then show ?thesis using h3_else [of x] by (simp add: h4_def h2_def)
  qed
  then have "hseg h4 None ?A (Some a)"
    using segs(1) dseg_cong [of ?A h4 h] by simp
  moreover have "list_all (seg_data h4) xs = list_all (seg_data h) xs"
    by (rule seg_data_cong) (simp add: A_h4)
  moreover have "list_all (seg_data h4) ys = list_all (seg_data h) ys"
  proof (rule seg_data_cong)
    fix x assume x: "x \<in> fst ` set ys"
    then have "x \<noteq> a" using d(2) by auto
    with B_data [of x] x show "map_option (\<lambda>b. (bsize b, bused b)) (h4 x) =
        map_option (\<lambda>b. (bsize b, bused b)) (h x)"
      by (simp add: h4_def)
  qed
  moreover have "h4 ?nb = Some \<lparr>bprev = Some a, bnext = hd_ptr ?B None,
      bsize = s - (off + 16), bused = False\<rparr>"
    using d h3_else [of ?nb] by (simp add: h4_def h2_def)
  ultimately have "heap_rep h4 (xs @ (a, off, u) # (?nb, s - (off + 16), False) # ys)"
    using data by (simp add: heap_rep_mid) (simp add: h4_def seg_data_def)
  moreover have "split a off h = Some (Some ?nb, h4)"
  proof -
    have sz: "\<not> s - off \<le> 16" using room by simp
    show ?thesis
    proof (cases ys)
      case Nil
      with ha sz d show ?thesis
        by (simp add: split_def sizeof_block_def get_address_def Let_def hmodify_def h2_def
            h3_def h4_def)
    next
      case (Cons y ys')
      then obtain n where n: "h (fst y) = Some n" "h2 (fst y) = Some n"
        using segs(2) B_h2 [of "fst y"] by (auto split: option.splits)
      have ne: "fst y \<noteq> a" "fst y \<noteq> ?nb"
        using d Cons by auto
      show ?thesis
        using Cons ha sz d n(1) ne
        by (simp add: split_def sizeof_block_def get_address_def Let_def hmodify_def h2_def
            h3_def h4_def)
    qed
  qed
  ultimately show ?thesis by blast
qed

lemma merge_rep:
  assumes rep: "heap_rep h (xs @ (a, s, u) # (b, t, v) # ys)"
    and dist: "distinct (map fst (xs @ (a, s, u) # (b, t, v) # ys))"
  shows "\<exists>h'. merge a b h = Some (Some a, h') \<and> heap_rep h' (xs @ (a, s + (t + 16), u) # ys)"
proof -
  let ?A = "map fst xs" and ?B = "map fst ys"
  let ?a = "\<lparr>bprev = last_ptr None ?A, bnext = Some b, bsize = s, bused = u\<rparr>"
  let ?b = "\<lparr>bprev = Some a, bnext = hd_ptr ?B None, bsize = t, bused = v\<rparr>"
  have segs: "hseg h None ?A (Some a)" "hseg h (Some b) ?B None"
    and ha: "h a = Some ?a" "h b = Some ?b"
    and data: "list_all (seg_data h) xs" "list_all (seg_data h) ys"
    using rep by (auto simp: heap_rep_mid seg_data_def split: option.splits)
  have d: "a \<notin> set ?A" "a \<notin> set ?B" "b \<notin> set ?B" "a \<noteq> b"
    "set ?A \<inter> set ?B = {}" "distinct ?B"
    using dist by auto
  define h2 where "h2 = h(a \<mapsto> ?a\<lparr>bsize := s + (t + 16), bnext := hd_ptr ?B None\<rparr>)"
  define h3 where "h3 = (case hd_ptr ?B None of None \<Rightarrow> h2
      | Some n \<Rightarrow> h2(n \<mapsto> bprev_update (\<lambda>_. Some a) (the (h2 n))))"
  have h3_else: "h3 x = h2 x" if "x \<notin> set ?B" for x
    using that by (cases ys) (auto simp: h3_def)
  have B_h2: "h2 x = h x" if "x \<in> set ?B" for x
    using that d(2) by (auto simp: h2_def)
  have "hseg h2 (Some b) ?B None"
    using segs(2) dseg_cong [of ?B h2 h] B_h2 by simp
  from hblock.relink_first_opt [OF this d(6) h3_def]
  have "hseg h3 (Some a) ?B None" .
  moreover have A_h3: "h3 x = h x" if "x \<in> set ?A" for x
  proof -
    have "x \<noteq> a" "x \<notin> set ?B" using d(1,5) that by blast+
    then show ?thesis using h3_else [of x] by (simp add: h2_def)
  qed
  then have "hseg h3 None ?A (Some a)"
    using segs(1) dseg_cong [of ?A h3 h] by simp
  moreover have "list_all (seg_data h3) xs = list_all (seg_data h) xs"
    by (rule seg_data_cong) (simp add: A_h3)
  moreover have "list_all (seg_data h3) ys = list_all (seg_data h) ys"
  proof (rule seg_data_cong)
    fix x assume x: "x \<in> fst ` set ys"
    then have "x \<in> set ?B" by simp
    with segs(2) B_h2 [OF this] show "map_option (\<lambda>b. (bsize b, bused b)) (h3 x) =
        map_option (\<lambda>b. (bsize b, bused b)) (h x)"
      by (cases ys) (auto simp: h3_def split: option.splits)
  qed
  moreover have "h3 a = Some (?a\<lparr>bsize := s + (t + 16), bnext := hd_ptr ?B None\<rparr>)"
    using h3_else [OF d(2)] by (simp add: h2_def)
  ultimately have "heap_rep h3 (xs @ (a, s + (t + 16), u) # ys)"
    using data by (simp add: heap_rep_mid)
  moreover have "merge a b h = Some (Some a, h3)"
  proof (cases ys)
    case Nil
    with ha d(4) show ?thesis
      by (simp add: merge_def is_contigouous_def sizeof_block_def hmodify_def h2_def h3_def)
  next
    case (Cons y ys')
    then obtain n where n: "h (fst y) = Some n"
      using segs(2) by (auto split: option.splits)
    have ne: "fst y \<noteq> a" "fst y \<noteq> b"
      using d(2,3) Cons by auto
    show ?thesis
      using Cons ha d(4) n ne
      by (simp add: merge_def is_contigouous_def sizeof_block_def hmodify_def h2_def h3_def)
  qed
  ultimately show ?thesis by blast
qed

section \<open>The same operations on segments\<close>

text \<open>What \<open>split\<close>, \<open>merge\<close> and the search of \<open>allocate\<close> do to the list of segments.\<close>

definition seg_carve :: "u32 \<Rightarrow> seg \<Rightarrow> seg list" where
  "seg_carve sz = (\<lambda>(a, s, u).
     if sz < s \<and> 16 < s - sz then [(a, sz, True), (a + 16 + sz, s - (sz + 16), False)]
     else [(a, s, True)])"

definition seg_fit :: "u32 \<Rightarrow> u32 \<Rightarrow> seg \<Rightarrow> (u32 \<times> seg list) option" where
  "seg_fit sz alignment = (\<lambda>(a, s, u).
     let offset = align_offset (a + 16) alignment in
     if u \<or> s < sz then None
     else if offset = 0 then Some (a + 16, seg_carve sz (a, s, u))
     else if 16 < offset \<and> unat offset + unat sz \<le> unat s then
       Some (a + 16 + offset,
         (a, offset - 16, False) # seg_carve sz (a + offset, s - offset, False))
     else None)"

fun seg_alloc :: "u32 \<Rightarrow> u32 \<Rightarrow> seg list \<Rightarrow> (u32 \<times> seg list) option" where
  "seg_alloc sz alignment [] = None"
| "seg_alloc sz alignment (x # segs) =
     (case seg_fit sz alignment x of
        Some (p, ys) \<Rightarrow> Some (p, ys @ segs)
      | None \<Rightarrow> map_option (\<lambda>(p, ys). (p, x # ys)) (seg_alloc sz alignment segs))"

text \<open>Releasing the segment at an address, and joining it with unused neighbours.\<close>

fun seg_join :: "seg list \<Rightarrow> seg list" where
  "seg_join ((a, s, u) # (b, t, v) # segs) =
     (if \<not> u \<and> \<not> v then (a, s + (t + 16), u) # segs else (a, s, u) # (b, t, v) # segs)"
| "seg_join segs = segs"

fun seg_free :: "u32 \<Rightarrow> seg list \<Rightarrow> seg list" where
  "seg_free p [] = []"
| "seg_free p [(a, s, u)] = (if a = p then [(a, s, False)] else [(a, s, u)])"
| "seg_free p ((a, s, u) # (b, t, v) # segs) =
     (if a = p then seg_join ((a, s, False) # (b, t, v) # segs)
      else if b = p then
        (if u then (a, s, u) # seg_join ((b, t, False) # segs)
         else seg_join ((a, s + (t + 16), u) # segs))
      else (a, s, u) # seg_free p ((b, t, v) # segs))"

section \<open>Address arithmetic\<close>

lemma carve_arith:
  fixes a s sz :: u32
  assumes "unat a + 16 + unat s < 2 ^ 32" and "sz \<le> s" and "16 < s - sz"
  shows "unat sz + 16 < unat s"
    and "unat (a + 16 + sz) = unat a + 16 + unat sz"
    and "unat (s - (sz + 16)) = unat s - (unat sz + 16)"
proof -
  show lt: "unat sz + 16 < unat s"
    using assms(2,3) by (simp add: word_less_nat_alt word_le_nat_alt unat_sub)
  have sz16: "unat (sz + 16) = unat sz + 16"
    using lt assms(1) by (subst unat_add_small) simp_all
  have a16: "unat (a + 16) = unat a + 16"
    using assms(1) by (subst unat_add_small) simp_all
  show "unat (a + 16 + sz) = unat a + 16 + unat sz"
    using lt a16 assms(1) by (subst unat_add_small) simp_all
  have "sz + 16 \<le> s"
    using lt sz16 by (simp add: word_le_nat_alt)
  then show "unat (s - (sz + 16)) = unat s - (unat sz + 16)"
    using sz16 by (simp add: unat_sub)
qed

lemma align_offset_pow2:
  fixes x :: u32
  assumes "k < 32" and "unat x + 2 ^ k \<le> 2 ^ 32"
  shows "unat (align_offset x (2 ^ k)) < 2 ^ k"
    and "2 ^ k dvd unat x + unat (align_offset x (2 ^ k))"
proof -
  define r where "r = unat x + (2 ^ k - 1) - (unat x + (2 ^ k - 1)) mod 2 ^ k"
  have r: "unat x \<le> r" "r < unat x + 2 ^ k" "2 ^ k dvd r"
    unfolding r_def using nat_round_up [of "2 ^ k" "unat x"] by simp_all
  have "x + 2 ^ k - 1 = word_of_nat (unat x + (2 ^ k - 1))"
    by (subst of_nat_add) (simp add: of_nat_diff)
  then have u: "unat ((x + 2 ^ k - 1) AND mask_left (2 ^ k)) = r"
    using assms by (simp add: round_down unat_word_of_nat_small r_def)
  then have "x \<le> (x + 2 ^ k - 1) AND mask_left (2 ^ k)"
    using r(1) by (simp add: word_le_nat_alt)
  then have "unat (align_offset x (2 ^ k)) = r - unat x"
    using u by (simp add: align_offset_def unat_sub)
  with r show "unat (align_offset x (2 ^ k)) < 2 ^ k"
    "2 ^ k dvd unat x + unat (align_offset x (2 ^ k))"
    by auto
qed

lemma tiled_replace:
  assumes "tiled lo (xs @ ys @ zs) hi"
    and "\<And>l h. tiled l ys h \<Longrightarrow> h \<le> hi \<Longrightarrow> tiled l ys' h"
  shows "tiled lo (xs @ ys' @ zs) hi"
  using assms by (fastforce simp: tiled_append dest: tiled_le)

lemma tiled_mid_bound:
  "tiled lo (xs @ (a, s, u) # ys) hi \<Longrightarrow> hi < 2 ^ 32 \<Longrightarrow> unat a + 16 + unat s < 2 ^ 32"
  using tiled_addr [of lo "xs @ (a, s, u) # ys" hi a s u] by simp

lemma tiled_used: "tiled lo (xs @ (a, s, u) # ys) hi \<Longrightarrow> tiled lo (xs @ (a, s, v) # ys) hi"
  by (simp add: tiled_append)

lemma tiled_split:
  assumes "tiled lo (xs @ (a, s, u) # ys) hi" and "hi < 2 ^ 32" and "sz \<le> s" and "16 < s - sz"
  shows "tiled lo (xs @ (a, sz, v) # (a + 16 + sz, s - (sz + 16), w) # ys) hi"
  using assms(1) carve_arith [OF tiled_mid_bound [OF assms(1,2)] assms(3,4)]
  by (auto simp: tiled_append ac_simps)

lemma tiled_merge:
  assumes "tiled lo (xs @ (a, s, u) # (b, t, v) # ys) hi" and "hi < 2 ^ 32"
  shows "tiled lo (xs @ (a, s + (t + 16), w) # ys) hi"
proof -
  have b: "unat b = unat a + 16 + unat s" "unat b + 16 + unat t \<le> hi"
    using assms(1) tiled_addr [OF assms(1), of b t v] by (auto simp: tiled_append)
  then have "unat (t + 16) = unat t + 16"
    using assms(2) by (subst unat_add_small) simp_all
  moreover from this have "unat (s + (t + 16)) = unat s + unat t + 16"
    using b assms(2) by (subst unat_add_small) simp_all
  ultimately show ?thesis
    using assms(1) by (auto simp: tiled_append algebra_simps)
qed

section \<open>The heap operations refine the segment operations\<close>

lemma carve_rep:
  assumes rep: "heap_rep h (xs @ (a, s, u) # ys)"
    and til: "tiled lo (xs @ (a, s, u) # ys) hi" and hi: "hi < 2 ^ 32" and "sz \<le> s"
  shows "\<exists>h1 h2. (if sz < s then map_option snd (split a sz h) else Some h) = Some h1 \<and>
    set_used a True h1 = Some h2 \<and> heap_rep h2 (xs @ seg_carve sz (a, s, u) @ ys) \<and>
    tiled lo (xs @ seg_carve sz (a, s, u) @ ys) hi"
proof (cases "sz < s \<and> 16 < s - sz")
  case True
  have t: "tiled lo (xs @ (a, sz, v) # (a + 16 + sz, s - (sz + 16), False) # ys) hi" for v
    using tiled_split [OF til hi assms(4)] True by blast
  from split_rep [OF rep tiled_distinct [OF t]] True obtain h1
    where h1: "split a sz h = Some (Some (a + 16 + sz), h1)"
      "heap_rep h1 (xs @ (a, sz, u) # (a + 16 + sz, s - (sz + 16), False) # ys)"
    by blast
  from set_used_rep [OF h1(2) tiled_distinct [OF t], of True] h1(1) True t show ?thesis
    by (auto simp: seg_carve_def)
next
  case False
  have "(if sz < s then map_option snd (split a sz h) else Some h) = Some h"
    using False split_small [of h a _ sz] rep by (auto simp: heap_rep_mid not_less)
  with set_used_rep [OF rep tiled_distinct [OF til], of True] tiled_used [OF til] False
  show ?thesis by (auto simp: seg_carve_def)
qed

text \<open>
  The allocator is called with an alignment that is a power of two and, but for the defect
  shown at the end, works when the alignment is at most the size of the request: then the
  aligned offset lies inside every block that is large enough.
\<close>

definition align_ok :: "u32 \<Rightarrow> u32 \<Rightarrow> bool" where
  "align_ok sz alignment \<longleftrightarrow> (\<exists>k < 32. alignment = 2 ^ k) \<and> alignment \<le> sz"

lemma align_ok_offset:
  assumes "align_ok sz al" and "unat a + 16 + unat s < 2 ^ 32" and "sz \<le> s"
  shows "unat (a + 16) = unat a + 16"
    and "unat (align_offset (a + 16) al) < unat s"
    and "unat al dvd unat a + 16 + unat (align_offset (a + 16) al)"
proof -
  obtain k where k: "k < 32" "al = 2 ^ k" "al \<le> sz"
    using assms(1) by (auto simp: align_ok_def)
  then have uk: "unat al = 2 ^ k" by (simp add: unat_pow2)
  have le: "2 ^ k \<le> unat s"
    using k assms(3) uk by (simp add: word_le_nat_alt)
  show a16: "unat (a + 16) = unat a + 16"
    using assms(2) by (subst unat_add_small) simp_all
  have "unat (a + 16) + 2 ^ k \<le> 2 ^ 32"
    using a16 le assms(2) by simp
  from align_offset_pow2 [OF k(1) this] le a16 k(2) uk
  show "unat (align_offset (a + 16) al) < unat s"
    "unat al dvd unat a + 16 + unat (align_offset (a + 16) al)"
    by simp_all
qed

lemma try_block_fit:
  assumes rep: "heap_rep h (xs @ (a, s, u) # ys)"
    and til: "tiled lo (xs @ (a, s, u) # ys) hi" and hi: "hi < 2 ^ 32"
    and ok: "align_ok sz al" and fit: "seg_fit sz al (a, s, u) = Some (p, zs)"
  shows "\<exists>h'. try_block sz al a ret h = Some (p, h', True) \<and> heap_rep h' (xs @ zs @ ys) \<and>
    tiled lo (xs @ zs @ ys) hi"
proof -
  let ?off = "align_offset (a + 16) al"
  obtain b where b: "h a = Some b" "bsize b = s" "bused b = u"
    using rep by (auto simp: heap_rep_mid)
  have u: "\<not> u" and sz: "sz \<le> s"
    using fit by (auto simp: seg_fit_def Let_def not_less split: if_splits)
  have bound: "unat a + 16 + unat s < 2 ^ 32"
    using tiled_mid_bound [OF til hi] .
  note off = align_ok_offset [OF ok bound sz]
  show ?thesis
  proof (cases "?off = 0")
    case True
    then have "p = a + 16" "zs = seg_carve sz (a, s, u)"
      using fit by (auto simp: seg_fit_def Let_def split: if_splits)
    with carve_rep [OF rep til hi sz] b u sz True show ?thesis
      by (auto simp: try_block_def get_address_def sizeof_block_def)
  next
    case False
    let ?a2 = "a + ?off" and ?s2 = "s - ?off"
    have p: "p = a + 16 + ?off" "zs = (a, ?off - 16, False) # seg_carve sz (?a2, ?s2, False)"
      and g: "16 < ?off" "unat ?off + unat sz \<le> unat s"
      using fit False by (auto simp: seg_fit_def Let_def split: if_splits)
    have eqs: "a + 16 + (?off - 16) = ?a2" "s - ((?off - 16) + 16) = ?s2"
      by simp_all
    have s2: "unat ?s2 = unat s - unat ?off"
      using off(2) by (simp add: unat_sub word_le_nat_alt)
    have sz2: "sz \<le> ?s2"
      using s2 g(2) by (simp add: word_le_nat_alt)
    have o16: "unat (?off - 16) = unat ?off - 16"
      using g(1) by (simp add: unat_sub word_less_nat_alt word_le_nat_alt)
    have "0 < unat sz"
      using ok by (auto simp: align_ok_def word_le_nat_alt unat_pow2)
        (metis gr0I le_zero_eq power_not_zero zero_neq_numeral)
    then have "unat (s - (?off - 16)) = unat s - unat ?off + 16" "16 < unat s - unat ?off + 16"
      using o16 g off(2) by (auto simp: unat_sub word_le_nat_alt word_less_nat_alt)
    then have room: "16 < s - (?off - 16)" "?off - 16 \<le> s"
      using o16 off(2) by (simp_all add: word_less_nat_alt word_le_nat_alt)
    have til1: "tiled lo (xs @ (a, ?off - 16, False) # (?a2, ?s2, False) # ys) hi"
      using tiled_split [OF til hi room(2,1), of False False] by (simp only: eqs)
    obtain h1 where h1: "split a (?off - 16) h = Some (Some ?a2, h1)"
      "heap_rep h1 (xs @ (a, ?off - 16, False) # (?a2, ?s2, False) # ys)"
      using split_rep [OF rep _ room(1)] tiled_distinct [OF til1] u by (auto simp only: eqs)
    obtain b2 where b2: "h1 ?a2 = Some b2" "bsize b2 = ?s2"
      using h1(2) heap_rep_mid [of h1 "xs @ [(a, ?off - 16, False)]" ?a2 ?s2 False ys] by auto
    have "heap_rep h1 ((xs @ [(a, ?off - 16, False)]) @ (?a2, ?s2, False) # ys)"
      "tiled lo ((xs @ [(a, ?off - 16, False)]) @ (?a2, ?s2, False) # ys) hi"
      using h1(2) til1 by simp_all
    from carve_rep [OF this hi sz2]
    obtain h2 h3 where "(if sz < ?s2 then map_option snd (split ?a2 sz h1) else Some h1) = Some h2"
      "set_used ?a2 True h2 = Some h3" "heap_rep h3 (xs @ zs @ ys)" "tiled lo (xs @ zs @ ys) hi"
      by (auto simp: p)
    with h1(1) b b2 u sz sz2 False g(1) p(1) show ?thesis
      by (auto simp: try_block_def get_address_def sizeof_block_def Let_def add.commute
          add.left_commute)
  qed
qed

lemma try_block_none:
  assumes rep: "heap_rep h (xs @ (a, s, u) # ys)"
    and til: "tiled lo (xs @ (a, s, u) # ys) hi" and hi: "hi < 2 ^ 32"
    and ok: "align_ok sz al" and fit: "seg_fit sz al (a, s, u) = None"
  shows "try_block sz al a ret h = Some (if \<not> u \<and> sz \<le> s then a + 16 else ret, h, False)"
proof -
  let ?off = "align_offset (a + 16) al"
  obtain b where b: "h a = Some b" "bsize b = s" "bused b = u"
    using rep by (auto simp: heap_rep_mid)
  show ?thesis
  proof (cases "\<not> u \<and> sz \<le> s")
    case True
    have "unat ?off < unat s"
      using align_ok_offset(2) [OF ok tiled_mid_bound [OF til hi]] True by blast
    then have "sz \<le> s - ?off \<longleftrightarrow> unat ?off + unat sz \<le> unat s"
      by (auto simp: word_le_nat_alt unat_sub)
    moreover have "?off \<noteq> 0" "\<not> (16 < ?off \<and> unat ?off + unat sz \<le> unat s)"
      using fit True by (auto simp: seg_fit_def Let_def split: if_splits)
    ultimately show ?thesis
      using True b by (auto simp: try_block_def get_address_def sizeof_block_def)
  next
    case False
    with b show ?thesis by (auto simp: try_block_def)
  qed
qed

text \<open>The data address of some unused block that is large enough.\<close>

definition candidate :: "u32 \<Rightarrow> seg list \<Rightarrow> u32 \<Rightarrow> bool" where
  "candidate sz segs p \<longleftrightarrow> list_ex (\<lambda>(a, s, u). \<not> u \<and> sz \<le> s \<and> p = a + 16) segs"

lemma candidate_simps [simp]:
  "candidate sz [] p \<longleftrightarrow> False"
  "candidate sz ((a, s, u) # segs) p \<longleftrightarrow> (\<not> u \<and> sz \<le> s \<and> p = a + 16) \<or> candidate sz segs p"
  by (simp_all add: candidate_def)

lemma allocate_loop_rep:
  assumes "heap_rep h (xs @ x # ys)" and "tiled lo (xs @ x # ys) hi" and "hi < 2 ^ 32"
    and "align_ok sz al"
  shows "case seg_alloc sz al (x # ys) of
      Some (p, zs) \<Rightarrow> \<exists>h'. allocate_loop sz al (fst x) ret h = Some (p, h') \<and>
        heap_rep h' (xs @ zs) \<and> tiled lo (xs @ zs) hi
    | None \<Rightarrow> \<exists>p. allocate_loop sz al (fst x) ret h = Some (p, h) \<and>
        (p = ret \<and> (\<forall>q. \<not> candidate sz (x # ys) q) \<or> candidate sz (x # ys) p)"
  using assms
proof (induction ys arbitrary: xs x ret)
  case Nil
  obtain a s u where x: "x = (a, s, u)" by (cases x)
  note step = allocate_loop.simps [of sz al a ret h]
  show ?case
  proof (cases "seg_fit sz al x")
    case None
    with Nil try_block_none [of h xs a s u "[]" lo hi sz al ret] show ?thesis
      by (auto simp: x step heap_rep_mid)
  next
    case (Some r)
    with Nil try_block_fit [of h xs a s u "[]" lo hi sz al "fst r" "snd r" ret] show ?thesis
      by (cases r) (auto simp: x step)
  qed
next
  case (Cons y ys)
  obtain a s u where x: "x = (a, s, u)" by (cases x)
  note step = allocate_loop.simps [of sz al a ret h]
  show ?case
  proof (cases "seg_fit sz al x")
    case None
    let ?ret = "if \<not> u \<and> sz \<le> s then a + 16 else ret"
    have "allocate_loop sz al (fst x) ret h = allocate_loop sz al (fst y) ?ret h"
      using None Cons.prems try_block_none [of h xs a s u "y # ys" lo hi sz al ret]
      by (auto simp: x step heap_rep_mid)
    moreover have "heap_rep h ((xs @ [x]) @ y # ys)" "tiled lo ((xs @ [x]) @ y # ys) hi"
      using Cons.prems by simp_all
    note Cons.IH [OF this Cons.prems(3,4), of ?ret]
    ultimately show ?thesis
      using None by (auto simp: x split: option.splits)
  next
    case (Some r)
    with Cons.prems try_block_fit [of h xs a s u "y # ys" lo hi sz al "fst r" "snd r" ret]
    show ?thesis by (cases r) (auto simp: x step)
  qed
qed

lemma join_next_rep:
  assumes "heap_rep h (xs @ (a, s, False) # ys)" and "tiled lo (xs @ (a, s, False) # ys) hi"
    and "hi < 2 ^ 32"
  shows "\<exists>h'. do { b2 \<leftarrow> h a;
      (case bnext b2 of None \<Rightarrow> Some h
        | Some n \<Rightarrow> do {
            bn \<leftarrow> h n;
            if \<not> bused bn then map_option snd (merge a n h) else Some h }) } = Some h' \<and>
    heap_rep h' (xs @ seg_join ((a, s, False) # ys)) \<and>
    tiled lo (xs @ seg_join ((a, s, False) # ys)) hi"
proof (cases ys)
  case Nil
  with assms show ?thesis by (auto simp: heap_rep_mid)
next
  case (Cons y ys')
  obtain b t v where y: "y = (b, t, v)" by (cases y)
  have "\<exists>bn. h b = Some bn \<and> bused bn = v"
    using assms(1) by (auto simp: heap_rep_def Cons y seg_data_def)
  then show ?thesis
    using assms merge_rep [of h xs a s False b t v ys'] tiled_distinct [of lo "xs @ (a, s, False) # ys" hi]
      tiled_merge [of lo xs a s False b t v ys' hi False]
    by (auto simp: Cons y heap_rep_mid)
qed

lemma seg_free_mid:
  assumes "a \<notin> fst ` set xs"
  shows "seg_free a (xs @ (a, s, u) # ys) =
    (if xs \<noteq> [] \<and> \<not> seg_used (last xs) then
       butlast xs @ seg_join ((seg_addr (last xs), seg_size (last xs) + (s + 16), False) # ys)
     else xs @ seg_join ((a, s, False) # ys))"
  using assms
proof (induction xs rule: induct_list012)
  case 1
  then show ?case by (cases ys) auto
next
  case (2 x)
  then show ?case by (cases x) auto
next
  case (3 x y zs)
  then show ?case by (cases x; cases y; cases zs) auto
qed

lemma free_block_rep:
  assumes rep: "heap_rep h (xs @ (a, s, u) # ys)" and til: "tiled lo (xs @ (a, s, u) # ys) hi"
    and hi: "hi < 2 ^ 32"
  shows "\<exists>h'. free_block a h = Some h' \<and> heap_rep h' (seg_free a (xs @ (a, s, u) # ys)) \<and>
    tiled lo (seg_free a (xs @ (a, s, u) # ys)) hi"
proof -
  note til1 = tiled_used [OF til, of False]
  obtain h1 where h1: "set_used a False h = Some h1" "heap_rep h1 (xs @ (a, s, False) # ys)"
    using set_used_rep [OF rep tiled_distinct [OF til]] by blast
  have a: "a \<notin> fst ` set xs"
    using tiled_distinct [OF til] by auto
  obtain b where b: "h1 a = Some b" "bprev b = last_ptr None (map fst xs)"
    using h1(2) by (auto simp: heap_rep_mid)
  show ?thesis
  proof (cases "xs \<noteq> [] \<and> \<not> seg_used (last xs)")
    case False
    then have "(case bprev b of None \<Rightarrow> Some (Some a, h1)
        | Some p \<Rightarrow> do { bp \<leftarrow> h1 p; if \<not> bused bp then merge p a h1 else Some (Some a, h1) }) =
        Some (Some a, h1)"
      using h1(2) b(2)
      by (cases xs rule: rev_cases) (auto simp: heap_rep_def seg_data_def)
    with join_next_rep [OF h1(2) til1 hi] h1(1) b(1) seg_free_mid [OF a] False show ?thesis
      by (auto simp: free_block_def)
  next
    case True
    then obtain zs c t where xs: "xs = zs @ [(c, t, False)]"
      by (cases xs rule: rev_cases) auto
    have rep1: "heap_rep h1 (zs @ (c, t, False) # (a, s, False) # ys)"
      and til2: "tiled lo (zs @ (c, t, False) # (a, s, False) # ys) hi"
      using h1(2) til1 by (simp_all add: xs)
    obtain h2 where h2: "merge c a h1 = Some (Some c, h2)"
      "heap_rep h2 (zs @ (c, t + (s + 16), False) # ys)"
      using merge_rep [OF rep1 tiled_distinct [OF til2]] by blast
    have "(case bprev b of None \<Rightarrow> Some (Some a, h1)
        | Some p \<Rightarrow> do { bp \<leftarrow> h1 p; if \<not> bused bp then merge p a h1 else Some (Some a, h1) }) =
        Some (Some c, h2)"
      using rep1 h2(1) b(2) by (auto simp: xs heap_rep_mid)
    with join_next_rep [OF h2(2) tiled_merge [OF til2 hi] hi] h1(1) b(1) seg_free_mid [OF a] True
    show ?thesis by (auto simp: free_block_def xs)
  qed
qed

section \<open>What the segment operations do\<close>

text \<open>The segments in use are the live allocations of the heap.\<close>

definition live :: "seg list \<Rightarrow> seg list" where
  "live = filter seg_used"

lemma seg_alloc_split:
  "seg_alloc sz al segs = Some (p, zs) \<Longrightarrow>
     \<exists>xs x ws ys. segs = xs @ x # ys \<and> zs = xs @ ws @ ys \<and> seg_fit sz al x = Some (p, ws)"
proof (induction segs arbitrary: zs)
  case (Cons x segs)
  show ?case
  proof (cases "seg_fit sz al x")
    case None
    with Cons obtain zs' where zs': "seg_alloc sz al segs = Some (p, zs')" "zs = x # zs'"
      by auto
    from Cons.IH [OF zs'(1)] obtain xs y ws ys where
      "segs = xs @ y # ys \<and> zs' = xs @ ws @ ys \<and> seg_fit sz al y = Some (p, ws)"
      by blast
    then have "x # segs = (x # xs) @ y # ys \<and> zs = (x # xs) @ ws @ ys \<and> seg_fit sz al y = Some (p, ws)"
      using zs'(2) by simp
    then show ?thesis by blast
  next
    case (Some r)
    with Cons.prems have "x # segs = [] @ x # segs \<and> zs = [] @ snd r @ segs \<and>
        seg_fit sz al x = Some (p, snd r)"
      by (cases r) auto
    then show ?thesis by blast
  qed
qed simp

lemma seg_carve_live:
  assumes "sz \<le> s"
  shows "\<exists>t. live (seg_carve sz (a, s, u)) = [(a, t, True)] \<and> sz \<le> t"
  using assms by (auto simp: seg_carve_def live_def)

lemma seg_fit_aligned:
  assumes "seg_fit sz al (a, s, False) = None" and "sz \<le> s" and "unat a + 16 + unat s < 2 ^ 32"
    and "align_ok sz al"
  shows "\<not> unat al dvd unat (a + 16)"
proof
  assume dvd: "unat al dvd unat (a + 16)"
  obtain k where k: "k < 32" "al = 2 ^ k" "al \<le> sz"
    using assms(4) by (auto simp: align_ok_def)
  have "unat (a + 16) + 2 ^ k \<le> 2 ^ 32"
    using align_ok_offset(1) [OF assms(4,3,2)] assms(2,3) k by (simp add: word_le_nat_alt unat_pow2)
  from align_offset_pow2 [OF k(1) this] dvd
  have "2 ^ k dvd unat (align_offset (a + 16) al)" "unat (align_offset (a + 16) al) < 2 ^ k"
    by (simp_all add: k unat_pow2 dvd_add_right_iff)
  then have "align_offset (a + 16) al = 0"
    by (auto simp: unat_eq_0 [symmetric] elim: dvdE)
  with assms(1,2) show False by (auto simp: seg_fit_def not_less split: if_splits)
qed

lemma seg_alloc_none_unaligned:
  assumes "seg_alloc sz al segs = None" and "candidate sz segs p" and "tiled lo segs hi"
    and "hi < 2 ^ 32" and "align_ok sz al"
  shows "\<not> unat al dvd unat p"
  using assms(1-4)
proof (induction lo segs hi rule: tiled.induct)
  case (2 lo a s u segs hi)
  have b: "unat a + 16 + unat s < 2 ^ 32"
    using tiled_fits [OF 2(4,5), of a s u] by simp
  show ?case
  proof (cases "\<not> u \<and> sz \<le> s \<and> p = a + 16")
    case True
    with seg_fit_aligned [OF _ _ b assms(5)] 2(2) show ?thesis
      by (auto split: option.splits)
  next
    case False
    with 2 show ?thesis by (auto split: option.splits)
  qed
qed simp

lemma seg_fit_live:
  assumes fit: "seg_fit sz al (a, s, u) = Some (p, ws)" and bound: "unat a + 16 + unat s < 2 ^ 32"
    and ok: "align_ok sz al"
  shows "\<not> u \<and> (\<exists>t. live ws = [(p - 16, t, True)] \<and> sz \<le> t) \<and> unat al dvd unat p"
proof -
  let ?off = "align_offset (a + 16) al"
  have u: "\<not> u" "sz \<le> s"
    using fit by (auto simp: seg_fit_def Let_def not_less split: if_splits)
  note off = align_ok_offset [OF ok bound u(2)]
  have p16: "unat (a + 16 + ?off) = unat a + 16 + unat ?off"
    using off bound by (subst unat_add_small) simp_all
  show ?thesis
  proof (cases "?off = 0")
    case True
    then have "p = a + 16" "ws = seg_carve sz (a, s, u)"
      using fit by (auto simp: seg_fit_def Let_def split: if_splits)
    with seg_carve_live [OF u(2), of a u] u(1) off True show ?thesis by auto
  next
    case False
    then have p: "p = a + 16 + ?off" "ws = (a, ?off - 16, False) # seg_carve sz (a + ?off, s - ?off, False)"
      and room: "unat ?off + unat sz \<le> unat s"
      using fit by (auto simp: seg_fit_def Let_def split: if_splits)
    have "sz \<le> s - ?off"
      using room off(2) by (simp add: word_le_nat_alt unat_sub)
    from seg_carve_live [OF this, of "a + ?off" False] off(3) p16 u(1) show ?thesis
      by (auto simp: p live_def)
  qed
qed

lemma seg_alloc_live:
  assumes "seg_alloc sz al segs = Some (p, zs)" and til: "tiled lo segs hi" and hi: "hi < 2 ^ 32"
    and ok: "align_ok sz al"
  shows "\<exists>us vs t. live segs = us @ vs \<and> live zs = us @ (p - 16, t, True) # vs \<and> sz \<le> t \<and>
    unat al dvd unat p"
proof -
  obtain xs a s u ws ys where segs: "segs = xs @ (a, s, u) # ys" "zs = xs @ ws @ ys"
    "seg_fit sz al (a, s, u) = Some (p, ws)"
    using seg_alloc_split [OF assms(1)] by auto
  with seg_fit_live [OF segs(3) tiled_mid_bound [OF til [unfolded segs(1)] hi] ok] show ?thesis
    by (intro exI [of _ "live xs"] exI [of _ "live ys"]) (auto simp: live_def)
qed

lemma seg_carve_coalesced:
  assumes "coalesced ((a, s, False) # ys)"
  shows "coalesced (seg_carve sz (b, t, False) @ ys)"
  using assms by (cases ys) (auto simp: seg_carve_def)

lemma seg_alloc_coalesced:
  assumes "seg_alloc sz al segs = Some (p, zs)" and "coalesced segs"
  shows "coalesced zs"
proof -
  obtain xs a s u ws ys where segs: "segs = xs @ (a, s, u) # ys" "zs = xs @ ws @ ys"
    and fit: "seg_fit sz al (a, s, u) = Some (p, ws)"
    using seg_alloc_split [OF assms(1)] by auto
  have u: "\<not> u"
    using fit by (auto simp: seg_fit_def Let_def split: if_splits)
  have xs: "coalesced xs" "xs = [] \<or> seg_used (last xs)" "coalesced ((a, s, False) # ys)"
    using assms(2) u by (auto simp: segs coalesced_append)
  note c = seg_carve_coalesced [OF xs(3)]
  have hd: "seg_carve n q @ zs \<noteq> [] \<and> seg_used (hd (seg_carve n q @ zs))" for n q zs
    by (cases q) (auto simp: seg_carve_def)
  have cons: "coalesced ((x, y, False) # zs)" if "coalesced zs" "zs \<noteq> [] \<and> seg_used (hd zs)" for x y zs
    using that by (cases zs) auto
  have pre: "coalesced (xs @ zs)" if "coalesced zs" for zs
    using that xs(1,2) by (auto simp: coalesced_append)
  show ?thesis
    using fit u pre [OF c] pre [OF cons [OF c hd]]
    by (auto simp: segs seg_fit_def Let_def split: if_splits)
qed

lemma seg_carve_join:
  assumes "coalesced ((a, s, False) # ys)"
  shows "\<exists>t rest. seg_carve sz (b, m, u) = (b, t, True) # rest \<and>
    (\<forall>c k. seg_join ((c, k + t, False) # rest @ ys) = (c, k + m, False) # ys)"
proof -
  have "seg_join ((c, t, False) # ys) = (c, t, False) # ys" for c t
    using assms by (cases ys) auto
  then show ?thesis by (auto simp: seg_carve_def algebra_simps)
qed

text \<open>Releasing what was just allocated gives the list of segments back.\<close>

lemma seg_free_alloc:
  assumes "seg_alloc sz al segs = Some (p, zs)" and co: "coalesced segs"
    and til: "tiled lo zs hi"
  shows "seg_free (p - 16) zs = segs"
proof -
  obtain xs a s u ws ys where segs: "segs = xs @ (a, s, u) # ys" "zs = xs @ ws @ ys"
    and fit: "seg_fit sz al (a, s, u) = Some (p, ws)"
    using seg_alloc_split [OF assms(1)] by auto
  let ?off = "align_offset (a + 16) al"
  have u: "\<not> u"
    using fit by (auto simp: seg_fit_def Let_def not_less split: if_splits)
  have xs: "xs = [] \<or> seg_used (last xs)" and ys: "coalesced ((a, s, False) # ys)"
    using co u by (auto simp: segs coalesced_append)
  show ?thesis
  proof (cases "?off = 0")
    case True
    then have p: "p = a + 16" "ws = seg_carve sz (a, s, u)"
      using fit by (auto simp: seg_fit_def Let_def split: if_splits)
    from seg_carve_join [OF ys, of sz a s u] obtain t rest where
      t: "seg_carve sz (a, s, u) = (a, t, True) # rest"
        "seg_join ((a, 0 + t, False) # rest @ ys) = (a, 0 + s, False) # ys"
      by blast
    have "a \<notin> fst ` set xs"
      using tiled_distinct [OF til] by (auto simp: segs p t)
    from seg_free_mid [OF this, of t True "rest @ ys"] t xs u show ?thesis
      by (auto simp: segs p)
  next
    case False
    then have p: "p = a + 16 + ?off" "ws = (a, ?off - 16, False) # seg_carve sz (a + ?off, s - ?off, False)"
      using fit by (auto simp: seg_fit_def Let_def split: if_splits)
    from seg_carve_join [OF ys, of sz "a + ?off" "s - ?off" False] obtain t rest where
      t: "seg_carve sz (a + ?off, s - ?off, False) = (a + ?off, t, True) # rest"
        "seg_join ((a, ?off + t, False) # rest @ ys) = (a, ?off + (s - ?off), False) # ys"
      by blast
    let ?xs = "xs @ [(a, ?off - 16, False)]"
    have "a + ?off \<notin> fst ` set ?xs"
      using tiled_distinct [OF til] by (auto simp: segs p t)
    from seg_free_mid [OF this, of t True "rest @ ys"] t xs u show ?thesis
      by (auto simp: segs p)
  qed
qed

lemma seg_join_live: "live (seg_join ((a, s, False) # ys)) = live ys"
  by (cases ys) (auto simp: live_def)

lemma seg_free_cases:
  assumes "a \<notin> fst ` set xs"
  obtains (merge) zs c t where "xs = zs @ [(c, t, False)]"
      "seg_free a (xs @ (a, s, u) # ys) = zs @ seg_join ((c, t + (s + 16), False) # ys)"
  | (keep) "xs = [] \<or> seg_used (last xs)"
      "seg_free a (xs @ (a, s, u) # ys) = xs @ seg_join ((a, s, False) # ys)"
proof (cases "xs \<noteq> [] \<and> \<not> seg_used (last xs)")
  case True
  then obtain zs c t where z: "xs = zs @ [(c, t, False)]"
    by (cases xs rule: rev_cases) auto
  from True have "seg_free a (xs @ (a, s, u) # ys) =
      butlast xs @ seg_join ((seg_addr (last xs), seg_size (last xs) + (s + 16), False) # ys)"
    by (simp add: seg_free_mid [OF assms])
  with z merge show thesis by simp
next
  case False
  with keep seg_free_mid [OF assms, of s u ys] show thesis by simp
qed

lemma seg_free_live:
  assumes "a \<notin> fst ` set xs"
  shows "live (seg_free a (xs @ (a, s, u) # ys)) = live xs @ live ys"
proof (rule seg_free_cases [OF assms, of s u ys])
  fix zs c t
  assume merge: "xs = zs @ [(c, t, False)]"
    "seg_free a (xs @ (a, s, u) # ys) = zs @ seg_join ((c, t + (s + 16), False) # ys)"
  have "live (zs @ seg_join ((c, t + (s + 16), False) # ys)) = live zs @ live ys"
    using seg_join_live [of c _ ys] by (simp add: live_def)
  with merge show ?thesis by (simp add: live_def)
next
  assume "xs = [] \<or> seg_used (last xs)"
    "seg_free a (xs @ (a, s, u) # ys) = xs @ seg_join ((a, s, False) # ys)"
  with seg_join_live [of a s ys] show ?thesis by (simp add: live_def)
qed

lemma seg_join_coalesced:
  assumes "coalesced ys"
  shows "coalesced (seg_join ((a, s, False) # ys))"
proof (cases ys)
  case (Cons y zs)
  with assms show ?thesis by (cases y; cases zs) auto
qed simp

lemma seg_free_coalesced:
  assumes "coalesced (xs @ (a, s, u) # ys)" and "a \<notin> fst ` set xs"
  shows "coalesced (seg_free a (xs @ (a, s, u) # ys))"
proof -
  have ys: "coalesced ys" and xs: "coalesced xs"
    using assms(1) by (cases ys; auto simp: coalesced_append)+
  show ?thesis
  proof (rule seg_free_cases [OF assms(2), of s u ys])
    fix zs c t
    assume merge: "xs = zs @ [(c, t, False)]"
      "seg_free a (xs @ (a, s, u) # ys) = zs @ seg_join ((c, t + (s + 16), False) # ys)"
    have "coalesced (zs @ seg_join ((c, t + (s + 16), False) # ys))"
      using xs seg_join_coalesced [OF ys] by (auto simp: merge(1) coalesced_append)
    with merge show ?thesis by simp
  next
    assume "xs = [] \<or> seg_used (last xs)"
      "seg_free a (xs @ (a, s, u) # ys) = xs @ seg_join ((a, s, False) # ys)"
    with xs seg_join_coalesced [OF ys] show ?thesis by (auto simp: coalesced_append)
  qed
qed

text \<open>The areas of two different segments do not overlap.\<close>

lemma tiled_disjoint:
  assumes "tiled lo segs hi" and "i < j" and "j < length segs"
  shows "unat (seg_addr (segs ! i)) + 16 + unat (seg_size (segs ! i)) \<le> unat (seg_addr (segs ! j))"
  using assms
proof (induction lo segs hi arbitrary: i j rule: tiled.induct)
  case (2 lo a s u segs hi)
  obtain k where j: "j = Suc k" using 2(3) by (cases j) auto
  show ?case
  proof (cases i)
    case 0
    obtain b t v where k: "segs ! k = (b, t, v)" by (cases "segs ! k")
    then have "(b, t, v) \<in> set segs"
      using 2(4) j nth_mem [of k segs] by simp
    with 2(2) tiled_addr [of "lo + 16 + unat s" segs hi b t v] show ?thesis
      by (simp add: 0 j k)
  next
    case (Suc m)
    with 2 j show ?thesis by simp
  qed
qed simp

end
