(* ===== verification/Static_Kstack.thy ===== *)
theory Static_Kstack
  imports Prelude
begin

text \<open>
  The stack with preallocated space of \<open>kernel/static_kstack.h\<close>, an implementation of the
  interface \<open>kstack\<close> of \<open>kernel/kstack.h\<close>. The interface is the locale \<open>bounded_stack\<close>,
  whose laws are those of a stack that has room for a number of elements fixed when it is
  made; the array implementation is its interpretation \<open>sks\<close>. The memory manager keeps
  its free pages in such a stack.
\<close>

section \<open>The array and its operations\<close>

record 'a static_kstack =
  capacity :: int
  current_top :: int
  memory_space :: "'a option list"

definition in_space :: "'a static_kstack \<Rightarrow> int \<Rightarrow> bool" where
  "in_space s i \<longleftrightarrow> 0 \<le> i \<and> nat i < length (memory_space s)"

text \<open>The constructor zeroes the elements from index 1 on; element 0 has no value yet.\<close>

definition static_kstack_new :: "int \<Rightarrow> 'a :: zero static_kstack" where
  "static_kstack_new cap =
     \<lparr>capacity = cap, current_top = - 1,
      memory_space = (case nat cap of 0 \<Rightarrow> [] | Suc n \<Rightarrow> None # replicate n (Some 0))\<rparr>"

definition stack_push :: "'a \<Rightarrow> 'a static_kstack \<Rightarrow> 'a static_kstack option" where
  "stack_push d s =
     (let top = current_top s + 1 in
      if in_space s top then
        Some (s\<lparr>current_top := top, memory_space := (memory_space s)[nat top := Some d]\<rparr>)
      else None)"

definition stack_peek :: "'a static_kstack \<Rightarrow> 'a option" where
  "stack_peek s = (if in_space s (current_top s) then memory_space s ! nat (current_top s) else None)"

definition stack_pop :: "'a static_kstack \<Rightarrow> ('a \<times> 'a static_kstack) option" where
  "stack_pop s = do {
     d \<leftarrow> stack_peek s;
     Some (d, s\<lparr>current_top := current_top s - 1\<rparr>) }"

definition stack_clear :: "'a static_kstack \<Rightarrow> 'a static_kstack" where
  "stack_clear s = s\<lparr>current_top := - 1\<rparr>"

definition stack_is_empty :: "'a static_kstack \<Rightarrow> bool" where
  "stack_is_empty s \<longleftrightarrow> current_top s = - 1"

section \<open>The contract of a bounded stack\<close>

text \<open>Pushing the elements of a list one after the other, and popping a number of elements.\<close>

fun push_all :: "('a \<Rightarrow> 's \<Rightarrow> 's option) \<Rightarrow> 'a list \<Rightarrow> 's \<Rightarrow> 's option" where
  "push_all push [] s = Some s"
| "push_all push (d # ds) s = do { s' \<leftarrow> push d s; push_all push ds s' }"

fun pop_many :: "('s \<Rightarrow> ('a \<times> 's) option) \<Rightarrow> nat \<Rightarrow> 's \<Rightarrow> ('a list \<times> 's) option" where
  "pop_many pop 0 s = Some ([], s)"
| "pop_many pop (Suc k) s =
     do { (d, s1) \<leftarrow> pop s; (ds, s2) \<leftarrow> pop_many pop k s1; Some (d # ds, s2) }"

text \<open>\<open>rep s n xs\<close>: the stack has room for \<open>n\<close> elements and holds \<open>xs\<close>, top first.\<close>

locale bounded_stack =
  fixes rep :: "'s \<Rightarrow> nat \<Rightarrow> 'a list \<Rightarrow> bool"
    and push :: "'a \<Rightarrow> 's \<Rightarrow> 's option"
    and pop :: "'s \<Rightarrow> ('a \<times> 's) option"
    and peek :: "'s \<Rightarrow> 'a option"
    and is_empty :: "'s \<Rightarrow> bool"
  assumes rep_length: "rep s n xs \<Longrightarrow> length xs \<le> n"
    and push_room: "rep s n xs \<Longrightarrow> length xs < n \<Longrightarrow> \<exists>s'. push d s = Some s' \<and> rep s' n (d # xs)"
    and push_full: "rep s n xs \<Longrightarrow> length xs = n \<Longrightarrow> push d s = None"
    and pop_top: "rep s n (x # xs) \<Longrightarrow> \<exists>s'. pop s = Some (x, s') \<and> rep s' n xs"
    and pop_nothing: "rep s n [] \<Longrightarrow> pop s = None"
    and peek_top: "rep s n (x # xs) \<Longrightarrow> peek s = Some x"
    and is_empty_iff: "rep s n xs \<Longrightarrow> is_empty s \<longleftrightarrow> xs = []"
begin

lemma push_all_room:
  assumes "rep s n xs" and "length xs + length ds \<le> n"
  shows "\<exists>s'. push_all push ds s = Some s' \<and> rep s' n (rev ds @ xs)"
  using assms
proof (induction ds arbitrary: s xs)
  case (Cons d ds)
  then obtain s1 where s1: "push d s = Some s1" "rep s1 n (d # xs)"
    using push_room [of s n xs d] by auto
  with Cons.IH [OF s1(2)] Cons.prems(2) show ?case by simp
qed simp

lemma push_all_overflow:
  assumes "rep s n xs" and "n < length xs + length ds"
  shows "push_all push ds s = None"
  using assms
proof (induction ds arbitrary: s xs)
  case Nil
  then show ?case using rep_length [of s n xs] by simp
next
  case (Cons d ds)
  show ?case
  proof (cases "length xs = n")
    case True
    then show ?thesis using push_full [OF Cons.prems(1)] by simp
  next
    case False
    then obtain s1 where "push d s = Some s1" "rep s1 n (d # xs)"
      using push_room [OF Cons.prems(1)] rep_length [OF Cons.prems(1)] by force
    with Cons show ?thesis by simp
  qed
qed

lemma pop_many_top:
  "rep s n (ds @ xs) \<Longrightarrow> \<exists>s'. pop_many pop (length ds) s = Some (ds, s') \<and> rep s' n xs"
proof (induction ds arbitrary: s)
  case (Cons d ds)
  then obtain s1 where s1: "pop s = Some (d, s1)" "rep s1 n (ds @ xs)"
    using pop_top [of s n d "ds @ xs"] by auto
  with Cons.IH [OF s1(2)] show ?case by auto
qed simp

lemma push_pop_all:
  assumes "rep s n xs" and "length xs + length ds \<le> n"
  shows "\<exists>s1 s2. push_all push ds s = Some s1 \<and> pop_many pop (length ds) s1 = Some (rev ds, s2) \<and> rep s2 n xs"
  using push_all_room [OF assms] pop_many_top [of _ n "rev ds" xs] by fastforce

end

section \<open>The array stack keeps the contract\<close>

definition stack_rep :: "'a static_kstack \<Rightarrow> nat \<Rightarrow> 'a list \<Rightarrow> bool" where
  "stack_rep s n xs \<longleftrightarrow> length (memory_space s) = n \<and> length xs \<le> n \<and>
     current_top s = int (length xs) - 1 \<and>
     take (length xs) (memory_space s) = map Some (rev xs)"

lemma stack_rep_top:
  assumes "stack_rep s n (x # xs)"
  shows "memory_space s ! length xs = Some x" and "stack_rep (s\<lparr>current_top := int (length xs) - 1\<rparr>) n xs"
proof -
  have len: "length xs < length (memory_space s)"
    and tk: "take (Suc (length xs)) (memory_space s) = map Some (rev xs) @ [Some x]"
    using assms by (auto simp: stack_rep_def)
  from tk have "take (length xs) (memory_space s) @ [memory_space s ! length xs] =
      map Some (rev xs) @ [Some x]"
    using len by (simp add: take_Suc_conv_app_nth)
  then show "memory_space s ! length xs = Some x"
    "stack_rep (s\<lparr>current_top := int (length xs) - 1\<rparr>) n xs"
    using assms by (auto simp: stack_rep_def)
qed

lemma stack_push_rep:
  assumes "stack_rep s n xs" and "length xs < n"
  shows "\<exists>s'. stack_push d s = Some s' \<and> stack_rep s' n (d # xs)"
proof -
  have "take (Suc (length xs)) ((memory_space s)[length xs := Some d]) =
      map Some (rev xs) @ [Some d]"
    using assms by (simp add: stack_rep_def take_Suc_conv_app_nth)
  then show ?thesis
    using assms by (auto simp: stack_rep_def stack_push_def Let_def in_space_def)
qed

interpretation sks: bounded_stack stack_rep stack_push stack_pop stack_peek stack_is_empty
proof unfold_locales
  fix s :: "'a static_kstack" and n xs d x
  show "stack_rep s n xs \<Longrightarrow> length xs \<le> n"
    by (simp add: stack_rep_def)
  show "stack_rep s n xs \<Longrightarrow> length xs < n \<Longrightarrow> \<exists>s'. stack_push d s = Some s' \<and> stack_rep s' n (d # xs)"
    by (rule stack_push_rep)
  show "stack_rep s n xs \<Longrightarrow> length xs = n \<Longrightarrow> stack_push d s = None"
    by (simp add: stack_rep_def stack_push_def Let_def in_space_def)
  show "stack_rep s n [] \<Longrightarrow> stack_pop s = None"
    by (simp add: stack_rep_def stack_pop_def stack_peek_def in_space_def)
  show "stack_rep s n xs \<Longrightarrow> stack_is_empty s \<longleftrightarrow> xs = []"
    by (auto simp: stack_rep_def stack_is_empty_def)
  show peek: "stack_peek s = Some x" if "stack_rep s n (x # xs)"
    using that stack_rep_top(1) [OF that]
    by (auto simp: stack_peek_def in_space_def stack_rep_def)
  show "\<exists>s'. stack_pop s = Some (x, s') \<and> stack_rep s' n xs" if "stack_rep s n (x # xs)"
    using that stack_rep_top(2) [OF that] peek [OF that]
    by (auto simp: stack_pop_def stack_rep_def)
qed

lemma stack_new_rep: "0 \<le> cap \<Longrightarrow> stack_rep (static_kstack_new cap) (nat cap) []"
  by (auto simp: stack_rep_def static_kstack_new_def split: nat.splits)

lemma stack_clear_rep: "stack_rep s n xs \<Longrightarrow> stack_rep (stack_clear s) n []"
  by (simp add: stack_rep_def stack_clear_def)

text \<open>
  The stack made for a number of elements gives them back last in, first out, and a push
  beyond that number writes outside the array: pushing any list of at most that many
  elements and popping as many returns the list reversed and leaves the stack empty, while
  pushing a longer list is a fault.
\<close>

theorem static_kstack_lifo:
  assumes "0 \<le> cap"
  shows "if length ds \<le> nat cap then
      \<exists>s1 s2. push_all stack_push ds (static_kstack_new cap) = Some s1 \<and>
        pop_many stack_pop (length ds) s1 = Some (rev ds, s2) \<and> stack_is_empty s2 \<and>
        stack_pop s2 = None
    else push_all stack_push ds (static_kstack_new cap) = None"
proof (cases "length ds \<le> nat cap")
  case True
  then obtain s1 s2 where "push_all stack_push ds (static_kstack_new cap) = Some s1"
    "pop_many stack_pop (length ds) s1 = Some (rev ds, s2)" "stack_rep s2 (nat cap) []"
    using sks.push_pop_all [OF stack_new_rep [OF assms], of ds] by auto
  then show ?thesis
    using True sks.is_empty_iff sks.pop_nothing by fastforce
next
  case False
  then show ?thesis
    using sks.push_all_overflow [OF stack_new_rep [OF assms], of ds] by simp
qed

theorem static_kstack_lifo_witness:
  "(\<exists>s1 s2. push_all stack_push [7, 8 :: u32] (static_kstack_new 2) = Some s1 \<and>
     pop_many stack_pop 2 s1 = Some ([8, 7], s2) \<and> stack_is_empty s2 \<and> stack_pop s2 = None) \<and>
   push_all stack_push [7, 8, 9 :: u32] (static_kstack_new 2) = None"
  using static_kstack_lifo [of 2 "[7, 8 :: u32]"] static_kstack_lifo [of 2 "[7, 8, 9 :: u32]"]
  by (simp add: numeral_2_eq_2)

end
