(* ===== verification/Mm.thy ===== *)
theory Mm
  imports Heap_Blocks Static_Kstack
begin

text \<open>
  The memory manager of \<open>kernel/mm.cpp\<close>: \<open>allocate\<close> and \<open>free\<close> on the kernel heap, the
  allocation of memory before the heap exists, the stack of free pages, and the operators
  \<open>new\<close> and \<open>delete\<close> that call them. \<open>initialize\<close> needs the translation tables and is in
  the theory \<open>Mm_Init\<close>. The bytes of the memory are a total function; the headers of the
  heap blocks, which the code keeps in the same memory, are a map of their own.
\<close>

unbundle bit_operations_syntax

section \<open>State\<close>

record mm =
  blocks :: heap
  ram :: "u32 \<Rightarrow> u8"
  first_block :: "u32 option"
  page_stack :: "u32 static_kstack option"
  ramsize :: u32
  sdrc_base :: u32
  kernel_data_end :: u32
  kernel_dataspace_end :: u32
  initialization_completed :: bool
  page_stack_initialized :: bool

definition get_ramsize :: "mm \<Rightarrow> u32" where
  "get_ramsize m = ramsize m"

section \<open>Allocation\<close>

text \<open>The loop that clears \<open>n\<close> bytes from the byte number \<open>i\<close> on.\<close>

primrec zero_loop :: "nat \<Rightarrow> u32 \<Rightarrow> u32 \<Rightarrow> (u32 \<Rightarrow> u8) \<Rightarrow> u32 \<Rightarrow> u8" where
  "zero_loop 0 base i r = r"
| "zero_loop (Suc n) base i r = zero_loop n base (i + 1) (r(base + i := 0))"

definition round_size :: "u32 \<Rightarrow> u32" where
  "round_size sz = (sz + 3) AND 0xfffffffc"

definition early_allocate :: "u32 \<Rightarrow> u32 \<Rightarrow> mm \<Rightarrow> u32 \<times> mm" where
  "early_allocate sz alignment m =
     (let return_address = kernel_data_end m;
          return_address' =
            (if return_address AND NOT (mask_left alignment) \<noteq> 0
             then (return_address + (alignment - 1)) AND mask_left alignment
             else return_address)
      in (return_address',
          m\<lparr>kernel_data_end := return_address' + sz,
            ram := zero_loop (unat sz) return_address' 0 (ram m)\<rparr>))"

definition mm_allocate :: "u32 \<Rightarrow> u32 \<Rightarrow> mm \<Rightarrow> (u32 \<times> mm) option" where
  "mm_allocate req alignment m =
     (if req = 0 then Some (0, m)
      else
        let sz = round_size req in
        if \<not> initialization_completed m then Some (early_allocate sz alignment m)
        else do {
          first \<leftarrow> first_block m;
          (p, h) \<leftarrow> allocate_loop sz alignment first 0 (blocks m);
          Some (p, m\<lparr>blocks := h\<rparr>) })"

definition mm_free :: "u32 \<Rightarrow> mm \<Rightarrow> mm option" where
  "mm_free memory_block m =
     (if memory_block = 0 then Some m
      else do {
        h \<leftarrow> free_block (memory_block - sizeof_block) (blocks m);
        Some (m\<lparr>blocks := h\<rparr>) })"

definition operator_new :: "u32 \<Rightarrow> mm \<Rightarrow> (u32 \<times> mm) option" where
  "operator_new sz m = mm_allocate sz 4 m"

definition operator_new_aligned :: "u32 \<Rightarrow> u32 \<Rightarrow> mm \<Rightarrow> (u32 \<times> mm) option" where
  "operator_new_aligned sz alignment m = mm_allocate sz alignment m"

definition operator_delete :: "u32 \<Rightarrow> mm \<Rightarrow> mm option" where
  "operator_delete block m = mm_free block m"

section \<open>Pages\<close>

definition allocate_page :: "mm \<Rightarrow> (u32 \<times> mm) option" where
  "allocate_page m =
     (if \<not> page_stack_initialized m then Some (kernel_dataspace_end m, m)
      else do {
        st \<leftarrow> page_stack m;
        if \<not> stack_is_empty st then do {
          (p, st') \<leftarrow> stack_pop st;
          Some (p, m\<lparr>page_stack := Some st'\<rparr>) }
        else Some (0, m) })"

definition free_page :: "u32 \<Rightarrow> mm \<Rightarrow> mm option" where
  "free_page page m = do {
     st \<leftarrow> page_stack m;
     st' \<leftarrow> stack_push page st;
     Some (m\<lparr>page_stack := Some st'\<rparr>) }"

section \<open>The heap invariant\<close>

text \<open>
  After initialisation the heap is a list of blocks that tile the addresses from \<open>lo\<close> to
  \<open>hi\<close>, with addresses and sizes that are multiples of four and no two unused neighbours.
\<close>

definition words :: "seg list \<Rightarrow> bool" where
  "words = list_all (\<lambda>(a, s, u). 4 dvd unat a \<and> 4 dvd unat s)"

definition mm_heap :: "mm \<Rightarrow> nat \<Rightarrow> seg list \<Rightarrow> nat \<Rightarrow> bool" where
  "mm_heap m lo segs hi \<longleftrightarrow> initialization_completed m \<and> segs \<noteq> [] \<and>
     first_block m = Some (seg_addr (hd segs)) \<and> heap_rep (blocks m) segs \<and>
     tiled lo segs hi \<and> hi < 2 ^ 32 \<and> coalesced segs \<and> words segs"

text \<open>A request the allocator can serve: not empty, not close to \<open>2^32\<close>, aligned to a power of two.\<close>

definition request_ok :: "u32 \<Rightarrow> u32 \<Rightarrow> bool" where
  "request_ok sz al \<longleftrightarrow> 0 < sz \<and> unat sz \<le> 2 ^ 32 - 4 \<and> align_ok (round_size sz) al"

lemma round_size_unat:
  assumes "unat sz \<le> 2 ^ 32 - 4"
  shows "unat (round_size sz) = (unat sz + 3) div 4 * 4"
proof -
  have "unat (sz + 3) = unat sz + 3"
    using assms by (subst unat_add_small) simp_all
  moreover have "(0xfffffffc :: u32) = NOT (mask 2)"
    by (simp add: mask_eq_decr_exp)
  ultimately have "unat (round_size sz) = (unat sz + 3) - (unat sz + 3) mod 2 ^ 2"
    using unat_and_not_mask [of "sz + 3" 2] by (simp add: round_size_def)
  then show ?thesis
    by (simp add: minus_mod_eq_div_mult)
qed

lemma round_size_ok:
  assumes "unat sz \<le> 2 ^ 32 - 4"
  shows "sz \<le> round_size sz" and "4 dvd unat (round_size sz)" and "unat (round_size sz) < unat sz + 4"
  using round_size_unat [OF assms] by (auto simp: word_le_nat_alt)

lemma words_append [simp]: "words (xs @ ys) \<longleftrightarrow> words xs \<and> words ys"
  by (simp add: words_def)

lemma words_simps [simp]:
  "words []" "words ((a, s, u) # xs) \<longleftrightarrow> 4 dvd unat a \<and> 4 dvd unat s \<and> words xs"
  by (simp_all add: words_def)

lemma dvd4_unat: "4 dvd unat (x :: u32) \<longleftrightarrow> 4 dvd x"
proof -
  have "take_bit 2 x = 0 \<longleftrightarrow> unat (take_bit 2 x) = 0"
    by (simp add: unat_eq_0)
  then show ?thesis
    by (simp add: unsigned_take_bit_eq take_bit_eq_0_iff)
qed

lemma dvd4_arith:
  fixes a b :: u32
  assumes "4 dvd unat a" and "4 dvd unat b"
  shows "4 dvd unat (a + b)" and "4 dvd unat (a - b)"
  using assms by (simp_all add: dvd4_unat)

lemma align_offset_words:
  assumes "4 dvd unat (x :: u32)" and "k < 32" and "unat x + 2 ^ k \<le> 2 ^ 32"
  shows "4 dvd unat (align_offset x (2 ^ k))"
proof (cases "2 \<le> k")
  case True
  then have "(2 :: nat) ^ 2 dvd 2 ^ k" by (rule le_imp_power_dvd)
  then have "4 dvd unat x + unat (align_offset x (2 ^ k))"
    using align_offset_pow2(2) [OF assms(2,3)] dvd_trans by fastforce
  with assms(1) show ?thesis by (simp add: dvd_add_right_iff)
next
  case False
  then consider "k = 0" | "k = 1" by linarith
  then show ?thesis
  proof cases
    case 1
    then show ?thesis using align_offset_pow2(1) [OF assms(2,3)] by simp
  next
    case 2
    with assms(1) have "even (unat x)" by (auto elim: dvdE)
    with 2 align_offset_pow2 [OF assms(2,3)] have "even (unat (align_offset x 2))" "unat (align_offset x 2) < 2"
      by simp_all
    then have "unat (align_offset x 2) = 0" by presburger
    with 2 show ?thesis by simp
  qed
qed

lemma align_offset_4:
  assumes "4 dvd unat (x :: u32)" and "unat x + 4 \<le> 2 ^ 32"
  shows "align_offset x 4 = 0"
proof -
  have "4 dvd unat (align_offset x (2 ^ 2))" "unat (align_offset x (2 ^ 2)) < 2 ^ 2"
    using align_offset_words [of x 2] align_offset_pow2 [of 2 x] assms by simp_all
  then have "unat (align_offset x 4) = 0" by (auto elim: dvdE)
  then show ?thesis by (simp add: unat_eq_0)
qed

lemma seg_carve_words:
  "4 dvd unat a \<Longrightarrow> 4 dvd unat s \<Longrightarrow> 4 dvd unat sz \<Longrightarrow> words (seg_carve sz (a, s, u))"
  by (auto simp: seg_carve_def intro!: dvd4_arith)

lemma seg_alloc_words:
  assumes "seg_alloc sz al segs = Some (p, zs)" and "words segs" and "4 dvd unat sz"
    and "align_ok sz al" and til: "tiled lo segs hi" and hi: "hi < 2 ^ 32"
  shows "words zs"
proof -
  obtain xs a s u ws ys where segs: "segs = xs @ (a, s, u) # ys" "zs = xs @ ws @ ys"
    and fit: "seg_fit sz al (a, s, u) = Some (p, ws)"
    using seg_alloc_split [OF assms(1)] by auto
  obtain k where k: "k < 32" "al = 2 ^ k" "al \<le> sz"
    using assms(4) by (auto simp: align_ok_def)
  have sz: "sz \<le> s"
    using fit by (auto simp: seg_fit_def Let_def not_less split: if_splits)
  have b: "unat a + 16 + unat s < 2 ^ 32"
    using tiled_mid_bound [OF til [unfolded segs] hi] .
  have a16: "unat (a + 16) = unat a + 16"
    using b by (subst unat_add_small) simp_all
  have "2 ^ k \<le> unat s"
    using k sz by (simp add: word_le_nat_alt unat_pow2)
  then have "4 dvd unat (align_offset (a + 16) al)"
    using align_offset_words [of "a + 16" k] assms(2) k b a16 by (simp add: segs)
  with fit assms(2,3) show ?thesis
    by (auto simp: segs seg_fit_def Let_def intro!: seg_carve_words dvd4_arith split: if_splits)
qed

lemma seg_join_words: "words ((a, s, u) # ys) \<Longrightarrow> words (seg_join ((a, s, u) # ys))"
  by (cases ys) (auto intro!: dvd4_arith)

lemma seg_free_words:
  assumes "words (xs @ (a, s, u) # ys)" and "a \<notin> fst ` set xs"
  shows "words (seg_free a (xs @ (a, s, u) # ys))"
proof (rule seg_free_cases [OF assms(2), of s u ys])
  fix zs c t
  assume "xs = zs @ [(c, t, False)]"
    "seg_free a (xs @ (a, s, u) # ys) = zs @ seg_join ((c, t + (s + 16), False) # ys)"
  with assms(1) show ?thesis by (auto intro!: seg_join_words dvd4_arith)
next
  assume "seg_free a (xs @ (a, s, u) # ys) = xs @ seg_join ((a, s, False) # ys)"
  with assms(1) show ?thesis by (auto intro!: seg_join_words)
qed

section \<open>The heap operations on the memory manager\<close>

lemma tiled_hd: "tiled lo segs hi \<Longrightarrow> segs \<noteq> [] \<Longrightarrow> unat (seg_addr (hd segs)) = lo"
  by (cases segs) auto

lemma mm_heap_update:
  assumes "mm_heap m lo segs hi" and "heap_rep h zs" and "tiled lo zs hi" and "coalesced zs"
    and "words zs" and "zs \<noteq> []"
  shows "mm_heap (m\<lparr>blocks := h\<rparr>) lo zs hi"
proof -
  have "unat (seg_addr (hd zs)) = unat (seg_addr (hd segs))"
    using assms tiled_hd by (auto simp: mm_heap_def)
  then have "seg_addr (hd zs) = seg_addr (hd segs)" by (simp only: word_unat_eq_iff)
  with assms show ?thesis by (simp add: mm_heap_def)
qed

lemma mm_allocate_heap:
  "mm_heap m lo segs hi \<Longrightarrow> 0 < sz \<Longrightarrow> mm_allocate sz al m =
     map_option (\<lambda>(p, h). (p, m\<lparr>blocks := h\<rparr>))
       (allocate_loop (round_size sz) al (seg_addr (hd segs)) 0 (blocks m))"
  by (cases "allocate_loop (round_size sz) al (seg_addr (hd segs)) 0 (blocks m)")
    (auto simp: mm_allocate_def mm_heap_def Let_def)

lemma mm_allocate_rep:
  assumes heap: "mm_heap m lo segs hi" and ok: "request_ok sz al"
  shows "case seg_alloc (round_size sz) al segs of
      Some (p, zs) \<Rightarrow> \<exists>m'. mm_allocate sz al m = Some (p, m') \<and> mm_heap m' lo zs hi
    | None \<Rightarrow> \<exists>p. mm_allocate sz al m = Some (p, m) \<and> 
      (p = 0 \<and> (\<forall>q. \<not> candidate (round_size sz) segs q) \<or> candidate (round_size sz) segs p)"
proof -
  obtain x ys where segs: "segs = x # ys" using heap by (cases segs) (auto simp: mm_heap_def)
  have h: "heap_rep (blocks m) ([] @ x # ys)" "tiled lo ([] @ x # ys) hi" "hi < 2 ^ 32"
    and al: "align_ok (round_size sz) al" and sz: "0 < sz"
    using heap ok by (simp_all add: mm_heap_def request_ok_def segs)
  note mm = mm_allocate_heap [OF heap sz, of al]
  show ?thesis
  proof (cases "seg_alloc (round_size sz) al segs")
    case None
    with allocate_loop_rep [OF h al, of 0] show ?thesis
      by (auto simp: mm segs)
  next
    case (Some r)
    obtain p zs where r: "r = (p, zs)" by (cases r)
    from Some allocate_loop_rep [OF h al, of 0] obtain h' where
      h': "allocate_loop (round_size sz) al (fst x) 0 (blocks m) = Some (p, h')"
        "heap_rep h' zs" "tiled lo zs hi"
      by (auto simp: segs r)
    have alloc: "seg_alloc (round_size sz) al segs = Some (p, zs)"
      using Some r by simp
    have til: "tiled lo segs hi" "coalesced segs" "words segs"
      using heap by (simp_all add: mm_heap_def)
    have "4 dvd unat (round_size sz)"
      using ok round_size_ok(2) by (simp add: request_ok_def)
    note zs = seg_alloc_coalesced [OF alloc til(2)] seg_alloc_words [OF alloc til(3) this al til(1) h(3)]
    have "zs \<noteq> []"
      using seg_alloc_live [OF alloc til(1) h(3) al] by (auto simp: live_def)
    from mm_heap_update [OF heap h'(2,3) zs this] h'(1) show ?thesis
      unfolding Some r by (simp add: mm segs)
  qed
qed

lemma mm_free_rep:
  assumes heap: "mm_heap m lo (xs @ (a, s, u) # ys) hi"
  shows "\<exists>m'. mm_free (a + 16) m = Some m' \<and> mm_heap m' lo (seg_free a (xs @ (a, s, u) # ys)) hi"
proof -
  let ?segs = "xs @ (a, s, u) # ys"
  have h: "heap_rep (blocks m) ?segs" "tiled lo ?segs hi" "hi < 2 ^ 32" "coalesced ?segs" "words ?segs"
    using heap by (simp_all add: mm_heap_def)
  have a: "a \<notin> fst ` set xs"
    using tiled_distinct [OF h(2)] by auto
  have "unat (a + 16) = unat a + 16"
    using tiled_mid_bound [OF h(2,3)] by (subst unat_add_small) simp_all
  then have "a + 16 \<noteq> 0" by (auto simp: unat_eq_0 [symmetric])
  obtain h' where h': "free_block a (blocks m) = Some h'" "heap_rep h' (seg_free a ?segs)"
    "tiled lo (seg_free a ?segs) hi"
    using free_block_rep [OF h(1,2,3)] by blast
  have "seg_free a ?segs \<noteq> []"
    by (rule seg_free_cases [OF a, of s u ys]) (cases ys; auto split: if_splits)+
  from mm_heap_update [OF heap h'(2,3) seg_free_coalesced [OF h(4) a] seg_free_words [OF h(5) a] this]
  show ?thesis
    using h'(1) \<open>a + 16 \<noteq> 0\<close> by (simp add: mm_free_def sizeof_block_def)
qed

section \<open>What allocation and release guarantee\<close>

definition has_room :: "u32 \<Rightarrow> seg list \<Rightarrow> bool" where
  "has_room sz segs \<longleftrightarrow> (\<exists>(a, s, u) \<in> set segs. \<not> u \<and> round_size sz \<le> s)"

text \<open>\<open>p\<close> is the address of one more allocation, of at least \<open>sz\<close> bytes.\<close>

definition adds_live :: "u32 \<Rightarrow> u32 \<Rightarrow> seg list \<Rightarrow> seg list \<Rightarrow> bool" where
  "adds_live p sz segs segs' \<longleftrightarrow> (\<exists>us vs t. live segs = us @ vs \<and>
     live segs' = us @ (p - 16, t, True) # vs \<and> sz \<le> t)"

lemma seg_fit_default:
  assumes "4 dvd unat a" and "unat a + 16 + unat s < 2 ^ 32" and "align_ok sz 4"
  shows "seg_fit sz 4 (a, s, u) = None \<longleftrightarrow> u \<or> s < sz"
proof (cases "u \<or> s < sz")
  case False
  then have "4 \<le> unat s"
    using assms(3) by (simp add: align_ok_def word_le_nat_alt not_less)
  moreover have a16: "unat (a + 16) = unat a + 16"
    using assms(2) by (subst unat_add_small) simp_all
  ultimately have "align_offset (a + 16) 4 = 0"
    using assms by (intro align_offset_4) simp_all
  with False show ?thesis by (simp add: seg_fit_def)
qed (auto simp: seg_fit_def)

lemma seg_alloc_default:
  assumes "words segs" and "tiled lo segs hi" and "hi < 2 ^ 32" and "align_ok sz 4"
  shows "seg_alloc sz 4 segs = None \<longleftrightarrow> (\<forall>(a, s, u) \<in> set segs. u \<or> s < sz)"
  using assms(1-3)
proof (induction lo segs hi rule: tiled.induct)
  case (2 lo a s u segs hi)
  have "unat a + 16 + unat s < 2 ^ 32"
    using tiled_fits [OF 2(3,4), of a s u] by simp
  with seg_fit_default [of a s sz u] 2 assms(4) show ?case
    by (auto split: option.splits)
qed simp

lemma request_default: "0 < sz \<Longrightarrow> unat sz \<le> 2 ^ 32 - 4 \<Longrightarrow> request_ok sz 4"
proof -
  assume sz: "0 < sz" "unat sz \<le> 2 ^ 32 - 4"
  then have "0 < unat sz" by (simp add: word_less_nat_alt)
  then have "4 \<le> unat (round_size sz)"
    using round_size_unat [OF sz(2)] by simp
  then have "align_ok (round_size sz) 4"
    by (auto simp: align_ok_def word_le_nat_alt intro!: exI [of _ 2])
  with sz show ?thesis by (simp add: request_ok_def)
qed

lemma candidate_room: "candidate (round_size sz) segs p \<Longrightarrow> has_room sz segs"
  by (auto simp: candidate_def has_room_def list_ex_iff)

lemma seg_alloc_adds_live:
  assumes "seg_alloc (round_size sz) al segs = Some (p, zs)" and "mm_heap m lo segs hi"
    and "request_ok sz al"
  shows "adds_live p sz segs zs \<and> unat al dvd unat p"
proof -
  have "tiled lo segs hi" "hi < 2 ^ 32" "align_ok (round_size sz) al" "sz \<le> round_size sz"
    using assms round_size_ok(1) by (auto simp: mm_heap_def request_ok_def)
  with seg_alloc_live [OF assms(1)] show ?thesis
    unfolding adds_live_def by (blast intro: order_trans)
qed

text \<open>
  C1: with the default alignment the allocator is complete and safe. If some unused block has
  room for the rounded request, \<open>allocate\<close> returns the address, a multiple of four, of one
  more allocation of at least that size and leaves every other allocation as it was;
  otherwise it returns a null pointer and changes nothing. The heap stays well formed.
\<close>

theorem allocate_default:
  assumes "mm_heap m lo segs hi" and "0 < sz" and "unat sz \<le> 2 ^ 32 - 4"
  shows "if has_room sz segs then
      \<exists>p m' segs'. mm_allocate sz 4 m = Some (p, m') \<and> mm_heap m' lo segs' hi \<and>
        adds_live p sz segs segs' \<and> 4 dvd unat p
    else mm_allocate sz 4 m = Some (0, m)"
proof -
  note ok = request_default [OF assms(2,3)]
  have "words segs" "tiled lo segs hi" "hi < 2 ^ 32" "align_ok (round_size sz) 4"
    using assms ok by (simp_all add: mm_heap_def request_ok_def)
  note none = seg_alloc_default [OF this]
  show ?thesis
  proof (cases "seg_alloc (round_size sz) 4 segs")
    case None
    then have "\<not> has_room sz segs"
      using none by (fastforce simp: has_room_def not_less)
    with mm_allocate_rep [OF assms(1) ok] None candidate_room show ?thesis by fastforce
  next
    case (Some r)
    then have "has_room sz segs"
      using none by (fastforce simp: has_room_def not_less)
    with mm_allocate_rep [OF assms(1) ok] Some seg_alloc_adds_live [OF _ assms(1) ok] show ?thesis
      by (cases r) fastforce
  qed
qed

text \<open>A heap of one unused block, for examples.\<close>

definition one_block :: "u32 \<Rightarrow> u32 \<Rightarrow> mm" where
  "one_block a s = \<lparr>blocks = [a \<mapsto> \<lparr>bprev = None, bnext = None, bsize = s, bused = False\<rparr>],
     ram = (\<lambda>_. 0), first_block = Some a, page_stack = None, ramsize = 0, sdrc_base = 0,
     kernel_data_end = a, kernel_dataspace_end = a + 16 + s, initialization_completed = True,
     page_stack_initialized = False\<rparr>"

lemma one_block_heap:
  assumes "unat a + 16 + unat s < 2 ^ 32" and "4 dvd unat a" and "4 dvd unat s"
  shows "mm_heap (one_block a s) (unat a) [(a, s, False)] (unat a + 16 + unat s)"
  using assms by (simp add: mm_heap_def one_block_def heap_rep_def seg_data_def)

lemma small_mm_heap: "mm_heap (one_block 0x1000 48) 0x1000 [(0x1000, 48, False)] 0x1040"
  using one_block_heap [of "0x1000" 48] by simp

lemma small_request: "round_size 5 = 8" "round_size 100 = 100"
  by (simp_all add: round_size_def)

theorem allocate_default_witness:
  "(\<exists>p m' segs'. mm_allocate 5 4 (one_block 0x1000 48) = Some (p, m') \<and> mm_heap m' 0x1000 segs' 0x1040 \<and>
     adds_live p 5 [(0x1000, 48, False)] segs' \<and> 4 dvd unat p) \<and>
   mm_allocate 100 4 (one_block 0x1000 48) = Some (0, one_block 0x1000 48)"
  using allocate_default [OF small_mm_heap, of 5] allocate_default [OF small_mm_heap, of 100]
  by (simp add: has_room_def small_request)

text \<open>
  A request with a larger power of two as alignment (at most the request itself, as for
  page tables and translation tables) is safe when the search finds a place: the address is a
  multiple of the alignment and one more allocation, all others are kept. When it finds none
  the heap is unchanged, and the address is null only if no unused block is large enough.
\<close>

theorem allocate_aligned:
  assumes "mm_heap m lo segs hi" and "request_ok sz al"
  shows "case seg_alloc (round_size sz) al segs of
      Some (p, segs') \<Rightarrow> \<exists>m'. mm_allocate sz al m = Some (p, m') \<and> mm_heap m' lo segs' hi \<and>
        adds_live p sz segs segs' \<and> unat al dvd unat p
    | None \<Rightarrow> \<exists>p. mm_allocate sz al m = Some (p, m) \<and> (\<not> has_room sz segs \<longrightarrow> p = 0)"
  using mm_allocate_rep [OF assms] seg_alloc_adds_live [OF _ assms] candidate_room
  by (fastforce split: option.splits)

lemma request_1024: "request_ok 1024 1024"
  by (auto simp: request_ok_def align_ok_def round_size_def intro!: exI [of _ 10])

lemma align_1024: "align_offset x 1024 = ((x + 1023) AND NOT (mask 10)) - x"
  using mask_left_pow2 [of 10] by (simp add: align_offset_def ac_simps)

theorem allocate_aligned_witness:
  "\<exists>m'. mm_allocate 1024 1024 (one_block 0x1000 0x800) = Some (0x1400, m') \<and>
     adds_live 0x1400 1024 [(0x1000, 0x800, False)]
       [(0x1000, 0x3e0, False), (0x13f0, 0x410, True)]"
proof -
  have heap: "mm_heap (one_block 0x1000 0x800) 0x1000 [(0x1000, 0x800, False)] 0x1810"
    using one_block_heap [of "0x1000" "0x800"] by simp
  have alloc: "seg_alloc (round_size 1024) 1024 [(0x1000, 0x800, False)] =
      Some (0x1400, [(0x1000, 0x3e0, False), (0x13f0, 0x410, True)])"
    by (simp add: round_size_def seg_fit_def Let_def align_1024 mask_eq_decr_exp seg_carve_def)
  show ?thesis
    using allocate_aligned [OF heap request_1024] unfolding alloc option.case prod.case by blast
qed

text \<open>
  When no place with the wanted alignment exists but some unused block is large enough,
  \<open>allocate\<close> does not report the failure. It returns an address that is not aligned and
  belongs to an unused block, and does not mark the block: the next request gets the same
  address.
\<close>

theorem allocate_misaligned_address:
  assumes "mm_heap m lo segs hi" and "request_ok sz al"
    and "seg_alloc (round_size sz) al segs = None" and "has_room sz segs"
  shows "\<exists>p a s. mm_allocate sz al m = Some (p, m) \<and> \<not> unat al dvd unat p \<and>
    (a, s, False) \<in> set segs \<and> p = a + 16"
proof -
  obtain a s where "(a, s, False) \<in> set segs" "round_size sz \<le> s"
    using assms(4) by (auto simp: has_room_def)
  then have q: "candidate (round_size sz) segs (a + 16)"
    by (force simp: candidate_def list_ex_iff)
  obtain p where p: "mm_allocate sz al m = Some (p, m)" "candidate (round_size sz) segs p"
    using mm_allocate_rep [OF assms(1,2)] q unfolding assms(3) option.case by metis
  moreover have "\<not> unat al dvd unat p"
    using seg_alloc_none_unaligned [OF assms(3) p(2), of lo hi] assms(1,2)
    by (simp add: mm_heap_def request_ok_def)
  ultimately show ?thesis by (fastforce simp: candidate_def list_ex_iff)
qed

theorem allocate_misaligned_address_witness:
  "\<exists>p a (s :: u32). mm_allocate 1024 1024 (one_block 0x1000 0x400) = Some (p, one_block 0x1000 0x400) \<and>
     \<not> unat (1024 :: u32) dvd unat p \<and> (a, s, False) \<in> set [(0x1000, 0x400, False)] \<and> p = a + 16"
proof (rule allocate_misaligned_address [OF _ request_1024])
  show "mm_heap (one_block 0x1000 0x400) 0x1000 [(0x1000, 0x400, False)] 0x1410"
    using one_block_heap [of "0x1000" "0x400"] by simp
  show "seg_alloc (round_size 1024) 1024 [(0x1000, 0x400, False)] = None"
    by (simp add: round_size_def seg_fit_def Let_def align_1024 mask_eq_decr_exp)
  show "has_room 1024 [(0x1000, 0x400, False)]"
    by (simp add: has_room_def round_size_def)
qed

text \<open>
  C33: releasing a block that \<open>allocate\<close> has just returned undoes the allocation: the list of
  blocks is what it was, with the split-off pieces merged back.
\<close>

theorem allocate_free_roundtrip:
  assumes "mm_heap m lo segs hi" and "request_ok sz al"
    and "seg_alloc (round_size sz) al segs = Some (p, segs')"
  shows "\<exists>m1 m2. mm_allocate sz al m = Some (p, m1) \<and> mm_heap m1 lo segs' hi \<and>
    mm_free p m1 = Some m2 \<and> mm_heap m2 lo segs hi"
proof -
  obtain m1 where m1: "mm_allocate sz al m = Some (p, m1)" "mm_heap m1 lo segs' hi"
    using mm_allocate_rep [OF assms(1,2)] assms(3) by auto
  then have til: "tiled lo segs' hi" by (simp add: mm_heap_def)
  have co: "coalesced segs" using assms(1) by (simp add: mm_heap_def)
  obtain us t vs where "live segs' = us @ (p - 16, t, True) # vs"
    using seg_alloc_adds_live [OF assms(3,1,2)] unfolding adds_live_def by blast
  then have "(p - 16, t, True) \<in> set (live segs')" by simp
  then have "(p - 16, t, True) \<in> set segs'" by (simp add: live_def)
  then obtain xs ys where segs': "segs' = xs @ (p - 16, t, True) # ys"
    by (meson split_list)
  obtain m2 where "mm_free p m1 = Some m2" "mm_heap m2 lo (seg_free (p - 16) segs') hi"
    using mm_free_rep [OF m1(2) [unfolded segs']] unfolding segs' by auto
  then show ?thesis
    using m1 unfolding seg_free_alloc [OF assms(3) co til] by blast
qed

theorem allocate_free_roundtrip_witness:
  "\<exists>m1 m2. mm_allocate 5 4 (one_block 0x1000 48) = Some (0x1010, m1) \<and>
     mm_heap m1 0x1000 [(0x1000, 8, True), (0x1018, 24, False)] 0x1040 \<and>
     mm_free 0x1010 m1 = Some m2 \<and> mm_heap m2 0x1000 [(0x1000, 48, False)] 0x1040"
proof (rule allocate_free_roundtrip [OF small_mm_heap])
  show "request_ok 5 4" by (rule request_default) simp_all
  show "seg_alloc (round_size 5) 4 [(0x1000, 48, False)] =
      Some (0x1010, [(0x1000, 8, True), (0x1018, 24, False)])"
    using align_offset_4 [of "0x1010"]
    by (simp add: small_request seg_fit_def Let_def seg_carve_def)
qed

text \<open>
  C34: releasing an allocation takes exactly that one away, keeps all others, and leaves no two
  unused blocks side by side, so the space can be used again for larger requests.
\<close>

theorem free_removes_allocation:
  assumes "mm_heap m lo (xs @ (a, s, True) # ys) hi"
  shows "\<exists>m' segs'. mm_free (a + 16) m = Some m' \<and> mm_heap m' lo segs' hi \<and>
    live segs' = live xs @ live ys \<and> coalesced segs'"
proof -
  obtain m' where m': "mm_free (a + 16) m = Some m'"
    "mm_heap m' lo (seg_free a (xs @ (a, s, True) # ys)) hi"
    using mm_free_rep [OF assms] by blast
  have "a \<notin> fst ` set xs"
    using assms tiled_distinct [of lo "xs @ (a, s, True) # ys" hi] by (auto simp: mm_heap_def)
  from seg_free_live [OF this] m' show ?thesis
    by (auto simp: mm_heap_def)
qed

definition full_mm :: mm where
  "full_mm = (one_block 0x1000 48)
     \<lparr>blocks := [0x1000 \<mapsto> \<lparr>bprev = None, bnext = None, bsize = 48, bused = True\<rparr>]\<rparr>"

theorem free_removes_allocation_witness:
  "\<exists>m' segs'. mm_free (0x1000 + 16) full_mm = Some m' \<and> mm_heap m' 0x1000 segs' 0x1040 \<and>
     live segs' = live [] @ live [] \<and> coalesced segs'"
proof (rule free_removes_allocation)
  show "mm_heap full_mm 0x1000 ([] @ (0x1000, 48, True) # []) 0x1040"
    by (simp add: mm_heap_def full_mm_def one_block_def heap_rep_def seg_data_def)
qed

text \<open>
  Pages behave as a stack once the page stack is filled: a released page is the next one
  handed out, an exhausted stack gives a null pointer; before that time every call returns the
  same page.
\<close>

theorem page_allocation:
  assumes "page_stack m = Some st" and "stack_rep st n pages"
  shows "if \<not> page_stack_initialized m then
      allocate_page m = Some (kernel_dataspace_end m, m)
    else (case pages of
        [] \<Rightarrow> allocate_page m = Some (0, m)
      | p # ps \<Rightarrow> \<exists>m1 st1 m2 st2. allocate_page m = Some (p, m1) \<and> page_stack m1 = Some st1 \<and>
          stack_rep st1 n ps \<and> free_page p m1 = Some m2 \<and> page_stack m2 = Some st2 \<and>
          stack_rep st2 n pages)"
proof (cases pages)
  case Nil
  with assms sks.is_empty_iff [OF assms(2)] show ?thesis
    by (simp add: allocate_page_def)
next
  case (Cons p ps)
  obtain st1 where st1: "stack_pop st = Some (p, st1)" "stack_rep st1 n ps"
    using sks.pop_top [OF assms(2) [unfolded Cons]] by auto
  have "length ps < n"
    using sks.rep_length [OF assms(2)] Cons by simp
  then obtain st2 where "stack_push p st1 = Some st2" "stack_rep st2 n (p # ps)"
    using sks.push_room [OF st1(2)] by auto
  with assms st1 sks.is_empty_iff [OF assms(2)] Cons show ?thesis
    by (auto simp: allocate_page_def free_page_def)
qed

definition paged_mm :: "bool \<Rightarrow> mm" where
  "paged_mm init = (one_block 0x1000 48)
     \<lparr>page_stack := Some \<lparr>capacity = 2, current_top = 0, memory_space = [Some 0x5000, Some 0]\<rparr>,
      page_stack_initialized := init\<rparr>"

theorem page_allocation_witness:
  "allocate_page (paged_mm False) = Some (0x1040, paged_mm False) \<and>
   (\<exists>m1 st1 m2 st2. allocate_page (paged_mm True) = Some (0x5000, m1) \<and> page_stack m1 = Some st1 \<and>
      stack_rep st1 2 [] \<and> free_page 0x5000 m1 = Some m2 \<and> page_stack m2 = Some st2 \<and>
      stack_rep st2 2 [0x5000])"
proof -
  let ?st = "\<lparr>capacity = 2, current_top = 0, memory_space = [Some 0x5000, Some (0 :: u32)]\<rparr>"
  have "stack_rep ?st 2 [0x5000]" by (simp add: stack_rep_def)
  from page_allocation [OF _ this, of "paged_mm False"] page_allocation [OF _ this, of "paged_mm True"]
  show ?thesis by (simp add: paged_mm_def one_block_def)
qed

end
