(* ===== verification/Rbtree.thy ===== *)
theory Rbtree
  imports Prelude
begin

text \<open>
  The red-black tree of \<open>kernel/rbtree.h\<close>, pointer by pointer: nodes with left, right and
  parent pointers in an object store. The translation tables keep their directory of page
  tables in such a tree. The abstract view is a tree of node addresses and the list of its
  keys and values from left to right. Searching and inserting refine the operations on that
  list; the recolouring after an insertion reads the colour of an uncle without a null check,
  and the theorems say exactly when that is a fault.
\<close>

section \<open>Nodes and operations\<close>

datatype color = RED | BLACK

record ('k, 'v) rbnode =
  rkey :: 'k
  rcontent :: 'v
  rcolor :: color
  rleft :: ptr
  rright :: ptr
  rparent :: ptr

record ('k, 'v) rbtree =
  rroot :: ptr
  rnodes :: "('k, 'v) rbnode store"

definition rbtree_new :: "('k, 'v) rbtree" where
  "rbtree_new = \<lparr>rroot = None, rnodes = empty_store\<rparr>"

partial_function (option) find_loop ::
    "('k :: linorder, 'v) rbnode store \<Rightarrow> 'k \<Rightarrow> ptr \<Rightarrow> ptr option" where
  "find_loop s key current =
     (case current of
        None \<Rightarrow> Some None
      | Some a \<Rightarrow> do {
          n \<leftarrow> deref s (Some a);
          if key = rkey n then Some (Some a)
          else if key < rkey n then find_loop s key (rleft n)
          else find_loop s key (rright n) })"

definition find_node :: "'k :: linorder \<Rightarrow> ('k, 'v) rbtree \<Rightarrow> ptr option" where
  "find_node key t = find_loop (rnodes t) key (rroot t)"

text \<open>The result \<open>false\<close> of \<open>get_value\<close>, which leaves the output unwritten, is \<open>Some None\<close>.\<close>

definition get_value :: "'k :: linorder \<Rightarrow> ('k, 'v) rbtree \<Rightarrow> 'v option option" where
  "get_value key t = do {
     n \<leftarrow> find_node key t;
     case n of None \<Rightarrow> Some None
     | Some a \<Rightarrow> do { nd \<leftarrow> deref (rnodes t) (Some a); Some (Some (rcontent nd)) } }"

definition key_exists :: "'k :: linorder \<Rightarrow> ('k, 'v) rbtree \<Rightarrow> bool option" where
  "key_exists key t = do { n \<leftarrow> find_node key t; Some (n \<noteq> None) }"

text \<open>Writing a field through a pointer.\<close>

definition upd :: "ptr \<Rightarrow> (('k, 'v) rbnode \<Rightarrow> ('k, 'v) rbnode) \<Rightarrow> ('k, 'v) rbtree \<Rightarrow> ('k, 'v) rbtree option" where
  "upd p f t = do { s \<leftarrow> modify p f (rnodes t); Some (t\<lparr>rnodes := s\<rparr>) }"

definition node_at :: "('k, 'v) rbtree \<Rightarrow> ptr \<Rightarrow> ('k, 'v) rbnode option" where
  "node_at t p = deref (rnodes t) p"

text \<open>The conditional assignments that the two rotations share.\<close>

definition set_parent :: "ptr \<Rightarrow> ptr \<Rightarrow> ('k, 'v) rbtree \<Rightarrow> ('k, 'v) rbtree option" where
  "set_parent p x t = (if p \<noteq> None then upd p (rparent_update (\<lambda>_. x)) t else Some t)"

definition replace_child :: "ptr \<Rightarrow> ptr \<Rightarrow> ptr \<Rightarrow> ('k, 'v) rbtree \<Rightarrow> ('k, 'v) rbtree option" where
  "replace_child p x y t =
     (if p = None then Some (t\<lparr>rroot := y\<rparr>)
      else do {
        pn \<leftarrow> node_at t p;
        if x = rleft pn then upd p (rleft_update (\<lambda>_. y)) t
        else upd p (rright_update (\<lambda>_. y)) t })"

definition left_rotate :: "ptr \<Rightarrow> ('k, 'v) rbtree \<Rightarrow> ('k, 'v) rbtree option" where
  "left_rotate x t0 = do {
     xn \<leftarrow> node_at t0 x;
     let y = rright xn;
     yn \<leftarrow> node_at t0 y;
     t1 \<leftarrow> upd x (rright_update (\<lambda>_. rleft yn)) t0;
     t2 \<leftarrow> set_parent (rleft yn) x t1;
     xn2 \<leftarrow> node_at t2 x;
     t3 \<leftarrow> upd y (rparent_update (\<lambda>_. rparent xn2)) t2;
     t4 \<leftarrow> replace_child (rparent xn2) x y t3;
     t5 \<leftarrow> upd y (rleft_update (\<lambda>_. x)) t4;
     upd x (rparent_update (\<lambda>_. y)) t5 }"

definition right_rotate :: "ptr \<Rightarrow> ('k, 'v) rbtree \<Rightarrow> ('k, 'v) rbtree option" where
  "right_rotate x t0 = do {
     xn \<leftarrow> node_at t0 x;
     let y = rleft xn;
     yn \<leftarrow> node_at t0 y;
     t1 \<leftarrow> upd x (rleft_update (\<lambda>_. rright yn)) t0;
     t2 \<leftarrow> set_parent (rright yn) x t1;
     xn2 \<leftarrow> node_at t2 x;
     t3 \<leftarrow> upd y (rparent_update (\<lambda>_. rparent xn2)) t2;
     t4 \<leftarrow> replace_child (rparent xn2) x y t3;
     t5 \<leftarrow> upd y (rright_update (\<lambda>_. x)) t4;
     upd x (rparent_update (\<lambda>_. y)) t5 }"

definition paint :: "color \<Rightarrow> ptr \<Rightarrow> ('k, 'v) rbtree \<Rightarrow> ('k, 'v) rbtree option" where
  "paint c p t = upd p (rcolor_update (\<lambda>_. c)) t"

text \<open>
  The two ways one round of the loop in \<open>insertion_fixup\<close> can go. \<open>recolor\<close>: parent \<open>p\<close> and
  uncle \<open>y\<close> become black, the parent of the uncle's parent, if there is one, becomes red.
  \<open>restructure\<close>: the node is rotated to the outer side (\<open>inner\<close>, with \<open>rot1\<close>) and its
  grandparent is rotated with \<open>rot2\<close>.
\<close>

definition recolor :: "ptr \<Rightarrow> ptr \<Rightarrow> ('k, 'v) rbtree \<Rightarrow> ('k, 'v) rbtree option" where
  "recolor p y t = do {
     t1 \<leftarrow> paint BLACK p t;
     t2 \<leftarrow> (if y \<noteq> None then paint BLACK y t1 else Some t1);
     if y = None then Some t2
     else do {
       yn \<leftarrow> node_at t2 y;
       if rparent yn = None then Some t2
       else do {
         ypn \<leftarrow> node_at t2 (rparent yn);
         if rparent ypn \<noteq> None then paint RED (rparent ypn) t2 else Some t2 } } }"

definition restructure :: "bool \<Rightarrow> (ptr \<Rightarrow> ('k, 'v) rbtree \<Rightarrow> ('k, 'v) rbtree option) \<Rightarrow>
    (ptr \<Rightarrow> ('k, 'v) rbtree \<Rightarrow> ('k, 'v) rbtree option) \<Rightarrow> ptr \<Rightarrow> ('k, 'v) rbtree \<Rightarrow>
    (ptr \<times> ('k, 'v) rbtree) option" where
  "restructure inner rot1 rot2 n t = do {
     (n', t1) \<leftarrow> (if inner then do {
           nn \<leftarrow> node_at t n;
           t1 \<leftarrow> rot1 (rparent nn) t;
           Some (rparent nn, t1) }
         else Some (n, t));
     nn \<leftarrow> node_at t1 n';
     t2 \<leftarrow> paint BLACK (rparent nn) t1;
     pn \<leftarrow> node_at t2 (rparent nn);
     t3 \<leftarrow> paint RED (rparent pn) t2;
     t4 \<leftarrow> rot2 (rparent pn) t3;
     Some (n', t4) }"

definition fixup_step :: "ptr \<Rightarrow> ('k, 'v) rbtree \<Rightarrow> (ptr \<times> ('k, 'v) rbtree) option" where
  "fixup_step n t = do {
     nn \<leftarrow> node_at t n;
     pn \<leftarrow> node_at t (rparent nn);
     gn \<leftarrow> node_at t (rparent pn);
     if rparent nn = rleft gn then do {
       let y = rright gn;
       yn \<leftarrow> node_at t y;
       if rcolor yn = RED then do {
         t' \<leftarrow> recolor (rparent nn) y t;
         Some (rparent pn, t') }
       else restructure (n = rright pn) left_rotate right_rotate n t }
     else do {
       let y = rleft gn;
       red \<leftarrow> (if y \<noteq> None then do { yn \<leftarrow> node_at t y; Some (rcolor yn = RED) } else Some False);
       if red then do {
         t' \<leftarrow> recolor (rparent nn) y t;
         Some (rparent pn, t') }
       else restructure (n = rleft pn) right_rotate left_rotate n t } }"

definition fixup_guard :: "ptr \<Rightarrow> ('k, 'v) rbtree \<Rightarrow> bool option" where
  "fixup_guard n t =
     (if n = rroot t then Some False
      else do {
        nn \<leftarrow> node_at t n;
        pn \<leftarrow> node_at t (rparent nn);
        Some (rparent pn \<noteq> None \<and> rcolor pn = RED) })"

partial_function (option) fixup_loop :: "ptr \<Rightarrow> ('k, 'v) rbtree \<Rightarrow> ('k, 'v) rbtree option" where
  "fixup_loop n t = do {
     g \<leftarrow> fixup_guard n t;
     if g then do { (n', t') \<leftarrow> fixup_step n t; fixup_loop n' t' } else Some t }"

definition insertion_fixup :: "ptr \<Rightarrow> ('k, 'v) rbtree \<Rightarrow> ('k, 'v) rbtree option" where
  "insertion_fixup n t = do {
     nn \<leftarrow> node_at t n;
     quick \<leftarrow> (if rparent nn \<noteq> None then do { pn \<leftarrow> node_at t (rparent nn); Some (rcolor pn = BLACK) }
              else Some False);
     if quick then Some t
     else do { t' \<leftarrow> fixup_loop n t; paint BLACK (rroot t') t' } }"

partial_function (option) descend ::
    "('k :: linorder, 'v) rbnode store \<Rightarrow> 'k \<Rightarrow> ptr \<Rightarrow> ptr \<Rightarrow> ptr option" where
  "descend s key current parent =
     (case current of
        None \<Rightarrow> Some parent
      | Some a \<Rightarrow> do {
          n \<leftarrow> deref s (Some a);
          if key < rkey n then descend s key (rleft n) (Some a)
          else descend s key (rright n) (Some a) })"

definition link_node :: "'k :: linorder \<Rightarrow> ptr \<Rightarrow> nat \<Rightarrow> ('k, 'v) rbtree \<Rightarrow> ('k, 'v) rbtree option" where
  "link_node key parent new_node t =
     (if parent = None then Some (t\<lparr>rroot := Some new_node\<rparr>)
      else do {
        pn \<leftarrow> node_at t parent;
        if key < rkey pn then upd parent (rleft_update (\<lambda>_. Some new_node)) t
        else upd parent (rright_update (\<lambda>_. Some new_node)) t })"

definition rb_insert :: "'k :: linorder \<Rightarrow> 'v \<Rightarrow> ('k, 'v) rbtree \<Rightarrow> ('k, 'v) rbtree option" where
  "rb_insert key data t = do {
     parent \<leftarrow> descend (rnodes t) key (rroot t) None;
     let (new_node, s) = new_obj \<lparr>rkey = key, rcontent = data, rcolor = RED, rleft = None,
           rright = None, rparent = parent\<rparr> (rnodes t);
     t2 \<leftarrow> link_node key parent new_node (t\<lparr>rnodes := s\<rparr>);
     insertion_fixup (Some new_node) t2 }"

section \<open>The tree of addresses\<close>

datatype atree = Lf | Nd atree nat atree

primrec inorder :: "atree \<Rightarrow> nat list" where
  "inorder Lf = []"
| "inorder (Nd l a r) = inorder l @ a # inorder r"

primrec tr :: "(nat \<rightharpoonup> ('k, 'v) rbnode) \<Rightarrow> ptr \<Rightarrow> atree \<Rightarrow> ptr \<Rightarrow> bool" where
  "tr h par Lf p \<longleftrightarrow> p = None"
| "tr h par (Nd l a r) p \<longleftrightarrow> p = Some a \<and>
     (case h a of None \<Rightarrow> False
      | Some n \<Rightarrow> rparent n = par \<and> tr h (Some a) l (rleft n) \<and> tr h (Some a) r (rright n))"

text \<open>A path from a subtree up to the root, the nearest ancestor first.\<close>

datatype frame = FL nat atree | FR nat atree

fun plug :: "frame list \<Rightarrow> atree \<Rightarrow> atree" where
  "plug [] s = s"
| "plug (FL a t # fs) s = plug fs (Nd s a t)"
| "plug (FR a t # fs) s = plug fs (Nd t a s)"

fun ctx :: "(nat \<rightharpoonup> ('k, 'v) rbnode) \<Rightarrow> frame list \<Rightarrow> ptr \<Rightarrow> ptr \<Rightarrow> ptr \<Rightarrow> bool" where
  "ctx h [] root q par \<longleftrightarrow> q = root \<and> par = None"
| "ctx h (FL a t # fs) root q par \<longleftrightarrow> par = Some a \<and>
     (case h a of None \<Rightarrow> False
      | Some n \<Rightarrow> rleft n = q \<and> tr h (Some a) t (rright n) \<and> ctx h fs root (Some a) (rparent n))"
| "ctx h (FR a t # fs) root q par \<longleftrightarrow> par = Some a \<and>
     (case h a of None \<Rightarrow> False
      | Some n \<Rightarrow> rright n = q \<and> tr h (Some a) t (rleft n) \<and> ctx h fs root (Some a) (rparent n))"

fun faddrs :: "frame list \<Rightarrow> nat list" where
  "faddrs [] = []"
| "faddrs (FL a t # fs) = a # inorder t @ faddrs fs"
| "faddrs (FR a t # fs) = a # inorder t @ faddrs fs"

lemma tr_plug: "tr h None (plug fs s) root \<longleftrightarrow> (\<exists>q par. ctx h fs root q par \<and> tr h par s q)"
proof (induction fs arbitrary: s)
  case (Cons f fs)
  then show ?case by (cases f) (auto split: option.splits)
qed simp

lemma set_plug: "set (inorder (plug fs s)) = set (inorder s) \<union> set (faddrs fs)"
  by (induction fs s rule: plug.induct) auto

lemma distinct_plug:
  "distinct (inorder (plug fs s)) \<longleftrightarrow> distinct (inorder s) \<and> distinct (faddrs fs) \<and>
     set (inorder s) \<inter> set (faddrs fs) = {}"
  by (induction fs s rule: plug.induct) auto

fun fbefore :: "frame list \<Rightarrow> nat list" where
  "fbefore [] = []"
| "fbefore (FL a t # fs) = fbefore fs"
| "fbefore (FR a t # fs) = fbefore fs @ inorder t @ [a]"

fun fafter :: "frame list \<Rightarrow> nat list" where
  "fafter [] = []"
| "fafter (FL a t # fs) = a # inorder t @ fafter fs"
| "fafter (FR a t # fs) = fafter fs"

lemma inorder_plug: "inorder (plug fs s) = fbefore fs @ inorder s @ fafter fs"
  by (induction fs s rule: plug.induct) auto

lemma tr_cong: "(\<And>a. a \<in> set (inorder t) \<Longrightarrow> h a = h' a) \<Longrightarrow> tr h par t p = tr h' par t p"
  by (induction t arbitrary: par p) (auto split: option.splits)

lemma tr_upd [simp]: "a \<notin> set (inorder t) \<Longrightarrow> tr (h(a := x)) par t p = tr h par t p"
  by (rule tr_cong) auto

lemma ctx_cong: "(\<And>a. a \<in> set (faddrs fs) \<Longrightarrow> h a = h' a) \<Longrightarrow> ctx h fs root q par = ctx h' fs root q par"
proof (induction fs arbitrary: q par)
  case (Cons f fs)
  have "h a = h' a" if "f = FL a t \<or> f = FR a t" for a t
    using that Cons.prems by auto
  moreover have "tr h p t q = tr h' p t q" if "f = FL a t \<or> f = FR a t" for a t p q
    by (rule tr_cong) (use that Cons.prems in auto)
  ultimately show ?case
    using Cons by (cases f) (auto split: option.splits)
qed simp

lemma ctx_upd [simp]: "a \<notin> set (faddrs fs) \<Longrightarrow> ctx (h(a := x)) fs root q par = ctx h fs root q par"
  by (rule ctx_cong) auto

section \<open>Rotations\<close>

text \<open>The tree \<open>T\<close> of addresses is laid out in the store.\<close>

definition rb_tree :: "('k, 'v) rbtree \<Rightarrow> atree \<Rightarrow> bool" where
  "rb_tree t T \<longleftrightarrow> tr (cells (rnodes t)) None T (rroot t) \<and> distinct (inorder T) \<and> store_ok (rnodes t)"

text \<open>
  What an operation that only relinks does to the nodes: keys, values and colours stay, and
  the nodes outside \<open>S\<close> stay as they are.
\<close>

definition sig :: "('k, 'v) rbnode \<Rightarrow> 'k \<times> 'v \<times> color" where
  "sig n = (rkey n, rcontent n, rcolor n)"

definition relinks :: "nat set \<Rightarrow> ('k, 'v) rbtree \<Rightarrow> ('k, 'v) rbtree \<Rightarrow> bool" where
  "relinks S t t' \<longleftrightarrow> fresh (rnodes t') = fresh (rnodes t) \<and>
     (\<forall>a. map_option sig (cells (rnodes t') a) = map_option sig (cells (rnodes t) a)) \<and>
     (\<forall>a. a \<notin> S \<longrightarrow> cells (rnodes t') a = cells (rnodes t) a)"

lemma sig_update [simp]:
  "sig (rleft_update f n) = sig n" "sig (rright_update f n) = sig n" "sig (rparent_update f n) = sig n"
  by (simp_all add: sig_def)

lemma relinks_refl [simp]: "relinks S t t"
  by (simp add: relinks_def)

lemma relinks_trans: "relinks S t t' \<Longrightarrow> relinks S' t' t'' \<Longrightarrow> relinks (S \<union> S') t t''"
  by (simp add: relinks_def)

lemma relinks_cell: "relinks S t t' \<Longrightarrow> a \<notin> S \<Longrightarrow> cells (rnodes t') a = cells (rnodes t) a"
  by (simp add: relinks_def)

lemma relinks_tr:
  "relinks S t t' \<Longrightarrow> S \<inter> set (inorder T) = {} \<Longrightarrow>
     tr (cells (rnodes t')) par T p = tr (cells (rnodes t)) par T p"
  by (rule tr_cong) (auto simp: relinks_def)

lemma relinks_ctx:
  "relinks S t t' \<Longrightarrow> S \<inter> set (faddrs fs) = {} \<Longrightarrow>
     ctx (cells (rnodes t')) fs R q par = ctx (cells (rnodes t)) fs R q par"
  by (rule ctx_cong) (auto simp: relinks_def)

lemma relinks_ok: "relinks S t t' \<Longrightarrow> store_ok (rnodes t) \<Longrightarrow> store_ok (rnodes t')"
  unfolding relinks_def store_ok_def by (metis map_option_is_None)

lemma upd_link:
  assumes "cells (rnodes t) a = Some n" and "\<And>n. sig (f n) = sig n"
  shows "\<exists>t'. upd (Some a) f t = Some t' \<and> relinks {a} t t' \<and> rroot t' = rroot t \<and>
    cells (rnodes t') a = Some (f n)"
  using assms by (simp add: upd_def modify_cell relinks_def)

lemma set_parent_tree:
  assumes "tr (cells (rnodes t)) par T p" and "distinct (inorder T)"
  shows "\<exists>t'. set_parent p q t = Some t' \<and> relinks (set (inorder T)) t t' \<and> rroot t' = rroot t \<and>
    tr (cells (rnodes t')) q T p"
  using assms by (cases T) (auto simp: set_parent_def upd_def modify_cell relinks_def
          split: option.split_asm)

lemma tr_root_notin: "tr h par T p \<Longrightarrow> a \<notin> set (inorder T) \<Longrightarrow> p \<noteq> Some a"
  by (cases T) auto

lemma replace_child_ctx:
  assumes "ctx (cells (rnodes t)) fs (rroot t) (Some x) par" and "distinct (faddrs fs)"
    and "x \<notin> set (faddrs fs)"
  shows "\<exists>t'. replace_child par (Some x) (Some y) t = Some t' \<and> relinks (set (faddrs fs)) t t' \<and>
    ctx (cells (rnodes t')) fs (rroot t') (Some y) par"
proof (cases fs)
  case Nil
  with assms show ?thesis by (auto simp: replace_child_def relinks_def)
next
  case (Cons f gs)
  show ?thesis
  proof (cases f)
    case (FL a T)
    with assms Cons show ?thesis
      by (auto simp: replace_child_def node_at_def upd_def modify_cell relinks_def
          split: option.split_asm)
  next
    case (FR a T)
    then obtain n where n: "cells (rnodes t) a = Some n" "tr (cells (rnodes t)) (Some a) T (rleft n)"
      using assms(1) Cons by (auto split: option.splits)
    have "rleft n \<noteq> Some x"
      using tr_root_notin [OF n(2)] assms(3) Cons FR by simp
    with n assms Cons FR show ?thesis
      by (auto simp: replace_child_def node_at_def upd_def modify_cell relinks_def
          split: option.split_asm)
  qed
qed

lemma left_rotate_tree:
  assumes "rb_tree t (plug fs (Nd l x (Nd bl y br)))"
  shows "\<exists>t' S. left_rotate (Some x) t = Some t' \<and> rb_tree t' (plug fs (Nd (Nd l x bl) y br)) \<and>
    relinks S t t'"
proof -
  let ?h = "\<lambda>t. cells (rnodes t)"
  let ?S = "set (inorder bl)"
  obtain par where c: "ctx (?h t) fs (rroot t) (Some x) par" "tr (?h t) par (Nd l x (Nd bl y br)) (Some x)"
    and d: "distinct (inorder (plug fs (Nd l x (Nd bl y br))))" and ok: "store_ok (rnodes t)"
    using assms by (auto simp: rb_tree_def tr_plug)
  obtain xn yn where xn: "?h t x = Some xn" "rright xn = Some y" "rparent xn = par"
      "tr (?h t) (Some x) l (rleft xn)"
    and yn: "?h t y = Some yn" "tr (?h t) (Some y) bl (rleft yn)" "tr (?h t) (Some y) br (rright yn)"
    using c(2) by (auto split: option.splits)
  have d': "x \<noteq> y" "x \<notin> set (inorder l)" "x \<notin> ?S" "x \<notin> set (inorder br)"
    "y \<notin> set (inorder l)" "y \<notin> ?S" "y \<notin> set (inorder br)"
    "x \<notin> set (faddrs fs)" "y \<notin> set (faddrs fs)" "distinct (inorder bl)" "distinct (faddrs fs)"
    "?S \<inter> set (inorder l) = {}" "?S \<inter> set (inorder br) = {}" "?S \<inter> set (faddrs fs) = {}"
    "set (faddrs fs) \<inter> set (inorder bl) = {}"
    "set (faddrs fs) \<inter> set (inorder l) = {}" "set (faddrs fs) \<inter> set (inorder br) = {}"
    using d by (auto simp: distinct_plug)
  have d2: "distinct (inorder (plug fs (Nd (Nd l x bl) y br)))"
    using d by (auto simp: distinct_plug)
  obtain t1 where t1: "upd (Some x) (rright_update (\<lambda>_. rleft yn)) t = Some t1" "relinks {x} t t1"
    "rroot t1 = rroot t" "?h t1 x = Some (xn\<lparr>rright := rleft yn\<rparr>)"
    using upd_link [OF xn(1), of "rright_update (\<lambda>_. rleft yn)"] by auto
  have "tr (?h t1) (Some y) bl (rleft yn)"
    using yn(2) relinks_tr [OF t1(2)] d' by simp
  then obtain t2 where t2: "set_parent (rleft yn) (Some x) t1 = Some t2" "relinks ?S t1 t2"
    "rroot t2 = rroot t1" "tr (?h t2) (Some x) bl (rleft yn)"
    using set_parent_tree [of t1 "Some y" bl "rleft yn" "Some x"] d' by auto
  have x2: "?h t2 x = Some (xn\<lparr>rright := rleft yn\<rparr>)" "?h t2 y = Some yn"
    using relinks_cell [OF t2(2), of x] relinks_cell [OF t2(2), of y] relinks_cell [OF t1(2), of y]
      d' t1(4) yn(1) by simp_all
  obtain t3 where t3: "upd (Some y) (rparent_update (\<lambda>_. par)) t2 = Some t3" "relinks {y} t2 t3"
    "rroot t3 = rroot t2" "?h t3 y = Some (yn\<lparr>rparent := par\<rparr>)"
    using upd_link [OF x2(2), of "rparent_update (\<lambda>_. par)"] by auto
  note r3 = relinks_trans [OF relinks_trans [OF t1(2) t2(2)] t3(2)]
  have "ctx (?h t3) fs (rroot t3) (Some x) par"
    using c(1) relinks_ctx [OF r3, of fs] d' t1(3) t2(3) t3(3) by (simp add: Int_Un_distrib2)
  then obtain t4 where t4: "replace_child par (Some x) (Some y) t3 = Some t4"
    "relinks (set (faddrs fs)) t3 t4" "ctx (?h t4) fs (rroot t4) (Some y) par"
    using replace_child_ctx [of t3 fs x par y] d' by auto
  have x4: "?h t4 y = Some (yn\<lparr>rparent := par\<rparr>)"
    using relinks_cell [OF t4(2), of y] t3(4) d' by simp
  obtain t5 where t5: "upd (Some y) (rleft_update (\<lambda>_. Some x)) t4 = Some t5" "relinks {y} t4 t5"
    "rroot t5 = rroot t4" "?h t5 y = Some (yn\<lparr>rparent := par, rleft := Some x\<rparr>)"
    using upd_link [OF x4, of "rleft_update (\<lambda>_. Some x)"] by auto
  note r5 = relinks_trans [OF relinks_trans [OF t3(2) t4(2)] t5(2)]
  have x5: "?h t5 x = Some (xn\<lparr>rright := rleft yn\<rparr>)"
    using relinks_cell [OF r5, of x] x2 d' by simp
  obtain t6 where t6: "upd (Some x) (rparent_update (\<lambda>_. Some y)) t5 = Some t6" "relinks {x} t5 t6"
    "rroot t6 = rroot t5" "?h t6 x = Some (xn\<lparr>rright := rleft yn, rparent := Some y\<rparr>)"
    using upd_link [OF x5, of "rparent_update (\<lambda>_. Some y)"] by auto
  note r46 = relinks_trans [OF t5(2) t6(2)]
  note r26 = relinks_trans [OF r5 t6(2)]
  note r06 = relinks_trans [OF relinks_trans [OF t1(2) t2(2)] r26]
  have "ctx (?h t6) fs (rroot t6) (Some y) par"
    using t4(3) relinks_ctx [OF r46, of fs] d' t5(3) t6(3) by simp
  moreover have "?h t6 y = Some (yn\<lparr>rparent := par, rleft := Some x\<rparr>)"
    using relinks_cell [OF t6(2), of y] t5(4) d' by simp
  moreover have "tr (?h t6) (Some x) l (rleft xn)" "tr (?h t6) (Some y) br (rright yn)"
    using relinks_tr [OF r06] xn(4) yn(3) d' by (simp_all add: Int_Un_distrib2)
  moreover have "tr (?h t6) (Some x) bl (rleft yn)"
    using relinks_tr [OF r26] t2(4) d' by (simp add: Int_Un_distrib2)
  ultimately have "tr (?h t6) None (plug fs (Nd (Nd l x bl) y br)) (rroot t6)"
    unfolding tr_plug using t6(4) by (intro exI [of _ "Some y"] exI [of _ par]) simp
  moreover have "left_rotate (Some x) t = Some t6"
    using xn(1-3) yn(1) t1(1) t2(1) t3(1) t4(1) t5(1) t6(1) x2(1)
    by (simp add: left_rotate_def node_at_def Let_def)
  ultimately show ?thesis
    using d2 relinks_ok [OF r06 ok] r06 by (auto simp: rb_tree_def)
qed

lemma right_rotate_tree:
  assumes "rb_tree t (plug fs (Nd (Nd br y bl) x l))"
  shows "\<exists>t' S. right_rotate (Some x) t = Some t' \<and> rb_tree t' (plug fs (Nd br y (Nd bl x l))) \<and>
    relinks S t t'"
proof -
  let ?h = "\<lambda>t. cells (rnodes t)"
  let ?S = "set (inorder bl)"
  obtain par where c: "ctx (?h t) fs (rroot t) (Some x) par" "tr (?h t) par (Nd (Nd br y bl) x l) (Some x)"
    and d: "distinct (inorder (plug fs (Nd (Nd br y bl) x l)))" and ok: "store_ok (rnodes t)"
    using assms by (auto simp: rb_tree_def tr_plug)
  obtain xn yn where xn: "?h t x = Some xn" "rleft xn = Some y" "rparent xn = par"
      "tr (?h t) (Some x) l (rright xn)"
    and yn: "?h t y = Some yn" "tr (?h t) (Some y) bl (rright yn)" "tr (?h t) (Some y) br (rleft yn)"
    using c(2) by (auto split: option.splits)
  have d': "x \<noteq> y" "x \<notin> set (inorder l)" "x \<notin> ?S" "x \<notin> set (inorder br)"
    "y \<notin> set (inorder l)" "y \<notin> ?S" "y \<notin> set (inorder br)"
    "x \<notin> set (faddrs fs)" "y \<notin> set (faddrs fs)" "distinct (inorder bl)" "distinct (faddrs fs)"
    "?S \<inter> set (inorder l) = {}" "?S \<inter> set (inorder br) = {}" "?S \<inter> set (faddrs fs) = {}"
    "set (faddrs fs) \<inter> set (inorder bl) = {}"
    "set (faddrs fs) \<inter> set (inorder l) = {}" "set (faddrs fs) \<inter> set (inorder br) = {}"
    using d by (auto simp: distinct_plug)
  have d2: "distinct (inorder (plug fs (Nd br y (Nd bl x l))))"
    using d by (auto simp: distinct_plug)
  obtain t1 where t1: "upd (Some x) (rleft_update (\<lambda>_. rright yn)) t = Some t1" "relinks {x} t t1"
    "rroot t1 = rroot t" "?h t1 x = Some (xn\<lparr>rleft := rright yn\<rparr>)"
    using upd_link [OF xn(1), of "rleft_update (\<lambda>_. rright yn)"] by auto
  have "tr (?h t1) (Some y) bl (rright yn)"
    using yn(2) relinks_tr [OF t1(2)] d' by simp
  then obtain t2 where t2: "set_parent (rright yn) (Some x) t1 = Some t2" "relinks ?S t1 t2"
    "rroot t2 = rroot t1" "tr (?h t2) (Some x) bl (rright yn)"
    using set_parent_tree [of t1 "Some y" bl "rright yn" "Some x"] d' by auto
  have x2: "?h t2 x = Some (xn\<lparr>rleft := rright yn\<rparr>)" "?h t2 y = Some yn"
    using relinks_cell [OF t2(2), of x] relinks_cell [OF t2(2), of y] relinks_cell [OF t1(2), of y]
      d' t1(4) yn(1) by simp_all
  obtain t3 where t3: "upd (Some y) (rparent_update (\<lambda>_. par)) t2 = Some t3" "relinks {y} t2 t3"
    "rroot t3 = rroot t2" "?h t3 y = Some (yn\<lparr>rparent := par\<rparr>)"
    using upd_link [OF x2(2), of "rparent_update (\<lambda>_. par)"] by auto
  note r3 = relinks_trans [OF relinks_trans [OF t1(2) t2(2)] t3(2)]
  have "ctx (?h t3) fs (rroot t3) (Some x) par"
    using c(1) relinks_ctx [OF r3, of fs] d' t1(3) t2(3) t3(3) by (simp add: Int_Un_distrib2)
  then obtain t4 where t4: "replace_child par (Some x) (Some y) t3 = Some t4"
    "relinks (set (faddrs fs)) t3 t4" "ctx (?h t4) fs (rroot t4) (Some y) par"
    using replace_child_ctx [of t3 fs x par y] d' by auto
  have x4: "?h t4 y = Some (yn\<lparr>rparent := par\<rparr>)"
    using relinks_cell [OF t4(2), of y] t3(4) d' by simp
  obtain t5 where t5: "upd (Some y) (rright_update (\<lambda>_. Some x)) t4 = Some t5" "relinks {y} t4 t5"
    "rroot t5 = rroot t4" "?h t5 y = Some (yn\<lparr>rparent := par, rright := Some x\<rparr>)"
    using upd_link [OF x4, of "rright_update (\<lambda>_. Some x)"] by auto
  note r5 = relinks_trans [OF relinks_trans [OF t3(2) t4(2)] t5(2)]
  have x5: "?h t5 x = Some (xn\<lparr>rleft := rright yn\<rparr>)"
    using relinks_cell [OF r5, of x] x2 d' by simp
  obtain t6 where t6: "upd (Some x) (rparent_update (\<lambda>_. Some y)) t5 = Some t6" "relinks {x} t5 t6"
    "rroot t6 = rroot t5" "?h t6 x = Some (xn\<lparr>rleft := rright yn, rparent := Some y\<rparr>)"
    using upd_link [OF x5, of "rparent_update (\<lambda>_. Some y)"] by auto
  note r46 = relinks_trans [OF t5(2) t6(2)]
  note r26 = relinks_trans [OF r5 t6(2)]
  note r06 = relinks_trans [OF relinks_trans [OF t1(2) t2(2)] r26]
  have "ctx (?h t6) fs (rroot t6) (Some y) par"
    using t4(3) relinks_ctx [OF r46, of fs] d' t5(3) t6(3) by simp
  moreover have "?h t6 y = Some (yn\<lparr>rparent := par, rright := Some x\<rparr>)"
    using relinks_cell [OF t6(2), of y] t5(4) d' by simp
  moreover have "tr (?h t6) (Some x) l (rright xn)" "tr (?h t6) (Some y) br (rleft yn)"
    using relinks_tr [OF r06] xn(4) yn(3) d' by (simp_all add: Int_Un_distrib2)
  moreover have "tr (?h t6) (Some x) bl (rright yn)"
    using relinks_tr [OF r26] t2(4) d' by (simp add: Int_Un_distrib2)
  ultimately have "tr (?h t6) None (plug fs (Nd br y (Nd bl x l))) (rroot t6)"
    unfolding tr_plug using t6(4) by (intro exI [of _ "Some y"] exI [of _ par]) simp
  moreover have "right_rotate (Some x) t = Some t6"
    using xn(1-3) yn(1) t1(1) t2(1) t3(1) t4(1) t5(1) t6(1) x2(1)
    by (simp add: right_rotate_def node_at_def Let_def)
  ultimately show ?thesis
    using d2 relinks_ok [OF r06 ok] r06 by (auto simp: rb_tree_def)
qed

section \<open>The recolouring\<close>

definition kv :: "('k, 'v) rbnode \<Rightarrow> 'k \<times> 'v" where
  "kv n = (rkey n, rcontent n)"

text \<open>Keys and values stay; \<open>repaints\<close>: only colours change.\<close>

definition same_kv :: "('k, 'v) rbtree \<Rightarrow> ('k, 'v) rbtree \<Rightarrow> bool" where
  "same_kv t t' \<longleftrightarrow> (\<forall>a. map_option kv (cells (rnodes t') a) = map_option kv (cells (rnodes t) a))"

definition uncolored :: "('k, 'v) rbnode \<Rightarrow> ('k, 'v) rbnode" where
  "uncolored n = n\<lparr>rcolor := RED\<rparr>"

definition repaints :: "('k, 'v) rbtree \<Rightarrow> ('k, 'v) rbtree \<Rightarrow> bool" where
  "repaints t t' \<longleftrightarrow> rroot t' = rroot t \<and> fresh (rnodes t') = fresh (rnodes t) \<and>
     (\<forall>a. map_option uncolored (cells (rnodes t') a) = map_option uncolored (cells (rnodes t) a))"

lemma same_kv_refl [simp]: "same_kv t t"
  by (simp add: same_kv_def)

lemma same_kv_trans: "same_kv t t' \<Longrightarrow> same_kv t' t'' \<Longrightarrow> same_kv t t''"
  by (simp add: same_kv_def)

lemma relinks_kv: "relinks S t t' \<Longrightarrow> same_kv t t'"
proof -
  have "map_option kv x = map_option (\<lambda>(k, v, c). (k, v)) (map_option sig x)" for x :: "('k, 'v) rbnode option"
    by (cases x) (simp_all add: kv_def sig_def)
  then show "relinks S t t' \<Longrightarrow> same_kv t t'"
    unfolding relinks_def same_kv_def by metis
qed

lemma relinks_node:
  assumes "relinks S t t'" and "cells (rnodes t) a = Some n"
  shows "\<exists>n'. cells (rnodes t') a = Some n' \<and> rcolor n' = rcolor n"
proof -
  have "map_option sig (cells (rnodes t') a) = Some (sig n)"
    using assms by (simp add: relinks_def)
  then show ?thesis by (auto simp: sig_def)
qed

lemma repaints_refl [simp]: "repaints t t"
  by (simp add: repaints_def)

lemma repaints_trans: "repaints t t' \<Longrightarrow> repaints t' t'' \<Longrightarrow> repaints t t''"
  by (simp add: repaints_def)

lemma repaints_node:
  assumes "repaints t t'" and "cells (rnodes t) a = Some n"
  shows "\<exists>n'. cells (rnodes t') a = Some n' \<and> rkey n' = rkey n \<and> rcontent n' = rcontent n \<and>
    rleft n' = rleft n \<and> rright n' = rright n \<and> rparent n' = rparent n"
proof -
  have "map_option uncolored (cells (rnodes t') a) = Some (uncolored n)"
    using assms by (simp add: repaints_def)
  then obtain n' where n': "cells (rnodes t') a = Some n'" "uncolored n' = uncolored n" by auto
  have f: "rkey (uncolored m) = rkey m" "rcontent (uncolored m) = rcontent m"
    "rleft (uncolored m) = rleft m" "rright (uncolored m) = rright m" "rparent (uncolored m) = rparent m" for m :: "('k, 'v) rbnode"
    by (simp_all add: uncolored_def)
  show ?thesis using n' f by metis
qed

lemma repaints_kv: "repaints t t' \<Longrightarrow> same_kv t t'"
proof -
  have "map_option kv x = map_option kv (map_option uncolored x)" for x :: "('k, 'v) rbnode option"
    by (cases x) (simp_all add: kv_def uncolored_def)
  then show "repaints t t' \<Longrightarrow> same_kv t t'"
    unfolding repaints_def same_kv_def by metis
qed

lemma repaints_tr: "repaints t t' \<Longrightarrow> tr (cells (rnodes t)) par T p \<Longrightarrow> tr (cells (rnodes t')) par T p"
proof (induction T arbitrary: par p)
  case (Nd l a r)
  then obtain n where "cells (rnodes t) a = Some n" by (auto split: option.split_asm)
  with repaints_node [OF Nd.prems(1) this] Nd show ?case by auto
qed simp

lemma repaints_tree: "repaints t t' \<Longrightarrow> rb_tree t T \<Longrightarrow> rb_tree t' T"
proof -
  assume r: "repaints t t'" and T: "rb_tree t T"
  have "store_ok (rnodes t')"
    using r T unfolding repaints_def rb_tree_def store_ok_def by (metis map_option_is_None)
  moreover have "rroot t' = rroot t" using r by (simp add: repaints_def)
  ultimately show ?thesis
    using T repaints_tr [OF r] by (simp add: rb_tree_def)
qed

lemma paint_repaints:
  assumes "cells (rnodes t) a = Some n"
  shows "\<exists>t'. paint c (Some a) t = Some t' \<and> repaints t t' \<and>
    cells (rnodes t') = (cells (rnodes t))(a \<mapsto> n\<lparr>rcolor := c\<rparr>)"
  using assms by (simp add: paint_def upd_def modify_cell repaints_def uncolored_def)

section \<open>The loop after an insertion\<close>

fun faddr :: "frame \<Rightarrow> nat" where
  "faddr (FL a t) = a"
| "faddr (FR a t) = a"

text \<open>The nodes at and above a place of the tree, and how they are linked.\<close>

lemma faddr_in: "f \<in> set fs \<Longrightarrow> faddr f \<in> set (faddrs fs)"
proof (induction fs)
  case (Cons g fs)
  then show ?case by (cases g; cases f) auto
qed simp

lemma ctx_parent: "ctx h fs root q par \<Longrightarrow> par = hd_ptr (map faddr fs) None"
  by (cases "(h, fs, root, q, par)" rule: ctx.cases) auto

lemma ctx_root: "ctx h (f # fs) root q par \<Longrightarrow> root = Some (faddr (last (f # fs)))"
proof (induction fs arbitrary: f q par)
  case Nil
  then show ?case by (cases f) (auto split: option.splits)
next
  case (Cons g gs)
  obtain q' par' where "ctx h (g # gs) root q' par'"
    using Cons.prems by (cases f) (auto split: option.splits)
  from Cons.IH [OF this] show ?case by simp
qed

definition parent_links :: "('k, 'v) rbtree \<Rightarrow> nat \<Rightarrow> frame \<Rightarrow> frame list \<Rightarrow> ('k, 'v) rbnode \<Rightarrow> bool" where
  "parent_links t n f fs pn \<longleftrightarrow> cells (rnodes t) (faddr f) = Some pn \<and>
     rparent pn = hd_ptr (map faddr fs) None \<and>
     (case f of
        FL a u \<Rightarrow> rleft pn = Some n \<and> Some n \<noteq> rright pn \<and> tr (cells (rnodes t)) (Some a) u (rright pn)
      | FR a u \<Rightarrow> rright pn = Some n \<and> Some n \<noteq> rleft pn \<and> tr (cells (rnodes t)) (Some a) u (rleft pn))"

lemma path_node:
  assumes "rb_tree t (plug fs (Nd l n r))"
  obtains nn where "cells (rnodes t) n = Some nn" "rparent nn = hd_ptr (map faddr fs) None"
    "rroot t = Some n \<longleftrightarrow> fs = []"
proof -
  obtain q par where c: "ctx (cells (rnodes t)) fs (rroot t) q par"
    "tr (cells (rnodes t)) par (Nd l n r) q" and d: "n \<notin> set (faddrs fs)"
    using assms by (auto simp: rb_tree_def tr_plug distinct_plug)
  have "rroot t = Some n \<longleftrightarrow> fs = []"
  proof (cases fs)
    case Nil
    with c show ?thesis by simp
  next
    case (Cons f gs)
    with c d show ?thesis
      using ctx_root [of _ f gs] faddr_in [of "last (f # gs)" fs] by force
  qed
  with that ctx_parent [OF c(1)] c(2) show thesis by (auto split: option.splits)
qed

lemma path_parent:
  assumes "rb_tree t (plug (f # fs) (Nd l n r))"
  obtains pn where "parent_links t n f fs pn"
proof -
  obtain par where c: "ctx (cells (rnodes t)) (f # fs) (rroot t) (Some n) par"
    and d: "n \<notin> set (faddrs (f # fs))"
    using assms by (auto simp: rb_tree_def tr_plug distinct_plug)
  have "\<exists>pn. parent_links t n f fs pn"
    using c d tr_root_notin ctx_parent
    by (cases f) (fastforce simp: parent_links_def split: option.splits)+
  with that show thesis by blast
qed

lemma plug_up: "plug (f # fs) s = plug fs (case f of FL a u \<Rightarrow> Nd s a u | FR a u \<Rightarrow> Nd u a s)"
  by (cases f) simp_all

text \<open>Below a black parent, and near the root, the loop stops.\<close>

lemma fixup_guard_path:
  assumes "rb_tree t (plug fs (Nd l n r))"
  shows "fixup_guard (Some n) t = Some (case fs of
      f # g # _ \<Rightarrow> rcolor (the (cells (rnodes t) (faddr f))) = RED | _ \<Rightarrow> False)"
proof -
  obtain nn where nn: "cells (rnodes t) n = Some nn" "rparent nn = hd_ptr (map faddr fs) None"
    "rroot t = Some n \<longleftrightarrow> fs = []"
    using path_node [OF assms] .
  show ?thesis
  proof (cases fs)
    case Nil
    with nn show ?thesis by (simp add: fixup_guard_def)
  next
    case (Cons f gs)
    obtain pn where "parent_links t n f gs pn"
      using path_parent assms Cons by blast
    with nn Cons show ?thesis
      by (cases gs) (auto simp: fixup_guard_def node_at_def parent_links_def)
  qed
qed

lemma fixup_loop_stop:
  assumes "rb_tree t (plug fs (Nd l n r))" and "fixup_guard (Some n) t = Some False"
  shows "fixup_loop (Some n) t = Some t"
  using assms(2) by (subst fixup_loop.simps) simp

lemma restructure_outer:
  assumes tree: "rb_tree t T" and n: "cells (rnodes t) n = Some nn" "rparent nn = Some p"
    and p: "cells (rnodes t) p = Some pn" "rparent pn = Some g" and g: "cells (rnodes t) g = Some gn"
    and "p \<noteq> g" and rot: "\<And>t. rb_tree t T \<Longrightarrow> \<exists>t' S. rot2 (Some g) t = Some t' \<and> rb_tree t' T2 \<and> relinks S t t'"
  shows "\<exists>t'. restructure False rot1 rot2 (Some n) t = Some (Some n, t') \<and> rb_tree t' T2 \<and>
    same_kv t t' \<and> rcolor (the (cells (rnodes t') p)) = BLACK"
proof -
  obtain t2 where t2: "paint BLACK (Some p) t = Some t2" "repaints t t2"
    "cells (rnodes t2) = (cells (rnodes t))(p \<mapsto> pn\<lparr>rcolor := BLACK\<rparr>)"
    using paint_repaints [OF p(1)] by blast
  then have "cells (rnodes t2) g = Some gn" using g \<open>p \<noteq> g\<close> by simp
  then obtain t3 where t3: "paint RED (Some g) t2 = Some t3" "repaints t2 t3"
    "cells (rnodes t3) = (cells (rnodes t2))(g \<mapsto> gn\<lparr>rcolor := RED\<rparr>)"
    using paint_repaints by blast
  note r = repaints_trans [OF t2(2) t3(2)]
  obtain t4 S where t4: "rot2 (Some g) t3 = Some t4" "rb_tree t4 T2" "relinks S t3 t4"
    using rot [OF repaints_tree [OF r tree]] by blast
  have "cells (rnodes t3) p = Some (pn\<lparr>rcolor := BLACK\<rparr>)"
    using t2(3) t3(3) \<open>p \<noteq> g\<close> by simp
  from relinks_node [OF t4(3) this] have "rcolor (the (cells (rnodes t4) p)) = BLACK" by auto
  moreover have "restructure False rot1 rot2 (Some n) t = Some (Some n, t4)"
    using n p t2(1,3) t3(1) t4(1) by (simp add: restructure_def node_at_def)
  ultimately show ?thesis
    using t4 same_kv_trans [OF repaints_kv [OF r] relinks_kv [OF t4(3)]] by blast
qed

lemma restructure_inner:
  assumes "cells (rnodes t) n = Some nn" "rparent nn = Some p" and "rot1 (Some p) t = Some t1"
  shows "restructure True rot1 rot2 (Some n) t = restructure False rot1 rot2 (Some p) t1"
  using assms by (simp add: restructure_def node_at_def)

lemma recolor_tree:
  assumes tree: "rb_tree t T" and p: "cells (rnodes t) p = Some pn" and y: "cells (rnodes t) y = Some yn"
    "rparent yn = Some g" and g: "cells (rnodes t) g = Some gn"
    and gg: "\<And>q. rparent gn = Some q \<Longrightarrow> \<exists>qn. cells (rnodes t) q = Some qn"
  shows "\<exists>t'. recolor (Some p) (Some y) t = Some t' \<and> repaints t t'"
proof -
  obtain t1 where t1: "paint BLACK (Some p) t = Some t1" "repaints t t1"
    using paint_repaints [OF p] by blast
  obtain y1 where "cells (rnodes t1) y = Some y1" using repaints_node [OF t1(2) y(1)] by blast
  then obtain t2 where t2: "paint BLACK (Some y) t1 = Some t2" "repaints t1 t2"
    using paint_repaints by blast
  note r = repaints_trans [OF t1(2) t2(2)]
  obtain y2 where y2: "cells (rnodes t2) y = Some y2" "rparent y2 = Some g"
    using repaints_node [OF r y(1)] y(2) by auto
  obtain g2 where g2: "cells (rnodes t2) g = Some g2" "rparent g2 = rparent gn"
    using repaints_node [OF r g] by auto
  show ?thesis
  proof (cases "rparent gn")
    case None
    with r t1(1) t2(1) y2 g2 show ?thesis by (simp add: recolor_def node_at_def)
  next
    case (Some q)
    then obtain q2 where "cells (rnodes t2) q = Some q2"
      using gg repaints_node [OF r] by blast
    then obtain t3 where "paint RED (Some q) t2 = Some t3" "repaints t2 t3"
      using paint_repaints by blast
    with Some r t1(1) t2(1) y2 g2 repaints_trans [OF r] show ?thesis
      by (simp add: recolor_def node_at_def)
  qed
qed

text \<open>
  One round on the path \<open>f # g # fs\<close>: it moves two levels up, or rotates and stops below a
  black parent, or faults because the missing uncle of a left child's child is read.
\<close>

definition step_ok :: "('k, 'v) rbtree \<Rightarrow> nat \<Rightarrow> atree \<Rightarrow> frame list \<Rightarrow> bool" where
  "step_ok t n T fs \<longleftrightarrow>
     (\<exists>t' n' l' r'. fixup_step (Some n) t = Some (Some n', t') \<and> same_kv t t' \<and>
        inorder (plug fs (Nd l' n' r')) = inorder T \<and> rb_tree t' (plug fs (Nd l' n' r'))) \<or>
     (\<exists>t' n' T'. fixup_step (Some n) t = Some (Some n', t') \<and> same_kv t t' \<and>
        inorder T' = inorder T \<and> rb_tree t' T' \<and> fixup_guard (Some n') t' = Some False)"

lemma step_rotated:
  assumes "fixup_step (Some n) t = Some (Some n', t')" and "same_kv t t'"
    and "rb_tree t' (plug fs' (Nd l' n' r'))" and "fs' = f # fs2" and "rcolor (the (cells (rnodes t') (faddr f))) = BLACK"
    and "inorder (plug fs' (Nd l' n' r')) = inorder T"
  shows "step_ok t n T fs"
proof -
  have "fixup_guard (Some n') t' = Some False"
    using fixup_guard_path [OF assms(3)] assms(4,5) by (auto split: list.splits)
  with assms show ?thesis unfolding step_ok_def by blast
qed

lemma plug_Nd: "\<exists>l' r'. plug (f # fs) s = plug fs (Nd l' (faddr f) r')"
proof (cases f)
  case (FL a u)
  then show ?thesis by (intro exI [of _ s] exI [of _ u]) simp
next
  case (FR a u)
  then show ?thesis by (intro exI [of _ u] exI [of _ s]) simp
qed

lemma path_grandparent:
  assumes tree: "rb_tree t (plug (f # g # fs) (Nd l n r))"
  obtains nn pn gn where "cells (rnodes t) n = Some nn" "rparent nn = Some (faddr f)"
    "parent_links t n f (g # fs) pn" "parent_links t (faddr f) g fs gn" "faddr f \<noteq> faddr g"
    "\<And>q. rparent gn = Some q \<Longrightarrow> \<exists>qn. cells (rnodes t) q = Some qn"
proof -
  obtain l' r' where up: "plug (f # g # fs) (Nd l n r) = plug (g # fs) (Nd l' (faddr f) r')"
    using plug_Nd by blast
  obtain l2 r2 where up2: "plug (g # fs) (Nd l' (faddr f) r') = plug fs (Nd l2 (faddr g) r2)"
    using plug_Nd by blast
  obtain nn where nn: "cells (rnodes t) n = Some nn" "rparent nn = Some (faddr f)"
    using path_node [OF tree] by auto
  obtain pn where pn: "parent_links t n f (g # fs) pn" using path_parent [OF tree] .
  obtain gn where gn: "parent_links t (faddr f) g fs gn"
    using path_parent [OF tree [unfolded up]] .
  have "distinct (faddrs (f # g # fs))"
    using tree unfolding rb_tree_def distinct_plug by blast
  then have "faddr f \<noteq> faddr g" by (cases f; cases g) auto
  moreover have "\<exists>qn. cells (rnodes t) q = Some qn" if "rparent gn = Some q" for q
  proof (cases fs)
    case Nil
    with that gn show ?thesis by (simp add: parent_links_def)
  next
    case (Cons e es)
    have "rb_tree t (plug (e # es) (Nd l2 (faddr g) r2))"
      using tree up up2 Cons by simp
    then obtain en where "parent_links t (faddr g) e es en" by (rule path_parent)
    moreover have "q = faddr e" using that gn by (simp add: parent_links_def Cons)
    ultimately show ?thesis by (simp add: parent_links_def)
  qed
  ultimately show thesis using that nn pn gn by blast
qed

lemma outer_left:
  assumes tree: "rb_tree t (plug (FL p S # FL g U # fs) (Nd l n r))"
  shows "\<exists>t'. restructure False rot1 right_rotate (Some n) t = Some (Some n, t') \<and> same_kv t t' \<and>
    rb_tree t' (plug (FL p (Nd S g U) # fs) (Nd l n r)) \<and> rcolor (the (cells (rnodes t') p)) = BLACK"
proof -
  let ?T = "plug fs (Nd (Nd (Nd l n r) p S) g U)"
  obtain nn pn gn where n: "cells (rnodes t) n = Some nn" "rparent nn = Some p"
    and p: "parent_links t n (FL p S) (FL g U # fs) pn" "parent_links t p (FL g U) fs gn" "p \<noteq> g"
    using path_grandparent [OF tree] by (metis faddr.simps(1))
  have "rb_tree t ?T" using tree by simp
  from restructure_outer [OF this n, of pn g gn right_rotate "plug fs (Nd (Nd l n r) p (Nd S g U))" rot1]
  show ?thesis
    using p right_rotate_tree [of _ fs "Nd l n r" p S g U] by (simp add: parent_links_def) blast
qed

lemma outer_right:
  assumes tree: "rb_tree t (plug (FR p S # FR g U # fs) (Nd l n r))"
  shows "\<exists>t'. restructure False rot1 left_rotate (Some n) t = Some (Some n, t') \<and> same_kv t t' \<and>
    rb_tree t' (plug (FR p (Nd U g S) # fs) (Nd l n r)) \<and> rcolor (the (cells (rnodes t') p)) = BLACK"
proof -
  let ?T = "plug fs (Nd U g (Nd S p (Nd l n r)))"
  obtain nn pn gn where n: "cells (rnodes t) n = Some nn" "rparent nn = Some p"
    and p: "parent_links t n (FR p S) (FR g U # fs) pn" "parent_links t p (FR g U) fs gn" "p \<noteq> g"
    using path_grandparent [OF tree] by (metis faddr.simps(2))
  have "rb_tree t ?T" using tree by simp
  from restructure_outer [OF this n, of pn g gn left_rotate "plug fs (Nd (Nd U g S) p (Nd l n r))" rot1]
  show ?thesis
    using p left_rotate_tree [of _ fs U g S p "Nd l n r"] by (simp add: parent_links_def) blast
qed

lemma step_left:
  assumes tree: "rb_tree t (plug (f # FL g U # fs) (Nd l n r))"
  shows "if U = Lf then fixup_step (Some n) t = None
    else step_ok t n (plug (f # FL g U # fs) (Nd l n r)) fs"
proof -
  obtain nn pn gn where n: "cells (rnodes t) n = Some nn" "rparent nn = Some (faddr f)"
    and p: "parent_links t n f (FL g U # fs) pn" and g: "parent_links t (faddr f) (FL g U) fs gn"
    and pg: "faddr f \<noteq> g" and gg: "\<And>q. rparent gn = Some q \<Longrightarrow> \<exists>qn. cells (rnodes t) q = Some qn"
    using path_grandparent [OF tree] by (metis faddr.simps(1))
  have links: "cells (rnodes t) (faddr f) = Some pn" "rparent pn = Some g"
    "cells (rnodes t) g = Some gn" "rleft gn = Some (faddr f)"
    using p g by (simp_all add: parent_links_def)
  show ?thesis
  proof (cases U)
    case Lf
    then have "rright gn = None" using g by (simp add: parent_links_def)
    with Lf n links show ?thesis by (simp add: fixup_step_def node_at_def Let_def)
  next
    case (Nd ul u ur)
    then obtain un where u: "rright gn = Some u" "cells (rnodes t) u = Some un" "rparent un = Some g"
      using g by (auto simp: parent_links_def split: option.splits)
    note step = fixup_step_def node_at_def Let_def
    show ?thesis
    proof (cases "rcolor un")
      case RED
      obtain t' where t': "recolor (Some (faddr f)) (Some u) t = Some t'" "repaints t t'"
        using recolor_tree [OF tree links(1) u(2,3) links(3) gg] by blast
      obtain l' r' where up: "plug (f # FL g U # fs) (Nd l n r) = plug fs (Nd l' g r')"
        using plug_Nd by (metis faddr.simps(1))
      have "fixup_step (Some n) t = Some (Some g, t')"
        using n links u RED t'(1) by (simp add: step)
      with repaints_kv [OF t'(2)] repaints_tree [OF t'(2) tree] show ?thesis
        unfolding step_ok_def up using Nd by auto
    next
      case BLACK
      show ?thesis
      proof (cases f)
        case (FL q S)
        have st: "fixup_step (Some n) t = restructure False left_rotate right_rotate (Some n) t"
          using n links u BLACK p FL by (simp add: step parent_links_def)
        obtain t' where "restructure False left_rotate right_rotate (Some n) t = Some (Some n, t')"
          "same_kv t t'" "rb_tree t' (plug (FL q (Nd S g U) # fs) (Nd l n r))"
          "rcolor (the (cells (rnodes t') q)) = BLACK"
          using outer_left tree FL by blast
        with step_rotated [of n t n t' "FL q (Nd S g U) # fs" l r "FL q (Nd S g U)" fs
          "plug (f # FL g U # fs) (Nd l n r)" fs] st Nd FL show ?thesis
          by (simp add: inorder_plug)
      next
        case (FR q S)
        obtain t1 R where t1: "left_rotate (Some q) t = Some t1"
          "rb_tree t1 (plug (FL g U # fs) (Nd (Nd S q l) n r))" "relinks R t t1"
          using left_rotate_tree [of t "FL g U # fs" S q l n r] tree FR by auto
        have "fixup_step (Some n) t = restructure True left_rotate right_rotate (Some n) t"
          using n links u BLACK p FR by (simp add: step parent_links_def)
        then have st: "fixup_step (Some n) t = restructure False left_rotate right_rotate (Some q) t1"
          using restructure_inner [of t n nn q left_rotate t1] n t1(1) FR by simp
        have "rb_tree t1 (plug (FL n r # FL g U # fs) (Nd S q l))"
          using t1(2) by simp
        then obtain t' where "restructure False left_rotate right_rotate (Some q) t1 = Some (Some q, t')"
          "same_kv t1 t'" "rb_tree t' (plug (FL n (Nd r g U) # fs) (Nd S q l))"
          "rcolor (the (cells (rnodes t') n)) = BLACK"
          using outer_left by blast
        with step_rotated [of n t q t' "FL n (Nd r g U) # fs" S l "FL n (Nd r g U)" fs
          "plug (f # FL g U # fs) (Nd l n r)" fs] st Nd FR
          same_kv_trans [OF relinks_kv [OF t1(3)]] show ?thesis
          by (simp add: inorder_plug)
      qed
    qed
  qed
qed

lemma step_right:
  assumes tree: "rb_tree t (plug (f # FR g U # fs) (Nd l n r))"
  shows "step_ok t n (plug (f # FR g U # fs) (Nd l n r)) fs"
proof -
  obtain nn pn gn where n: "cells (rnodes t) n = Some nn" "rparent nn = Some (faddr f)"
    and p: "parent_links t n f (FR g U # fs) pn" and g: "parent_links t (faddr f) (FR g U) fs gn"
    and pg: "faddr f \<noteq> g" and gg: "\<And>q. rparent gn = Some q \<Longrightarrow> \<exists>qn. cells (rnodes t) q = Some qn"
    using path_grandparent [OF tree] by (metis faddr.simps(2))
  have links: "cells (rnodes t) (faddr f) = Some pn" "rparent pn = Some g"
    "cells (rnodes t) g = Some gn" "Some (faddr f) \<noteq> rleft gn"
    using p g by (simp_all add: parent_links_def)
  note step = fixup_step_def node_at_def Let_def
  obtain red where red: "(if rleft gn \<noteq> None then do { yn \<leftarrow> deref (rnodes t) (rleft gn); Some (rcolor yn = RED) }
      else Some False) = Some red" and u: "red \<Longrightarrow>
      \<exists>u un. rleft gn = Some u \<and> cells (rnodes t) u = Some un \<and> rparent un = Some g"
    and black: "\<not> red \<Longrightarrow> rleft gn = None \<or>
      (\<exists>u un. rleft gn = Some u \<and> cells (rnodes t) u = Some un \<and> rcolor un \<noteq> RED)"
    using g by (cases U) (auto simp: parent_links_def split: option.splits)
  show ?thesis
  proof (cases red)
    case True
    then obtain u un where u: "rleft gn = Some u" "cells (rnodes t) u = Some un" "rparent un = Some g"
      using u by blast
    obtain t' where t': "recolor (Some (faddr f)) (Some u) t = Some t'" "repaints t t'"
      using recolor_tree [OF tree links(1) u(2,3) links(3) gg] by blast
    obtain l' r' where up: "plug (f # FR g U # fs) (Nd l n r) = plug fs (Nd l' g r')"
      using plug_Nd by (metis faddr.simps(2))
    have "fixup_step (Some n) t = Some (Some g, t')"
      using n links u red True t'(1) by (simp add: step)
    with repaints_kv [OF t'(2)] repaints_tree [OF t'(2) tree] show ?thesis
      unfolding step_ok_def up by auto
  next
    case False
    show ?thesis
    proof (cases f)
      case (FR q S)
      have st: "fixup_step (Some n) t = restructure False right_rotate left_rotate (Some n) t"
        using n links black [OF False] p FR by (auto simp: step parent_links_def)
      obtain t' where "restructure False right_rotate left_rotate (Some n) t = Some (Some n, t')"
        "same_kv t t'" "rb_tree t' (plug (FR q (Nd U g S) # fs) (Nd l n r))"
        "rcolor (the (cells (rnodes t') q)) = BLACK"
        using outer_right tree FR by blast
      with step_rotated [of n t n t' "FR q (Nd U g S) # fs" l r "FR q (Nd U g S)" fs
          "plug (f # FR g U # fs) (Nd l n r)" fs] st FR show ?thesis
        by (simp add: inorder_plug)
    next
      case (FL q S)
      obtain t1 R where t1: "right_rotate (Some q) t = Some t1"
        "rb_tree t1 (plug (FR g U # fs) (Nd l n (Nd r q S)))" "relinks R t t1"
        using right_rotate_tree [of t "FR g U # fs" l n r q S] tree FL by auto
      have "fixup_step (Some n) t = restructure True right_rotate left_rotate (Some n) t"
        using n links black [OF False] p FL by (auto simp: step parent_links_def)
      then have st: "fixup_step (Some n) t = restructure False right_rotate left_rotate (Some q) t1"
        using restructure_inner [of t n nn q right_rotate t1] n t1(1) FL by simp
      have "rb_tree t1 (plug (FR n l # FR g U # fs) (Nd r q S))"
        using t1(2) by simp
      then obtain t' where "restructure False right_rotate left_rotate (Some q) t1 = Some (Some q, t')"
        "same_kv t1 t'" "rb_tree t' (plug (FR n (Nd U g l) # fs) (Nd r q S))"
        "rcolor (the (cells (rnodes t') n)) = BLACK"
        using outer_right by blast
      with step_rotated [of n t q t' "FR n (Nd U g l) # fs" r S "FR n (Nd U g l)" fs
          "plug (f # FR g U # fs) (Nd l n r)" fs] st FL
        same_kv_trans [OF relinks_kv [OF t1(3)]] show ?thesis
        by (simp add: inorder_plug)
    qed
  qed
qed

text \<open>The tree has a node on the path, entered to the left, that has no right child.\<close>

definition lonely :: "frame list \<Rightarrow> bool" where
  "lonely fs \<longleftrightarrow> (\<exists>a. FL a Lf \<in> set (tl fs))"

lemma lonely_up: "lonely gs \<Longrightarrow> lonely (f # g # gs)"
  by (cases gs) (auto simp: lonely_def)

definition keeps :: "('k, 'v) rbtree \<Rightarrow> atree \<Rightarrow> ('k, 'v) rbtree \<Rightarrow> bool" where
  "keeps t T t' \<longleftrightarrow> (\<exists>T'. rb_tree t' T' \<and> inorder T' = inorder T \<and> same_kv t t')"

lemma fixup_loop_tree:
  assumes "rb_tree t (plug fs (Nd l n r))"
  shows "(\<exists>t'. fixup_loop (Some n) t = Some t' \<and> keeps t (plug fs (Nd l n r)) t') \<or>
    lonely fs \<and> fixup_loop (Some n) t = None"
  using assms
proof (induction fs arbitrary: t l n r rule: length_induct)
  case (1 fs)
  let ?T = "plug fs (Nd l n r)"
  note tree = 1(2)
  show ?case
  proof (cases "fixup_guard (Some n) t = Some False")
    case True
    with fixup_loop_stop [OF tree True] tree show ?thesis
      unfolding keeps_def by fastforce
  next
    case False
    then have guard: "fixup_guard (Some n) t = Some True"
      using fixup_guard_path [OF tree] by simp
    then obtain f g gs where fs: "fs = f # g # gs"
      using fixup_guard_path [OF tree] by (auto split: list.split_asm)
    note loop = fixup_loop.simps [of "Some n" t]
    have "(\<exists>a. g = FL a Lf) \<and> fixup_step (Some n) t = None \<or> step_ok t n ?T gs"
    proof (cases g)
      case (FL a U)
      with step_left [of t f a U gs l n r] tree show ?thesis by (auto simp: fs split: if_splits)
    next
      case (FR a U)
      with step_right [of t f a U gs l n r] tree show ?thesis by (simp add: fs)
    qed
    then consider "\<exists>a. g = FL a Lf" "fixup_step (Some n) t = None" | "step_ok t n ?T gs" by auto
    then show ?thesis
    proof cases
      case 1
      then have "lonely fs" "fixup_loop (Some n) t = None"
        using guard by (auto simp: lonely_def fs loop)
      then show ?thesis by simp
    next
      case 2
      then consider (up) t' n' l' r' where "fixup_step (Some n) t = Some (Some n', t')" "same_kv t t'"
          "inorder (plug gs (Nd l' n' r')) = inorder ?T" "rb_tree t' (plug gs (Nd l' n' r'))"
        | (stop) t' n' T' where "fixup_step (Some n) t = Some (Some n', t')" "same_kv t t'"
          "inorder T' = inorder ?T" "rb_tree t' T'" "fixup_guard (Some n') t' = Some False"
        unfolding step_ok_def by blast
      then show ?thesis
      proof cases
        case up
        have "length gs < length fs" by (simp add: fs)
        from 1(1) [rule_format, OF this up(4)] up(1-3) guard show ?thesis
          unfolding keeps_def loop
          by (auto simp: fs intro: same_kv_trans lonely_up)
      next
        case stop
        then have "fixup_loop (Some n') t' = Some t'" by (subst fixup_loop.simps) simp
        with stop guard show ?thesis
          unfolding keeps_def loop by auto
      qed
    qed
  qed
qed

lemma keeps_refl: "rb_tree t T \<Longrightarrow> keeps t T t"
  unfolding keeps_def by (intro exI [of _ T]) simp

lemma insertion_fixup_tree:
  assumes "rb_tree t (plug fs (Nd l n r))"
  shows "(\<exists>t'. insertion_fixup (Some n) t = Some t' \<and> keeps t (plug fs (Nd l n r)) t') \<or>
    lonely fs \<and> insertion_fixup (Some n) t = None"
proof -
  obtain nn where nn: "cells (rnodes t) n = Some nn" "rparent nn = hd_ptr (map faddr fs) None"
    using path_node [OF assms] by blast
  have "\<exists>quick. (if rparent nn \<noteq> None
      then do { pn \<leftarrow> node_at t (rparent nn); Some (rcolor pn = BLACK) } else Some False) = Some quick"
  proof (cases fs)
    case (Cons f gs)
    then obtain pn where "parent_links t n f gs pn"
      using path_parent assms by blast
    with nn Cons show ?thesis by (simp add: parent_links_def node_at_def)
  qed (use nn in auto)
  then obtain quick where quick: "(if rparent nn \<noteq> None
      then do { pn \<leftarrow> node_at t (rparent nn); Some (rcolor pn = BLACK) } else Some False) = Some quick"
    by auto
  note def = insertion_fixup_def node_at_def
  show ?thesis
  proof (cases quick)
    case True
    then have "insertion_fixup (Some n) t = Some t"
      using quick nn(1) by (simp add: def)
    with keeps_refl [OF assms] show ?thesis by simp
  next
    case False
    from fixup_loop_tree [OF assms] show ?thesis
    proof
      assume "\<exists>t'. fixup_loop (Some n) t = Some t' \<and> keeps t (plug fs (Nd l n r)) t'"
      then obtain t' T' where t': "fixup_loop (Some n) t = Some t'" "rb_tree t' T'"
        "inorder T' = inorder (plug fs (Nd l n r))" "same_kv t t'"
        by (auto simp: keeps_def)
      then have "T' \<noteq> Lf" by (auto simp: inorder_plug)
      then obtain a an where "rroot t' = Some a" "cells (rnodes t') a = Some an"
        using t'(2) by (cases T') (auto simp: rb_tree_def split: option.splits)
      then obtain t2 where "paint BLACK (rroot t') t' = Some t2" "repaints t' t2"
        using paint_repaints by metis
      with t' quick False nn(1) have "insertion_fixup (Some n) t = Some t2"
        by (simp add: def)
      moreover have "rb_tree t2 T'" "same_kv t t2"
        using repaints_tree [OF \<open>repaints t' t2\<close> t'(2)]
          same_kv_trans [OF t'(4) repaints_kv [OF \<open>repaints t' t2\<close>]] .
      ultimately show ?thesis
        using t'(3) unfolding keeps_def by blast
    next
      assume "lonely fs \<and> fixup_loop (Some n) t = None"
      moreover from this have "insertion_fixup (Some n) t = None"
        using quick False nn(1) by (simp add: def)
      ultimately show ?thesis by blast
    qed
  qed
qed

section \<open>Searching and inserting\<close>

definition key_of :: "('k, 'v) rbtree \<Rightarrow> nat \<Rightarrow> 'k" where
  "key_of t a = rkey (the (cells (rnodes t) a))"

definition entry_of :: "('k, 'v) rbtree \<Rightarrow> nat \<Rightarrow> 'k \<times> 'v" where
  "entry_of t a = kv (the (cells (rnodes t) a))"

text \<open>The entries of a tree from left to right; the keys are in ascending order.\<close>

definition rb_rep :: "('k :: linorder, 'v) rbtree \<Rightarrow> ('k \<times> 'v) list \<Rightarrow> bool" where
  "rb_rep t xs \<longleftrightarrow> (\<exists>T. rb_tree t T \<and> xs = map (entry_of t) (inorder T)) \<and> sorted (map fst xs)"

lemma tr_cells: "tr h par T p \<Longrightarrow> a \<in> set (inorder T) \<Longrightarrow> \<exists>n. h a = Some n"
  by (induction T arbitrary: par p) (auto split: option.splits)

lemma same_kv_entry:
  assumes "same_kv t t'" and "cells (rnodes t) a = Some n"
  shows "entry_of t' a = entry_of t a"
proof -
  have "map_option kv (cells (rnodes t') a) = Some (kv n)"
    using assms by (simp add: same_kv_def)
  with assms(2) show ?thesis by (auto simp: entry_of_def)
qed

lemma find_loop_tree:
  assumes "tr (cells s) par T p" and "sorted (map (\<lambda>a. rkey (the (cells s a))) (inorder T))"
  shows "if \<exists>a \<in> set (inorder T). rkey (the (cells s a)) = k
    then \<exists>a \<in> set (inorder T). rkey (the (cells s a)) = k \<and> find_loop s k p = Some (Some a)
    else find_loop s k p = Some None"
  using assms
proof (induction T arbitrary: par p)
  case Lf
  then show ?case by (simp add: find_loop.simps)
next
  case (Nd l a r)
  obtain n where n: "cells s a = Some n" "p = Some a" "tr (cells s) (Some a) l (rleft n)"
    "tr (cells s) (Some a) r (rright n)"
    using Nd.prems(1) by (auto split: option.splits)
  let ?key = "\<lambda>a. rkey (the (cells s a))"
  have srt: "sorted (map ?key (inorder l))" "sorted (map ?key (inorder r))"
    and bound: "\<And>b. b \<in> set (inorder l) \<Longrightarrow> ?key b \<le> rkey n" "\<And>b. b \<in> set (inorder r) \<Longrightarrow> rkey n \<le> ?key b"
    using Nd.prems(2) n(1) by (auto simp: sorted_append)
  note IH = Nd.IH(1) [OF n(3) srt(1)] Nd.IH(2) [OF n(4) srt(2)]
  note loop = find_loop.simps [of s k "Some a"]
  show ?case
  proof (cases k "rkey n" rule: linorder_cases)
    case less
    then have "(\<exists>b \<in> set (inorder (Nd l a r)). ?key b = k) \<longleftrightarrow> (\<exists>b \<in> set (inorder l). ?key b = k)"
      using bound(2) n(1) by fastforce
    with IH(1) less n(1,2) show ?thesis by (auto simp: loop split: if_splits)
  next
    case equal
    then have "find_loop s k (Some a) = Some (Some a)"
      using n(1) by (subst loop) simp
    with equal n(1,2) show ?thesis by auto
  next
    case greater
    then have "(\<exists>b \<in> set (inorder (Nd l a r)). ?key b = k) \<longleftrightarrow> (\<exists>b \<in> set (inorder r). ?key b = k)"
      using bound(1) n(1) by fastforce
    with IH(2) greater n(1,2) show ?thesis by (auto simp: loop split: if_splits)
  qed
qed

lemma rb_rep_keys:
  assumes "rb_tree t T" and "xs = map (entry_of t) (inorder T)"
  shows "map fst xs = map (\<lambda>a. rkey (the (cells (rnodes t) a))) (inorder T)"
  using assms(2) by (simp add: entry_of_def kv_def)

lemma get_value_rep:
  assumes "rb_rep t xs"
  shows "if k \<in> fst ` set xs then \<exists>v. (k, v) \<in> set xs \<and> get_value k t = Some (Some v) \<and> key_exists k t = Some True
    else get_value k t = Some None \<and> key_exists k t = Some False"
proof -
  obtain T where T: "rb_tree t T" "xs = map (entry_of t) (inorder T)" and srt: "sorted (map fst xs)"
    using assms by (auto simp: rb_rep_def)
  have tr: "tr (cells (rnodes t)) None T (rroot t)" using T(1) by (simp add: rb_tree_def)
  note find = find_loop_tree [OF tr, of k] srt [unfolded rb_rep_keys [OF T]]
  have keys: "k \<in> fst ` set xs \<longleftrightarrow> (\<exists>a \<in> set (inorder T). rkey (the (cells (rnodes t) a)) = k)"
    by (auto simp: T(2) entry_of_def kv_def image_iff)
  show ?thesis
  proof (cases "k \<in> fst ` set xs")
    case True
    then obtain a where a: "a \<in> set (inorder T)" "rkey (the (cells (rnodes t) a)) = k"
      "find_node k t = Some (Some a)"
      using find keys by (auto simp: find_node_def)
    obtain n where n: "cells (rnodes t) a = Some n" using tr_cells [OF tr a(1)] by blast
    have "(k, rcontent n) \<in> set xs"
      using a(1,2) n by (force simp: T(2) entry_of_def kv_def)
    with True a(3) n show ?thesis by (auto simp: get_value_def key_exists_def)
  next
    case False
    with find keys show ?thesis by (simp add: get_value_def key_exists_def find_node_def)
  qed
qed

text \<open>The descent of an insertion ends in the empty place between the smaller or equal keys and the larger.\<close>

lemma descend_tree:
  assumes "ctx (cells s) fs root p par" and "tr (cells s) par T p"
    and "sorted (map (\<lambda>a. rkey (the (cells s a))) (inorder T))"
  shows "\<exists>gs. descend s k p par = Some (hd_ptr (map faddr gs) None) \<and> plug gs Lf = plug fs T \<and>
    fbefore gs = fbefore fs @ takeWhile (\<lambda>a. rkey (the (cells s a)) \<le> k) (inorder T) \<and>
    fafter gs = dropWhile (\<lambda>a. rkey (the (cells s a)) \<le> k) (inorder T) @ fafter fs \<and>
    (\<forall>f \<in> set gs. f \<in> set fs \<or> (case f of
        FL a u \<Rightarrow> k < rkey (the (cells s a)) \<and> a \<in> set (inorder T)
      | FR a u \<Rightarrow> \<not> k < rkey (the (cells s a))))"
  using assms
proof (induction T arbitrary: fs p par)
  case Lf
  then show ?case
    using ctx_parent [OF Lf(1)] by (auto simp: descend.simps intro!: exI [of _ fs])
next
  case (Nd l a r)
  obtain n where n: "cells s a = Some n" "p = Some a" "rparent n = par"
    "tr (cells s) (Some a) l (rleft n)" "tr (cells s) (Some a) r (rright n)"
    using Nd.prems(2) by (auto split: option.splits)
  let ?key = "\<lambda>a. rkey (the (cells s a))"
  have srt: "sorted (map ?key (inorder l))" "sorted (map ?key (inorder r))"
    and bound: "\<And>b. b \<in> set (inorder l) \<Longrightarrow> ?key b \<le> rkey n" "\<And>b. b \<in> set (inorder r) \<Longrightarrow> rkey n \<le> ?key b"
    using Nd.prems(3) n(1) by (auto simp: sorted_append)
  show ?case
  proof (cases "k < rkey n")
    case True
    have c: "ctx (cells s) (FL a r # fs) root (rleft n) (Some a)"
      using Nd.prems(1) n by simp
    have "takeWhile (\<lambda>a. ?key a \<le> k) (inorder (Nd l a r)) = takeWhile (\<lambda>a. ?key a \<le> k) (inorder l)"
      "dropWhile (\<lambda>a. ?key a \<le> k) (inorder (Nd l a r)) = dropWhile (\<lambda>a. ?key a \<le> k) (inorder l) @ a # inorder r"
      using True n(1) by (simp_all add: takeWhile_tail dropWhile_append3)
    moreover obtain gs where gs: "descend s k (rleft n) (Some a) = Some (hd_ptr (map faddr gs) None)"
      "plug gs Lf = plug (FL a r # fs) l"
      "fbefore gs = fbefore (FL a r # fs) @ takeWhile (\<lambda>a. ?key a \<le> k) (inorder l)"
      "fafter gs = dropWhile (\<lambda>a. ?key a \<le> k) (inorder l) @ fafter (FL a r # fs)"
      "\<forall>f \<in> set gs. f \<in> set (FL a r # fs) \<or> (case f of
        FL a u \<Rightarrow> k < ?key a \<and> a \<in> set (inorder l) | FR a u \<Rightarrow> \<not> k < ?key a)"
      using Nd.IH(1) [OF c n(4) srt(1)] by blast
    moreover have "f \<in> set fs \<or> (case f of
        FL b u \<Rightarrow> k < ?key b \<and> b \<in> set (inorder (Nd l a r)) | FR b u \<Rightarrow> \<not> k < ?key b)" if "f \<in> set gs" for f
      using gs(5) that True n(1) by (cases f) auto
    ultimately show ?thesis
      using True n(1,2) by (intro exI [of _ gs]) (simp add: descend.simps [of s k "Some a"])
  next
    case False
    have c: "ctx (cells s) (FR a l # fs) root (rright n) (Some a)"
      using Nd.prems(1) n by simp
    have "\<forall>b \<in> set (inorder l). ?key b \<le> k" "?key a \<le> k"
      using False bound(1) n(1) by fastforce+
    then have "takeWhile (\<lambda>a. ?key a \<le> k) (inorder (Nd l a r)) = inorder l @ a # takeWhile (\<lambda>a. ?key a \<le> k) (inorder r)"
      "dropWhile (\<lambda>a. ?key a \<le> k) (inorder (Nd l a r)) = dropWhile (\<lambda>a. ?key a \<le> k) (inorder r)"
      by (simp_all add: takeWhile_append dropWhile_append)
    moreover obtain gs where gs: "descend s k (rright n) (Some a) = Some (hd_ptr (map faddr gs) None)"
      "plug gs Lf = plug (FR a l # fs) r"
      "fbefore gs = fbefore (FR a l # fs) @ takeWhile (\<lambda>a. ?key a \<le> k) (inorder r)"
      "fafter gs = dropWhile (\<lambda>a. ?key a \<le> k) (inorder r) @ fafter (FR a l # fs)"
      "\<forall>f \<in> set gs. f \<in> set (FR a l # fs) \<or> (case f of
        FL a u \<Rightarrow> k < ?key a \<and> a \<in> set (inorder r) | FR a u \<Rightarrow> \<not> k < ?key a)"
      using Nd.IH(2) [OF c n(5) srt(2)] by blast
    moreover have "f \<in> set fs \<or> (case f of
        FL b u \<Rightarrow> k < ?key b \<and> b \<in> set (inorder (Nd l a r)) | FR b u \<Rightarrow> \<not> k < ?key b)" if "f \<in> set gs" for f
      using gs(5) that False n(1) by (cases f) auto
    ultimately show ?thesis
      using False n(1,2) by (intro exI [of _ gs]) (simp add: descend.simps [of s k "Some a"])
  qed
qed

text \<open>Where a new entry goes: behind the entries with smaller or equal keys.\<close>

definition ins_entry :: "'k :: linorder \<Rightarrow> 'v \<Rightarrow> ('k \<times> 'v) list \<Rightarrow> ('k \<times> 'v) list" where
  "ins_entry k v xs = takeWhile (\<lambda>e. fst e \<le> k) xs @ (k, v) # dropWhile (\<lambda>e. fst e \<le> k) xs"

lemma ins_entry_simps [simp]:
  "ins_entry k v [] = [(k, v)]"
  "ins_entry k v (e # xs) = (if fst e \<le> k then e # ins_entry k v xs else (k, v) # e # xs)"
  by (simp_all add: ins_entry_def)

lemma set_ins_entry: "set (ins_entry k v xs) = insert (k, v) (set xs)"
  by (induction xs) auto

lemma sorted_ins_entry: "sorted (map fst xs) \<Longrightarrow> sorted (map fst (ins_entry k v xs))"
  by (induction xs) (auto simp: set_ins_entry)

lemma ctx_link:
  assumes "ctx h (f # fs) root q (Some p)" and "distinct (faddrs (f # fs))" and "h p = Some pn"
  shows "ctx (h(p \<mapsto> (case f of FL a u \<Rightarrow> pn\<lparr>rleft := Some b\<rparr> | FR a u \<Rightarrow> pn\<lparr>rright := Some b\<rparr>)))
    (f # fs) root (Some b) (Some p)"
  using assms by (cases f) auto

lemma link_new:
  fixes t :: "('k :: linorder, 'v) rbtree" and k :: 'k and v :: 'v
  assumes tree: "rb_tree t (plug gs Lf)"
    and side: "\<And>f fs pn. gs = f # fs \<Longrightarrow> cells (rnodes t) (faddr f) = Some pn \<Longrightarrow>
      (case f of FL _ _ \<Rightarrow> k < rkey pn | FR _ _ \<Rightarrow> \<not> k < rkey pn)"
  defines "parent \<equiv> hd_ptr (map faddr gs) None"
  defines "a \<equiv> fresh (rnodes t)"
  defines "t1 \<equiv> t\<lparr>rnodes := snd (new_obj \<lparr>rkey = k, rcontent = v, rcolor = RED, rleft = None,
    rright = None, rparent = parent\<rparr> (rnodes t))\<rparr>"
  shows "\<exists>t2. link_node k parent a t1 = Some t2 \<and>
    rb_tree t2 (plug gs (Nd Lf a Lf)) \<and> entry_of t2 a = (k, v) \<and>
    (\<forall>b \<in> set (faddrs gs). entry_of t2 b = entry_of t b)"
proof -
  let ?h = "cells (rnodes t)"
  let ?new = "\<lparr>rkey = k, rcontent = v, rcolor = RED, rleft = None, rright = None, rparent = parent\<rparr>"
  obtain par where c: "ctx ?h gs (rroot t) None par" and d: "distinct (faddrs gs)" and ok: "store_ok (rnodes t)"
    using tree by (auto simp: rb_tree_def tr_plug distinct_plug)
  have ctx: "ctx ?h gs (rroot t) None parent"
    using c ctx_parent [OF c] by (simp add: parent_def)
  have a: "a \<notin> set (faddrs gs)"
    using tree tr_cells [of ?h None "plug gs Lf" "rroot t" a] store_ok_fresh [OF ok]
    by (auto simp: rb_tree_def set_plug a_def)
  have d2: "distinct (inorder (plug gs (Nd Lf a Lf)))"
    using d a by (simp add: distinct_plug)
  have t1: "rroot t1 = rroot t" "rnodes t1 = (rnodes t)\<lparr>cells := ?h(a \<mapsto> ?new), fresh := Suc a\<rparr>"
    by (simp_all add: t1_def new_obj_def a_def)
  have ok1: "store_ok (rnodes t1)"
    using ok by (simp add: t1 a_def)
  show ?thesis
  proof (cases gs)
    case Nil
    then have "rb_tree (t1\<lparr>rroot := Some a\<rparr>) (plug gs (Nd Lf a Lf))"
      using ok1 by (simp add: rb_tree_def t1 parent_def)
    with Nil show ?thesis by (auto simp: link_node_def parent_def t1 entry_of_def kv_def)
  next
    case (Cons f fs)
    then have par: "parent = Some (faddr f)" by (simp add: parent_def)
    obtain pn where pn: "?h (faddr f) = Some pn"
      using ctx Cons par by (cases f) (auto split: option.splits)
    have fa: "faddr f \<noteq> a" using a faddr_in [of f gs] Cons by auto
    let ?pn = "case f of FL _ _ \<Rightarrow> pn\<lparr>rleft := Some a\<rparr> | FR _ _ \<Rightarrow> pn\<lparr>rright := Some a\<rparr>"
    let ?t2 = "t1\<lparr>rnodes := (rnodes t1)\<lparr>cells := (?h(a \<mapsto> ?new))(faddr f \<mapsto> ?pn)\<rparr>\<rparr>"
    have step: "link_node k parent a t1 = Some ?t2"
      using side [OF Cons pn] fa pn
      by (cases f) (auto simp: link_node_def node_at_def t1 par upd_def modify_cell)
    have "ctx (?h(a \<mapsto> ?new)) gs (rroot t) None (Some (faddr f))"
      using ctx a by (simp add: par)
    then have "ctx ((?h(a \<mapsto> ?new))(faddr f \<mapsto> ?pn)) gs (rroot t) (Some a) (Some (faddr f))"
      using ctx_link [of "?h(a \<mapsto> ?new)" f fs "rroot t" None "faddr f" pn a] d pn fa Cons
      by (simp split: frame.splits)
    then have "tr (cells (rnodes ?t2)) None (plug gs (Nd Lf a Lf)) (rroot ?t2)"
      unfolding tr_plug using fa by (intro exI [of _ "Some a"] exI [of _ "Some (faddr f)"]) (simp add: t1 par)
    moreover have "store_ok (rnodes ?t2)"
      using store_ok_upd [OF ok1, of "faddr f" pn "Some ?pn"] pn fa by (simp add: t1)
    ultimately have "rb_tree ?t2 (plug gs (Nd Lf a Lf))"
      using d2 by (simp add: rb_tree_def)
    moreover have "entry_of ?t2 a = (k, v)" "\<forall>b \<in> set (faddrs gs). entry_of ?t2 b = entry_of t b"
      using fa a pn by (auto simp: entry_of_def kv_def t1 split: frame.splits)
    ultimately show ?thesis
      using step par by simp
  qed
qed

lemma rb_insert_rep:
  assumes rep: "rb_rep t xs"
  shows "(\<exists>t'. rb_insert k v t = Some t' \<and> rb_rep t' (ins_entry k v xs)) \<or>
    rb_insert k v t = None \<and> (\<exists>k' \<in> fst ` set xs. k < k')"
proof -
  obtain T where T: "rb_tree t T" "xs = map (entry_of t) (inorder T)" and srt: "sorted (map fst xs)"
    using rep by (auto simp: rb_rep_def)
  let ?key = "\<lambda>a. rkey (the (cells (rnodes t) a))"
  let ?a = "fresh (rnodes t)"
  have tr: "tr (cells (rnodes t)) None T (rroot t)" using T(1) by (simp add: rb_tree_def)
  have fst_entry: "fst (entry_of t b) = ?key b" for b by (simp add: entry_of_def kv_def)
  obtain gs where gs: "descend (rnodes t) k (rroot t) None = Some (hd_ptr (map faddr gs) None)"
    "plug gs Lf = T" "fbefore gs = takeWhile (\<lambda>a. ?key a \<le> k) (inorder T)"
    "fafter gs = dropWhile (\<lambda>a. ?key a \<le> k) (inorder T)"
    "\<forall>f \<in> set gs. case f of FL a u \<Rightarrow> k < ?key a \<and> a \<in> set (inorder T) | FR a u \<Rightarrow> \<not> k < ?key a"
    using descend_tree [of "rnodes t" "[]" "rroot t" "rroot t" None T k] tr
      srt [unfolded rb_rep_keys [OF T]] by auto
  have tree: "rb_tree t (plug gs Lf)" using T(1) gs(2) by simp
  have side: "case f of FL _ _ \<Rightarrow> k < rkey pn | FR _ _ \<Rightarrow> \<not> k < rkey pn"
    if "gs = f # fs" "cells (rnodes t) (faddr f) = Some pn" for f fs pn
    using gs(5) that by (cases f) auto
  let ?t1 = "t\<lparr>rnodes := snd (new_obj \<lparr>rkey = k, rcontent = v, rcolor = RED, rleft = None,
    rright = None, rparent = hd_ptr (map faddr gs) None\<rparr> (rnodes t))\<rparr>"
  obtain t2 where t2: "link_node k (hd_ptr (map faddr gs) None) ?a ?t1 = Some t2"
    "rb_tree t2 (plug gs (Nd Lf ?a Lf))" "entry_of t2 ?a = (k, v)"
    "\<forall>b \<in> set (faddrs gs). entry_of t2 b = entry_of t b"
    using link_new [OF tree, where k = k and v = v] side by blast
  have ins: "rb_insert k v t = insertion_fixup (Some ?a) t2"
    using gs(1) t2(1) by (simp add: rb_insert_def new_obj_def Let_def)
  have old: "set (inorder T) = set (faddrs gs)"
    using set_plug [of gs Lf] gs(2) by simp
  have io: "inorder (plug gs (Nd Lf ?a Lf)) =
      takeWhile (\<lambda>a. ?key a \<le> k) (inorder T) @ ?a # dropWhile (\<lambda>a. ?key a \<le> k) (inorder T)"
    using gs(3,4) by (simp add: inorder_plug)
  have entries: "map (entry_of t2) (inorder (plug gs (Nd Lf ?a Lf))) = ins_entry k v xs"
    using t2(3,4) old by (auto simp: io T(2) ins_entry_def takeWhile_map dropWhile_map fst_entry o_def
        dest: set_takeWhileD set_dropWhileD)
  from insertion_fixup_tree [OF t2(2)] show ?thesis
  proof
    assume "\<exists>t'. insertion_fixup (Some ?a) t2 = Some t' \<and> keeps t2 (plug gs (Nd Lf ?a Lf)) t'"
    then obtain t' T' where t': "rb_insert k v t = Some t'" "rb_tree t' T'" "same_kv t2 t'"
      "inorder T' = inorder (plug gs (Nd Lf ?a Lf))"
      by (auto simp: ins keeps_def)
    have "entry_of t' b = entry_of t2 b" if b: "b \<in> set (inorder T')" for b
    proof -
      have "tr (cells (rnodes t2)) None (plug gs (Nd Lf ?a Lf)) (rroot t2)"
        using t2(2) by (simp add: rb_tree_def)
      from tr_cells [OF this b [unfolded t'(4)]] obtain n where "cells (rnodes t2) b = Some n" ..
      then show ?thesis by (rule same_kv_entry [OF t'(3)])
    qed
    then have "map (entry_of t') (inorder T') = ins_entry k v xs"
      using entries t'(4) by (metis map_cong)
    then have "rb_rep t' (ins_entry k v xs)"
      using t'(2) sorted_ins_entry [OF srt] unfolding rb_rep_def by metis
    with t'(1) show ?thesis by blast
  next
    assume "lonely gs \<and> insertion_fixup (Some ?a) t2 = None"
    then obtain b where b: "FL b Lf \<in> set gs" "rb_insert k v t = None"
      by (cases gs) (auto simp: lonely_def ins)
    then have "k < ?key b" "b \<in> set (inorder T)" using gs(5) by auto
    then have "k < fst (entry_of t b)" "entry_of t b \<in> set xs"
      by (simp_all add: T(2) fst_entry)
    with b(2) show ?thesis by blast
  qed
qed

section \<open>What the tree guarantees\<close>

lemma rbtree_new_rep: "rb_rep rbtree_new []"
  unfolding rb_rep_def by (intro conjI exI [of _ Lf]) (simp_all add: rb_tree_def rbtree_new_def)

text \<open>
  The contract of a directory that its clients need: looking up what was inserted. Inserting
  is only promised to work for keys that are not below a key of the directory.
\<close>

locale directory =
  fixes rep :: "'d \<Rightarrow> ('k :: linorder \<times> 'v) list \<Rightarrow> bool"
    and ins :: "'k \<Rightarrow> 'v \<Rightarrow> 'd \<Rightarrow> 'd option"
    and get :: "'k \<Rightarrow> 'd \<Rightarrow> 'v option option"
    and has :: "'k \<Rightarrow> 'd \<Rightarrow> bool option"
    and new :: 'd
  assumes new_rep: "rep new []"
    and ins_rep: "rep d xs \<Longrightarrow> ins k v d = Some d' \<Longrightarrow> rep d' (ins_entry k v xs)"
    and ins_last: "rep d xs \<Longrightarrow> \<forall>k' \<in> fst ` set xs. k' \<le> k \<Longrightarrow> ins k v d \<noteq> None"
    and get_rep: "rep d xs \<Longrightarrow> k \<in> fst ` set xs \<Longrightarrow> \<exists>v. (k, v) \<in> set xs \<and> get k d = Some (Some v)"
    and get_absent: "rep d xs \<Longrightarrow> k \<notin> fst ` set xs \<Longrightarrow> get k d = Some None"
    and has_rep: "rep d xs \<Longrightarrow> has k d = Some (k \<in> fst ` set xs)"
begin

text \<open>With keys that are all different the directory is a finite map.\<close>

lemma get_map_of: "rep d xs \<Longrightarrow> distinct (map fst xs) \<Longrightarrow> get k d = Some (map_of xs k)"
proof (cases "k \<in> fst ` set xs")
  case True
  assume "rep d xs" "distinct (map fst xs)"
  with get_rep [OF _ True] show ?thesis by fastforce
next
  case False
  assume "rep d xs"
  with get_absent [OF _ False] False show ?thesis
    by (simp add: map_of_eq_None_iff [symmetric])
qed

lemma ins_distinct: "distinct (map fst xs) \<Longrightarrow> k \<notin> fst ` set xs \<Longrightarrow> distinct (map fst (ins_entry k v xs))"
  by (induction xs) (auto simp: set_ins_entry)

lemma get_ins:
  assumes "rep d xs" and "distinct (map fst xs)" and "k \<notin> fst ` set xs" and "ins k v d = Some d'"
  shows "get k' d' = (if k' = k then Some (Some v) else get k' d)"
proof -
  have "map_of (ins_entry k v xs) k' = (if k' = k then Some v else map_of xs k')"
    using assms(3) by (induction xs) auto
  moreover note get_map_of [OF ins_rep [OF assms(1,4)] ins_distinct [OF assms(2,3)], of k']
    get_map_of [OF assms(1,2), of k']
  ultimately show ?thesis by simp
qed

lemma has_ins:
  assumes "rep d xs" and "ins k v d = Some d'"
  shows "has k' d' = (if k' = k then Some True else has k' d)"
  using has_rep [OF ins_rep [OF assms], of k'] has_rep [OF assms(1), of k'] by (auto simp: set_ins_entry)

end

interpretation rbt: directory rb_rep rb_insert get_value key_exists rbtree_new
proof unfold_locales
  fix d :: "('k :: linorder, 'v) rbtree" and xs k v d'
  show "rb_rep rbtree_new []" by (rule rbtree_new_rep)
  show "rb_rep d xs \<Longrightarrow> rb_insert k v d = Some d' \<Longrightarrow> rb_rep d' (ins_entry k v xs)"
    using rb_insert_rep [of d xs k v] by auto
  show "rb_rep d xs \<Longrightarrow> \<forall>k' \<in> fst ` set xs. k' \<le> k \<Longrightarrow> rb_insert k v d \<noteq> None"
    using rb_insert_rep [of d xs k v] by fastforce
  show "rb_rep d xs \<Longrightarrow> k \<in> fst ` set xs \<Longrightarrow> \<exists>v. (k, v) \<in> set xs \<and> get_value k d = Some (Some v)"
    using get_value_rep [of d xs k] by auto
  show "rb_rep d xs \<Longrightarrow> k \<notin> fst ` set xs \<Longrightarrow> get_value k d = Some None"
    using get_value_rep [of d xs k] by auto
  show "rb_rep d xs \<Longrightarrow> key_exists k d = Some (k \<in> fst ` set xs)"
    using get_value_rep [of d xs k] by (auto split: if_splits)
qed

lemma rb_insert_last:
  assumes "rb_rep t xs" and "\<forall>k' \<in> fst ` set xs. k' \<le> k"
  shows "\<exists>t'. rb_insert k v t = Some t' \<and> rb_rep t' (xs @ [(k, v)])"
proof -
  have "ins_entry k v xs = xs @ [(k, v)]"
    using assms(2) by (simp add: ins_entry_def)
  moreover obtain t' where "rb_insert k v t = Some t'"
    using rbt.ins_last [OF assms] by auto
  ultimately show ?thesis
    using rbt.ins_rep [OF assms(1)] by metis
qed

text \<open>
  C4: a tree with keys that are all different is a finite map. The insertion of a key it does
  not have can fail only when the key is below some key of the tree. When it returns, the keys are
  in ascending order from left to right with the new entry among them; a lookup gives the new value for
  the new key and what it gave before for every other key; and the membership test holds of the new
  key, and of every other key exactly if it held before.
\<close>

theorem rbtree_insert_lookup:
  assumes "rb_rep t xs" and "distinct (map fst xs)" and "k \<notin> fst ` set xs"
  shows "case rb_insert k v t of
      None \<Rightarrow> \<exists>k' \<in> fst ` set xs. k < k'
    | Some t' \<Rightarrow> rb_rep t' (ins_entry k v xs) \<and>
        (\<forall>k'. get_value k' t' = (if k' = k then Some (Some v) else get_value k' t) \<and>
          get_value k' t = Some (map_of xs k') \<and>
          key_exists k' t' = Some (k' = k \<or> k' \<in> fst ` set xs) \<and>
          key_exists k' t = Some (k' \<in> fst ` set xs))"
proof (cases "rb_insert k v t")
  case None
  then show ?thesis using rbt.ins_last [OF assms(1), of k v] by simp (meson not_le)
next
  case (Some t')
  have "key_exists k' t' = Some (k' = k \<or> k' \<in> fst ` set xs)" for k'
    by (simp add: rbt.has_ins [OF assms(1) Some] rbt.has_rep [OF assms(1)])
  then show ?thesis
    by (simp add: Some rbt.ins_rep [OF assms(1) Some] rbt.get_ins [OF assms Some]
        rbt.get_map_of [OF assms(1,2)] rbt.has_rep [OF assms(1)])
qed

text \<open>
  Inserting a key that is not below any key of the tree always succeeds, whatever the
  colours: neither the recolouring nor the rotations run into a missing node, and the loop ends.
  The new entry is the last one.
\<close>

theorem rbtree_ascending_insert:
  assumes "rb_rep t xs" and "\<forall>k' \<in> fst ` set xs. k' \<le> k"
  shows "\<exists>t'. rb_insert k v t = Some t' \<and> rb_rep t' (xs @ [(k, v)])"
  by (rule rb_insert_last [OF assms])

text \<open>
  C40: inserting three keys in descending order into an empty tree is a fault: the uncle of the
  third node is missing, and the colour of the null pointer is read.
\<close>

theorem rbtree_descending_insert_faults:
  assumes "c < b" and "b < a"
  shows "do { t1 \<leftarrow> rb_insert a va rbtree_new; t2 \<leftarrow> rb_insert b vb t1; rb_insert c vc t2 } = None"
  using assms
  by (simp add: rbtree_new_def empty_store_def rb_insert_def descend.simps link_node_def new_obj_def
      insertion_fixup_def node_at_def upd_def modify_def paint_def fixup_loop.simps fixup_guard_def
      fixup_step_def Let_def)

lemma two_keys: "\<exists>t :: (nat, nat) rbtree. rb_rep t [(1, 10), (2, 20)]"
proof -
  obtain t1 :: "(nat, nat) rbtree" where "rb_rep t1 [(1, 10)]"
    using rb_insert_last [OF rbtree_new_rep, of "1 :: nat" "10 :: nat"] by auto
  from rb_insert_last [OF this, of 2 20] show ?thesis by auto
qed

theorem rbtree_insert_lookup_witness:
  "\<exists>(t :: (nat, nat) rbtree) t'. rb_rep t [(1, 10), (2, 20)] \<and> rb_insert 3 30 t = Some t' \<and>
     get_value 3 t' = Some (Some 30) \<and> get_value 2 t' = Some (Some 20) \<and>
     key_exists 3 t = Some False \<and> key_exists 3 t' = Some True \<and> key_exists 4 t' = Some False"
proof -
  obtain t where t: "rb_rep t [(1 :: nat, 10 :: nat), (2, 20)]" using two_keys by blast
  obtain t' where t': "rb_insert 3 30 t = Some t'"
    using rbt.ins_last [OF t, of 3 30] by auto
  show ?thesis
    using rbtree_insert_lookup [OF t, of 3 30] t t' by auto
qed

theorem rbtree_ascending_insert_witness:
  "\<exists>(t :: (nat, nat) rbtree) t'. rb_insert 3 30 t = Some t' \<and> rb_rep t' [(1, 10), (2, 20), (3, 30)]"
proof -
  obtain t where t: "rb_rep t [(1 :: nat, 10 :: nat), (2, 20)]" using two_keys by blast
  show ?thesis using rbtree_ascending_insert [OF t, of 3 30] by auto
qed

theorem rbtree_descending_insert_faults_witness:
  "do { t1 \<leftarrow> rb_insert (3 :: nat) () rbtree_new; t2 \<leftarrow> rb_insert 2 () t1; rb_insert 1 () t2 } = None"
  by (rule rbtree_descending_insert_faults) simp_all

end
