(* ===== verification/Mmu.thy ===== *)
theory Mmu
  imports Mm Rbtree
begin

text \<open>
  The translation tables of \<open>kernel/mmu.h\<close> and \<open>kernel/mmu.cpp\<close>. A page table is an object of
  256 entries that lives at the (virtual) address the memory manager gave for it; a
  translation table holds the physical addresses of its page tables and a directory, a
  red-black tree, from these to the virtual addresses. The address translation operation of
  the MMU coprocessor is hardware: it is the parameter \<open>par\<close>, the contents of the physical
  address register for a page. What the tables mean to the hardware is the specification
  \<open>walk\<close>.
\<close>

unbundle bit_operations_syntax

section \<open>Page tables\<close>

datatype permissions = RW_RW | RW_RO | RW_NA | RO_RO | RO_NA | NA_NA

datatype interval_type = CODE | DATA | RODATA | STACK | DEVICE

definition l1_page_table :: u32 where "l1_page_table = 0b01"
definition l2_small_page :: u32 where "l2_small_page = 0b10"
definition sp_ng :: u32 where "sp_ng = push_bit 11 1"
definition sp_s :: u32 where "sp_s = push_bit 10 1"
definition sp_ap2 :: u32 where "sp_ap2 = push_bit 9 1"
definition sp_tex2 :: u32 where "sp_tex2 = push_bit 8 1"
definition sp_tex1 :: u32 where "sp_tex1 = push_bit 7 1"
definition sp_tex0 :: u32 where "sp_tex0 = push_bit 6 1"
definition sp_ap1 :: u32 where "sp_ap1 = push_bit 5 1"
definition sp_ap0 :: u32 where "sp_ap0 = push_bit 4 1"
definition sp_c :: u32 where "sp_c = push_bit 3 1"
definition sp_b :: u32 where "sp_b = push_bit 2 1"
definition sp_xn :: u32 where "sp_xn = push_bit 0 1"

type_synonym page_table = "u32 list"

definition page_table_new :: page_table where
  "page_table_new = replicate 256 0"

definition type_bits :: "interval_type \<Rightarrow> u32" where
  "type_bits ty = (case ty of
      CODE \<Rightarrow> sp_tex2 OR sp_tex1 OR sp_c OR sp_s
    | DATA \<Rightarrow> sp_xn OR sp_tex2 OR sp_tex0 OR sp_b OR sp_s
    | RODATA \<Rightarrow> sp_xn OR sp_tex2 OR sp_tex1 OR sp_tex0 OR sp_c OR sp_b OR sp_s
    | STACK \<Rightarrow> sp_xn OR sp_tex2 OR sp_tex0 OR sp_b OR sp_s
    | DEVICE \<Rightarrow> sp_xn OR sp_b OR sp_s)"

definition permission_bits :: "permissions \<Rightarrow> u32" where
  "permission_bits p = (case p of
      RW_RW \<Rightarrow> sp_ap1 OR sp_ap0
    | RW_RO \<Rightarrow> sp_ap1
    | RW_NA \<Rightarrow> sp_ap0
    | RO_RO \<Rightarrow> sp_ap2 OR sp_ap1 OR sp_ap0
    | RO_NA \<Rightarrow> sp_ap2 OR sp_ap0
    | NA_NA \<Rightarrow> 0)"

definition page_entry :: "u32 \<Rightarrow> permissions \<Rightarrow> interval_type \<Rightarrow> bool \<Rightarrow> u32" where
  "page_entry physical perms ty not_global =
     (let entry = physical OR l2_small_page;
          entry1 = (if not_global then entry OR sp_ng else entry);
          entry2 = entry1 OR type_bits ty
      in entry2 OR permission_bits perms)"

definition add_entry :: "nat \<Rightarrow> u32 \<Rightarrow> permissions \<Rightarrow> interval_type \<Rightarrow> bool \<Rightarrow> page_table \<Rightarrow> page_table option" where
  "add_entry offset physical perms ty not_global pt =
     (if offset < length pt then Some (pt[offset := page_entry physical perms ty not_global]) else None)"

definition remove_entry :: "nat \<Rightarrow> page_table \<Rightarrow> (u32 \<times> page_table) option" where
  "remove_entry offset pt =
     (if offset < length pt then Some (pt ! offset AND 0xfffff000, pt[offset := 0]) else None)"

definition pt_is_empty :: "page_table \<Rightarrow> bool" where
  "pt_is_empty pt \<longleftrightarrow> list_all (\<lambda>e. e = 0) (take 256 pt)"

section \<open>Translation tables\<close>

record translation_table =
  table :: "u32 list"
  tdirectory :: "(u32, u32) rbtree"

text \<open>The memory manager and the page table objects, by their virtual addresses.\<close>

record mmu_mem =
  mmem :: mm
  tables :: "u32 \<rightharpoonup> page_table"

definition tt_new :: "nat \<Rightarrow> translation_table" where
  "tt_new n = \<lparr>table = replicate n 0, tdirectory = rbtree_new\<rparr>"

definition tt_clear :: "translation_table \<Rightarrow> translation_table" where
  "tt_clear tt = tt\<lparr>table := map (\<lambda>_. 0) (table tt)\<rparr>"

definition virtual_to_physical :: "(u32 \<Rightarrow> u32) \<Rightarrow> u32 \<Rightarrow> u32" where
  "virtual_to_physical par virt =
     (let offset = virt AND 0xfff; page = virt AND 0xfffff000; retval = par page
      in (retval AND 0xfffff000) + offset)"

definition table_index :: "u32 \<Rightarrow> nat" where
  "table_index virt = unat (drop_bit 20 virt)"

definition page_index :: "u32 \<Rightarrow> nat" where
  "page_index virt = unat (drop_bit 12 (virt AND 0x000fffff))"

definition read_l1 :: "translation_table \<Rightarrow> u32 \<Rightarrow> u32 option" where
  "read_l1 tt virt = (if table_index virt < length (table tt) then Some (table tt ! table_index virt) else None)"

text \<open>The virtual address of the page table a first level entry refers to.\<close>

definition table_address :: "translation_table \<Rightarrow> u32 \<Rightarrow> u32 option" where
  "table_address tt entry = do {
     let pt_physical = entry AND 0xfffffc00;
     r \<leftarrow> get_value pt_physical (tdirectory tt);
     Some (case r of None \<Rightarrow> pt_physical | Some pt_virtual \<Rightarrow> pt_virtual) }"

text \<open>The first half of \<open>map_page\<close> finds the page table of an address, or makes one.\<close>

definition get_page_table :: "(u32 \<Rightarrow> u32) \<Rightarrow> u32 \<Rightarrow> translation_table \<times> mmu_mem \<Rightarrow>
    (u32 \<times> translation_table \<times> mmu_mem) option" where
  "get_page_table par virt = (\<lambda>(tt, mem). do {
     entry \<leftarrow> read_l1 tt virt;
     if entry AND l1_page_table \<noteq> 0 then do {
       pt \<leftarrow> table_address tt entry;
       Some (pt, tt, mem) }
     else do {
       (pt, m) \<leftarrow> operator_new_aligned 1024 1024 (mmem mem);
       if pt = 0 then None
       else do {
         d \<leftarrow> rb_insert (virtual_to_physical par pt) pt (tdirectory tt);
         Some (pt,
           tt\<lparr>tdirectory := d,
              table := (table tt)[table_index virt := virtual_to_physical par pt OR l1_page_table]\<rparr>,
           \<lparr>mmem = m, tables = (tables mem)(pt \<mapsto> page_table_new)\<rparr>) } } })"

definition map_page :: "(u32 \<Rightarrow> u32) \<Rightarrow> u32 \<Rightarrow> u32 \<Rightarrow> permissions \<Rightarrow> interval_type \<Rightarrow> bool \<Rightarrow>
    translation_table \<times> mmu_mem \<Rightarrow> (translation_table \<times> mmu_mem) option" where
  "map_page par page virt perms ty not_global s = do {
     (pt, tt, mem) \<leftarrow> get_page_table par virt s;
     tb \<leftarrow> tables mem pt;
     tb' \<leftarrow> add_entry (page_index virt) page perms ty not_global tb;
     Some (tt, mem\<lparr>tables := (tables mem)(pt \<mapsto> tb')\<rparr>) }"

definition unmap_page :: "u32 \<Rightarrow> translation_table \<times> mmu_mem \<Rightarrow> (translation_table \<times> mmu_mem) option" where
  "unmap_page page = (\<lambda>(tt, mem). do {
     entry \<leftarrow> read_l1 tt page;
     if entry AND l1_page_table = 0 then Some (tt, mem)
     else do {
       pt \<leftarrow> table_address tt entry;
       tb \<leftarrow> tables mem pt;
       (freed_page, tb') \<leftarrow> remove_entry (page_index page) tb;
       m \<leftarrow> (if freed_page \<noteq> 0 then free_page freed_page (mmem mem) else Some (mmem mem));
       if pt_is_empty tb' then do {
         m' \<leftarrow> operator_delete pt m;
         Some (tt\<lparr>table := (table tt)[table_index page := 0]\<rparr>, \<lparr>mmem = m', tables = (tables mem)(pt := None)\<rparr>) }
       else Some (tt, \<lparr>mmem = m, tables = (tables mem)(pt \<mapsto> tb')\<rparr>) } })"

text \<open>
  The loops over an interval. When the end is in the last page of the address space the
  address wraps around before it reaches the end, and the loop does not return.
\<close>

partial_function (option) map_interval_loop :: "(u32 \<Rightarrow> u32) \<Rightarrow> u32 \<Rightarrow> permissions \<Rightarrow> interval_type \<Rightarrow> bool \<Rightarrow>
    u32 \<Rightarrow> u32 \<Rightarrow> translation_table \<times> mmu_mem \<Rightarrow> (translation_table \<times> mmu_mem) option" where
  "map_interval_loop par stop perms ty ng current_address current_virtual s =
     (if current_address < stop then do {
        s' \<leftarrow> map_page par current_address current_virtual perms ty ng s;
        map_interval_loop par stop perms ty ng (current_address + 4096) (current_virtual + 4096) s' }
      else Some s)"

definition map_interval :: "(u32 \<Rightarrow> u32) \<Rightarrow> u32 \<Rightarrow> u32 \<Rightarrow> u32 \<Rightarrow> permissions \<Rightarrow> interval_type \<Rightarrow> bool \<Rightarrow>
    translation_table \<times> mmu_mem \<Rightarrow> (translation_table \<times> mmu_mem) option" where
  "map_interval par start stop virtual_address perms ty ng s =
     map_interval_loop par stop perms ty ng start virtual_address s"

partial_function (option) unmap_interval_loop :: "u32 \<Rightarrow> u32 \<Rightarrow>
    translation_table \<times> mmu_mem \<Rightarrow> (translation_table \<times> mmu_mem) option" where
  "unmap_interval_loop stop current_address s =
     (if current_address < stop then do {
        s' \<leftarrow> unmap_page current_address s;
        unmap_interval_loop stop (current_address + 4096) s' }
      else Some s)"

definition unmap_interval :: "u32 \<Rightarrow> u32 \<Rightarrow> translation_table \<times> mmu_mem \<Rightarrow>
    (translation_table \<times> mmu_mem) option" where
  "unmap_interval start stop s = unmap_interval_loop stop start s"

section \<open>The MMU object\<close>

text \<open>The static members of \<open>mmu\<close> and the coprocessor registers it writes.\<close>

record mmu =
  kernel_table :: translation_table
  kmem :: mmu_mem
  next_device_addr :: u32
  current_application_table :: u32
  asid :: u8
  ttbcr :: u32
  ttbr0 :: u32
  ttbr1 :: u32
  dacr :: u32
  contextidr :: u32

definition map_device :: "(u32 \<Rightarrow> u32) \<Rightarrow> u32 \<Rightarrow> u32 \<Rightarrow> mmu \<Rightarrow> (u32 \<times> mmu) option" where
  "map_device par base sz s = do {
     let retval = next_device_addr s;
     (tt, mem) \<leftarrow> map_interval par base (base + sz) (next_device_addr s) RW_NA DEVICE False
       (kernel_table s, kmem s);
     Some (retval, s\<lparr>kernel_table := tt, kmem := mem, next_device_addr := next_device_addr s + sz\<rparr>) }"

definition set_application_table :: "(u32 \<Rightarrow> u32) \<Rightarrow> u32 \<Rightarrow> u32 \<Rightarrow> mmu \<Rightarrow> mmu" where
  "set_application_table par tbl pid s =
     (let s0 = s\<lparr>current_application_table := tbl\<rparr> in
      if tbl \<noteq> 0 then
        let table_physical = virtual_to_physical par tbl;
            s1 = s0\<lparr>ttbcr := ttbcr s0 OR push_bit 4 1\<rparr>;
            s2 = s1\<lparr>contextidr := push_bit 8 pid OR ucast (asid s1)\<rparr>;
            s3 = s2\<lparr>ttbr0 := table_physical OR (push_bit 3 0b10 OR 0b11)\<rparr>;
            s4 = s3\<lparr>ttbcr := ttbcr s3 AND NOT (push_bit 4 1)\<rparr>
        in s4\<lparr>asid := asid s4 + 1\<rparr>
      else s0\<lparr>ttbcr := ttbcr s0 OR push_bit 4 1\<rparr>)"

definition get_application_table :: "mmu \<Rightarrow> u32" where
  "get_application_table s = current_application_table s"

text \<open>
  \<open>initialize\<close>, with the addresses of the linker symbols and of the kernel translation table
  as arguments. The loop maps the pages that the page tables made so far occupy.
\<close>

partial_function (option) map_dataspace :: "(u32 \<Rightarrow> u32) \<Rightarrow> translation_table \<times> mmu_mem \<Rightarrow>
    (translation_table \<times> mmu_mem) option" where
  "map_dataspace par s =
     (if kernel_dataspace_end (mmem (snd s)) \<le> kernel_data_end (mmem (snd s)) then do {
        let e = kernel_dataspace_end (mmem (snd s));
        (tt, mem) \<leftarrow> map_page par e e RW_NA DATA False s;
        map_dataspace par (tt, mem\<lparr>mmem := (mmem mem)
          \<lparr>kernel_dataspace_end := kernel_dataspace_end (mmem mem) + 4096\<rparr>\<rparr>) }
      else Some s)"

definition mmu_initialize :: "(u32 \<Rightarrow> u32) \<Rightarrow> u32 \<Rightarrow> u32 \<Rightarrow> u32 \<Rightarrow> u32 \<Rightarrow> mmu \<Rightarrow> mmu option" where
  "mmu_initialize par text_start data_start data_end ktable_addr s = do {
     let stack_start_physical = 0x80000000;
     let stack_end_physical = 0x80008000;
     let stack_virtual = 0xa0000000 - 0x8000;
     s1 \<leftarrow> map_interval par text_start data_start text_start RO_NA CODE False (kernel_table s, kmem s);
     s2 \<leftarrow> map_interval par data_start data_end data_start RW_NA DATA False s1;
     s3 \<leftarrow> map_interval par stack_start_physical stack_end_physical stack_virtual RW_NA STACK False s2;
     (tt, mem) \<leftarrow> map_dataspace par s3;
     Some (s\<lparr>kernel_table := tt, kmem := mem, ttbcr := 1,
       ttbr1 := ktable_addr OR (push_bit 3 0b10 OR 0b11), dacr := 0x55555555\<rparr>) }"

section \<open>What the descriptors mean\<close>

text \<open>
  The ARM small page descriptor, as the architecture manual defines it: who may write, who may
  read, whether instructions may be fetched, and what kind of memory it is. The kind is
  that of the TEX, C and B bits without remapping: with TEX[2] set it is normal memory whose outer cache
  policy is in TEX[1:0] and whose inner one is in C and B.
\<close>

datatype cache_policy = Uncached | Write_Back_Allocate | Write_Through | Write_Back

datatype memory_kind = Strongly_Ordered | Shared_Device | Private_Device | Normal_Memory cache_policy cache_policy | Reserved_Kind

definition cache_policy_of :: "bool \<Rightarrow> bool \<Rightarrow> cache_policy" where
  "cache_policy_of h l = (if h then if l then Write_Back else Write_Through
     else if l then Write_Back_Allocate else Uncached)"

definition hw_page :: "u32 \<Rightarrow> u32" where "hw_page e = e AND 0xfffff000"
definition hw_valid :: "u32 \<Rightarrow> bool" where "hw_valid e \<longleftrightarrow> bit e 1"
definition hw_ap :: "u32 \<Rightarrow> bool \<times> bool \<times> bool" where "hw_ap e = (bit e 9, bit e 5, bit e 4)"
definition hw_kernel_write :: "u32 \<Rightarrow> bool" where
  "hw_kernel_write e \<longleftrightarrow> hw_ap e \<in> {(False, False, True), (False, True, False), (False, True, True)}"
definition hw_kernel_read :: "u32 \<Rightarrow> bool" where
  "hw_kernel_read e \<longleftrightarrow> hw_ap e \<notin> {(False, False, False), (True, False, False)}"
definition hw_user_write :: "u32 \<Rightarrow> bool" where
  "hw_user_write e \<longleftrightarrow> hw_ap e = (False, True, True)"
definition hw_user_read :: "u32 \<Rightarrow> bool" where
  "hw_user_read e \<longleftrightarrow> hw_ap e \<in> {(False, True, False), (False, True, True), (True, True, False), (True, True, True)}"
definition hw_execute :: "u32 \<Rightarrow> bool" where "hw_execute e \<longleftrightarrow> \<not> bit e 0"
definition hw_global :: "u32 \<Rightarrow> bool" where "hw_global e \<longleftrightarrow> \<not> bit e 11"
definition hw_shareable :: "u32 \<Rightarrow> bool" where "hw_shareable e \<longleftrightarrow> bit e 10"
definition hw_memory :: "u32 \<Rightarrow> memory_kind" where
  "hw_memory e =
     (let c = bit e 3; b = bit e 2 in
      if bit e 8 then Normal_Memory (cache_policy_of (bit e 7) (bit e 6)) (cache_policy_of c b)
      else if bit e 7 then (if \<not> bit e 6 \<and> \<not> c \<and> \<not> b then Private_Device else Reserved_Kind)
      else if bit e 6 then
        (if c = b then (if c then Normal_Memory Write_Back_Allocate Write_Back_Allocate else Normal_Memory Uncached Uncached)
         else Reserved_Kind)
      else if c then (if b then Normal_Memory Write_Back Write_Back else Normal_Memory Write_Through Write_Through)
      else if b then Shared_Device else Strongly_Ordered)"

lemmas entry_bits = page_entry_def type_bits_def permission_bits_def l2_small_page_def sp_ng_def sp_s_def
  sp_ap2_def sp_ap1_def sp_ap0_def sp_tex2_def sp_tex1_def sp_tex0_def sp_c_def sp_b_def sp_xn_def Let_def

lemma page_aligned_bits:
  fixes p :: u32
  assumes "p AND 0xfff = 0" and "n < 12"
  shows "\<not> bit p n"
proof -
  have "bit (p AND mask 12) n = bit p n"
    using assms(2) by (simp add: bit_simps)
  moreover have "(0xfff :: u32) = mask 12" by (simp add: mask_eq_decr_exp)
  ultimately show ?thesis using assms(1) by simp
qed

lemma page_entry_or: "page_entry p perms ty ng = p OR page_entry 0 perms ty ng"
  by (simp add: page_entry_def Let_def or.assoc)

lemma page_entry_low: "page_entry 0 perms ty ng AND 0xfffff000 = 0"
  by (cases ty; cases perms; cases ng; simp add: entry_bits push_bit_eq_mult)

lemma page_of_aligned: "(p :: u32) AND 0xfff = 0 \<Longrightarrow> p AND 0xfffff000 = p"
proof (rule bit_word_eqI)
  fix n assume p: "p AND 0xfff = 0" and "n < LENGTH(32)"
  have m: "(0xfffff000 :: u32) = NOT (mask 12)" by (simp add: mask_eq_decr_exp)
  show "bit (p AND 0xfffff000) n = bit p n"
    unfolding m using page_aligned_bits [OF p, of n] \<open>n < LENGTH(32)\<close> by (auto simp: bit_simps)
qed

lemma page_entry_page: "p AND 0xfff = 0 \<Longrightarrow> page_entry p perms ty ng AND 0xfffff000 = p"
  by (subst page_entry_or) (simp add: and.commute [of _ "0xfffff000"] bit.conj_disj_distrib
      page_entry_low [simplified and.commute [of _ "0xfffff000"]] page_of_aligned [simplified and.commute [of _ "0xfffff000"]])

text \<open>
  C37: the descriptor written for a page means what was asked for. The hardware reads the page
  address back; the kernel can write iff the permission says so, and read unless it forbids all access; user
  programs likewise for writing and reading; instructions are fetched only from code; the
  mapping is global unless it was made for one address space. Pages of a device are device memory, code is
  cached memory written through, data and stacks are cached memory that is written back and
  allocated on writes, constants are written back without that; all are shareable.
\<close>

theorem page_entry_bits:
  assumes "physical AND 0xfff = 0"
  shows "hw_valid (page_entry physical perms ty ng) \<and> hw_page (page_entry physical perms ty ng) = physical \<and>
    hw_kernel_write (page_entry physical perms ty ng) = (perms \<in> {RW_RW, RW_RO, RW_NA}) \<and>
    hw_kernel_read (page_entry physical perms ty ng) = (perms \<noteq> NA_NA) \<and>
    hw_user_write (page_entry physical perms ty ng) = (perms = RW_RW) \<and>
    hw_user_read (page_entry physical perms ty ng) = (perms \<in> {RW_RW, RW_RO, RO_RO}) \<and>
    hw_execute (page_entry physical perms ty ng) = (ty = CODE) \<and>
    hw_global (page_entry physical perms ty ng) = (\<not> ng) \<and>
    hw_shareable (page_entry physical perms ty ng) \<and>
    hw_memory (page_entry physical perms ty ng) = (case ty of
        CODE \<Rightarrow> Normal_Memory Write_Through Write_Through
      | DATA \<Rightarrow> Normal_Memory Write_Back_Allocate Write_Back_Allocate
      | RODATA \<Rightarrow> Normal_Memory Write_Back Write_Back
      | STACK \<Rightarrow> Normal_Memory Write_Back_Allocate Write_Back_Allocate
      | DEVICE \<Rightarrow> Shared_Device)"
proof -
  note b = page_aligned_bits [OF assms]
  let ?e = "page_entry physical perms ty ng"
  have low: "bit ?e 0 = (ty \<noteq> CODE)" "bit ?e 1" "bit ?e 11 = ng" "bit ?e 10"
    by (cases ty; cases perms; cases ng; simp add: entry_bits b bit_simps)+
  have kind: "bit ?e 8 = (ty \<noteq> DEVICE)" "bit ?e 7 = (ty \<in> {CODE, RODATA})" "bit ?e 6 = (ty \<in> {DATA, RODATA, STACK})"
    "bit ?e 3 = (ty \<in> {CODE, RODATA})" "bit ?e 2 = (ty \<noteq> CODE)"
    by (cases ty; cases perms; cases ng; simp add: entry_bits b bit_simps)+
  have ap: "hw_ap ?e = (case perms of RW_RW \<Rightarrow> (False, True, True) | RW_RO \<Rightarrow> (False, True, False)
      | RW_NA \<Rightarrow> (False, False, True) | RO_RO \<Rightarrow> (True, True, True) | RO_NA \<Rightarrow> (True, False, True)
      | NA_NA \<Rightarrow> (False, False, False))"
    by (cases ty; cases perms; cases ng; simp add: hw_ap_def entry_bits b bit_simps)
  have "hw_memory ?e = (case ty of CODE \<Rightarrow> Normal_Memory Write_Through Write_Through
      | DATA \<Rightarrow> Normal_Memory Write_Back_Allocate Write_Back_Allocate
      | RODATA \<Rightarrow> Normal_Memory Write_Back Write_Back
      | STACK \<Rightarrow> Normal_Memory Write_Back_Allocate Write_Back_Allocate | DEVICE \<Rightarrow> Shared_Device)"
    unfolding hw_memory_def kind Let_def by (cases ty) (simp_all add: cache_policy_of_def)
  then show ?thesis
    using low ap page_entry_page [OF assms]
    by (cases perms) (simp_all add: hw_valid_def hw_page_def hw_kernel_write_def hw_kernel_read_def hw_user_write_def
        hw_user_read_def hw_execute_def hw_global_def hw_shareable_def)
qed

theorem page_entry_bits_witness:
  "hw_valid (page_entry 0x80000000 RO_NA CODE False) \<and> hw_page (page_entry 0x80000000 RO_NA CODE False) = 0x80000000 \<and>
   \<not> hw_kernel_write (page_entry 0x80000000 RO_NA CODE False) \<and>
   hw_kernel_read (page_entry 0x80000000 RO_NA CODE False) \<and>
   hw_execute (page_entry 0x80000000 RO_NA CODE False) \<and>
   hw_memory (page_entry 0x48200000 RW_NA DEVICE False) = Shared_Device"
  using page_entry_bits [of "0x80000000" RO_NA CODE False] page_entry_bits [of "0x48200000" RW_NA DEVICE False] by simp

section \<open>Translation\<close>

text \<open>
  The walk of the hardware: the first level entry gives the physical address of a page table,
  whose entry for the page is the descriptor; addresses without a valid descriptor fault.
\<close>

definition translates :: "(u32 \<Rightarrow> u32) \<Rightarrow> translation_table \<Rightarrow> mmu_mem \<Rightarrow> u32 \<Rightarrow> u32 \<Rightarrow> bool" where
  "translates par tt mem virt d \<longleftrightarrow> (\<exists>e pt tb. read_l1 tt virt = Some e \<and> e AND 3 = 1 \<and>
     tables mem pt = Some tb \<and> virtual_to_physical par pt = e AND 0xfffffc00 \<and>
     d = tb ! page_index virt \<and> hw_valid d)"

text \<open>
  The invariant of a translation table: its page tables are live heap allocations of 256
  entries at multiples of 1024, every entry of the first level that is present refers to one
  of them, no two to the same, and the directory leads back to the virtual address. A page table
  that the directory does not know is used at its physical address.
\<close>

definition dir_ok :: "(u32 \<Rightarrow> u32) \<Rightarrow> nat \<Rightarrow> nat \<Rightarrow> translation_table \<Rightarrow> (u32 \<times> u32) list \<Rightarrow> bool" where
  "dir_ok par lo hi tt xs \<longleftrightarrow> rb_rep (tdirectory tt) xs \<and>
     (\<forall>(k, v) \<in> set xs. k = virtual_to_physical par v \<and> lo \<le> unat v \<and> unat v < hi \<and> 1024 dvd unat v)"

definition tables_ok :: "seg list \<Rightarrow> mmu_mem \<Rightarrow> bool" where
  "tables_ok segs mem \<longleftrightarrow> (\<forall>pt tb. tables mem pt = Some tb \<longrightarrow>
     length tb = 256 \<and> (\<exists>s. (pt - 16, s, True) \<in> set segs \<and> 1024 \<le> unat s))"

definition refers :: "(u32 \<Rightarrow> u32) \<Rightarrow> mmu_mem \<Rightarrow> (u32 \<times> u32) list \<Rightarrow> u32 \<Rightarrow> u32 \<Rightarrow> bool" where
  "refers par mem xs e pt \<longleftrightarrow> e = virtual_to_physical par pt OR 1 \<and> 1024 dvd unat pt \<and> pt \<in> dom (tables mem) \<and>
     ((virtual_to_physical par pt, pt) \<in> set xs \<or>
      virtual_to_physical par pt \<notin> fst ` set xs \<and> virtual_to_physical par pt = pt)"

definition tt_inv :: "(u32 \<Rightarrow> u32) \<Rightarrow> nat \<Rightarrow> seg list \<Rightarrow> nat \<Rightarrow> (u32 \<times> u32) list \<Rightarrow>
    translation_table \<Rightarrow> mmu_mem \<Rightarrow> bool" where
  "tt_inv par lo segs hi xs tt mem \<longleftrightarrow> mm_heap (mmem mem) lo segs hi \<and> dir_ok par lo hi tt xs \<and>
     tables_ok segs mem \<and> inj_on (virtual_to_physical par) {p. lo \<le> unat p \<and> unat p < hi} \<and>
     (\<forall>i < length (table tt). table tt ! i AND 1 \<noteq> 0 \<longrightarrow> (\<exists>pt. refers par mem xs (table tt ! i) pt)) \<and>
     (\<forall>i < length (table tt). \<forall>j < length (table tt). table tt ! i AND 1 \<noteq> 0 \<longrightarrow>
        table tt ! i = table tt ! j \<longrightarrow> i = j)"

lemma index_arith:
  "table_index v = unat v div 2 ^ 20" "page_index v = unat v mod 2 ^ 20 div 2 ^ 12"
  "unat (drop_bit 12 v) = unat v div 2 ^ 12"
proof -
  have m: "(0x000fffff :: u32) = mask 20" by (simp add: mask_eq_decr_exp)
  show "table_index v = unat v div 2 ^ 20" "unat (drop_bit 12 v) = unat v div 2 ^ 12"
    unfolding table_index_def unat_drop_bit_eq unfolding drop_bit_eq_div by (rule refl)+
  show "page_index v = unat v mod 2 ^ 20 div 2 ^ 12"
    unfolding page_index_def m unat_drop_bit_eq unfolding drop_bit_eq_div unat_and_mask by (rule refl)
qed

lemma page_index_less: "page_index v < 256"
proof -
  have "unat v mod 2 ^ 20 < 2 ^ 20" by simp
  then show ?thesis unfolding index_arith by (simp add: less_mult_imp_div_less)
qed

lemma same_page:
  "table_index v = table_index w \<Longrightarrow> page_index v = page_index w \<Longrightarrow> drop_bit 12 v = drop_bit 12 w"
proof -
  assume eq: "table_index v = table_index w" "page_index v = page_index w"
  have "unat x div 2 ^ 12 = unat x div 2 ^ 20 * 256 + unat x mod 2 ^ 20 div 2 ^ 12" for x :: u32
    by (simp add: div_mult2_eq [of _ 4096 256, simplified] mod_mult2_eq [of _ 4096 256, simplified])
  then have "unat (drop_bit 12 v) = unat (drop_bit 12 w)"
    using eq unfolding index_arith by metis
  then show ?thesis by (simp only: word_unat_eq_iff)
qed

lemma v2p_low:
  assumes "1024 dvd unat pt"
  shows "(virtual_to_physical par pt OR 1) AND 0xfffffc00 = virtual_to_physical par pt"
    and "(virtual_to_physical par pt OR 1) AND 3 = 1"
    and "(virtual_to_physical par pt OR 1) AND 1 \<noteq> 0"
proof -
  let ?p = "virtual_to_physical par pt"
  have m: "(0xfffffc00 :: u32) = NOT (mask 10)" "(0xfffff000 :: u32) = NOT (mask 12)"
    "(0xfff :: u32) = mask 12" "(3 :: u32) = mask 2" "(1 :: u32) = mask 1"
    by (simp_all add: mask_eq_decr_exp)
  have "unat (pt AND mask 10) = 0"
    using assms by (simp add: unat_and_mask)
  then have pt: "pt AND mask 10 = 0" by (simp only: unat_eq_0)
  have low: "\<not> bit pt n" if "n < 10" for n
  proof -
    have "bit (pt AND mask 10) n = bit pt n" using that by (simp add: bit_simps)
    then show ?thesis by (simp add: pt)
  qed
  have p: "?p = (par (pt AND NOT (mask 12)) AND NOT (mask 12)) OR (pt AND mask 12)"
    unfolding virtual_to_physical_def m Let_def
    by (rule disjunctive_add_eq_or) (auto intro!: bit_word_eqI simp: bit_simps)
  have bits: "\<not> bit ?p n" if "n < 10" for n
    using that low [of n] by (simp add: p bit_simps)
  have one: "bit (1 :: u32) n \<longleftrightarrow> n = 0" for n by (simp add: bit_1_iff)
  show "(?p OR 1) AND 0xfffffc00 = ?p"
    unfolding m(1)
  proof (rule bit_word_eqI)
    fix n assume "n < LENGTH(32)"
    then show "bit ((?p OR 1) AND NOT (mask 10)) n = bit ?p n"
      using bits [of n] by (auto simp: bit_or_iff bit_and_iff bit_not_iff bit_mask_iff one)
  qed
  show "(?p OR 1) AND 3 = 1"
    unfolding m(4)
  proof (rule bit_word_eqI)
    fix n assume "n < LENGTH(32)"
    then show "bit ((?p OR 1) AND mask 2) n = bit (1 :: u32) n"
      using bits [of n] by (auto simp: bit_or_iff bit_and_iff bit_mask_iff one)
  qed
  have "bit ((?p OR 1) AND 1) 0"
    by (simp add: bit_or_iff bit_and_iff)
  then show "(?p OR 1) AND 1 \<noteq> 0" by auto
qed

lemma tables_range:
  assumes "tables_ok segs mem" and "mm_heap m lo segs hi" and "tables mem pt = Some tb"
  shows "lo \<le> unat pt \<and> unat pt < hi \<and> pt \<noteq> 0 \<and> length tb = 256"
proof -
  obtain s where s: "(pt - 16, s, True) \<in> set segs" "1024 \<le> unat s" "length tb = 256"
    using assms(1,3) by (auto simp: tables_ok_def)
  have til: "tiled lo segs hi" "hi < 2 ^ 32" using assms(2) by (simp_all add: mm_heap_def)
  note a = tiled_addr [OF til(1) s(1)]
  have "unat (pt - 16 + 16) = unat (pt - 16) + 16"
    using tiled_fits [OF til s(1)] by (subst unat_add_small) simp_all
  then have "unat pt = unat (pt - 16) + 16" by simp
  with a s(2,3) show ?thesis by auto
qed

text \<open>
  The part of the invariant that does not depend on how the memory of the page tables was allocated.
  It holds for the kernel's table too, whose first page tables are older than the heap.
\<close>

definition tt_core :: "(u32 \<Rightarrow> u32) \<Rightarrow> nat \<Rightarrow> nat \<Rightarrow> (u32 \<times> u32) list \<Rightarrow> translation_table \<Rightarrow> mmu_mem \<Rightarrow> bool" where
  "tt_core par lo hi xs tt mem \<longleftrightarrow> dir_ok par lo hi tt xs \<and>
     (\<forall>pt tb. tables mem pt = Some tb \<longrightarrow> lo \<le> unat pt \<and> unat pt < hi \<and> length tb = 256) \<and>
     inj_on (virtual_to_physical par) {p. lo \<le> unat p \<and> unat p < hi} \<and>
     (\<forall>i < length (table tt). table tt ! i AND 1 \<noteq> 0 \<longrightarrow> (\<exists>pt. refers par mem xs (table tt ! i) pt)) \<and>
     (\<forall>i < length (table tt). \<forall>j < length (table tt). table tt ! i AND 1 \<noteq> 0 \<longrightarrow>
        table tt ! i = table tt ! j \<longrightarrow> i = j)"

lemma tt_inv_core: "tt_inv par lo segs hi xs tt mem \<Longrightarrow> tt_core par lo hi xs tt mem"
  unfolding tt_core_def using tables_range [of segs mem "mmem mem" lo hi] by (auto simp: tt_inv_def)

lemma tt_inv_heap:
  "tt_core par lo hi xs tt mem \<Longrightarrow> mm_heap (mmem mem) lo segs hi \<Longrightarrow> tables_ok segs mem \<Longrightarrow> tt_inv par lo segs hi xs tt mem"
  unfolding tt_core_def tt_inv_def by blast

lemma tables_ok_dom:
  "tables_ok segs mem \<Longrightarrow> tt_core par lo hi xs tt mem' \<Longrightarrow> dom (tables mem') = dom (tables mem) \<Longrightarrow> tables_ok segs mem'"
  unfolding tables_ok_def tt_core_def by (metis (no_types, lifting) domD domI)

lemma refers_address:
  assumes "dir_ok par lo hi tt xs" and "refers par mem xs e pt"
    and "inj_on (virtual_to_physical par) {p. lo \<le> unat p \<and> unat p < hi}"
  shows "table_address tt e = Some pt" and "e AND 3 = 1" and "e AND 0xfffffc00 = virtual_to_physical par pt"
    and "e AND 1 \<noteq> 0"
proof -
  let ?k = "virtual_to_physical par pt"
  have e: "e = ?k OR 1" "1024 dvd unat pt" "(?k, pt) \<in> set xs \<or> ?k \<notin> fst ` set xs \<and> ?k = pt"
    using assms(2) by (auto simp: refers_def)
  have all: "k = virtual_to_physical par v \<and> lo \<le> unat v \<and> unat v < hi"
    if "(k, v) \<in> set xs" for k v
    using assms(1) that by (auto simp: dir_ok_def)
  note low = v2p_low [OF e(2), of par]
  show "e AND 3 = 1" "e AND 0xfffffc00 = ?k" "e AND 1 \<noteq> 0"
    unfolding e(1) using low by blast+
  have rep: "rb_rep (tdirectory tt) xs" using assms(1) by (simp add: dir_ok_def)
  show "table_address tt e = Some pt"
  proof (cases "(?k, pt) \<in> set xs")
    case True
    then obtain v where v: "(?k, v) \<in> set xs" "get_value ?k (tdirectory tt) = Some (Some v)"
      using rbt.get_rep [OF rep, of ?k] by force
    have "v = pt" using assms(3) all [OF v(1)] all [OF True] by (auto dest: inj_onD)
    with v(2) low show ?thesis by (simp add: table_address_def e(1))
  next
    case False
    then have "?k \<notin> fst ` set xs" "?k = pt" using e(3) by auto
    moreover from rbt.get_absent [OF rep this(1)] have "get_value ?k (tdirectory tt) = Some None" .
    ultimately show ?thesis using low by (simp add: table_address_def e(1))
  qed
qed

text \<open>An address translates through the page table its first level entry refers to.\<close>

lemma translates_refers:
  assumes inv: "tt_core par lo hi xs tt mem" and "read_l1 tt v = Some e" and "refers par mem xs e pt"
  shows "translates par tt mem v d \<longleftrightarrow> d = the (tables mem pt) ! page_index v \<and> hw_valid d"
proof -
  have dir: "dir_ok par lo hi tt xs" "inj_on (virtual_to_physical par) {p. lo \<le> unat p \<and> unat p < hi}"
    and range: "\<And>p t. tables mem p = Some t \<Longrightarrow> lo \<le> unat p \<and> unat p < hi"
    using inv by (auto simp: tt_core_def)
  note r = refers_address [OF dir(1) assms(3) dir(2)]
  obtain tb where tb: "tables mem pt = Some tb" using assms(3) by (auto simp: refers_def)
  have "pt' = pt" if "tables mem pt' = Some tb'" "virtual_to_physical par pt' = virtual_to_physical par pt" for pt' tb'
    using inj_onD [OF dir(2) that(2)] range [OF that(1)] range [OF tb] by simp
  note same = this
  show ?thesis
  proof
    assume "translates par tt mem v d"
    then obtain p t where p: "tables mem p = Some t" "virtual_to_physical par p = e AND 0xfffffc00"
      "d = t ! page_index v" "hw_valid d"
      using assms(2) by (auto simp: translates_def)
    then have "p = pt" using same r(3) by simp
    with p show "d = the (tables mem pt) ! page_index v \<and> hw_valid d" by simp
  next
    assume "d = the (tables mem pt) ! page_index v \<and> hw_valid d"
    with r tb assms(2) show "translates par tt mem v d" by (auto simp: translates_def)
  qed
qed

lemma translates_absent:
  "read_l1 tt v = None \<or> read_l1 tt v = Some e \<and> e AND 1 = 0 \<Longrightarrow> \<not> translates par tt mem v d"
proof -
  have "e AND 1 = (e AND 3) AND 1" for e :: u32
    by (simp add: and.assoc)
  then have "e AND 3 = 1 \<Longrightarrow> e AND 1 = 1" for e :: u32
    by (metis and.idem)
  then show "read_l1 tt v = None \<or> read_l1 tt v = Some e \<and> e AND 1 = 0 \<Longrightarrow> \<not> translates par tt mem v d"
    by (auto simp: translates_def)
qed

lemma l1_entry:
  assumes "tt_core par lo hi xs tt mem" and "read_l1 tt v = Some e" and "e AND 1 \<noteq> 0"
  obtains pt where "refers par mem xs e pt"
proof -
  have "table_index v < length (table tt)" "e = table tt ! table_index v"
    using assms(2) by (auto simp: read_l1_def split: if_splits)
  with assms(1,3) that show thesis by (auto simp: tt_core_def)
qed

text \<open>Changing entries of one page table concerns only the addresses of its megabyte.\<close>

lemma table_update:
  assumes inv: "tt_core par lo hi xs tt mem" and e: "read_l1 tt virt = Some e" "refers par mem xs e pt"
    and tb: "tables mem pt = Some tb" and "length tb' = 256"
  shows "tt_core par lo hi xs tt (mem\<lparr>tables := (tables mem)(pt \<mapsto> tb')\<rparr>)"
    and "translates par tt (mem\<lparr>tables := (tables mem)(pt \<mapsto> tb')\<rparr>) v d \<longleftrightarrow>
      (if table_index v = table_index virt then d = tb' ! page_index v \<and> hw_valid d
       else translates par tt mem v d)"
proof -
  let ?mem = "mem\<lparr>tables := (tables mem)(pt \<mapsto> tb')\<rparr>"
  have refers: "refers par ?mem xs e' p = refers par mem xs e' p" for e' p
    using tb by (auto simp: refers_def)
  show inv': "tt_core par lo hi xs tt ?mem"
    using inv tb assms(5) by (auto simp: tt_core_def refers)
  have eq: "table_index v = table_index virt \<Longrightarrow> read_l1 tt v = Some e"
    using e(1) by (simp add: read_l1_def split: if_splits)
  show "translates par tt ?mem v d \<longleftrightarrow>
      (if table_index v = table_index virt then d = tb' ! page_index v \<and> hw_valid d
       else translates par tt mem v d)"
  proof (cases "table_index v = table_index virt")
    case True
    with translates_refers [OF inv' eq [OF True]] e(2) show ?thesis by (simp add: refers)
  next
    case other: False
    show ?thesis
    proof (cases "\<exists>e'. read_l1 tt v = Some e' \<and> e' AND 1 \<noteq> 0")
      case False
      then have "\<not> translates par tt m v d" for m
        using translates_absent [of tt v] by (cases "read_l1 tt v") auto
      with other show ?thesis by simp
    next
      case True
      then obtain e' where e': "read_l1 tt v = Some e'" "e' AND 1 \<noteq> 0" by blast
      obtain p where p: "refers par mem xs e' p" using l1_entry [OF inv e'] .
      have "e' \<noteq> e"
      proof
        assume "e' = e"
        then have "table_index v < length (table tt)" "table_index virt < length (table tt)"
          "table tt ! table_index v = table tt ! table_index virt" "table tt ! table_index v AND 1 \<noteq> 0"
          using e' e(1) by (auto simp: read_l1_def split: if_splits)
        with inv other show False by (simp add: tt_core_def)
      qed
      then have "p \<noteq> pt" using p e(2) by (auto simp: refers_def)
      with translates_refers [OF inv' e'(1)] translates_refers [OF inv e'(1) p] p other show ?thesis
        by (simp add: refers)
    qed
  qed
qed

lemma same_page_iff:
  "drop_bit 12 v = drop_bit 12 w \<longleftrightarrow> table_index v = table_index w \<and> page_index v = page_index w"
proof
  assume "drop_bit 12 v = drop_bit 12 w"
  then have "unat v div 2 ^ 12 = unat w div 2 ^ 12"
    by (metis index_arith(3))
  moreover have "table_index x = unat x div 2 ^ 12 div 2 ^ 8" "page_index x = unat x div 2 ^ 12 mod 2 ^ 8" for x
    unfolding index_arith by (simp_all add: div_mult2_eq [of _ 4096 256, simplified] mod_mult2_eq [of _ 4096 256, simplified])
  ultimately show "table_index v = table_index w \<and> page_index v = page_index w" by simp
qed (blast intro: same_page)

lemma hw_valid_entry: "hw_valid (page_entry p perms ty ng)"
  by (simp add: hw_valid_def page_entry_def l2_small_page_def Let_def bit_or_iff)

lemma map_page_present:
  assumes inv: "tt_core par lo hi xs tt mem" and e: "read_l1 tt virt = Some e" "e AND 1 \<noteq> 0"
  shows "\<exists>mem'. map_page par page virt perms ty ng (tt, mem) = Some (tt, mem') \<and>
    tt_core par lo hi xs tt mem' \<and> mmem mem' = mmem mem \<and> dom (tables mem') = dom (tables mem) \<and>
    (\<forall>v d. translates par tt mem' v d \<longleftrightarrow>
      (if drop_bit 12 v = drop_bit 12 virt then d = page_entry page perms ty ng
       else translates par tt mem v d))"
proof -
  obtain pt where pt: "refers par mem xs e pt" using l1_entry [OF inv e] .
  obtain tb where tb: "tables mem pt = Some tb" using pt by (auto simp: refers_def)
  have parts: "dir_ok par lo hi tt xs" "inj_on (virtual_to_physical par) {p. lo \<le> unat p \<and> unat p < hi}"
    using inv by (simp_all add: tt_core_def)
  have len: "length tb = 256" using inv tb by (auto simp: tt_core_def)
  let ?tb = "tb[page_index virt := page_entry page perms ty ng]"
  let ?mem = "mem\<lparr>tables := (tables mem)(pt \<mapsto> ?tb)\<rparr>"
  have "map_page par page virt perms ty ng (tt, mem) = Some (tt, ?mem)"
    using e refers_address(1) [OF parts(1) pt parts(2)] tb len page_index_less [of virt]
    by (simp add: map_page_def get_page_table_def l1_page_table_def add_entry_def)
  moreover note table_update [OF inv e(1) pt tb, of ?tb]
  moreover have "translates par tt mem v d \<longleftrightarrow> d = tb ! page_index v \<and> hw_valid d"
    if "table_index v = table_index virt" for v d
  proof -
    have "read_l1 tt v = Some e" using e(1) that by (simp add: read_l1_def split: if_splits)
    from translates_refers [OF inv this pt] tb show ?thesis by simp
  qed
  ultimately show ?thesis
    using len page_index_less [of virt] hw_valid_entry
    by (intro exI [of _ ?mem]) (use tb in \<open>auto simp: same_page_iff nth_list_update\<close>)
qed

lemma map_page_present_inv:
  assumes inv: "tt_inv par lo segs hi xs tt mem" and e: "read_l1 tt virt = Some e" "e AND 1 \<noteq> 0"
  shows "\<exists>mem'. map_page par page virt perms ty ng (tt, mem) = Some (tt, mem') \<and>
    tt_inv par lo segs hi xs tt mem' \<and> (\<forall>v d. translates par tt mem' v d \<longleftrightarrow>
      (if drop_bit 12 v = drop_bit 12 virt then d = page_entry page perms ty ng
       else translates par tt mem v d))"
proof -
  have heap: "mm_heap (mmem mem) lo segs hi" "tables_ok segs mem" using inv by (simp_all add: tt_inv_def)
  obtain mem' where m: "map_page par page virt perms ty ng (tt, mem) = Some (tt, mem')" "tt_core par lo hi xs tt mem'"
    "mmem mem' = mmem mem" "dom (tables mem') = dom (tables mem)" "\<forall>v d. translates par tt mem' v d \<longleftrightarrow>
      (if drop_bit 12 v = drop_bit 12 virt then d = page_entry page perms ty ng else translates par tt mem v d)"
    using map_page_present [OF tt_inv_core [OF inv] e, of page perms ty ng] by blast
  have "tt_inv par lo segs hi xs tt mem'"
    using m(3) heap(1) by (intro tt_inv_heap [OF m(2)] tables_ok_dom [OF heap(2) m(2, 4)]) simp
  with m(1, 5) show ?thesis by blast
qed

text \<open>
  A table whose page tables are at their physical addresses loses nothing when its directory is
  cleared.
\<close>

lemma tt_core_cleared:
  assumes "tt_core par lo hi xs tt mem" and "\<And>p. lo \<le> unat p \<Longrightarrow> unat p < hi \<Longrightarrow> virtual_to_physical par p = p"
  shows "tt_core par lo hi [] (tt\<lparr>tdirectory := rbtree_new\<rparr>) mem"
proof -
  have "refers par mem [] e pt" if "refers par mem xs e pt" for e pt
  proof -
    have "lo \<le> unat pt \<and> unat pt < hi" using that assms(1) by (auto simp: refers_def tt_core_def)
    with assms(2) that show ?thesis by (simp add: refers_def)
  qed
  then show ?thesis using assms(1) unfolding tt_core_def dir_ok_def by (simp add: rbtree_new_rep) blast
qed

lemma translates_cleared [simp]: "translates par (tt\<lparr>tdirectory := d\<rparr>) mem v e = translates par tt mem v e"
  by (simp add: translates_def read_l1_def)

text \<open>Making a page table changes no translation.\<close>

lemma page_table_added:
  assumes inv: "tt_core par lo hi xs tt mem" and e: "read_l1 tt virt = Some e" "e AND 1 = 0"
    and alloc: "operator_new_aligned 1024 1024 (mmem mem) = Some (p, m1)"
    and range: "p \<noteq> 0 \<and> lo \<le> unat p \<and> unat p < hi" and p1024: "1024 dvd unat p" and fresh: "tables mem p = None"
    and keys: "\<forall>k \<in> fst ` set xs. k \<le> virtual_to_physical par p"
    and mem1: "mem1 = \<lparr>mmem = m1, tables = (tables mem)(p \<mapsto> page_table_new)\<rparr>"
  shows "\<exists>tt1. get_page_table par virt (tt, mem) = Some (p, tt1, mem1) \<and>
    tt_core par lo hi (xs @ [(virtual_to_physical par p, p)]) tt1 mem1 \<and>
    read_l1 tt1 virt = Some (virtual_to_physical par p OR 1) \<and>
    refers par mem1 (xs @ [(virtual_to_physical par p, p)]) (virtual_to_physical par p OR 1) p \<and>
    table tt1 = (table tt)[table_index virt := virtual_to_physical par p OR 1] \<and>
    (\<forall>v d. translates par tt1 mem1 v d \<longleftrightarrow> translates par tt mem v d)"
proof -
  let ?k = "virtual_to_physical par p" and ?xs = "xs @ [(virtual_to_physical par p, p)]"
  let ?mem = "\<lparr>mmem = m1, tables = (tables mem)(p \<mapsto> page_table_new)\<rparr>"
  have dir: "dir_ok par lo hi tt xs" and inj: "inj_on (virtual_to_physical par) {p. lo \<le> unat p \<and> unat p < hi}"
    using inv by (simp_all add: tt_core_def)
  have tab1: "\<forall>pt tb. tables ?mem pt = Some tb \<longrightarrow> lo \<le> unat pt \<and> unat pt < hi \<and> length tb = 256"
    using inv range by (auto simp: tt_core_def page_table_new_def)
  obtain d where d: "rb_insert ?k p (tdirectory tt) = Some d" "rb_rep d ?xs"
    using rb_insert_last [of "tdirectory tt" xs ?k p] dir keys by (auto simp: dir_ok_def)
  let ?tt = "tt\<lparr>tdirectory := d, table := (table tt)[table_index virt := ?k OR 1]\<rparr>"
  have get: "get_page_table par virt (tt, mem) = Some (p, ?tt, ?mem)"
    using e alloc d(1) range by (simp add: get_page_table_def l1_page_table_def)
  have dir1: "dir_ok par lo hi ?tt ?xs"
    using dir d(2) range p1024 by (auto simp: dir_ok_def)
  have ref1: "refers par ?mem ?xs (?k OR 1) p" using p1024 by (simp add: refers_def)
  have ref: "refers par ?mem ?xs e' q" "q \<noteq> p" if r: "refers par mem xs e' q" for e' q
  proof -
    show "q \<noteq> p" using r fresh by (auto simp: refers_def)
    have "lo \<le> unat q \<and> unat q < hi" using r inv by (auto simp: refers_def tt_core_def)
    then have "virtual_to_physical par q \<noteq> ?k" using inj_onD [OF inj, of q p] range \<open>q \<noteq> p\<close> by blast
    with r show "refers par ?mem ?xs e' q" by (auto simp: refers_def)
  qed
  have other: "?k OR 1 \<noteq> e'" if "refers par mem xs e' q" for e' q
  proof
    assume "?k OR 1 = e'"
    then have "?k = virtual_to_physical par q"
      using refers_address(3) [OF dir that inj] v2p_low(1) [OF p1024, of par] by metis
    moreover have "lo \<le> unat q \<and> unat q < hi"
      using that inv by (auto simp: refers_def tt_core_def)
    ultimately have "p = q" using inj_onD [OF inj] range by blast
    with ref(2) [OF that] show False by simp
  qed
  have old: "\<exists>q. refers par mem xs (table tt ! i) q" if "i < length (table tt)" "table tt ! i AND 1 \<noteq> 0" for i
    using inv that by (simp add: tt_core_def)
  have l1: "table ?tt ! i = (if i = table_index virt then ?k OR 1 else table tt ! i)" if "i < length (table tt)" for i
    using that by simp
  have "tt_core par lo hi ?xs ?tt ?mem"
    unfolding tt_core_def
  proof (intro conjI allI impI)
    fix i assume i: "i < length (table ?tt)" "table ?tt ! i AND 1 \<noteq> 0"
    show "\<exists>pt. refers par ?mem ?xs (table ?tt ! i) pt"
      using i ref1 ref(1) old [of i] by (cases "i = table_index virt") auto
  next
    fix i j assume ij: "i < length (table ?tt)" "j < length (table ?tt)" "table ?tt ! i AND 1 \<noteq> 0"
      "table ?tt ! i = table ?tt ! j"
    show "i = j"
    proof (rule ccontr)
      assume "i \<noteq> j"
      consider "i = table_index virt" | "j = table_index virt" | "i \<noteq> table_index virt" "j \<noteq> table_index virt"
        by blast
      then show False
      proof cases
        case 1
        then have eq: "?k OR 1 = table tt ! j"
          using ij \<open>i \<noteq> j\<close> by simp
        moreover have "table tt ! j AND 1 \<noteq> 0"
          unfolding eq [symmetric] by (rule v2p_low(3) [OF p1024])
        ultimately show False using old [of j] other ij(2) by auto
      next
        case 2
        then have "?k OR 1 = table tt ! i" "table tt ! i AND 1 \<noteq> 0"
          using ij \<open>i \<noteq> j\<close> by simp_all
        with old [of i] other ij(1) show False by auto
      next
        case 3
        with ij \<open>i \<noteq> j\<close> inv show False by (simp add: tt_core_def)
      qed
    qed
  qed (use dir1 tab1 inj in blast)+
  note inv1 = this
  have e1: "read_l1 ?tt virt = Some (?k OR 1)"
    using e(1) by (simp add: read_l1_def split: if_splits)
  have same: "translates par ?tt ?mem v d \<longleftrightarrow> translates par tt mem v d" for v d
  proof (cases "table_index v = table_index virt")
    case True
    then have v: "read_l1 ?tt v = Some (?k OR 1)" "read_l1 tt v = Some e"
      using e(1) e1 by (simp_all add: read_l1_def split: if_splits)
    have "\<not> hw_valid (page_table_new ! page_index v)"
      by (simp add: page_table_new_def page_index_less hw_valid_def)
    with translates_refers [OF inv1 v(1) ref1] translates_absent [of tt v e] v(2) e(2) show ?thesis
      by auto
  next
    case False
    then have eq: "read_l1 ?tt v = read_l1 tt v" by (simp add: read_l1_def)
    show ?thesis
    proof (cases "\<exists>e'. read_l1 tt v = Some e' \<and> e' AND 1 \<noteq> 0")
      case True
      then obtain e' where e': "read_l1 tt v = Some e'" "e' AND 1 \<noteq> 0" by blast
      obtain q where q: "refers par mem xs e' q" using l1_entry [OF inv e'] .
      from translates_refers [OF inv e'(1) q] translates_refers [OF inv1 _ ref(1) [OF q], of v d] ref(2) [OF q] e'(1) eq
      show ?thesis by simp
    next
      case False
      then have "\<not> translates par tt mem v d" "\<not> translates par ?tt ?mem v d"
        using translates_absent [of tt v] translates_absent [of ?tt v] eq by (cases "read_l1 tt v"; force)+
      then show ?thesis by simp
    qed
  qed
  from get inv1 e1 ref1 same show ?thesis
    unfolding mem1 by (intro exI [of _ ?tt]) simp
qed

lemma page_table_made:
  assumes inv: "tt_inv par lo segs hi xs tt mem" and e: "read_l1 tt virt = Some e" "e AND 1 = 0"
    and alloc: "seg_alloc 1024 1024 segs = Some (p, segs')"
    and keys: "\<forall>k \<in> fst ` set xs. k \<le> virtual_to_physical par p"
  shows "\<exists>tt1 mem1. get_page_table par virt (tt, mem) = Some (p, tt1, mem1) \<and>
    tt_inv par lo segs' hi (xs @ [(virtual_to_physical par p, p)]) tt1 mem1 \<and>
    read_l1 tt1 virt = Some (virtual_to_physical par p OR 1) \<and>
    refers par mem1 (xs @ [(virtual_to_physical par p, p)]) (virtual_to_physical par p OR 1) p \<and>
    length (table tt1) = length (table tt) \<and>
    (\<forall>v d. translates par tt1 mem1 v d \<longleftrightarrow> translates par tt mem v d)"
proof -
  let ?k = "virtual_to_physical par p" and ?xs = "xs @ [(virtual_to_physical par p, p)]"
  have dir: "dir_ok par lo hi tt xs" and inj: "inj_on (virtual_to_physical par) {p. lo \<le> unat p \<and> unat p < hi}"
    and tab: "tables_ok segs mem" and heap: "mm_heap (mmem mem) lo segs hi"
    using inv by (simp_all add: tt_inv_def)
  have r1024: "round_size 1024 = 1024" by (simp add: round_size_def)
  obtain m1 where m1: "mm_allocate 1024 1024 (mmem mem) = Some (p, m1)" "mm_heap m1 lo segs' hi"
    using mm_allocate_rep [OF heap request_1024] alloc by (auto simp: r1024)
  obtain us vs t where live: "live segs = us @ vs" "live segs' = us @ (p - 16, t, True) # vs" "1024 \<le> t"
    and p1024: "1024 dvd unat p"
    using seg_alloc_adds_live [OF _ heap request_1024] alloc by (fastforce simp: r1024 adds_live_def)
  let ?mem = "\<lparr>mmem = m1, tables = (tables mem)(p \<mapsto> page_table_new)\<rparr>"
  have live_in: "(a, s, True) \<in> set segs \<longleftrightarrow> (a, s, True) \<in> set (us @ vs)"
    "(a, s, True) \<in> set segs' \<longleftrightarrow> (a, s, True) \<in> set (us @ (p - 16, t, True) # vs)" for a s
    by (auto simp: live_def simp flip: live(1,2))
  have tab1: "tables_ok segs' ?mem"
    using tab live(3) by (auto simp: tables_ok_def live_in page_table_new_def word_le_nat_alt) 
  have range: "lo \<le> unat p \<and> unat p < hi \<and> p \<noteq> 0"
    using tables_range [OF tab1 m1(2), of p page_table_new] by simp
  have fresh: "tables mem p = None"
  proof (rule ccontr)
    assume "tables mem p \<noteq> None"
    then obtain s where "(p - 16, s, True) \<in> set (us @ vs)"
      using tab live_in(1) by (fastforce simp: tables_ok_def)
    moreover have "distinct (map fst (live segs'))"
      using tiled_distinct [of lo segs' hi] m1(2) by (simp add: live_def mm_heap_def distinct_map_filter)
    ultimately show False by (force simp: live(2))
  qed
  have alloc': "operator_new_aligned 1024 1024 (mmem mem) = Some (p, m1)"
    using m1(1) by (simp add: operator_new_aligned_def)
  have r: "p \<noteq> 0 \<and> lo \<le> unat p \<and> unat p < hi" using range by simp
  obtain tt1 where tt1: "get_page_table par virt (tt, mem) = Some (p, tt1, ?mem)" "tt_core par lo hi ?xs tt1 ?mem"
    "read_l1 tt1 virt = Some (?k OR 1)" "refers par ?mem ?xs (?k OR 1) p" "table tt1 = (table tt)[table_index virt := ?k OR 1]"
    "\<forall>v d. translates par tt1 ?mem v d \<longleftrightarrow> translates par tt mem v d"
    using page_table_added [OF tt_inv_core [OF inv] e alloc' r p1024 fresh keys refl] by blast
  have "tt_inv par lo segs' hi ?xs tt1 ?mem"
    using m1(2) by (intro tt_inv_heap [OF tt1(2)] tab1) simp
  with tt1 show ?thesis by (intro exI [of _ tt1] exI [of _ ?mem]) simp
qed

text \<open>The address space has room for a page table where one is needed.\<close>

definition table_room :: "(u32 \<Rightarrow> u32) \<Rightarrow> seg list \<Rightarrow> (u32 \<times> u32) list \<Rightarrow> bool" where
  "table_room par segs xs \<longleftrightarrow> (case seg_alloc 1024 1024 segs of None \<Rightarrow> False
     | Some (p, _) \<Rightarrow> \<forall>k \<in> fst ` set xs. k \<le> virtual_to_physical par p)"

lemma map_page_absent:
  assumes inv: "tt_inv par lo segs hi xs tt mem" and e: "read_l1 tt virt = Some e" "e AND 1 = 0"
    and room: "table_room par segs xs"
  shows "\<exists>tt' mem' segs' xs'. map_page par page virt perms ty ng (tt, mem) = Some (tt', mem') \<and>
    tt_inv par lo segs' hi xs' tt' mem' \<and> length (table tt') = length (table tt) \<and>
    (\<forall>v d. translates par tt' mem' v d \<longleftrightarrow>
      (if drop_bit 12 v = drop_bit 12 virt then d = page_entry page perms ty ng
       else translates par tt mem v d))"
proof -
  obtain p segs' where alloc: "seg_alloc 1024 1024 segs = Some (p, segs')"
    "\<forall>k \<in> fst ` set xs. k \<le> virtual_to_physical par p"
    using room by (auto simp: table_room_def split: option.splits)
  let ?xs = "xs @ [(virtual_to_physical par p, p)]" and ?e = "virtual_to_physical par p OR 1"
  obtain tt1 mem1 where made: "get_page_table par virt (tt, mem) = Some (p, tt1, mem1)"
    "tt_inv par lo segs' hi ?xs tt1 mem1" "read_l1 tt1 virt = Some ?e" "refers par mem1 ?xs ?e p"
    "length (table tt1) = length (table tt)"
    "\<forall>v d. translates par tt1 mem1 v d \<longleftrightarrow> translates par tt mem v d"
    using page_table_made [OF inv e alloc] by blast
  have parts: "dir_ok par lo hi tt1 ?xs" "inj_on (virtual_to_physical par) {p. lo \<le> unat p \<and> unat p < hi}"
    using made(2) by (simp_all add: tt_inv_def)
  note r = refers_address [OF parts(1) made(4) parts(2)]
  have "map_page par page virt perms ty ng (tt, mem) = map_page par page virt perms ty ng (tt1, mem1)"
    using made(1,3) r by (simp add: map_page_def get_page_table_def [of par virt] l1_page_table_def)
  moreover obtain mem' where mem': "map_page par page virt perms ty ng (tt1, mem1) = Some (tt1, mem')"
    "tt_inv par lo segs' hi ?xs tt1 mem'" "\<forall>v d. translates par tt1 mem' v d \<longleftrightarrow>
      (if drop_bit 12 v = drop_bit 12 virt then d = page_entry page perms ty ng
       else translates par tt1 mem1 v d)"
    using map_page_present_inv [OF made(2,3) r(4), of page perms ty ng] by blast
  ultimately show ?thesis
    using made(5,6) by (intro exI [of _ tt1] exI [of _ mem'] exI [of _ segs'] exI [of _ ?xs]) simp
qed

text \<open>
  C2: mapping a page makes exactly that page translate to the descriptor of the request and
  changes the translation of no other page, whether the page table existed or had to be made.
  It succeeds when the first level table covers the address and a missing page table can be
  allocated at a physical address above those of the existing ones.
\<close>

theorem map_page_translates:
  assumes "tt_inv par lo segs hi xs tt mem" and "table_index virt < length (table tt)"
    and "table tt ! table_index virt AND 1 \<noteq> 0 \<or> table_room par segs xs"
  shows "\<exists>tt' mem' segs' xs'. map_page par page virt perms ty ng (tt, mem) = Some (tt', mem') \<and>
    tt_inv par lo segs' hi xs' tt' mem' \<and>
    (\<forall>v d. translates par tt' mem' v d \<longleftrightarrow>
      (if drop_bit 12 v = drop_bit 12 virt then d = page_entry page perms ty ng
       else translates par tt mem v d))"
proof -
  have e: "read_l1 tt virt = Some (table tt ! table_index virt)"
    using assms(2) by (simp add: read_l1_def)
  show ?thesis
  proof (cases "table tt ! table_index virt AND 1 = 0")
    case True
    with assms(3) map_page_absent [OF assms(1) e True] show ?thesis by blast
  next
    case False
    with map_page_present_inv [OF assms(1) e False] show ?thesis by blast
  qed
qed

text \<open>Mapping a page whose page table is there takes no memory.\<close>

lemma map_page_memory:
  assumes "map_page par page virt perms ty ng (tt, mem) = Some (tt', mem')" and "read_l1 tt virt = Some e" and "e AND 1 \<noteq> 0"
  shows "mmem mem' = mmem mem"
  using assms by (auto simp: map_page_def get_page_table_def l1_page_table_def split: Option.bind_splits)

lemma mm_free_pages: "mm_free p m = Some m' \<Longrightarrow> page_stack m' = page_stack m"
  by (auto simp: mm_free_def split: if_splits bind_splits)

lemma table_deleted:
  assumes inv: "tt_inv par lo segs hi xs tt mem" and e: "read_l1 tt virt = Some e" "refers par mem xs e pt"
    and empty: "\<And>v d. table_index v = table_index virt \<Longrightarrow> \<not> translates par tt mem v d"
  shows "\<exists>m' segs'. operator_delete pt (mmem mem) = Some m' \<and> page_stack m' = page_stack (mmem mem) \<and>
    tt_inv par lo segs' hi xs (tt\<lparr>table := (table tt)[table_index virt := 0]\<rparr>)
      \<lparr>mmem = m', tables = (tables mem)(pt := None)\<rparr> \<and>
    (\<forall>v d. translates par (tt\<lparr>table := (table tt)[table_index virt := 0]\<rparr>)
        \<lparr>mmem = m', tables = (tables mem)(pt := None)\<rparr> v d \<longleftrightarrow> translates par tt mem v d)"
proof -
  let ?tt = "tt\<lparr>table := (table tt)[table_index virt := 0]\<rparr>"
  have dir: "dir_ok par lo hi tt xs" and inj: "inj_on (virtual_to_physical par) {p. lo \<le> unat p \<and> unat p < hi}"
    and tab: "tables_ok segs mem" and heap: "mm_heap (mmem mem) lo segs hi"
    using inv by (simp_all add: tt_inv_def)
  obtain s where "(pt - 16, s, True) \<in> set segs"
    using tab e(2) by (auto simp: refers_def) (metis tables_ok_def)+
  then obtain as bs where segs: "segs = as @ (pt - 16, s, True) # bs"
    by (meson split_list)
  obtain m' where m': "mm_free pt (mmem mem) = Some m'"
    "mm_heap m' lo (seg_free (pt - 16) segs) hi"
    using mm_free_rep [of "mmem mem" lo as "pt - 16" s True bs hi] heap by (auto simp: segs)
  let ?segs = "seg_free (pt - 16) segs" and ?mem = "\<lparr>mmem = m', tables = (tables mem)(pt := None)\<rparr>"
  have dist: "distinct (map fst segs)"
    using heap tiled_distinct by (auto simp: mm_heap_def)
  then have live: "live ?segs = live as @ live bs"
    unfolding segs by (intro seg_free_live) auto
  have kept: "(a, t, True) \<in> set ?segs" if "(a, t, True) \<in> set segs" "a \<noteq> pt - 16" for a t
  proof -
    have "(a, t, True) \<in> set (live ?segs)"
      using that unfolding live by (auto simp: segs live_def)
    then show ?thesis by (simp add: live_def)
  qed
  have tab': "tables_ok ?segs ?mem"
    using tab kept unfolding tables_ok_def by (fastforce split: if_splits)
  have dir': "dir_ok par lo hi ?tt xs" using dir by (simp add: dir_ok_def)
  have other: "\<exists>q. refers par ?mem xs (table tt ! i) q \<and> refers par mem xs (table tt ! i) q \<and> q \<noteq> pt"
    if i: "i < length (table tt)" "table tt ! i AND 1 \<noteq> 0" "i \<noteq> table_index virt" for i
  proof -
    obtain q where q: "refers par mem xs (table tt ! i) q"
      using inv i by (auto simp: tt_inv_def)
    have "table_index virt < length (table tt)" "e = table tt ! table_index virt"
      using e(1) by (auto simp: read_l1_def split: if_splits)
    then have "table tt ! i \<noteq> e" using inv i by (auto simp: tt_inv_def)
    then have "q \<noteq> pt" using q e(2) by (auto simp: refers_def)
    with q show ?thesis by (auto simp: refers_def)
  qed
  have inv': "tt_inv par lo ?segs hi xs ?tt ?mem"
    unfolding tt_inv_def
  proof (intro conjI allI impI)
    fix i assume "i < length (table ?tt)" "table ?tt ! i AND 1 \<noteq> 0"
    then show "\<exists>pt. refers par ?mem xs (table ?tt ! i) pt"
      using other [of i] by (cases "i = table_index virt") auto
  next
    fix i j assume "i < length (table ?tt)" "j < length (table ?tt)" "table ?tt ! i AND 1 \<noteq> 0"
      "table ?tt ! i = table ?tt ! j"
    then show "i = j"
      using inv by (cases "i = table_index virt"; cases "j = table_index virt") (auto simp: tt_inv_def)
  qed (use m'(2) dir' tab' inj in simp_all)
  have same: "translates par ?tt ?mem v d \<longleftrightarrow> translates par tt mem v d" for v d
  proof (cases "table_index v = table_index virt")
    case True
    with empty [OF True] translates_absent [of ?tt v 0] e(1) show ?thesis
      by (simp add: read_l1_def split: if_splits)
  next
    case False
    then have eq: "read_l1 ?tt v = read_l1 tt v" by (simp add: read_l1_def)
    show ?thesis
    proof (cases "\<exists>e'. read_l1 tt v = Some e' \<and> e' AND 1 \<noteq> 0")
      case True
      then obtain e' where e': "read_l1 tt v = Some e'" "e' AND 1 \<noteq> 0" by blast
      then obtain q where "refers par ?mem xs e' q" "refers par mem xs e' q" "q \<noteq> pt"
        using other [of "table_index v"] False by (auto simp: read_l1_def split: if_splits)
      with translates_refers [OF tt_inv_core [OF inv'] _ this(1), of v d] translates_refers [OF tt_inv_core [OF inv] e'(1) this(2), of d] eq e'(1)
      show ?thesis by simp
    next
      case False
      then have "\<not> translates par tt mem v d" "\<not> translates par ?tt ?mem v d"
        using translates_absent [of tt v] translates_absent [of ?tt v] eq by (cases "read_l1 tt v"; force)+
      then show ?thesis by simp
    qed
  qed
  from m'(1) mm_free_pages [OF m'(1)] inv' same show ?thesis
    unfolding operator_delete_def by blast
qed

lemma tt_inv_memory:
  assumes "tt_inv par lo segs hi xs tt mem" and "mm_heap m lo segs hi"
  shows "tt_inv par lo segs hi xs tt (mem\<lparr>mmem := m\<rparr>)"
proof -
  have t: "tables_ok segs (mem\<lparr>mmem := m\<rparr>) = tables_ok segs mem" by (simp add: tables_ok_def)
  have r: "refers par (mem\<lparr>mmem := m\<rparr>) = refers par mem" by (intro ext) (simp add: refers_def)
  have m: "mmem (mem\<lparr>mmem := m\<rparr>) = m" by simp
  show ?thesis using assms unfolding tt_inv_def t r m by blast
qed

text \<open>The translation tables do not depend on the rest of the memory.\<close>

lemma tt_memory [simp]:
  "tt_core par lo hi xs tt (mem\<lparr>mmem := m\<rparr>) = tt_core par lo hi xs tt mem"
  "translates par tt (mem\<lparr>mmem := m\<rparr>) v d = translates par tt mem v d"
proof -
  have r: "refers par (mem\<lparr>mmem := m\<rparr>) = refers par mem" by (intro ext) (simp add: refers_def)
  show "tt_core par lo hi xs tt (mem\<lparr>mmem := m\<rparr>) = tt_core par lo hi xs tt mem" unfolding tt_core_def r by simp
  show "translates par tt (mem\<lparr>mmem := m\<rparr>) v d = translates par tt mem v d" by (simp add: translates_def)
qed

lemma tt_inv_pages:
  assumes "tt_inv par lo segs hi xs tt mem"
  shows "tt_inv par lo segs hi xs tt (mem\<lparr>mmem := (mmem mem)\<lparr>page_stack := st\<rparr>\<rparr>)"
    and "translates par tt (mem\<lparr>mmem := m\<rparr>) v d \<longleftrightarrow> translates par tt mem v d"
proof -
  have "mm_heap ((mmem mem)\<lparr>page_stack := st\<rparr>) lo segs hi"
    using assms by (simp add: tt_inv_def mm_heap_def)
  then show "tt_inv par lo segs hi xs tt (mem\<lparr>mmem := (mmem mem)\<lparr>page_stack := st\<rparr>\<rparr>)"
    by (rule tt_inv_memory [OF assms])
qed (simp add: translates_def)

lemma unmap_page_step:
  assumes inv: "tt_inv par lo segs hi xs tt mem" and tr: "translates par tt mem virt d"
    and "hw_page d \<noteq> 0" and st: "page_stack (mmem mem) = Some st" "stack_rep st n pages" "length pages < n"
  shows "\<exists>tt' mem' segs' st'. unmap_page virt (tt, mem) = Some (tt', mem') \<and>
    tt_inv par lo segs' hi xs tt' mem' \<and>
    page_stack (mmem mem') = Some st' \<and> stack_rep st' n (hw_page d # pages) \<and>
    (\<forall>v d'. translates par tt' mem' v d' \<longleftrightarrow> drop_bit 12 v \<noteq> drop_bit 12 virt \<and> translates par tt mem v d')"
proof -
  have parts: "dir_ok par lo hi tt xs" "inj_on (virtual_to_physical par) {p. lo \<le> unat p \<and> unat p < hi}"
    "tables_ok segs mem" "mm_heap (mmem mem) lo segs hi"
    using inv by (simp_all add: tt_inv_def)
  obtain e where e: "read_l1 tt virt = Some e" using tr by (auto simp: translates_def)
  have e1: "e AND 1 \<noteq> 0" using translates_absent [of tt virt e par mem d] tr e by blast
  obtain pt where pt: "refers par mem xs e pt" using l1_entry [OF tt_inv_core [OF inv] e e1] .
  obtain tb where tb: "tables mem pt = Some tb" using pt by (auto simp: refers_def)
  have len: "length tb = 256" using tables_range [OF parts(3,4) tb] by simp
  have d: "d = tb ! page_index virt" using translates_refers [OF tt_inv_core [OF inv] e pt, of d] tr tb by simp
  obtain st' where st': "stack_push (hw_page d) st = Some st'" "stack_rep st' n (hw_page d # pages)"
    using sks.push_room [OF st(2,3), of "hw_page d"] by auto
  let ?m = "(mmem mem)\<lparr>page_stack := Some st'\<rparr>" and ?tb = "tb[page_index virt := 0]"
  let ?mem1 = "mem\<lparr>mmem := ?m\<rparr>"
  let ?mem2 = "?mem1\<lparr>tables := (tables ?mem1)(pt \<mapsto> ?tb)\<rparr>"
  have free: "free_page (hw_page d) (mmem mem) = Some ?m"
    using st(1) st'(1) by (simp add: free_page_def)
  have inv1: "tt_inv par lo segs hi xs tt ?mem1" by (rule tt_inv_pages(1) [OF inv])
  have pt1: "refers par ?mem1 xs e pt" using pt by (simp add: refers_def)
  have upd0: "tt_core par lo hi xs tt ?mem2" "\<And>v d'. translates par tt ?mem2 v d' \<longleftrightarrow>
      (if table_index v = table_index virt then d' = ?tb ! page_index v \<and> hw_valid d'
       else translates par tt ?mem1 v d')"
    using table_update [OF tt_inv_core [OF inv1] e pt1, of tb ?tb] tb len by simp_all
  have "tables_ok segs ?mem1" "mm_heap (mmem ?mem2) lo segs hi" using inv1 by (simp_all add: tt_inv_def)
  moreover have "dom (tables ?mem2) = dom (tables ?mem1)" using tb by auto
  ultimately have "tt_inv par lo segs hi xs tt ?mem2"
    using tables_ok_dom [OF _ upd0(1)] by (intro tt_inv_heap [OF upd0(1)]) blast+
  note upd = this upd0(2)
  have "translates par tt ?mem2 v d' \<longleftrightarrow> drop_bit 12 v \<noteq> drop_bit 12 virt \<and> translates par tt mem v d'" for v d'
  proof (cases "table_index v = table_index virt")
    case True
    then have "read_l1 tt v = Some e" using e by (simp add: read_l1_def split: if_splits)
    from translates_refers [OF tt_inv_core [OF inv] this pt, of d'] tb len page_index_less [of virt] True upd(2) [of v d']
    show ?thesis by (auto simp: same_page_iff nth_list_update hw_valid_def)
  next
    case False
    then show ?thesis
      using upd(2) [of v d'] by (simp add: same_page_iff tt_inv_pages(2) [OF inv])
  qed
  note tr2 = this
  have unmap: "unmap_page virt (tt, mem) =
      (if pt_is_empty ?tb then do {
         m' \<leftarrow> operator_delete pt ?m;
         Some (tt\<lparr>table := (table tt)[table_index virt := 0]\<rparr>, \<lparr>mmem = m', tables = (tables mem)(pt := None)\<rparr>) }
       else Some (tt, \<lparr>mmem = ?m, tables = (tables mem)(pt \<mapsto> ?tb)\<rparr>))"
    using e e1 refers_address(1) [OF parts(1) pt parts(2)] tb len page_index_less [of virt] free
      assms(3) d
    by (simp add: unmap_page_def l1_page_table_def remove_entry_def hw_page_def)
  show ?thesis
  proof (cases "pt_is_empty ?tb")
    case True
    have pt2: "refers par ?mem2 xs e pt" using pt by (simp add: refers_def)
    have "\<not> translates par tt ?mem2 v d'" if "table_index v = table_index virt" for v d'
    proof -
      have "?tb ! page_index v = 0"
        using True len page_index_less [of v] by (simp add: pt_is_empty_def list_all_length)
      then show ?thesis using upd(2) [of v d'] that by (auto simp: hw_valid_def)
    qed
    from table_deleted [OF upd(1) e pt2 this] obtain m' segs' where
      "operator_delete pt ?m = Some m'" "page_stack m' = Some st'"
      "tt_inv par lo segs' hi xs (tt\<lparr>table := (table tt)[table_index virt := 0]\<rparr>)
         \<lparr>mmem = m', tables = (tables mem)(pt := None)\<rparr>"
      "\<forall>v d. translates par (tt\<lparr>table := (table tt)[table_index virt := 0]\<rparr>)
         \<lparr>mmem = m', tables = (tables mem)(pt := None)\<rparr> v d \<longleftrightarrow> translates par tt ?mem2 v d"
      by auto
    with True unmap st'(2) tr2 show ?thesis by auto
  next
    case False
    have "?mem2 = \<lparr>mmem = ?m, tables = (tables mem)(pt \<mapsto> ?tb)\<rparr>" by simp
    then have "unmap_page virt (tt, mem) = Some (tt, ?mem2)" "page_stack (mmem ?mem2) = Some st'"
      using False unmap by simp_all
    with st'(2) tr2 upd(1) show ?thesis by blast
  qed
qed

text \<open>
  C35: unmapping a page that is mapped removes exactly its translation and pushes the page on
  the stack of free pages; a page table without entries is deleted. All other translations stay.
\<close>

theorem unmap_page_translates:
  assumes "tt_inv par lo segs hi xs tt mem" and "translates par tt mem virt d"
    and "hw_page d \<noteq> 0" and "page_stack (mmem mem) = Some st" and "stack_rep st n pages" and "length pages < n"
  shows "\<exists>tt' mem' segs' st'. unmap_page virt (tt, mem) = Some (tt', mem') \<and>
    tt_inv par lo segs' hi xs tt' mem' \<and>
    page_stack (mmem mem') = Some st' \<and> stack_rep st' n (hw_page d # pages) \<and>
    (\<forall>v d'. translates par tt' mem' v d' \<longleftrightarrow> drop_bit 12 v \<noteq> drop_bit 12 virt \<and> translates par tt mem v d')"
  by (rule unmap_page_step [OF assms])

section \<open>Intervals\<close>

definition page_no :: "u32 \<Rightarrow> nat" where
  "page_no v = unat v div 4096"

lemma page_no_eq: "drop_bit 12 v = drop_bit 12 w \<longleftrightarrow> page_no v = page_no w"
proof -
  have "drop_bit 12 v = drop_bit 12 w \<longleftrightarrow> unat (drop_bit 12 v) = unat (drop_bit 12 w)"
    by (simp only: word_unat_eq_iff)
  then show ?thesis by (simp add: index_arith(3) page_no_def)
qed

lemma map_interval_loop_present:
  assumes "tt_core par lo hi xs tt mem" and "unat start + 4096 * n = unat stop"
    and "unat virt + 4096 * n < 2 ^ 32"
    and "\<And>v. page_no virt \<le> page_no v \<Longrightarrow> page_no v < page_no virt + n \<Longrightarrow>
      \<exists>e. read_l1 tt v = Some e \<and> e AND 1 \<noteq> 0"
  shows "\<exists>mem'. map_interval_loop par stop perms ty ng start virt (tt, mem) = Some (tt, mem') \<and>
    tt_core par lo hi xs tt mem' \<and> mmem mem' = mmem mem \<and> dom (tables mem') = dom (tables mem) \<and> (\<forall>v d. translates par tt mem' v d \<longleftrightarrow>
      (if page_no virt \<le> page_no v \<and> page_no v < page_no virt + n
       then d = page_entry (start + 4096 * word_of_nat (page_no v - page_no virt)) perms ty ng
       else translates par tt mem v d))"
  using assms
proof (induction n arbitrary: start virt mem)
  case 0
  then have "start = stop" by (simp add: word_unat_eq_iff)
  with 0(1) show ?case by (intro exI [of _ mem]) (auto simp: map_interval_loop.simps)
next
  case (Suc n)
  have st: "unat stop < 2 ^ 32"
    using unat_u32 [of stop] by simp
  have s1: "unat (start + 4096) = unat start + 4096" "unat (virt + 4096) = unat virt + 4096"
    using Suc.prems(2,3) st by (subst unat_add_small; simp)+
  have p1: "page_no (virt + 4096) = Suc (page_no virt)"
    by (simp add: page_no_def s1)
  have lt: "start < stop"
    using Suc.prems(2) by (simp add: word_less_nat_alt)
  obtain e where e: "read_l1 tt virt = Some e" "e AND 1 \<noteq> 0"
    using Suc.prems(4) [of virt] by auto
  obtain mem1 where m1: "map_page par start virt perms ty ng (tt, mem) = Some (tt, mem1)"
    "tt_core par lo hi xs tt mem1" "mmem mem1 = mmem mem" "dom (tables mem1) = dom (tables mem)" "\<forall>v d. translates par tt mem1 v d \<longleftrightarrow>
      (if page_no v = page_no virt then d = page_entry start perms ty ng else translates par tt mem v d)"
    using map_page_present [OF Suc.prems(1) e, of start perms ty ng] by (auto simp: page_no_eq)
  obtain mem' where m': "map_interval_loop par stop perms ty ng (start + 4096) (virt + 4096) (tt, mem1) = Some (tt, mem')"
    "tt_core par lo hi xs tt mem'" "mmem mem' = mmem mem1" "dom (tables mem') = dom (tables mem1)" "\<forall>v d. translates par tt mem' v d \<longleftrightarrow>
      (if page_no (virt + 4096) \<le> page_no v \<and> page_no v < page_no (virt + 4096) + n
       then d = page_entry (start + 4096 + 4096 * word_of_nat (page_no v - page_no (virt + 4096))) perms ty ng
       else translates par tt mem1 v d)"
    using Suc.IH [OF m1(2), of "start + 4096" "virt + 4096"] Suc.prems s1 p1 by auto
  have "start + 4096 + 4096 * word_of_nat (page_no v - Suc (page_no virt)) =
      start + 4096 * word_of_nat (page_no v - page_no virt)" if "Suc (page_no virt) \<le> page_no v" for v
  proof -
    have "page_no v - page_no virt = Suc (page_no v - Suc (page_no virt))" using that by simp
    then show ?thesis by (simp add: algebra_simps)
  qed
  then have "translates par tt mem' v d \<longleftrightarrow>
      (if page_no virt \<le> page_no v \<and> page_no v < page_no virt + Suc n
       then d = page_entry (start + 4096 * word_of_nat (page_no v - page_no virt)) perms ty ng
       else translates par tt mem v d)" for v d
    using m1(5) m'(5) p1 by auto
  with m'(1-4) m1(1, 3, 4) lt show ?case
    by (intro exI [of _ mem']) (simp add: map_interval_loop.simps [of par stop perms ty ng start])
qed

section \<open>Examples\<close>

lemma v2p_identity: "virtual_to_physical (\<lambda>p. p) p = p"
proof -
  have m: "(0xfffff000 :: u32) = NOT (mask 12)" "(0xfff :: u32) = mask 12"
    by (simp_all add: mask_eq_decr_exp)
  have "virtual_to_physical (\<lambda>p. p) p = ((p AND NOT (mask 12)) AND NOT (mask 12)) OR (p AND mask 12)"
    unfolding virtual_to_physical_def m Let_def
    by (rule disjunctive_add_eq_or) (auto intro!: bit_word_eqI simp: bit_simps)
  also have "\<dots> = p" by (rule bit_word_eqI) (auto simp: bit_simps)
  finally show ?thesis .
qed

lemma inj_identity: "inj_on (virtual_to_physical (\<lambda>p. p)) A"
  by (simp add: inj_on_def v2p_identity)

definition boot_mem :: mmu_mem where
  "boot_mem = \<lparr>mmem = one_block 0x1000 0x800, tables = Map.empty\<rparr>"

lemma boot_inv: "tt_inv (\<lambda>p. p) 0x1000 [(0x1000, 0x800, False)] 0x1810 [] (tt_new 16) boot_mem"
  using one_block_heap [of "0x1000" "0x800"]
  by (simp add: tt_inv_def boot_mem_def tt_new_def dir_ok_def rbtree_new_rep tables_ok_def inj_identity)

theorem map_page_translates_witness:
  "\<exists>tt' mem'. map_page (\<lambda>p. p) 0x5000 0x3000 RW_NA DATA False (tt_new 16, boot_mem) = Some (tt', mem') \<and>
     translates (\<lambda>p. p) tt' mem' 0x3000 (page_entry 0x5000 RW_NA DATA False)"
proof -
  have room: "table_room (\<lambda>p. p) [(0x1000, 0x800, False)] []"
    by (simp add: table_room_def seg_fit_def Let_def align_1024 mask_eq_decr_exp)
  have idx: "table_index 0x3000 < length (table (tt_new 16))"
    by (simp add: table_index_def tt_new_def)
  obtain tt' mem' where "map_page (\<lambda>p. p) 0x5000 0x3000 RW_NA DATA False (tt_new 16, boot_mem) = Some (tt', mem')"
    "\<forall>v d. translates (\<lambda>p. p) tt' mem' v d \<longleftrightarrow>
      (if drop_bit 12 v = drop_bit 12 (0x3000 :: u32) then d = page_entry 0x5000 RW_NA DATA False
       else translates (\<lambda>p. p) (tt_new 16) boot_mem v d)"
    using map_page_translates [OF boot_inv idx disjI2 [OF room], of "0x5000" RW_NA DATA False] by auto
  then show ?thesis by (intro exI [of _ tt'] exI [of _ mem']) (simp only: simp_thms if_True refl)
qed

definition one_table :: page_table where
  "one_table = page_table_new[3 := page_entry 0x5000 RW_NA DATA False]"

definition one_table_mem :: mmu_mem where
  "one_table_mem = \<lparr>mmem = (one_block 0x13f0 0x400)
       \<lparr>blocks := [0x13f0 \<mapsto> \<lparr>bprev = None, bnext = None, bsize = 0x400, bused = True\<rparr>],
        page_stack := Some (static_kstack_new 2)\<rparr>,
     tables = [0x1400 \<mapsto> one_table]\<rparr>"

lemma one_table_inv_at:
  assumes "k < n"
  shows "\<exists>d. tt_inv (\<lambda>p. p) 0x13f0 [(0x13f0, 0x400, True)] 0x1800 [(0x1400, 0x1400)]
     \<lparr>table = (replicate n 0)[k := 0x1401], tdirectory = d\<rparr> one_table_mem"
proof -
  obtain d :: "(u32, u32) rbtree" where d: "rb_rep d [(0x1400, 0x1400)]"
    using rb_insert_last [OF rbtree_new_rep, of "0x1400 :: u32" "0x1400 :: u32"] by auto
  let ?tt = "\<lparr>table = (replicate n 0)[k := 0x1401], tdirectory = d\<rparr>"
  have "mm_heap (mmem one_table_mem) 0x13f0 [(0x13f0, 0x400, True)] 0x1800"
    by (simp add: one_table_mem_def one_block_def mm_heap_def heap_rep_def seg_data_def)
  moreover have "dir_ok (\<lambda>p. p) 0x13f0 0x1800 ?tt [(0x1400, 0x1400)]"
    using d by (simp add: dir_ok_def v2p_identity)
  moreover have "tables_ok [(0x13f0, 0x400, True)] one_table_mem"
    by (auto simp: tables_ok_def one_table_mem_def one_table_def page_table_new_def)
  moreover have "\<exists>pt. refers (\<lambda>p. p) one_table_mem [(0x1400, 0x1400)] (table ?tt ! i) pt"
    if "i < length (table ?tt)" "table ?tt ! i AND 1 \<noteq> 0" for i
    using that by (cases "i = k") (auto simp: refers_def v2p_identity one_table_mem_def)
  moreover have "i = j" if "i < length (table ?tt)" "j < length (table ?tt)" "table ?tt ! i AND 1 \<noteq> 0"
    "table ?tt ! i = table ?tt ! j" for i j
    using that assms by (cases "i = k"; cases "j = k") auto
  ultimately have "tt_inv (\<lambda>p. p) 0x13f0 [(0x13f0, 0x400, True)] 0x1800 [(0x1400, 0x1400)] ?tt one_table_mem"
    unfolding tt_inv_def using inj_identity by blast
  then show ?thesis by blast
qed

lemmas one_table_inv = one_table_inv_at [of 0 16, simplified zero_less_numeral, OF TrueI]

lemma small_indices: "table_index 0x3000 = 0" "page_index 0x3000 = 3"
  by (simp_all add: table_index_def page_index_def)

theorem unmap_page_translates_witness:
  "\<exists>tt tt' mem' st'. translates (\<lambda>p. p) tt one_table_mem 0x3000 (page_entry 0x5000 RW_NA DATA False) \<and>
     unmap_page 0x3000 (tt, one_table_mem) = Some (tt', mem') \<and>
     page_stack (mmem mem') = Some st' \<and> stack_rep st' 2 [0x5000] \<and>
     \<not> translates (\<lambda>p. p) tt' mem' 0x3000 (page_entry 0x5000 RW_NA DATA False)"
proof -
  obtain d where inv: "tt_inv (\<lambda>p. p) 0x13f0 [(0x13f0, 0x400, True)] 0x1800 [(0x1400, 0x1400)]
     \<lparr>table = (replicate 16 0)[0 := 0x1401], tdirectory = d\<rparr> one_table_mem" (is "tt_inv _ _ _ _ _ ?tt _")
    using one_table_inv by blast
  let ?d = "page_entry 0x5000 RW_NA DATA False"
  have tr: "translates (\<lambda>p. p) ?tt one_table_mem 0x3000 ?d"
    unfolding translates_def
    by (intro exI [of _ "0x1401"] exI [of _ "0x1400"] exI [of _ one_table])
      (simp add: read_l1_def small_indices one_table_mem_def v2p_identity one_table_def page_table_new_def
        hw_valid_entry)
  have page: "hw_page ?d = 0x5000"
    by (simp add: hw_page_def page_entry_page)
  have "page_stack (mmem one_table_mem) = Some (static_kstack_new 2)"
    by (simp add: one_table_mem_def)
  moreover have "stack_rep (static_kstack_new 2 :: u32 static_kstack) 2 []"
    using stack_new_rep [of 2] by simp
  ultimately have "\<exists>tt' mem' segs' st'. unmap_page 0x3000 (?tt, one_table_mem) = Some (tt', mem') \<and>
    tt_inv (\<lambda>p. p) 0x13f0 segs' 0x1800 [(0x1400, 0x1400)] tt' mem' \<and>
    page_stack (mmem mem') = Some st' \<and> stack_rep st' 2 [hw_page ?d] \<and>
    (\<forall>v d'. translates (\<lambda>p. p) tt' mem' v d' \<longleftrightarrow> drop_bit 12 v \<noteq> drop_bit 12 (0x3000 :: u32) \<and>
       translates (\<lambda>p. p) ?tt one_table_mem v d')"
    by (intro unmap_page_translates [OF inv tr]) (simp_all add: page)
  with tr page show ?thesis by auto
qed

end
