(* ===== verification/Mm_Init.thy ===== *)
theory Mm_Init
  imports Mmu
begin

text \<open>
  The initialisation of the memory manager (\<open>mm::initialize\<close> in \<open>kernel/mm.cpp\<close>): it maps the
  memory controller and the kernel heap, makes the heap one unused block, and fills the stack
  of free pages with the rest of the RAM. Reading a device register is the parameter \<open>io\<close>;
  \<open>ramstart\<close> is a symbol of the linker script.
\<close>

unbundle bit_operations_syntax

definition kernel_heap_size :: u32 where
  "kernel_heap_size = 4 * 1024 * 1024"

definition sdrc_physical :: u32 where "sdrc_physical = 0x6d000000"
definition mcfg0_offset :: u32 where "mcfg0_offset = 0x80"
definition mcfg1_offset :: u32 where "mcfg1_offset = 0xb0"

text \<open>Making the heap, once its end is known.\<close>

definition create_heap :: "u32 \<Rightarrow> mm \<Rightarrow> mm" where
  "create_heap mapping_end m =
     (let m1 = m\<lparr>kernel_dataspace_end := mapping_end\<rparr>;
          first = kernel_data_end m1;
          sz = kernel_dataspace_end m1 - kernel_data_end m1 - sizeof_block
      in m1\<lparr>first_block := Some first,
            blocks := (blocks m1)(first \<mapsto> \<lparr>bprev = None, bnext = None, bsize = sz, bused = False\<rparr>),
            ram := zero_loop (unat sz) (first + sizeof_block) 0 (ram m1),
            initialization_completed := True\<rparr>)"

definition available_pages :: "u32 \<Rightarrow> mm \<Rightarrow> u32" where
  "available_pages ramstart m = (ramsize m div 4096) - ((kernel_dataspace_end m - ramstart) div 4096)"

partial_function (option) push_pages :: "u32 \<Rightarrow> u32 \<Rightarrow> u32 static_kstack \<Rightarrow> u32 static_kstack option" where
  "push_pages stop page_addr st =
     (if page_addr < stop then do {
        st' \<leftarrow> stack_push page_addr st;
        push_pages stop (page_addr + 4096) st' }
      else Some st)"

text \<open>The stack object takes 16 bytes; its space is an array of pointers.\<close>

definition create_page_stack :: "u32 \<Rightarrow> mm \<Rightarrow> mm option" where
  "create_page_stack ramstart m = do {
     let num_pages = available_pages ramstart m;
     (obj, m1) \<leftarrow> operator_new 16 m;
     (space, m2) \<leftarrow> operator_new (4 * num_pages) m1;
     if obj = 0 \<or> space = 0 \<and> num_pages \<noteq> 0 then None
     else do {
       st \<leftarrow> push_pages (ramstart + ramsize m2) (kernel_dataspace_end m2)
              (static_kstack_new (sint num_pages));
       Some (m2\<lparr>page_stack := Some st, page_stack_initialized := True\<rparr>) } }"

definition mm_initialize :: "(u32 \<Rightarrow> u32) \<Rightarrow> (u32 \<Rightarrow> u32) \<Rightarrow> u32 \<Rightarrow> mmu \<Rightarrow> mmu option" where
  "mm_initialize par io ramstart s = do {
     (base, s1) \<leftarrow> map_device par sdrc_physical (64 * 1024) s;
     let m = mmem (kmem s1);
     let rs = ramsize m + (drop_bit 8 (io (base + mcfg0_offset)) AND 0x3ff);
     let rs' = rs + (drop_bit 8 (io (base + mcfg1_offset)) AND 0x3ff);
     let dataspace = (kernel_dataspace_end m + 4095) AND mask_left 4096;
     let m1 = m\<lparr>sdrc_base := base, ramsize := push_bit 21 rs', kernel_dataspace_end := dataspace\<rparr>;
     let mapping_start = (dataspace + 4095) AND mask_left 4096;
     let mapping_end = (mapping_start + kernel_heap_size) AND mask_left 4096;
     (tt, mem) \<leftarrow> map_interval par mapping_start mapping_end dataspace RW_NA DATA False
       (kernel_table s1, (kmem s1)\<lparr>mmem := m1\<rparr>);
     m2 \<leftarrow> create_page_stack ramstart (create_heap mapping_end (mmem mem));
     Some (s1\<lparr>kernel_table := tt, kmem := mem\<lparr>mmem := m2\<rparr>\<rparr>) }"

section \<open>The heap and the pages after initialisation\<close>

lemma create_heap_inv:
  assumes "kernel_data_end m = a" and "4 dvd unat a" and "4 dvd unat stop" and "unat a + 16 \<le> unat stop"
  shows "mm_heap (create_heap stop m) (unat a) [(a, stop - a - 16, False)] (unat stop)"
proof -
  have "16 \<le> stop - a" "a \<le> stop"
    using assms(4) by (simp_all add: word_le_nat_alt unat_sub)
  then have u: "unat (stop - a - 16) = unat stop - unat a - 16"
    by (simp add: unat_sub)
  have "unat stop < 2 ^ 32" using unat_u32 [of stop] by simp
  moreover have "4 dvd unat (stop - a - 16)"
    using assms(2,3) by (intro dvd4_arith) simp_all
  ultimately show ?thesis
    using assms u by (auto simp: mm_heap_def create_heap_def Let_def heap_rep_def seg_data_def sizeof_block_def)
qed

lemma push_pages_all:
  assumes "stack_rep st cap xs" and "length xs + n \<le> cap" and "unat addr + 4096 * n = unat stop"
  shows "\<exists>st'. push_pages stop addr st = Some st' \<and>
    stack_rep st' cap (rev (map (\<lambda>i. addr + 4096 * word_of_nat i) [0..<n]) @ xs)"
  using assms
proof (induction n arbitrary: st xs addr)
  case 0
  then have "addr = stop" by (simp add: word_unat_eq_iff)
  with 0(1) show ?case by (simp add: push_pages.simps)
next
  case (Suc n)
  have "unat stop < 2 ^ 32" using unat_u32 [of stop] by simp
  then have next_addr: "unat (addr + 4096) = unat addr + 4096"
    using Suc.prems(3) by (subst unat_add_small) simp_all
  have lt: "addr < stop" using Suc.prems(3) by (simp add: word_less_nat_alt)
  obtain st1 where st1: "stack_push addr st = Some st1" "stack_rep st1 cap (addr # xs)"
    using sks.push_room [OF Suc.prems(1), of addr] Suc.prems(2) by auto
  have "\<exists>st'. push_pages stop (addr + 4096) st1 = Some st' \<and>
    stack_rep st' cap (rev (map (\<lambda>i. addr + 4096 + 4096 * word_of_nat i) [0..<n]) @ addr # xs)"
    using Suc.IH [OF st1(2)] Suc.prems(2,3) next_addr by simp
  moreover have "map (\<lambda>i. addr + 4096 * word_of_nat i) [0..<Suc n] =
      addr # map (\<lambda>i. addr + 4096 + 4096 * word_of_nat i) [0..<n]"
    by (simp add: upt_conv_Cons map_Suc_upt [symmetric] algebra_simps del: upt_Suc)
  ultimately show ?case
    using st1(1) lt by (simp add: push_pages.simps [of stop addr])
qed

text \<open>The address of an allocation is not null, and one is returned when there is room.\<close>

lemma heap_address:
  assumes "mm_heap m lo segs hi" and "(p - 16, t, u) \<in> set segs"
  shows "p \<noteq> 0"
proof -
  have "unat (p - 16) + 16 + unat t < 2 ^ 32"
    using assms tiled_fits [of lo segs hi "p - 16" t u] by (simp add: mm_heap_def)
  then have "unat (p - 16 + 16) = unat (p - 16) + 16"
    by (subst unat_add_small) simp_all
  then show "p \<noteq> 0" by (auto simp: unat_eq_0 [symmetric])
qed

lemma mm_allocate_some:
  assumes "mm_heap m lo segs hi" and "request_ok sz al" and "seg_alloc (round_size sz) al segs = Some (p, segs')"
  shows "\<exists>m'. mm_allocate sz al m = Some (p, m') \<and> mm_heap m' lo segs' hi \<and> p \<noteq> 0"
proof -
  obtain m' where m': "mm_allocate sz al m = Some (p, m')" "mm_heap m' lo segs' hi"
    using mm_allocate_rep [OF assms(1, 2)] assms(3) by auto
  obtain us vs t where "live segs' = us @ (p - 16, t, True) # vs"
    using seg_alloc_adds_live [OF assms(3, 1, 2)] by (auto simp: adds_live_def)
  then have "(p - 16, t, True) \<in> set (live segs')" by simp
  then have "(p - 16, t, True) \<in> set segs'" by (simp add: live_def)
  with heap_address [OF m'(2)] m' show ?thesis by blast
qed

lemma allocate_room:
  assumes "mm_heap m lo segs hi" and "request_ok sz al"
  shows "\<exists>p m' segs'. operator_new_aligned sz al m = Some (p, m') \<and> mm_heap m' lo segs' hi \<and> (has_room sz segs \<longrightarrow> p \<noteq> 0)"
proof (cases "seg_alloc (round_size sz) al segs")
  case None
  then obtain p where p: "mm_allocate sz al m = Some (p, m)"
    "p = 0 \<and> (\<forall>q. \<not> candidate (round_size sz) segs q) \<or> candidate (round_size sz) segs p"
    using mm_allocate_rep [OF assms] by auto
  have "\<not> has_room sz segs" if "\<forall>q. \<not> candidate (round_size sz) segs q"
    using that by (auto simp: has_room_def candidate_def list_ex_iff)
  moreover have "p \<noteq> 0" if c: "candidate (round_size sz) segs p"
  proof -
    obtain a t where "(a, t, False) \<in> set segs" "p = a + 16" using c by (auto simp: candidate_def list_ex_iff)
    then show ?thesis using heap_address [OF assms(1), of p t False] by simp
  qed
  ultimately show ?thesis using assms(1) p by (auto simp: operator_new_aligned_def)
next
  case (Some r)
  then show ?thesis using mm_allocate_some [OF assms, of "fst r" "snd r"] by (auto simp: operator_new_aligned_def)
qed

lemma operator_new_rep:
  assumes "mm_heap m lo segs hi" and "0 < sz" and "unat sz \<le> 2 ^ 32 - 4"
    and "seg_alloc (round_size sz) 4 segs = Some (p, segs')"
  shows "\<exists>m'. operator_new sz m = Some (p, m') \<and> mm_heap m' lo segs' hi \<and> p \<noteq> 0 \<and>
    ramsize m' = ramsize m \<and> kernel_dataspace_end m' = kernel_dataspace_end m"
proof -
  obtain m' where m': "mm_allocate sz 4 m = Some (p, m')" "mm_heap m' lo segs' hi" "p \<noteq> 0"
    using mm_allocate_some [OF assms(1) request_default [OF assms(2, 3)] assms(4)] by blast
  moreover have "ramsize m' = ramsize m \<and> kernel_dataspace_end m' = kernel_dataspace_end m"
    using m'(1) mm_allocate_heap [OF assms(1,2), of 4] by auto
  ultimately show ?thesis by (auto simp: operator_new_def)
qed

lemma first_fit_start:
  assumes "4 dvd unat a" and "unat a + 16 + unat s < 2 ^ 32" and "4 \<le> unat sz"
    and "unat sz + 16 < unat s"
  shows "seg_alloc sz 4 [(a, s, False)] = Some (a + 16, [(a, sz, True), (a + 16 + sz, s - (sz + 16), False)])"
proof -
  have a16: "unat (a + 16) = unat a + 16"
    using assms(2) by (subst unat_add_small) simp_all
  then have "align_offset (a + 16) 4 = 0"
    using assms by (intro align_offset_4) auto
  moreover have "sz \<le> s" "sz < s" "16 < s - sz"
    using assms(4) by (auto simp: word_less_nat_alt word_le_nat_alt unat_sub)
  ultimately show ?thesis
    by (simp add: seg_fit_def seg_carve_def not_less)
qed

lemma available_pages_unat:
  assumes "kernel_dataspace_end m = stop" and "unat ramstart \<le> unat stop"
    and "unat stop \<le> unat ramstart + unat (ramsize m)" and "unat ramstart + unat (ramsize m) < 2 ^ 32"
    and "4096 dvd unat ramstart" and "4096 dvd unat stop" and "4096 dvd unat (ramsize m)"
  shows "unat stop + 4096 * unat (available_pages ramstart m) = unat (ramstart + ramsize m)"
proof -
  have "unat (stop - ramstart) = unat stop - unat ramstart"
    using assms(2) by (simp add: unat_sub word_le_nat_alt)
  then have d: "unat ((stop - ramstart) div 4096) = (unat stop - unat ramstart) div 4096"
    "unat (ramsize m div 4096) = unat (ramsize m) div 4096"
    by (simp_all add: unat_div_distrib)
  have "(unat stop - unat ramstart) div 4096 \<le> unat (ramsize m) div 4096"
    using assms(3) by (intro div_le_mono) simp
  then have n: "unat (available_pages ramstart m) = unat (ramsize m) div 4096 - (unat stop - unat ramstart) div 4096"
    using d by (simp add: available_pages_def assms(1) unat_sub word_le_nat_alt)
  have "unat (ramstart + ramsize m) = unat ramstart + unat (ramsize m)"
    using assms(4) by (subst unat_add_small) simp_all
  moreover obtain r where r: "unat ramstart = 4096 * r" using assms(5) by (rule dvdE)
  moreover obtain t where t: "unat stop = 4096 * t" using assms(6) by (rule dvdE)
  moreover obtain z where z: "unat (ramsize m) = 4096 * z" using assms(7) by (rule dvdE)
  moreover have "(unat stop - unat ramstart) div 4096 = t - r"
    unfolding r t by (simp flip: diff_mult_distrib2)
  ultimately show ?thesis
    using n assms(2,3) by simp
qed

lemma memory_initialized:
  assumes a: "kernel_data_end m = a" "4 dvd unat a"
    and pages: "unat ramstart \<le> unat stop" "unat stop \<le> unat ramstart + unat (ramsize m)"
      "unat ramstart + unat (ramsize m) < 2 ^ 32"
      "4096 dvd unat ramstart" "4096 dvd unat stop" "4096 dvd unat (ramsize m)"
    and n: "n = (unat ramstart + unat (ramsize m) - unat stop) div 4096"
    and room: "unat a + 80 + 4 * n < unat stop"
  shows "\<exists>m' st segs. create_page_stack ramstart (create_heap stop m) = Some m' \<and>
    page_stack_initialized m' \<and> page_stack m' = Some st \<and>
    stack_rep st n (rev (map (\<lambda>i. stop + 4096 * word_of_nat i) [0..<n])) \<and>
    mm_heap m' (unat a) segs (unat stop) \<and>
    (\<exists>x r. (x, r, False) \<in> set segs \<and> unat stop \<le> unat a + 64 + 4 * n + unat r)"
proof -
  let ?h = "create_heap stop m" and ?s = "stop - a - 16"
  have stop: "unat stop < 2 ^ 32" "4 dvd unat stop"
    using unat_u32 [of stop] pages(5) dvd_trans [of 4 4096 "unat stop"] by simp_all
  have heap: "mm_heap ?h (unat a) [(a, ?s, False)] (unat stop)"
    using room by (intro create_heap_inv a stop(2)) simp
  have "16 \<le> stop - a" "a \<le> stop"
    using room by (simp_all add: word_le_nat_alt unat_sub)
  then have us: "unat ?s = unat stop - unat a - 16" by (simp add: unat_sub)
  let ?n = "available_pages ramstart ?h"
  have h: "kernel_dataspace_end ?h = stop" "ramsize ?h = ramsize m"
    by (simp_all add: create_heap_def Let_def)
  have top: "unat (ramstart + ramsize m) = unat ramstart + unat (ramsize m)"
    using pages(3) by (subst unat_add_small) simp_all
  have eq: "unat stop + 4096 * unat ?n = unat (ramstart + ramsize m)"
    using available_pages_unat [of ?h stop ramstart] h pages by simp
  then have "unat ramstart + unat (ramsize m) - unat stop = unat ?n * 4096"
    using top by simp
  then have un: "unat ?n = n" using n by simp
  then have last: "unat stop + 4096 * n = unat (ramstart + ramsize m)" using eq by simp
  have "n < 2 ^ 20" using last unat_u32 [of "ramstart + ramsize m"] by simp
  have u4: "unat (4 * ?n) = 4 * n"
    using \<open>n < 2 ^ 20\<close> un by (simp add: unat_word_ariths(2))
  have sn: "sint ?n = int n"
    using \<open>n < 2 ^ 20\<close> un sint_u32_small [of ?n] by simp
  have "4 dvd unat (a + 32)" using a(2) by (intro dvd4_arith) simp_all
  let ?segs1 = "[(a, 16, True), (a + 32, ?s - 32, False)]"
  have "seg_alloc 16 4 [(a, ?s, False)] = Some (a + 16, ?segs1)"
    using first_fit_start [of a ?s 16] a(2) us room stop(1) by simp
  then obtain m1 where m1: "operator_new 16 ?h = Some (a + 16, m1)" "mm_heap m1 (unat a) ?segs1 (unat stop)"
    "a + 16 \<noteq> 0" "ramsize m1 = ramsize m" "kernel_dataspace_end m1 = stop"
    using operator_new_rep [OF heap, of 16] h by (auto simp: round_size_def)
  have "\<exists>p m2 segs. operator_new (4 * ?n) m1 = Some (p, m2) \<and> mm_heap m2 (unat a) segs (unat stop) \<and>
    (p \<noteq> 0 \<or> ?n = 0) \<and> ramsize m2 = ramsize m \<and> kernel_dataspace_end m2 = stop \<and>
    (\<exists>x r. (x, r, False) \<in> set segs \<and> unat stop \<le> unat a + 64 + 4 * n + unat r)"
  proof (cases "n = 0")
    case True
    then have "?n = 0" using un by (simp add: unat_eq_0)
    moreover have "unat stop \<le> unat a + 64 + 4 * n + unat (?s - 32)"
      using us room by (simp add: unat_sub word_le_nat_alt)
    ultimately show ?thesis using m1 by (fastforce simp: operator_new_def mm_allocate_def)
  next
    case False
    have r: "round_size (4 * ?n) = 4 * ?n"
    proof -
      have "unat (round_size (4 * ?n)) = 4 * n"
        using round_size_unat [of "4 * ?n"] u4 \<open>n < 2 ^ 20\<close> by simp
      then show ?thesis using u4 by (simp only: word_unat_eq_iff)
    qed
    have a32: "unat (a + 32) = unat a + 32" using room stop(1) by (subst unat_add_small) simp_all
    have s32: "unat (?s - 32) = unat stop - unat a - 48"
      using us room by (simp add: unat_sub word_le_nat_alt)
    have "seg_alloc (4 * ?n) 4 [(a + 32, ?s - 32, False)] = Some (a + 32 + 16,
      [(a + 32, 4 * ?n, True), (a + 32 + 16 + 4 * ?n, ?s - 32 - (4 * ?n + 16), False)])"
      using False \<open>4 dvd unat (a + 32)\<close> a32 s32 u4 room stop(1) by (intro first_fit_start) simp_all
    then have "seg_alloc (round_size (4 * ?n)) 4 ?segs1 = Some (a + 32 + 16, (a, 16, True) #
      [(a + 32, 4 * ?n, True), (a + 32 + 16 + 4 * ?n, ?s - 32 - (4 * ?n + 16), False)])"
      unfolding r by (simp add: seg_fit_def)
    from operator_new_rep [OF m1(2) _ _ this] False u4 \<open>n < 2 ^ 20\<close> m1(4,5)
    obtain m2 where m2: "operator_new (4 * ?n) m1 = Some (a + 32 + 16, m2)" "mm_heap m2 (unat a) ((a, 16, True) #
      [(a + 32, 4 * ?n, True), (a + 32 + 16 + 4 * ?n, ?s - 32 - (4 * ?n + 16), False)]) (unat stop)"
      "a + 32 + 16 \<noteq> 0" "ramsize m2 = ramsize m" "kernel_dataspace_end m2 = stop"
      by (auto simp: word_less_nat_alt)
    have u: "unat (4 * ?n + 16) = 4 * n + 16" using u4 \<open>n < 2 ^ 20\<close> by (simp add: unat_add_small)
    then have "4 * ?n + 16 \<le> ?s - 32" using room by (simp only: word_le_nat_alt s32)
    then have "unat stop \<le> unat a + 64 + 4 * n + unat (?s - 32 - (4 * ?n + 16))"
      unfolding unat_sub [OF \<open>4 * ?n + 16 \<le> ?s - 32\<close>] u s32 by linarith
    with m2 show ?thesis by fastforce
  qed
  then obtain p m2 segs where m2: "operator_new (4 * ?n) m1 = Some (p, m2)"
    "mm_heap m2 (unat a) segs (unat stop)" "p \<noteq> 0 \<or> ?n = 0" "ramsize m2 = ramsize m" "kernel_dataspace_end m2 = stop"
    "\<exists>x r. (x, r, False) \<in> set segs \<and> unat stop \<le> unat a + 64 + 4 * n + unat r" by blast
  obtain st where st: "push_pages (ramstart + ramsize m) stop (static_kstack_new (int n)) = Some st"
    "stack_rep st n (rev (map (\<lambda>i. stop + 4096 * word_of_nat i) [0..<n]))"
    using push_pages_all [of "static_kstack_new (int n)" n "[]" n stop "ramstart + ramsize m"]
      stack_new_rep [of "int n"] last by auto
  have "create_page_stack ramstart ?h = Some (m2\<lparr>page_stack := Some st, page_stack_initialized := True\<rparr>)"
    using m1(1,3) m2 st(1) sn by (auto simp: create_page_stack_def Let_def)
  moreover have "mm_heap (m2\<lparr>page_stack := Some st, page_stack_initialized := True\<rparr>) (unat a) segs (unat stop)"
    using m2(2) by (simp add: mm_heap_def)
  ultimately show ?thesis using st(2) m2(6) by fastforce
qed

end
