(* ===== verification/Io.thy ===== *)
theory Io
  imports Prelude
begin

text \<open>
  Access to hardware registers (\<open>kernel/io.h\<close>), and the two drivers that consist of such
  accesses only: the clock manager (\<open>kernel/clock_mgr.cpp\<close>) and the system control module
  (\<open>kernel/scm.cpp\<close>). The hardware is not part of the source: it is a parameter, two
  functions that say what a read returns and what a read or write does to a state of any type.
  The model records every access, in order, so that the properties of a driver can speak of
  the accesses it makes whatever the hardware answers.
\<close>

unbundle bit_operations_syntax

section \<open>The bus\<close>

record 'd hardware =
  hw_read :: "u32 \<Rightarrow> 'd \<Rightarrow> u32 \<times> 'd"
  hw_write :: "u32 \<Rightarrow> u32 \<Rightarrow> 'd \<Rightarrow> 'd"

datatype access = Read (acc_addr: u32) (acc_data: u32) | Write (acc_addr: u32) (acc_data: u32)

record 'd bus =
  dev :: 'd
  trace :: "access list"

definition io_read :: "'d hardware \<Rightarrow> u32 \<Rightarrow> u32 \<Rightarrow> 'd bus \<Rightarrow> u32 \<times> 'd bus" where
  "io_read hw base offset b =
     (let (v, d) = hw_read hw (base + offset) (dev b)
      in (v, b\<lparr>dev := d, trace := trace b @ [Read (base + offset) v]\<rparr>))"

definition io_write :: "'d hardware \<Rightarrow> u32 \<Rightarrow> u32 \<Rightarrow> u32 \<Rightarrow> 'd bus \<Rightarrow> 'd bus" where
  "io_write hw data base offset b =
     b\<lparr>dev := hw_write hw (base + offset) data (dev b), trace := trace b @ [Write (base + offset) data]\<rparr>"

definition or_register :: "'d hardware \<Rightarrow> u32 \<Rightarrow> u32 \<Rightarrow> u32 \<Rightarrow> 'd bus \<Rightarrow> 'd bus" where
  "or_register hw data base offset b =
     (let (temp, b') = io_read hw base offset b in io_write hw (temp OR data) base offset b')"

definition and_register :: "'d hardware \<Rightarrow> u32 \<Rightarrow> u32 \<Rightarrow> u32 \<Rightarrow> 'd bus \<Rightarrow> 'd bus" where
  "and_register hw data base offset b =
     (let (temp, b') = io_read hw base offset b in io_write hw (temp AND data) base offset b')"

text \<open>The busy waiting loops of the drivers: until a bit of a register is set.\<close>

partial_function (option) wait_for_bit :: "'d hardware \<Rightarrow> u32 \<Rightarrow> u32 \<Rightarrow> u32 \<Rightarrow> 'd bus \<Rightarrow> 'd bus option" where
  "wait_for_bit hw msk base offset b =
     (let (v, b') = io_read hw base offset b
      in if v AND msk = 0 then wait_for_bit hw msk base offset b' else Some b')"

text \<open>The values written to a register, in order.\<close>

definition written :: "u32 \<Rightarrow> access list \<Rightarrow> u32 list" where
  "written address t = map acc_data (filter (\<lambda>a. case a of Write x v \<Rightarrow> x = address | Read x v \<Rightarrow> False) t)"

lemma written_simps [simp]:
  "written a [] = []"
  "written a (Read x v # t) = written a t"
  "written a (Write x v # t) = (if x = a then v # written a t else written a t)"
  "written a (t @ u) = written a t @ written a u"
  by (simp_all add: written_def)

lemma io_write_trace [simp]:
  "trace (io_write hw data base offset b) = trace b @ [Write (base + offset) data]"
  "dev (io_write hw data base offset b) = hw_write hw (base + offset) data (dev b)"
  by (simp_all add: io_write_def)

lemma io_read_trace [simp]:
  "trace (snd (io_read hw base offset b)) = trace b @ [Read (base + offset) (fst (io_read hw base offset b))]"
  "dev (snd (io_read hw base offset b)) = snd (hw_read hw (base + offset) (dev b))"
  "fst (io_read hw base offset b) = fst (hw_read hw (base + offset) (dev b))"
  by (simp_all add: io_read_def Let_def split: prod.splits)

lemma or_register_trace [simp]:
  "trace (or_register hw data base offset b) =
     (let v = fst (io_read hw base offset b)
      in trace b @ [Read (base + offset) v, Write (base + offset) (v OR data)])"
  by (simp add: or_register_def io_read_def io_write_def Let_def split: prod.splits)

lemma and_register_trace [simp]:
  "trace (and_register hw data base offset b) =
     (let v = fst (io_read hw base offset b)
      in trace b @ [Read (base + offset) v, Write (base + offset) (v AND data)])"
  by (simp add: and_register_def io_read_def io_write_def Let_def split: prod.splits)

lemma written_or [simp]:
  "written a (trace (or_register hw data base offset b)) =
     written a (trace b) @ (if base + offset = a then [fst (hw_read hw a (dev b)) OR data] else [])"
  by (auto simp: Let_def)

lemma written_and [simp]:
  "written a (trace (and_register hw data base offset b)) =
     written a (trace b) @ (if base + offset = a then [fst (hw_read hw a (dev b)) AND data] else [])"
  by (auto simp: Let_def)

text \<open>A wait only reads: it writes nothing, and the last value it read has the bit set.\<close>

lemma wait_for_bit_reads:
  assumes "wait_for_bit hw msk base offset b = Some b'"
  shows "\<exists>vs v. trace b' = trace b @ map (Read (base + offset)) (vs @ [v]) \<and>
       v AND msk \<noteq> 0 \<and> (\<forall>x \<in> set vs. x AND msk = 0)"
proof (rule wait_for_bit.raw_induct [OF _ assms])
  fix f :: "'d hardware \<Rightarrow> u32 \<Rightarrow> u32 \<Rightarrow> u32 \<Rightarrow> 'd bus \<Rightarrow> 'd bus option"
  fix hw :: "'d hardware" and msk base offset b b'
  assume IH: "\<And>hw msk base offset b b'. f hw msk base offset b = Some b' \<Longrightarrow>
      \<exists>vs v. trace b' = trace b @ map (Read (base + offset)) (vs @ [v]) \<and>
        v AND msk \<noteq> 0 \<and> (\<forall>x \<in> set vs. x AND msk = 0)"
    and step: "(let (v, b') = io_read hw base offset b
      in if v AND msk = 0 then f hw msk base offset b' else Some b') = Some b'"
  obtain v b1 where r: "io_read hw base offset b = (v, b1)" by fastforce
  then have t: "trace b1 = trace b @ [Read (base + offset) v]"
    using io_read_trace(1) [of hw base offset b] by simp
  show "\<exists>vs v. trace b' = trace b @ map (Read (base + offset)) (vs @ [v]) \<and>
      v AND msk \<noteq> 0 \<and> (\<forall>x \<in> set vs. x AND msk = 0)"
  proof (cases "v AND msk = 0")
    case True
    with step r have "f hw msk base offset b1 = Some b'" by simp
    with IH obtain vs w where "trace b' = trace b1 @ map (Read (base + offset)) (vs @ [w])"
      "w AND msk \<noteq> 0" "\<forall>x \<in> set vs. x AND msk = 0"
      by blast
    with True t show ?thesis
      by (intro exI [of _ "v # vs"] exI [of _ w]) simp
  next
    case False
    with step r have "b' = b1" by simp
    with False t show ?thesis
      by (intro exI [of _ "[]"] exI [of _ v]) simp
  qed
qed

lemma written_reads [simp]: "written a (map (Read x) vs) = []"
  by (induction vs) simp_all

lemma wait_for_bit_written:
  "wait_for_bit hw msk base offset b = Some b' \<Longrightarrow> written a (trace b') = written a (trace b)"
  using wait_for_bit_reads [of hw msk base offset b b'] by (auto simp del: map_append)

section \<open>The clock manager\<close>

datatype clock = mmc1 | mmc2 | mmc3

definition clock_mask :: "clock \<Rightarrow> u32" where
  "clock_mask c = (case c of mmc3 \<Rightarrow> push_bit 30 1 | mmc2 \<Rightarrow> push_bit 25 1 | mmc1 \<Rightarrow> push_bit 24 1)"

definition fclken1_core :: u32 where "fclken1_core = 0x00"
definition iclken1_core :: u32 where "iclken1_core = 0x10"

definition enable_functional :: "'d hardware \<Rightarrow> u32 \<Rightarrow> clock \<Rightarrow> 'd bus \<Rightarrow> 'd bus" where
  "enable_functional hw core_cm_base c b = or_register hw (clock_mask c) core_cm_base fclken1_core b"

definition enable_interface :: "'d hardware \<Rightarrow> u32 \<Rightarrow> clock \<Rightarrow> 'd bus \<Rightarrow> 'd bus" where
  "enable_interface hw core_cm_base c b = or_register hw (clock_mask c) core_cm_base iclken1_core b"

definition disable_functional :: "'d hardware \<Rightarrow> u32 \<Rightarrow> clock \<Rightarrow> 'd bus \<Rightarrow> 'd bus" where
  "disable_functional hw core_cm_base c b = and_register hw (NOT (clock_mask c)) core_cm_base fclken1_core b"

definition disable_interface :: "'d hardware \<Rightarrow> u32 \<Rightarrow> clock \<Rightarrow> 'd bus \<Rightarrow> 'd bus" where
  "disable_interface hw core_cm_base c b = and_register hw (NOT (clock_mask c)) core_cm_base iclken1_core b"

section \<open>The system control module\<close>

text \<open>The address of a register of the pad configuration, and its two input enable bits.\<close>

definition padconfs :: "u32 \<Rightarrow> u32" where
  "padconfs virtual_base = virtual_base + 0x30"

definition get_padconf_register :: "u32 \<Rightarrow> u32 \<Rightarrow> u32 option" where
  "get_padconf_register virtual_base i = (if i > 370 then None else Some (padconfs virtual_base + i * 4))"

definition enable_input_0 :: "bool \<Rightarrow> u32 \<Rightarrow> u32" where
  "enable_input_0 enable register_value =
     (if enable then register_value OR push_bit 8 1 else register_value AND NOT (push_bit 8 1))"

definition enable_input_1 :: "bool \<Rightarrow> u32 \<Rightarrow> u32" where
  "enable_input_1 enable register_value =
     (if enable then register_value OR push_bit 24 1 else register_value AND NOT (push_bit 24 1))"

text \<open>
  The registers of an ordinary memory-mapped module: a read returns the last value written,
  and nothing else changes.
\<close>

definition plain_registers :: "(u32 \<Rightarrow> u32) hardware" where
  "plain_registers = \<lparr>hw_read = (\<lambda>a r. (r a, r)), hw_write = (\<lambda>a v r. r(a := v))\<rparr>"

lemma clock_masks_disjoint:
  "c \<noteq> c' \<Longrightarrow> clock_mask c AND clock_mask c' = 0"
  by (cases c; cases c') (simp_all add: clock_mask_def)

end
