(* ===== verification/Io_Operation.thy ===== *)
theory Io_Operation
  imports Prelude
begin

text \<open>
  The operation objects of \<open>kernel/io_operation.h\<close> that a client posts to a device. A record
  extension stands for each derived class. The objects live in a store because their lifetime
  matters: \<open>complete\<close> deletes an operation without a callback. The code behind a callback
  belongs to the client; the model names it by a number and records the call.
\<close>

section \<open>The status of an operation\<close>

datatype status = queued | incomplete | incomplete_ended | successful | failed

text \<open>The order of the enumeration.\<close>

definition status_rank :: "status \<Rightarrow> nat" where
  "status_rank s = (case s of queued \<Rightarrow> 0 | incomplete \<Rightarrow> 1 | incomplete_ended \<Rightarrow> 2
     | successful \<Rightarrow> 3 | failed \<Rightarrow> 4)"

instantiation status :: linorder
begin

definition less_eq_status :: "status \<Rightarrow> status \<Rightarrow> bool" where
  "less_eq_status s t \<longleftrightarrow> status_rank s \<le> status_rank t"

definition less_status :: "status \<Rightarrow> status \<Rightarrow> bool" where
  "less_status s t \<longleftrightarrow> status_rank s < status_rank t"

instance
proof
  fix x y z :: status
  show "x < y \<longleftrightarrow> x \<le> y \<and> \<not> y \<le> x"
    by (auto simp: less_eq_status_def less_status_def)
  show "x \<le> x" by (simp add: less_eq_status_def)
  show "x \<le> y \<Longrightarrow> y \<le> z \<Longrightarrow> x \<le> z" by (simp add: less_eq_status_def)
  show "x \<le> y \<Longrightarrow> y \<le> x \<Longrightarrow> x = y"
    by (cases x; cases y) (simp_all add: less_eq_status_def status_rank_def)
  show "x \<le> y \<or> y \<le> x" by (auto simp: less_eq_status_def)
qed

end

section \<open>Operations\<close>

record io_operation =
  owner :: ptr
  callback :: "nat option"
  stat :: status

record read_operation = io_operation +
  rdestination :: u32
  rsize :: u32
  roffset :: u32
  data_read :: u32

record block_read_operation = io_operation +
  destination :: u32
  blocks_read :: u32
  nblocks :: u32
  baddress :: u32

definition read_operation_new :: "u32 \<Rightarrow> u32 \<Rightarrow> u32 \<Rightarrow> ptr \<Rightarrow> nat option \<Rightarrow> read_operation" where
  "read_operation_new dest n off own cb =
     \<lparr>owner = own, callback = cb, stat = incomplete,
      rdestination = dest, rsize = n, roffset = off, data_read = 0\<rparr>"

definition add_data_read :: "u32 \<Rightarrow> read_operation \<Rightarrow> read_operation" where
  "add_data_read add op = op\<lparr>data_read := data_read op + add\<rparr>"

definition block_read_operation_new ::
    "u32 \<Rightarrow> u32 \<Rightarrow> u32 \<Rightarrow> ptr \<Rightarrow> nat option \<Rightarrow> block_read_operation" where
  "block_read_operation_new dest blks addr own cb =
     \<lparr>owner = own, callback = cb, stat = incomplete,
      destination = dest, blocks_read = 0, nblocks = blks, baddress = addr\<rparr>"

definition add_blocks_read :: "u32 \<Rightarrow> block_read_operation \<Rightarrow> block_read_operation" where
  "add_blocks_read blks op = op\<lparr>blocks_read := blocks_read op + blks\<rparr>"

definition set_status :: "status \<Rightarrow> nat \<Rightarrow> 'a io_operation_scheme store \<Rightarrow> 'a io_operation_scheme store option" where
  "set_status st op s = modify (Some op) (stat_update (\<lambda>_. st)) s"

definition get_status :: "nat \<Rightarrow> 'a io_operation_scheme store \<Rightarrow> status option" where
  "get_status op s = map_option stat (cells s op)"

text \<open>
  \<open>complete\<close>: the new store, and the call of the callback (its name, the operation and the
  status) if there is one.
\<close>

definition complete :: "status \<Rightarrow> nat \<Rightarrow> 'a io_operation_scheme store \<Rightarrow>
    ((nat \<times> nat \<times> status) option \<times> 'a io_operation_scheme store) option" where
  "complete st op s = do {
     s1 \<leftarrow> set_status st op s;
     r \<leftarrow> cells s1 op;
     case callback r of
       Some c \<Rightarrow> Some (Some (c, op, st), s1)
     | None \<Rightarrow> map_option (Pair None) (delete_obj (Some op) s1) }"

lemma set_status_cell:
  "cells s op = Some r \<Longrightarrow> set_status st op s = Some (s\<lparr>cells := (cells s)(op \<mapsto> r\<lparr>stat := st\<rparr>)\<rparr>)"
  by (simp add: set_status_def modify_cell)

lemma complete_callback:
  assumes "cells s op = Some r" and "callback r = Some c"
  shows "complete st op s = Some (Some (c, op, st), s\<lparr>cells := (cells s)(op \<mapsto> r\<lparr>stat := st\<rparr>)\<rparr>)"
  using assms by (simp add: complete_def set_status_cell)

lemma complete_no_callback:
  assumes "cells s op = Some r" and "callback r = None"
  shows "complete st op s = Some (None, s\<lparr>cells := (cells s)(op := None)\<rparr>)"
  using assms by (simp add: complete_def set_status_cell delete_cell)

end
