(* ===== verification/Irq_Handler.thy ===== *)
theory Irq_Handler
  imports Io
begin

text \<open>
  The dispatcher of interrupts (\<open>kernel/irq_handler.cpp\<close>): a table with one handler for each of
  the 96 lines and the registers of the interrupt controller. A handler is a value of any type;
  the code behind it is the argument \<open>call\<close> of the dispatch.
\<close>

unbundle bit_operations_syntax

definition sir_irq :: u32 where "sir_irq = 0x040"
definition threshold_reg :: u32 where "threshold_reg = 0x068"
definition mir_clear_base :: u32 where "mir_clear_base = 0x088"
definition mir_set_base :: u32 where "mir_set_base = 0x08c"
definition ilr_base :: u32 where "ilr_base = 0x100"
definition control_reg :: u32 where "control_reg = 0x48"
definition control_newirqagr :: u32 where "control_newirqagr = push_bit 0 1"
definition protection_reg :: u32 where "protection_reg = 0x04c"
definition protection_enable :: u32 where "protection_enable = push_bit 0 1"

definition number_of_irqs :: nat where "number_of_irqs = 96"
definition priority_mid :: u32 where "priority_mid = 31"
definition default_threshold :: u32 where "default_threshold = 0xff"

record 'h irq_handler =
  intc_base :: u32
  irq_handlers :: "'h option list"

text \<open>The constructor, once the controller is mapped and the page of its stack is too.\<close>

definition irq_handler_new :: "'d hardware \<Rightarrow> u32 \<Rightarrow> 'd bus \<Rightarrow> 'h irq_handler \<times> 'd bus" where
  "irq_handler_new hw base b =
     (\<lparr>intc_base = base, irq_handlers = replicate number_of_irqs None\<rparr>,
      io_write hw protection_enable base protection_reg (io_write hw default_threshold base threshold_reg b))"

text \<open>The table is an array: a number outside it is a fault.\<close>

definition set_handler :: "'h option \<Rightarrow> int \<Rightarrow> 'h irq_handler \<Rightarrow> 'h irq_handler option" where
  "set_handler h number ih =
     (if 0 \<le> number \<and> nat number < length (irq_handlers ih)
      then Some (ih\<lparr>irq_handlers := (irq_handlers ih)[nat number := h]\<rparr>) else None)"

definition register_handler :: "'d hardware \<Rightarrow> 'h \<Rightarrow> int \<Rightarrow> u32 \<Rightarrow> 'h irq_handler \<times> 'd bus \<Rightarrow>
    ('h irq_handler \<times> 'd bus) option" where
  "register_handler hw handler number priority s = do {
     let (ih, b) = s;
     let mir_num = drop_bit 5 (word_of_int number :: u32);
     let bitnum = unat ((word_of_int number :: u32) AND 0x1f);
     ih' \<leftarrow> set_handler (Some handler) number ih;
     let b1 = io_write hw (push_bit 2 priority AND 0xfc) (intc_base ih)
                (ilr_base + push_bit 2 (word_of_int number)) b;
     let b2 = io_write hw (push_bit bitnum 1) (intc_base ih) (mir_clear_base + 0x20 * mir_num) b1;
     Some (ih', b2) }"

definition unregister_handler :: "'d hardware \<Rightarrow> int \<Rightarrow> 'h irq_handler \<times> 'd bus \<Rightarrow>
    ('h irq_handler \<times> 'd bus) option" where
  "unregister_handler hw number s = do {
     let (ih, b) = s;
     let mir_num = drop_bit 5 (word_of_int number :: u32);
     let bitnum = unat ((word_of_int number :: u32) AND 0x1f);
     ih' \<leftarrow> set_handler None number ih;
     Some (ih', io_write hw (push_bit bitnum 1) (intc_base ih) (mir_set_base + 0x20 * mir_num) b) }"

text \<open>The method calls the handler of a line; calling an empty function object is a fault.\<close>

definition handler_of :: "int \<Rightarrow> 'h irq_handler \<Rightarrow> 'h option" where
  "handler_of number ih =
     (if 0 \<le> number \<and> nat number < length (irq_handlers ih) then irq_handlers ih ! nat number else None)"

text \<open>
  The entry from the assembler code: which line interrupts, its handler, and the
  acknowledgement. The state of the handlers is \<open>'s\<close>; it includes the table itself.
\<close>

definition handle_irq :: "'d hardware \<Rightarrow> ('s \<Rightarrow> 'h irq_handler \<times> 'd bus) \<Rightarrow>
    ('h irq_handler \<times> 'd bus \<Rightarrow> 's \<Rightarrow> 's) \<Rightarrow> ('h \<Rightarrow> int \<Rightarrow> 's \<Rightarrow> 's option) \<Rightarrow> 's \<Rightarrow> 's option" where
  "handle_irq hw getr putr call s = do {
     let (ih, b) = getr s;
     let (v, b1) = io_read hw (intc_base ih) sir_irq b;
     let irq_number = uint (v AND 0x7f);
     h \<leftarrow> handler_of irq_number ih;
     s1 \<leftarrow> call h irq_number (putr (ih, b1) s);
     let (ih1, b2) = getr s1;
     Some (putr (ih1, io_write hw control_newirqagr (intc_base ih1) control_reg b2) s1) }"

lemma set_handler_length:
  "set_handler h n ih = Some ih' \<Longrightarrow> length (irq_handlers ih') = length (irq_handlers ih)"
  by (auto simp: set_handler_def split: if_splits)

lemma handler_of_set:
  "set_handler h n ih = Some ih' \<Longrightarrow> handler_of m ih' = (if m = n then h else handler_of m ih)"
  by (auto simp: set_handler_def handler_of_def nth_list_update split: if_splits)

lemma handler_of_register:
  assumes "register_handler hw h n p (ih, b) = Some (ih', b')"
  shows "handler_of m ih' = (if m = n then Some h else handler_of m ih)"
  using assms by (auto simp: register_handler_def Let_def handler_of_set split: Option.bind_splits)

lemma handler_of_unregister:
  assumes "unregister_handler hw n (ih, b) = Some (ih', b')"
  shows "handler_of m ih' = (if m = n then None else handler_of m ih)"
  using assms by (auto simp: unregister_handler_def Let_def handler_of_set split: Option.bind_splits)

end
