(* ===== verification/Partition.thy ===== *)
theory Partition
  imports Kstring
begin

text \<open>
  Partitions of a block device (\<open>kernel/partition.cpp\<close>): the name made from the name of the
  device and the number of the partition, the bounds, and the forwarding of operations to the
  device, which is an argument here. The operations are forwarded as they are.
\<close>

record partition =
  part_name :: kstring
  part_block_size :: u32
  part_start :: u64
  part_end :: u64
  part_type :: u8

definition partname :: "kstring \<Rightarrow> int \<Rightarrow> kstring option" where
  "partname basename partnum = do {
     retval \<leftarrow> kstring_copy basename;
     retval \<leftarrow> kstring_append_c retval (cstr (ascii ''p''));
     if partnum = 0 then kstring_append_c retval (cstr (ascii ''0''))
     else if partnum = 1 then kstring_append_c retval (cstr (ascii ''1''))
     else if partnum = 2 then kstring_append_c retval (cstr (ascii ''2''))
     else if partnum = 3 then kstring_append_c retval (cstr (ascii ''3''))
     else kstring_append_c retval (cstr (ascii ''!'')) }"

definition partition_new :: "kstring \<Rightarrow> u32 \<Rightarrow> u64 \<Rightarrow> u64 \<Rightarrow> u8 \<Rightarrow> int \<Rightarrow> partition option" where
  "partition_new device_name device_block_size start_addr end_addr ty num = do {
     name \<leftarrow> partname device_name num;
     Some \<lparr>part_name = name, part_block_size = device_block_size,
       part_start = start_addr, part_end = end_addr, part_type = ty\<rparr> }"

definition partition_size :: "partition \<Rightarrow> u64" where
  "partition_size p = part_end p - part_start p"

definition partition_post_read :: "('op \<Rightarrow> 's \<Rightarrow> ('op \<times> 's) option) \<Rightarrow> partition \<Rightarrow> 'op \<Rightarrow> 's \<Rightarrow> ('op \<times> 's) option" where
  "partition_post_read device_post_read p op s = device_post_read op s"

definition partition_post_write :: "('op \<Rightarrow> 's \<Rightarrow> ('op \<times> 's) option) \<Rightarrow> partition \<Rightarrow> 'op \<Rightarrow> 's \<Rightarrow> ('op \<times> 's) option" where
  "partition_post_write device_post_write p op s = device_post_write op s"

text \<open>The name of one of the four partitions is the name of the device, a \<open>p\<close> and a digit.\<close>

definition partition_suffix :: "nat \<Rightarrow> bytes" where
  "partition_suffix i = [of_char CHR ''p'', 48 + of_nat i]"

lemma partname_kstr:
  assumes "text_ok base" and "length base + 2 < 2 ^ 31" and "i < 4"
  shows "partname (kstr base) (int i) = Some (kstr (base @ partition_suffix i))"
proof -
  have "text_ok (base @ ascii ''p'')"
    using assms by (auto simp: text_ok_def ascii_def)
  moreover have "text_ok (ascii ''p'')" "text_ok (ascii ''0'')" "text_ok (ascii ''1'')"
    "text_ok (ascii ''2'')" "text_ok (ascii ''3'')"
    by (simp_all add: text_ok_def ascii_def)
  moreover have "i = 0 \<or> i = 1 \<or> i = 2 \<or> i = 3" using assms(3) by linarith
  ultimately show ?thesis
    using assms(1) by (auto simp: partname_def kstr_simps partition_suffix_def ascii_def)
qed

end
