(* ===== verification/Sd.thy ===== *)
theory Sd
  imports Irq_Handler Io_Operation Kqueue Partition
begin

text \<open>
  The SD card driver (\<open>kernel/sd.cpp\<close>, registers from \<open>kernel/hardware/sd.h\<close>): the set-up of
  the controller, the commands sent to the card, the queue of read operations, the interrupt
  handler and the partition table. All register accesses go over the bus of theory Io, so the
  behaviour of controller and card is a parameter. Messages of the driver are not modelled.
  An interrupt is a call of \<open>irq_handler\<close>.
\<close>

unbundle bit_operations_syntax

section \<open>Registers\<close>

datatype sd_register = R_sysconfig | R_sysstatus | R_arg | R_con | R_blk | R_rsp10 | R_rsp32
  | R_rsp54 | R_rsp76 | R_cmd | R_data | R_pstate | R_hctl | R_sysctl | R_stat | R_ie | R_ise
  | R_capa | R_cur_capa

definition reg_offset :: "sd_register \<Rightarrow> u32" where
  "reg_offset r = (case r of R_sysconfig \<Rightarrow> 0x000 | R_sysstatus \<Rightarrow> 0x014 | R_arg \<Rightarrow> 0x108
     | R_con \<Rightarrow> 0x02c | R_blk \<Rightarrow> 0x104 | R_rsp10 \<Rightarrow> 0x110 | R_rsp32 \<Rightarrow> 0x114 | R_rsp54 \<Rightarrow> 0x118
     | R_rsp76 \<Rightarrow> 0x11c | R_cmd \<Rightarrow> 0x10c | R_data \<Rightarrow> 0x120 | R_pstate \<Rightarrow> 0x124 | R_hctl \<Rightarrow> 0x128
     | R_sysctl \<Rightarrow> 0x12c | R_stat \<Rightarrow> 0x130 | R_ie \<Rightarrow> 0x134 | R_ise \<Rightarrow> 0x138 | R_capa \<Rightarrow> 0x140
     | R_cur_capa \<Rightarrow> 0x148)"

text \<open>The bits of the status register; the interrupt enable register has the same layout.\<close>

datatype sd_event = E_cerr | E_deb | E_dcrc | E_dto | E_cie | E_ceb | E_ccrc | E_cto
  | E_brr | E_tc | E_cc

definition event_bit :: "sd_event \<Rightarrow> nat" where
  "event_bit e = (case e of E_cerr \<Rightarrow> 28 | E_deb \<Rightarrow> 22 | E_dcrc \<Rightarrow> 21 | E_dto \<Rightarrow> 20 | E_cie \<Rightarrow> 19
     | E_ceb \<Rightarrow> 18 | E_ccrc \<Rightarrow> 17 | E_cto \<Rightarrow> 16 | E_brr \<Rightarrow> 5 | E_tc \<Rightarrow> 1 | E_cc \<Rightarrow> 0)"

definition event_mask :: "sd_event \<Rightarrow> u32" where
  "event_mask e = push_bit (event_bit e) 1"

definition sysconfig_softreset :: u32 where "sysconfig_softreset = push_bit 1 1"
definition sysstatus_resetdone :: u32 where "sysstatus_resetdone = push_bit 0 1"
definition con_init :: u32 where "con_init = push_bit 1 1"
definition cmd_dp :: u32 where "cmd_dp = push_bit 21 1"
definition cmd_ccce :: u32 where "cmd_ccce = push_bit 19 1"
definition cmd_ddir :: u32 where "cmd_ddir = push_bit 4 1"
definition cmd_rsp_type :: nat where "cmd_rsp_type = 16"
definition cmd_indx :: nat where "cmd_indx = 24"
definition pstate_bre :: u32 where "pstate_bre = push_bit 11 1"
definition hctl_sdbp :: u32 where "hctl_sdbp = push_bit 8 1"
definition hctl_dtw :: u32 where "hctl_dtw = push_bit 1 1"
definition hctl_sdvs :: nat where "hctl_sdvs = 9"
definition sysctl_sra :: u32 where "sysctl_sra = push_bit 24 1"
definition sysctl_cen :: u32 where "sysctl_cen = push_bit 2 1"
definition sysctl_ics :: u32 where "sysctl_ics = push_bit 1 1"
definition sysctl_ice :: u32 where "sysctl_ice = push_bit 0 1"
definition sysctl_clkd :: nat where "sysctl_clkd = 6"
definition capa_vs30 :: u32 where "capa_vs30 = push_bit 25 1"
definition capa_vs18 :: u32 where "capa_vs18 = push_bit 26 1"
definition cur_1v8 :: nat where "cur_1v8 = 16"
definition cur_3v0 :: nat where "cur_3v0 = 8"

section \<open>The driver\<close>

datatype sd_status = card_error | data_timeout_error | data_end_bit_error | data_crc_error
  | command_end_bit_error | command_crc_error | command_index_error | command_timeout
  | command_complete

text \<open>
  The driver object, with the operations it refers to, the memory it reads into, and the
  callbacks it has called.
\<close>

record 'd sd =
  bus :: "'d bus"
  virtual_base :: u32
  rca :: u16
  partitions :: "partition option list"
  active_read :: ptr
  read_attempts :: int
  read_queue :: "nat kqueue"
  operations :: "block_read_operation store"
  memory :: "u32 \<Rightarrow> u8"
  calls :: "(nat \<times> nat \<times> status) list"

definition sd_block_size :: u32 where
  "sd_block_size = 512"

definition reg_read :: "'d hardware \<Rightarrow> sd_register \<Rightarrow> 'd sd \<Rightarrow> u32 \<times> 'd sd" where
  "reg_read hw r s = (let (v, b) = io_read hw (virtual_base s) (reg_offset r) (bus s) in (v, s\<lparr>bus := b\<rparr>))"

definition reg_write :: "'d hardware \<Rightarrow> u32 \<Rightarrow> sd_register \<Rightarrow> 'd sd \<Rightarrow> 'd sd" where
  "reg_write hw v r s = s\<lparr>bus := io_write hw v (virtual_base s) (reg_offset r) (bus s)\<rparr>"

definition reg_or :: "'d hardware \<Rightarrow> u32 \<Rightarrow> sd_register \<Rightarrow> 'd sd \<Rightarrow> 'd sd" where
  "reg_or hw v r s = s\<lparr>bus := or_register hw v (virtual_base s) (reg_offset r) (bus s)\<rparr>"

definition reg_and :: "'d hardware \<Rightarrow> u32 \<Rightarrow> sd_register \<Rightarrow> 'd sd \<Rightarrow> 'd sd" where
  "reg_and hw v r s = s\<lparr>bus := and_register hw v (virtual_base s) (reg_offset r) (bus s)\<rparr>"

definition reg_wait :: "'d hardware \<Rightarrow> u32 \<Rightarrow> sd_register \<Rightarrow> 'd sd \<Rightarrow> 'd sd option" where
  "reg_wait hw v r s =
     map_option (\<lambda>b. s\<lparr>bus := b\<rparr>) (wait_for_bit hw v (virtual_base s) (reg_offset r) (bus s))"

partial_function (option) wait_for_status :: "'d hardware \<Rightarrow> 'd sd \<Rightarrow> (sd_status \<times> 'd sd) option" where
  "wait_for_status hw s =
     (let (status, s') = reg_read hw R_stat s in
      if status AND event_mask E_dcrc \<noteq> 0 then Some (data_crc_error, s')
      else if status AND event_mask E_dto \<noteq> 0 then Some (data_timeout_error, s')
      else if status AND event_mask E_deb \<noteq> 0 then Some (data_end_bit_error, s')
      else if status AND event_mask E_ccrc \<noteq> 0 then Some (command_crc_error, s')
      else if status AND event_mask E_cerr \<noteq> 0 then Some (card_error, s')
      else if status AND event_mask E_cie \<noteq> 0 then Some (command_index_error, s')
      else if status AND event_mask E_cto \<noteq> 0 then Some (command_timeout, s')
      else if status AND event_mask E_cc = 0 then wait_for_status hw s'
      else Some (command_complete, s'))"

definition get_error_message :: "sd_status \<Rightarrow> string" where
  "get_error_message st = (case st of
      card_error \<Rightarrow> ''card error''
    | command_crc_error \<Rightarrow> ''command CRC error''
    | command_index_error \<Rightarrow> ''command index error''
    | command_timeout \<Rightarrow> ''command timeout error''
    | command_complete \<Rightarrow> ''command complete''
    | _ \<Rightarrow> ''unknown error'')"

section \<open>Commands during initialisation\<close>

definition switch_clock_divider :: "'d hardware \<Rightarrow> u16 \<Rightarrow> 'd sd \<Rightarrow> 'd sd option" where
  "switch_clock_divider hw divider s = do {
     let (sysctl_register, s1) = reg_read hw R_sysctl s;
     let v1 = sysctl_register AND NOT (push_bit sysctl_clkd 0x3ff OR sysctl_cen);
     let v2 = v1 OR push_bit sysctl_clkd 240;
     s2 \<leftarrow> reg_wait hw sysctl_ics R_sysctl (reg_write hw v2 R_sysctl s1);
     Some (reg_or hw sysctl_cen R_sysctl s2) }"

definition send_cmd0 :: "'d hardware \<Rightarrow> 'd sd \<Rightarrow> 'd sd option" where
  "send_cmd0 hw s =
     (let s1 = reg_write hw 0xffffffff R_stat s;
          s2 = reg_write hw (event_mask E_cc) R_ie s1;
          s3 = reg_write hw 0 R_arg s2;
          s4 = reg_write hw 0 R_cmd s3
      in reg_wait hw (event_mask E_cc) R_stat s4)"

definition send_cmd2 :: "'d hardware \<Rightarrow> 'd sd \<Rightarrow> (bool \<times> 'd sd) option" where
  "send_cmd2 hw s = do {
     let s1 = reg_write hw 0xffffffff R_stat s;
     let s2 = reg_write hw (event_mask E_cc OR event_mask E_cto OR event_mask E_cerr) R_ie s1;
     let s3 = reg_write hw 0 R_arg s2;
     let s4 = reg_write hw (push_bit cmd_indx 2 OR push_bit cmd_rsp_type 1) R_cmd s3;
     (st, s5) \<leftarrow> wait_for_status hw s4;
     Some (st = command_complete, s5) }"

definition send_cmd3 :: "'d hardware \<Rightarrow> 'd sd \<Rightarrow> (bool \<times> 'd sd) option" where
  "send_cmd3 hw s = do {
     let s1 = reg_write hw 0xffffffff R_stat s;
     let s2 = reg_write hw (event_mask E_cc OR event_mask E_cto) R_ie s1;
     let s3 = reg_write hw 0 R_arg s2;
     let s4 = reg_write hw (push_bit cmd_indx 3 OR push_bit cmd_rsp_type 0x2) R_cmd s3;
     (st, s5) \<leftarrow> wait_for_status hw s4;
     if st \<noteq> command_complete then Some (False, s5)
     else do {
       let (v, s6) = reg_read hw R_rsp10 s5;
       Some (True, s6\<lparr>rca := ucast (drop_bit 16 v)\<rparr>) } }"

definition send_cmd7 :: "'d hardware \<Rightarrow> 'd sd \<Rightarrow> (bool \<times> 'd sd) option" where
  "send_cmd7 hw s = do {
     let s1 = reg_write hw 0xffffffff R_stat s;
     let s2 = reg_write hw (event_mask E_cc OR event_mask E_cto) R_ie s1;
     let s3 = reg_write hw (push_bit 16 (ucast (rca s2))) R_arg s2;
     let s4 = reg_write hw (push_bit cmd_indx 7 OR push_bit cmd_rsp_type 0x3) R_cmd s3;
     (st, s5) \<leftarrow> wait_for_status hw s4;
     Some (st = command_complete, s5) }"

definition send_cmd8 :: "'d hardware \<Rightarrow> 'd sd \<Rightarrow> (bool \<times> 'd sd) option" where
  "send_cmd8 hw s = do {
     let s1 = reg_write hw 0xffffffff R_stat s;
     let s2 = reg_write hw (event_mask E_cc OR event_mask E_cto) R_ie s1;
     let s3 = reg_write hw (push_bit 8 1 OR 0xaa) R_arg s2;
     let s4 = reg_write hw (push_bit cmd_indx 8 OR push_bit cmd_rsp_type 0x2) R_cmd s3;
     (st, s5) \<leftarrow> wait_for_status hw s4;
     if st \<noteq> command_complete then Some (False, s5)
     else do {
       let (reply, s6) = reg_read hw R_rsp10 s5;
       if reply AND 0xaa \<noteq> 0xaa then Some (False, s6)
       else if reply AND push_bit 8 1 = 0 then Some (False, s6)
       else Some (True, s6) } }"

definition send_cmd55 :: "'d hardware \<Rightarrow> 'd sd \<Rightarrow> (bool \<times> 'd sd) option" where
  "send_cmd55 hw s = do {
     let s1 = reg_write hw 0xffffffff R_stat s;
     let s2 = reg_write hw (event_mask E_cc OR event_mask E_cto) R_ie s1;
     let s3 = reg_write hw (push_bit 16 (ucast (rca s2))) R_arg s2;
     let s4 = reg_write hw (push_bit cmd_indx 55 OR push_bit cmd_rsp_type 0x2) R_cmd s3;
     (st, s5) \<leftarrow> wait_for_status hw s4;
     Some (st = command_complete, s5) }"

definition send_acmd6 :: "'d hardware \<Rightarrow> 'd sd \<Rightarrow> (bool \<times> 'd sd) option" where
  "send_acmd6 hw s = do {
     (ok, s0) \<leftarrow> send_cmd55 hw s;
     if \<not> ok then Some (False, s0)
     else do {
       let s1 = reg_write hw 0xffffffff R_stat s0;
       let s2 = reg_write hw (event_mask E_cc OR event_mask E_cto) R_ie s1;
       let s3 = reg_write hw 0x00000002 R_arg s2;
       let s4 = reg_write hw (push_bit cmd_indx 6 OR push_bit cmd_rsp_type 0x2) R_cmd s3;
       (st, s5) \<leftarrow> wait_for_status hw s4;
       Some (st = command_complete, s5) } }"

text \<open>The reply of the card, or -1.\<close>

definition send_acmd41 :: "'d hardware \<Rightarrow> 'd sd \<Rightarrow> (u32 \<times> 'd sd) option" where
  "send_acmd41 hw s = do {
     (ok, s0) \<leftarrow> send_cmd55 hw s;
     if \<not> ok then Some (-1, s0)
     else do {
       let s1 = reg_write hw 0xffffffff R_stat s0;
       let s2 = reg_write hw (event_mask E_cc OR event_mask E_cto) R_ie s1;
       let s3 = reg_write hw (push_bit 30 1 OR push_bit 28 1 OR push_bit 18 1 OR push_bit 17 1) R_arg s2;
       let s4 = reg_write hw (push_bit cmd_indx 41 OR push_bit cmd_rsp_type 0x2) R_cmd s3;
       (st, s5) \<leftarrow> wait_for_status hw s4;
       if st \<noteq> command_complete then Some (-1, s5) else Some (reg_read hw R_rsp10 s5) } }"

section \<open>Reading blocks\<close>

text \<open>The controller takes a block number of 32 bits, although addresses have 64.\<close>

definition send_cmd17 :: "'d hardware \<Rightarrow> u64 \<Rightarrow> 'd sd \<Rightarrow> 'd sd" where
  "send_cmd17 hw addr s =
     (let s1 = reg_write hw (event_mask E_cc OR event_mask E_tc OR event_mask E_cto OR event_mask E_brr OR
             event_mask E_dcrc OR event_mask E_deb OR event_mask E_dto) R_ie s;
          s2 = reg_write hw (ucast addr) R_arg s1
      in reg_write hw (push_bit cmd_indx 17 OR push_bit cmd_rsp_type 0x2 OR cmd_dp OR cmd_ccce OR cmd_ddir)
           R_cmd s2)"

definition initiate_read :: "'d hardware \<Rightarrow> nat \<Rightarrow> 'd sd \<Rightarrow> 'd sd option" where
  "initiate_read hw read_op s = do {
     ops \<leftarrow> set_status incomplete read_op (operations s);
     let s1 = s\<lparr>operations := ops, active_read := Some read_op, read_attempts := 0\<rparr>;
     op \<leftarrow> cells (operations s1) read_op;
     Some (send_cmd17 hw (ucast (baddress op)) s1) }"

definition initiate_next_read :: "'d hardware \<Rightarrow> 'd sd \<Rightarrow> 'd sd option" where
  "initiate_next_read hw s = do {
     (nxt, q) \<leftarrow> pop_front (read_queue s);
     let s1 = s\<lparr>read_queue := q\<rparr>;
     case nxt of None \<Rightarrow> Some s1 | Some op \<Rightarrow> initiate_read hw op s1 }"

definition post_read :: "'d hardware \<Rightarrow> nat \<Rightarrow> 'd sd \<Rightarrow> (nat \<times> 'd sd) option" where
  "post_read hw read_op s = do {
     ops \<leftarrow> set_status queued read_op (operations s);
     q \<leftarrow> push_back read_op (read_queue s);
     let s1 = s\<lparr>operations := ops, read_queue := q\<rparr>;
     s2 \<leftarrow> (if active_read s1 = None then initiate_next_read hw s1 else Some s1);
     Some (read_op, s2) }"

text \<open>Operations complete through the base class, whether they read or write.\<close>

definition complete_read :: "status \<Rightarrow> nat \<Rightarrow> 'd sd \<Rightarrow> 'd sd option" where
  "complete_read st op s = do {
     (c, ops) \<leftarrow> complete st op (operations s);
     Some (s\<lparr>operations := ops, calls := calls s @ (case c of None \<Rightarrow> [] | Some e \<Rightarrow> [e])\<rparr>) }"

definition post_write :: "nat \<Rightarrow> io_operation store \<Rightarrow>
    (nat \<times> (nat \<times> nat \<times> status) option \<times> io_operation store) option" where
  "post_write write_op ops = do { (c, ops') \<leftarrow> complete failed write_op ops; Some (write_op, c, ops') }"

text \<open>A word of the FIFO goes to memory in the byte order of the CPU, the least significant byte first.\<close>

definition store_word :: "u32 \<Rightarrow> u32 \<Rightarrow> (u32 \<Rightarrow> u8) \<Rightarrow> u32 \<Rightarrow> u8" where
  "store_word a v m = m(a := ucast v, a + 1 := ucast (drop_bit 8 v),
     a + 2 := ucast (drop_bit 16 v), a + 3 := ucast (drop_bit 24 v))"

text \<open>
  The loop of the handler that empties the FIFO. The index \<open>i\<close> counts words; the number of
  blocks read so far is multiplied with the block size, in bytes.
\<close>

partial_function (option) read_fifo :: "'d hardware \<Rightarrow> u32 \<Rightarrow> 'd sd \<Rightarrow> 'd sd option" where
  "read_fifo hw i s =
     (let (ps, s1) = reg_read hw R_pstate s in
      if ps AND pstate_bre = 0 then Some s1
      else do {
        op \<leftarrow> deref (operations s1) (active_read s1);
        let (v, s2) = reg_read hw R_data s1;
        let a = destination op + 4 * (i + blocks_read op * sd_block_size);
        read_fifo hw (i + 1) (s2\<lparr>memory := store_word a v (memory s2)\<rparr>) })"

definition sd_irq_handler :: "'d hardware \<Rightarrow> int \<Rightarrow> 'd sd \<Rightarrow> 'd sd option" where
  "sd_irq_handler hw irq s =
     (if irq \<noteq> 83 then Some s
      else if active_read s = None then Some (reg_write hw 0xffffffff R_stat s)
      else do {
        let (status, s1) = reg_read hw R_stat s;
        if status AND event_mask E_brr \<noteq> 0 then do {
          s2 \<leftarrow> read_fifo hw 0 s1;
          ops \<leftarrow> modify (active_read s2) (add_blocks_read 1) (operations s2);
          Some (reg_write hw (event_mask E_brr) R_stat (s2\<lparr>operations := ops\<rparr>)) }
        else if status AND event_mask E_tc \<noteq> 0 then do {
          p \<leftarrow> active_read s1;
          op \<leftarrow> cells (operations s1) p;
          if blocks_read op < nblocks op
          then Some (reg_write hw (event_mask E_tc) R_stat
                 (send_cmd17 hw (ucast (baddress op + blocks_read op)) s1))
          else do {
            s2 \<leftarrow> complete_read successful p s1;
            initiate_next_read hw (reg_write hw (event_mask E_tc) R_stat (s2\<lparr>active_read := None\<rparr>)) } }
        else if status AND event_mask E_cc \<noteq> 0
        then Some (reg_write hw (event_mask E_cc) R_stat s1)
        else Some s1 })"

text \<open>
  A thread that waits for an operation sleeps until the next interrupt; the interrupts that
  change the driver are those of its own line.
\<close>

partial_function (option) wait_for_io :: "'d hardware \<Rightarrow> nat \<Rightarrow> 'd sd \<Rightarrow> 'd sd option" where
  "wait_for_io hw op s = do {
     st \<leftarrow> get_status op (operations s);
     if st = queued \<or> st = incomplete then do {
       s' \<leftarrow> sd_irq_handler hw 83 s;
       wait_for_io hw op s' }
     else Some s }"

text \<open>The two functions of \<open>block_device\<close> that read and wait, for this device.\<close>

definition read_blocks :: "'d hardware \<Rightarrow> u32 \<Rightarrow> u64 \<Rightarrow> u32 \<Rightarrow> 'd sd \<Rightarrow> (bool \<times> 'd sd) option" where
  "read_blocks hw dest addr n s = do {
     let (op, ops) = new_obj (block_read_operation_new dest n (ucast addr) None None) (operations s);
     (_, s1) \<leftarrow> post_read hw op (s\<lparr>operations := ops\<rparr>);
     s2 \<leftarrow> wait_for_io hw op s1;
     ops2 \<leftarrow> delete_obj (Some op) (operations s2);
     Some (False, s2\<lparr>operations := ops2\<rparr>) }"

definition read_block :: "'d hardware \<Rightarrow> u32 \<Rightarrow> u64 \<Rightarrow> 'd sd \<Rightarrow> (bool \<times> 'd sd) option" where
  "read_block hw dest addr s = read_blocks hw dest addr 1 s"

section \<open>The partition table\<close>

text \<open>Type, start and end of an entry; the two words around an address make up its four bytes.\<close>

definition partition_entry :: "u32 \<Rightarrow> (u32 \<Rightarrow> u8) \<Rightarrow> nat \<Rightarrow> u8 \<times> u64 \<times> u64" where
  "partition_entry buf m i =
     (let e = buf + 446 + of_nat i * 16;
          ty = m (e + 4);
          start_address = ucast (drop_bit 16 (load_word (e + 8 - 2) m) OR push_bit 16 (load_word (e + 8 + 2) m));
          end_address = ucast (drop_bit 16 (load_word (e + 12 - 2) m) OR push_bit 16 (load_word (e + 12 + 2) m))
            + start_address
      in (ty, start_address, end_address))"

definition sd_name :: kstring where
  "sd_name = \<lparr>buffer = cstr (ascii ''sd0'')\<rparr>"

primrec make_partitions :: "u32 \<Rightarrow> nat list \<Rightarrow> 'd sd \<Rightarrow> 'd sd option" where
  "make_partitions buf [] s = Some s"
| "make_partitions buf (i # is) s = do {
     let (ty, start_address, end_address) = partition_entry buf (memory s) i;
     s' \<leftarrow> (if ty \<noteq> 0 then do {
              p \<leftarrow> partition_new sd_name sd_block_size start_address end_address ty (int i);
              Some (s\<lparr>partitions := (partitions s)[i := Some p]\<rparr>) }
            else Some s);
     make_partitions buf is s' }"

text \<open>The buffer that the function allocates is the argument \<open>buf\<close>.\<close>

definition read_partition_table :: "'d hardware \<Rightarrow> u32 \<Rightarrow> 'd sd \<Rightarrow> 'd sd option" where
  "read_partition_table hw buf s = do {
     let (mbr_read, ops) = new_obj (block_read_operation_new buf 1 0 None None) (operations s);
     (_, s1) \<leftarrow> post_read hw mbr_read (s\<lparr>operations := ops\<rparr>);
     s2 \<leftarrow> wait_for_io hw mbr_read s1;
     ops2 \<leftarrow> delete_obj (Some mbr_read) (operations s2);
     make_partitions buf [0, 1, 2, 3] (s2\<lparr>operations := ops2\<rparr>) }"

section \<open>Initialisation\<close>

primrec init_stream :: "'d hardware \<Rightarrow> nat \<Rightarrow> 'd sd \<Rightarrow> 'd sd option" where
  "init_stream hw 0 s = Some s"
| "init_stream hw (Suc n) s = do {
     s1 \<leftarrow> reg_wait hw (event_mask E_cc) R_stat (reg_write hw 0 R_cmd s);
     init_stream hw n (reg_write hw 0xffffffff R_stat s1) }"

text \<open>The loop that asks until the card is no longer busy; \<open>False\<close> after an error.\<close>

partial_function (option) acmd41_loop :: "'d hardware \<Rightarrow> 'd sd \<Rightarrow> (bool \<times> 'd sd) option" where
  "acmd41_loop hw s = do {
     (acmd41_result, s1) \<leftarrow> send_acmd41 hw s;
     if acmd41_result = -1 then Some (False, s1)
     else if acmd41_result AND push_bit 31 1 = 0 then acmd41_loop hw s1
     else Some (True, s1) }"

definition identify_card :: "'d hardware \<Rightarrow> 'd sd \<Rightarrow> (bool \<times> 'd sd) option" where
  "identify_card hw s = do {
     s0 \<leftarrow> send_cmd0 hw s;
     (ok8, s1) \<leftarrow> send_cmd8 hw s0;
     if \<not> ok8 then Some (False, s1) else do {
       (ok41, s2) \<leftarrow> acmd41_loop hw s1;
       if \<not> ok41 then Some (False, s2) else do {
         (ok2, s3) \<leftarrow> send_cmd2 hw s2;
         if \<not> ok2 then Some (False, s3) else do {
           (ok3, s4) \<leftarrow> send_cmd3 hw s3;
           if \<not> ok3 then Some (False, s4) else send_cmd7 hw s4 } } } }"

definition initialize_card :: "'d hardware \<Rightarrow> u32 \<Rightarrow> 'd sd \<Rightarrow> 'd sd option" where
  "initialize_card hw buf s = do {
     s1 \<leftarrow> switch_clock_divider hw 0x3ff s;
     let s2 = reg_write hw (event_mask E_cc) R_ie s1;
     let s3 = reg_write hw 0xffffffff R_stat s2;
     s4 \<leftarrow> init_stream hw 3 (reg_or hw con_init R_con s3);
     s5 \<leftarrow> switch_clock_divider hw 240 (reg_and hw (NOT con_init) R_con s4);
     (ok, s6) \<leftarrow> identify_card hw s5;
     if \<not> ok then Some s6 else do {
       (ok6, s7) \<leftarrow> send_acmd6 hw s6;
       let s8 = (if ok6 then reg_or hw hctl_dtw R_hctl s7 else s7);
       let s9 = reg_write hw 0xffffffff R_stat s8;
       let s10 = reg_write hw 0xffffffff R_ise s9;
       read_partition_table hw buf s10 } }"

text \<open>
  The constructor. The addresses where the controller and the clock manager are mapped, the
  handler, the memory and the buffer of the partition table are arguments.
\<close>

definition sd_new :: "'d hardware \<Rightarrow> u32 \<Rightarrow> u32 \<Rightarrow> 'h \<Rightarrow> u32 \<Rightarrow> (u32 \<Rightarrow> u8) \<Rightarrow>
    'h irq_handler \<times> 'd bus \<Rightarrow> ('h irq_handler \<times> 'd sd) option" where
  "sd_new hw base clock_base h buf mem r = do {
     let (ih, b) = r;
     let b1 = enable_interface hw clock_base mmc1 (enable_functional hw clock_base mmc1 b);
     let s0 = \<lparr>bus = b1, virtual_base = base, rca = 0, partitions = replicate 4 None,
       active_read = None, read_attempts = 0, read_queue = kqueue_new,
       operations = empty_store, memory = mem, calls = []\<rparr>;
     s1 \<leftarrow> reg_wait hw sysstatus_resetdone R_sysstatus (reg_write hw sysconfig_softreset R_sysconfig s0);
     s2 \<leftarrow> reg_wait hw sysctl_sra R_sysctl (reg_or hw sysctl_sra R_sysctl s1);
     let s3 = reg_or hw (capa_vs30 OR capa_vs18) R_capa s2;
     let s4 = reg_write hw (push_bit cur_1v8 220 OR push_bit cur_3v0 220) R_cur_capa s3;
     let s5 = reg_write hw (push_bit hctl_sdvs 0x6) R_hctl s4;
     s6 \<leftarrow> reg_wait hw hctl_sdbp R_hctl (reg_or hw hctl_sdbp R_hctl s5);
     let s7 = reg_or hw sysctl_ice R_sysctl s6;
     let s8 = reg_and hw (NOT (push_bit sysctl_clkd 0x3ff OR sysctl_cen)) R_sysctl s7;
     s9 \<leftarrow> reg_wait hw sysctl_ics R_sysctl (reg_or hw (push_bit sysctl_clkd 0x3ff) R_sysctl s8);
     let s10 = reg_or hw sysctl_cen R_sysctl s9;
     let s11 = reg_write hw 0x200 R_blk s10;
     (ih', b2) \<leftarrow> register_handler hw h 83 priority_mid (ih, bus s11);
     s12 \<leftarrow> initialize_card hw buf (s11\<lparr>bus := b2\<rparr>);
     Some (ih', s12) }"

end
