(* ===== verification/Sd_Protocol.thy ===== *)
theory Sd_Protocol
  imports Sd
begin

text \<open>
  What the SD card driver guarantees: the order of the operations, the place of the data, the
  commands of the initialisation and the contents of the partition table.
\<close>

unbundle bit_operations_syntax

section \<open>Register accesses and the rest of the driver\<close>

lemma reg_write_simps [simp]:
  "virtual_base (reg_write hw v r s) = virtual_base s"
  "rca (reg_write hw v r s) = rca s"
  "partitions (reg_write hw v r s) = partitions s"
  "active_read (reg_write hw v r s) = active_read s"
  "read_queue (reg_write hw v r s) = read_queue s"
  "operations (reg_write hw v r s) = operations s"
  "memory (reg_write hw v r s) = memory s"
  "calls (reg_write hw v r s) = calls s"
  by (simp_all add: reg_write_def)

lemma reg_read_simps [simp]:
  "virtual_base (snd (reg_read hw r s)) = virtual_base s"
  "rca (snd (reg_read hw r s)) = rca s"
  "partitions (snd (reg_read hw r s)) = partitions s"
  "active_read (snd (reg_read hw r s)) = active_read s"
  "read_queue (snd (reg_read hw r s)) = read_queue s"
  "operations (snd (reg_read hw r s)) = operations s"
  "memory (snd (reg_read hw r s)) = memory s"
  "calls (snd (reg_read hw r s)) = calls s"
  by (simp_all add: reg_read_def Let_def split: prod.splits)

lemma send_cmd17_simps [simp]:
  "virtual_base (send_cmd17 hw a s) = virtual_base s"
  "active_read (send_cmd17 hw a s) = active_read s"
  "read_queue (send_cmd17 hw a s) = read_queue s"
  "operations (send_cmd17 hw a s) = operations s"
  "memory (send_cmd17 hw a s) = memory s"
  "calls (send_cmd17 hw a s) = calls s"
  by (simp_all add: send_cmd17_def Let_def)

section \<open>The queue of operations\<close>

text \<open>
  The operations that have been posted and not yet completed, in order: the active one, which is
  the only one in progress, and then those in the queue. When no operation is active none waits.
\<close>

definition op_status :: "'d sd \<Rightarrow> nat \<Rightarrow> status option" where
  "op_status s p = map_option stat (cells (operations s) p)"

definition op_data :: "'d sd \<Rightarrow> nat \<Rightarrow> (ptr \<times> nat option \<times> u32 \<times> u32 \<times> u32 \<times> u32) option" where
  "op_data s p = map_option (\<lambda>r. (owner r, callback r, destination r, blocks_read r, nblocks r, baddress r))
     (cells (operations s) p)"

definition pending :: "'d sd \<Rightarrow> nat list \<Rightarrow> bool" where
  "pending s ps \<longleftrightarrow> active_read s = hd_ptr ps None \<and> kq_rep (read_queue s) (tl ps) \<and> distinct ps \<and>
     store_ok (operations s) \<and>
     (\<forall>p \<in> set ps. op_status s p = Some (if active_read s = Some p then incomplete else queued))"

text \<open>Accesses to the bus and to the memory leave the queue alone.\<close>

lemma pending_bus [simp]:
  "op_status (s\<lparr>bus := b\<rparr>) = op_status s" "op_data (s\<lparr>bus := b\<rparr>) = op_data s"
  "op_status (s\<lparr>memory := m\<rparr>) = op_status s" "op_data (s\<lparr>memory := m\<rparr>) = op_data s"
  "pending (s\<lparr>bus := b\<rparr>) ps = pending s ps" "pending (s\<lparr>memory := m\<rparr>) ps = pending s ps"
  by (simp_all add: pending_def op_status_def op_data_def fun_eq_iff)

lemma pending_reg [simp]:
  "op_status (reg_write hw v r s) = op_status s" "op_data (reg_write hw v r s) = op_data s"
  "pending (reg_write hw v r s) ps = pending s ps"
  by (simp_all add: reg_write_def)

lemma pending_cmd17 [simp]:
  "op_status (send_cmd17 hw a s) = op_status s" "op_data (send_cmd17 hw a s) = op_data s"
  "pending (send_cmd17 hw a s) ps = pending s ps"
  by (simp_all add: send_cmd17_def Let_def)

lemma reg_read_bus: "reg_read hw r s = (v, s') \<Longrightarrow> \<exists>b. s' = s\<lparr>bus := b\<rparr>"
  by (auto simp: reg_read_def Let_def split: prod.splits)

lemma initiate_next_read_pending:
  assumes q: "kq_rep (read_queue s) ps" and none: "active_read s = None"
    and d: "distinct ps" and ok: "store_ok (operations s)"
    and st: "\<forall>p \<in> set ps. op_status s p = Some queued"
  shows "\<exists>s'. initiate_next_read hw s = Some s' \<and> pending s' ps \<and> calls s' = calls s \<and>
    memory s' = memory s \<and> virtual_base s' = virtual_base s \<and>
    op_data s' = op_data s \<and> (\<forall>p. p \<notin> set ps \<longrightarrow> op_status s' p = op_status s p)"
proof (cases ps)
  case Nil
  with q obtain q' where "pop_front (read_queue s) = Some (None, q')" "kq_rep q' []"
    using kq.popf_cases [OF q] by auto
  with Nil none ok show ?thesis
    by (simp add: initiate_next_read_def pending_def op_data_def op_status_def fun_eq_iff)
next
  case (Cons p rest)
  with q obtain q' where q': "pop_front (read_queue s) = Some (Some p, q')" "kq_rep q' rest"
    using kq.popf_cases [OF q] by auto
  from st Cons obtain r where r: "cells (operations s) p = Some r" "stat r = queued"
    by (auto simp: op_status_def)
  let ?ops = "(operations s)\<lparr>cells := (cells (operations s))(p \<mapsto> r\<lparr>stat := incomplete\<rparr>)\<rparr>"
  let ?s = "send_cmd17 hw (ucast (baddress r))
    (s\<lparr>read_queue := q', operations := ?ops, active_read := Some p, read_attempts := 0\<rparr>)"
  have "initiate_next_read hw s = Some ?s"
    using q' r by (simp add: initiate_next_read_def initiate_read_def set_status_cell)
  moreover have "pending ?s ps"
    using Cons d ok st r q'(2) by (auto simp: pending_def op_status_def)
  ultimately show ?thesis
    using r Cons by (intro exI [of _ ?s]) (simp add: fun_eq_iff op_data_def op_status_def)
qed

lemma post_read_pending:
  assumes "pending s ps" and "op_data s p = Some d" and "p \<notin> set ps"
  shows "\<exists>s'. post_read hw p s = Some (p, s') \<and> pending s' (ps @ [p]) \<and> calls s' = calls s \<and>
    memory s' = memory s \<and> virtual_base s' = virtual_base s \<and> op_data s' = op_data s \<and>
    (\<forall>q. q \<noteq> p \<and> q \<notin> set ps \<longrightarrow> op_status s' q = op_status s q)"
proof -
  from assms(2) obtain r where r: "cells (operations s) p = Some r"
    by (auto simp: op_data_def)
  obtain q' where q': "push_back p (read_queue s) = Some q'" "kq_rep q' (tl ps @ [p])"
    using assms(1) kq.rep_pushb [of "read_queue s" "tl ps" p] by (auto simp: pending_def)
  let ?ops = "(operations s)\<lparr>cells := (cells (operations s))(p \<mapsto> r\<lparr>stat := queued\<rparr>)\<rparr>"
  let ?s1 = "s\<lparr>operations := ?ops, read_queue := q'\<rparr>"
  have base: "store_ok ?ops" "\<forall>x \<in> set ps. op_status ?s1 x = op_status s x"
    "op_data ?s1 = op_data s" "\<forall>x. x \<noteq> p \<longrightarrow> op_status ?s1 x = op_status s x"
    "op_status ?s1 p = Some queued"
    using assms(1,3) r by (auto simp: pending_def op_status_def op_data_def fun_eq_iff)
  show ?thesis
  proof (cases ps)
    case Nil
    with assms q' base obtain s' where "initiate_next_read hw ?s1 = Some s'" "pending s' [p]"
      "calls s' = calls s" "memory s' = memory s" "virtual_base s' = virtual_base s"
      "op_data s' = op_data s" "\<forall>x. x \<notin> set [p] \<longrightarrow> op_status s' x = op_status ?s1 x"
      using initiate_next_read_pending [of ?s1 "[p]" hw] by (auto simp: pending_def)
    with Nil assms(1) q' base r show ?thesis
      by (intro exI [of _ s']) (simp add: post_read_def set_status_cell pending_def)
  next
    case (Cons a rest)
    with assms q' base have "pending ?s1 (ps @ [p])"
      by (auto simp: pending_def)
    with Cons assms(1) q' r base show ?thesis
      by (intro exI [of _ ?s1]) (simp add: post_read_def set_status_cell pending_def)
  qed
qed

lemma read_fifo_frame:
  assumes "read_fifo hw i s = Some s'"
  shows "\<exists>b m. s' = s\<lparr>bus := b, memory := m\<rparr>"
proof (rule read_fifo.raw_induct [OF _ assms])
  fix f :: "'d hardware \<Rightarrow> u32 \<Rightarrow> 'd sd \<Rightarrow> 'd sd option"
  fix hw :: "'d hardware" and i s s'
  assume IH: "\<And>hw i s s'. f hw i s = Some s' \<Longrightarrow> \<exists>b m. s' = s\<lparr>bus := b, memory := m\<rparr>"
    and step: "(let (ps, s1) = reg_read hw R_pstate s in
      if ps AND pstate_bre = 0 then Some s1
      else do {
        op \<leftarrow> deref (operations s1) (active_read s1);
        let (v, s2) = reg_read hw R_data s1;
        let a = destination op + 4 * (i + blocks_read op * sd_block_size);
        f hw (i + 1) (s2\<lparr>memory := store_word a v (memory s2)\<rparr>) }) = Some s'"
  obtain ps s1 v s2 where r: "reg_read hw R_pstate s = (ps, s1)" "reg_read hw R_data s1 = (v, s2)"
    by (meson surj_pair)
  then obtain b1 b2 where "s1 = s\<lparr>bus := b1\<rparr>" "s2 = s\<lparr>bus := b2\<rparr>"
    using reg_read_bus [OF r(1)] reg_read_bus [OF r(2)] by auto
  with step r IH show "\<exists>b m. s' = s\<lparr>bus := b, memory := m\<rparr>"
    by (cases s) (fastforce split: if_splits Option.bind_splits)
qed

text \<open>The calls of callbacks that the completion of operations makes, given each with its callback.\<close>

definition completions :: "(nat \<times> nat option) list \<Rightarrow> (nat \<times> nat \<times> status) list" where
  "completions ops = concat (map (\<lambda>(p, cb). case cb of None \<Rightarrow> [] | Some c \<Rightarrow> [(c, p, successful)]) ops)"

lemma completions_simps [simp]:
  "completions [] = []" "completions (xs @ ys) = completions xs @ completions ys"
  "completions ((p, None) # xs) = completions xs"
  "completions ((p, Some c) # xs) = (c, p, successful) # completions xs"
  by (simp_all add: completions_def)

lemma complete_pending:
  assumes "pending s (p # ps)" and "cells (operations s) p = Some r"
  shows "\<exists>s1 s'. complete_read successful p s = Some s1 \<and>
    initiate_next_read hw (reg_write hw v reg (s1\<lparr>active_read := None\<rparr>)) = Some s' \<and>
    pending s' ps \<and> memory s' = memory s \<and> virtual_base s' = virtual_base s \<and>
    calls s' = calls s @ (case callback r of None \<Rightarrow> [] | Some c \<Rightarrow> [(c, p, successful)]) \<and>
    op_status s' p = (if callback r = None then None else Some successful) \<and>
    (\<forall>q. q \<noteq> p \<longrightarrow> op_data s' q = op_data s q) \<and>
    (\<forall>q. q \<notin> set (p # ps) \<longrightarrow> op_status s' q = op_status s q)"
proof -
  let ?c = "case callback r of None \<Rightarrow> [] | Some c \<Rightarrow> [(c, p, successful)]"
  obtain ops where ops: "complete successful p (operations s) =
      Some (map_option (\<lambda>c. (c, p, successful)) (callback r), ops)"
    "\<forall>q. q \<noteq> p \<longrightarrow> cells ops q = cells (operations s) q" "store_ok ops"
    "cells ops p = (if callback r = None then None else Some (r\<lparr>stat := successful\<rparr>))"
    using assms complete_callback [OF assms(2)] complete_no_callback [OF assms(2)]
    by (cases "callback r") (auto simp: pending_def)
  let ?s1 = "s\<lparr>operations := ops, calls := calls s @ ?c\<rparr>"
  let ?s2 = "reg_write hw v reg (?s1\<lparr>active_read := None\<rparr>)"
  have c: "complete_read successful p s = Some ?s1"
    using ops(1) by (cases "callback r") (simp_all add: complete_read_def)
  have data: "\<forall>q. q \<noteq> p \<longrightarrow> op_data ?s2 q = op_data s q \<and> op_status ?s2 q = op_status s q"
    using ops(2) by (simp add: op_data_def op_status_def)
  have fin: "op_status ?s2 p = (if callback r = None then None else Some successful)"
    using ops(4) by (simp add: op_status_def)
  have "kq_rep (read_queue ?s2) ps" "active_read ?s2 = None" "distinct ps" "store_ok (operations ?s2)"
    "\<forall>q \<in> set ps. op_status ?s2 q = Some queued" "p \<notin> set ps"
    using assms(1) ops(3) data by (auto simp: pending_def)
  then obtain s' where "initiate_next_read hw ?s2 = Some s'" "pending s' ps" "calls s' = calls ?s2"
    "memory s' = memory ?s2" "virtual_base s' = virtual_base ?s2" "op_data s' = op_data ?s2"
    "\<forall>q. q \<notin> set ps \<longrightarrow> op_status s' q = op_status ?s2 q" "p \<notin> set ps"
    using initiate_next_read_pending [of ?s2 ps hw] by blast
  with c data fin show ?thesis
    by (intro exI [of _ ?s1] exI [of _ s']) simp
qed

definition op_callback :: "'d sd \<Rightarrow> nat \<Rightarrow> nat option option" where
  "op_callback s p = map_option callback (cells (operations s) p)"

lemma op_callback_data: "op_data s' p = op_data s p \<Longrightarrow> op_callback s' p = op_callback s p"
  by (cases "cells (operations s') p"; cases "cells (operations s) p")
    (simp_all add: op_data_def op_callback_def)

lemma op_callback_bus [simp]:
  "op_callback (s\<lparr>bus := b\<rparr>) = op_callback s" "op_callback (s\<lparr>memory := m\<rparr>) = op_callback s"
  "op_callback (reg_write hw v r s) = op_callback s" "op_callback (send_cmd17 hw a s) = op_callback s"
  by (simp_all add: op_callback_def fun_eq_iff)

lemma pending_add_block:
  assumes "pending s (p # ps)"
  shows "\<exists>ops r. cells (operations s) p = Some r \<and> active_read s = Some p \<and>
    modify (active_read s) (add_blocks_read 1) (operations s) = Some ops \<and>
    ops = (operations s)\<lparr>cells := (cells (operations s))(p \<mapsto> add_blocks_read 1 r)\<rparr> \<and>
    pending (s\<lparr>operations := ops\<rparr>) (p # ps) \<and> op_callback (s\<lparr>operations := ops\<rparr>) = op_callback s"
proof -
  from assms obtain r where r: "cells (operations s) p = Some r" "active_read s = Some p"
    by (auto simp: pending_def op_status_def)
  with assms show ?thesis
    by (auto simp: pending_def op_status_def op_callback_def fun_eq_iff add_blocks_read_def modify_cell)
qed

text \<open>An interrupt leaves the pending operations alone or completes the first of them.\<close>

lemma irq_pending:
  assumes "pending s ps" and "sd_irq_handler hw n s = Some s'"
  shows "\<exists>fin qs. fin @ qs = ps \<and> pending s' qs \<and>
    calls s' = calls s @ completions (map (\<lambda>p. (p, the (op_callback s p))) fin) \<and>
    (\<forall>p \<in> set fin. op_callback s p = Some None \<longrightarrow> op_callback s' p = None) \<and>
    (\<forall>q. q \<notin> set fin \<longrightarrow> op_callback s' q = op_callback s q)"
proof (cases "n \<noteq> 83 \<or> active_read s = None")
  case True
  with assms(2) have "s' = s \<or> s' = reg_write hw 0xffffffff R_stat s"
    by (auto simp: sd_irq_handler_def split: if_splits)
  with assms(1) show ?thesis
    by (intro exI [of _ "[]"] exI [of _ ps]) auto
next
  case False
  then obtain p where p: "active_read s = Some p" "n = 83" by auto
  with assms(1) obtain rest where ps: "ps = p # rest" "p \<notin> set rest"
    by (cases ps) (auto simp: pending_def)
  from assms(1) ps obtain r where r: "cells (operations s) p = Some r"
    by (auto simp: pending_def op_status_def)
  obtain status s1 where st: "reg_read hw R_stat s = (status, s1)" by fastforce
  then obtain b where s1: "s1 = s\<lparr>bus := b\<rparr>" using reg_read_bus by blast
  have same: ?thesis if ex: "\<exists>s2. s' = reg_write hw v R_stat s2 \<and> pending s2 ps \<and> calls s2 = calls s \<and>
      op_callback s2 = op_callback s" for v
  proof -
    from ex obtain s2 where s2: "s' = reg_write hw v R_stat s2" "pending s2 ps" "calls s2 = calls s"
      "op_callback s2 = op_callback s" by blast
    then show ?thesis by (intro exI [of _ "[]"] exI [of _ ps]) simp
  qed
  show ?thesis
  proof (cases "status AND event_mask E_brr = 0")
    case False
    with assms(2) st p obtain s2 ops where s2: "read_fifo hw 0 s1 = Some s2"
      "modify (active_read s2) (add_blocks_read 1) (operations s2) = Some ops"
      "s' = reg_write hw (event_mask E_brr) R_stat (s2\<lparr>operations := ops\<rparr>)"
      by (auto simp: sd_irq_handler_def split: Option.bind_splits)
    from read_fifo_frame [OF s2(1)] s1 obtain b' m where "s2 = s\<lparr>bus := b', memory := m\<rparr>" by auto
    with assms(1) have "pending s2 (p # rest)" "calls s2 = calls s" "op_callback s2 = op_callback s"
      by (auto simp: ps)
    moreover from this pending_add_block [of s2 p rest] s2(2)
    have "pending (s2\<lparr>operations := ops\<rparr>) ps" "op_callback (s2\<lparr>operations := ops\<rparr>) = op_callback s2"
      by (auto simp: ps)
    ultimately show ?thesis
      using s2(3) by (intro same [of "event_mask E_brr"] exI [of _ "s2\<lparr>operations := ops\<rparr>"]) simp
  next
    case nobrr: True
    show ?thesis
    proof (cases "status AND event_mask E_tc = 0")
      case True
      with assms(2) st p nobrr have "s' = reg_write hw (event_mask E_cc) R_stat s1 \<or> s' = s1"
        by (auto simp: sd_irq_handler_def split: if_splits)
      then show ?thesis
      proof
        assume "s' = s1"
        with assms(1) s1 show ?thesis by (intro exI [of _ "[]"] exI [of _ ps]) simp
      next
        assume e: "s' = reg_write hw (event_mask E_cc) R_stat s1"
        show ?thesis
          by (rule same [of "event_mask E_cc"]) (use assms(1) s1 e in \<open>auto intro!: exI [of _ s1]\<close>)
      qed
    next
      case tc: False
      show ?thesis
      proof (cases "blocks_read r < nblocks r")
        case True
        with assms(2) st p nobrr tc r s1 have "s' = reg_write hw (event_mask E_tc) R_stat
            (send_cmd17 hw (ucast (baddress r + blocks_read r)) s1)"
          by (simp add: sd_irq_handler_def)
        with assms(1) s1 show ?thesis
          by (intro same [of "event_mask E_tc"]
              exI [of _ "send_cmd17 hw (ucast (baddress r + blocks_read r)) s1"]) simp
      next
        case False
        have "pending s1 (p # rest)" "cells (operations s1) p = Some r"
          using assms(1) ps r s1 by simp_all
        from complete_pending [OF this, of hw "event_mask E_tc" R_stat]
        obtain s2 s3 where c: "complete_read successful p s1 = Some s2"
          "initiate_next_read hw (reg_write hw (event_mask E_tc) R_stat (s2\<lparr>active_read := None\<rparr>)) = Some s3"
          "pending s3 rest" "op_status s3 p = (if callback r = None then None else Some successful)"
          "calls s3 = calls s1 @ (case callback r of None \<Rightarrow> [] | Some c \<Rightarrow> [(c, p, successful)])"
          "\<forall>q. q \<noteq> p \<longrightarrow> op_data s3 q = op_data s1 q"
          by blast
        with assms(2) st p nobrr tc r s1 False have s3: "s' = s3"
          by (simp add: sd_irq_handler_def)
        have cb: "op_callback s p = Some (callback r)" using r by (simp add: op_callback_def)
        have "op_callback s3 p = None" if "callback r = None"
          using c(4) that by (simp add: op_status_def op_callback_def)
        then show ?thesis
          using c(3, 5, 6) cb s1 ps(1) op_callback_data [of s3 _ s1] unfolding s3
          by (intro exI [of _ "[p]"] exI [of _ rest]) (auto split: option.splits)
      qed
    qed
  qed
qed

text \<open>
  An interrupt that does not deliver data never faults; one that does only has to find the end of
  the data in the FIFO.
\<close>

lemma irq_returns:
  assumes "pending s ps" and "reg_read hw R_stat s = (status, s1)"
    and "status AND event_mask E_brr \<noteq> 0 \<Longrightarrow> active_read s \<noteq> None \<Longrightarrow> n = 83 \<Longrightarrow> read_fifo hw 0 s1 \<noteq> None"
  shows "\<exists>s'. sd_irq_handler hw n s = Some s'"
proof (cases "n \<noteq> 83 \<or> active_read s = None")
  case True
  then show ?thesis by (auto simp: sd_irq_handler_def)
next
  case False
  then obtain p where p: "active_read s = Some p" "n = 83" by auto
  with assms(1) obtain rest where ps: "ps = p # rest"
    by (cases ps) (auto simp: pending_def)
  from assms(1) ps obtain r where r: "cells (operations s) p = Some r"
    by (auto simp: pending_def op_status_def)
  from reg_read_bus [OF assms(2)] obtain b where s1: "s1 = s\<lparr>bus := b\<rparr>" by blast
  have pend: "pending s1 (p # rest)" "cells (operations s1) p = Some r"
    using assms(1) ps r s1 by simp_all
  show ?thesis
  proof (cases "status AND event_mask E_brr = 0")
    case False
    with assms(3) p obtain s2 where s2: "read_fifo hw 0 s1 = Some s2" by auto
    from read_fifo_frame [OF s2] obtain b' m where "s2 = s1\<lparr>bus := b', memory := m\<rparr>" by auto
    with pend have "pending s2 (p # rest)" by simp
    from pending_add_block [OF this] obtain ops where
      "modify (active_read s2) (add_blocks_read 1) (operations s2) = Some ops" by blast
    with assms(2) False p s2 show ?thesis
      by (simp add: sd_irq_handler_def)
  next
    case True
    from complete_pending [OF pend, of hw "event_mask E_tc" R_stat] True assms(2) p r s1 show ?thesis
      by (auto simp: sd_irq_handler_def)
  qed
qed

section \<open>Runs of the driver\<close>

text \<open>
  Everything that can happen to the driver: a client makes and posts an operation, any interrupt
  arrives, the card or the controller changes its state, and a client deletes an operation whose
  callback has told it that it ended. The list has the operations posted, with their callbacks.
\<close>

inductive sd_run :: "'d hardware \<Rightarrow> 'd sd \<Rightarrow> (nat \<times> nat option) list \<Rightarrow> 'd sd \<Rightarrow> bool"
  for hw :: "'d hardware" and s0 :: "'d sd" where
  start: "sd_run hw s0 [] s0"
| post: "sd_run hw s0 posted s \<Longrightarrow>
    new_obj (block_read_operation_new dest n addr own cb) (operations s) = (p, ops) \<Longrightarrow>
    post_read hw p (s\<lparr>operations := ops\<rparr>) = Some (q, s') \<Longrightarrow> sd_run hw s0 (posted @ [(p, cb)]) s'"
| irq: "sd_run hw s0 posted s \<Longrightarrow> sd_irq_handler hw n s = Some s' \<Longrightarrow> sd_run hw s0 posted s'"
| device: "sd_run hw s0 posted s \<Longrightarrow> sd_run hw s0 posted (s\<lparr>bus := (bus s)\<lparr>dev := d\<rparr>\<rparr>)"
| release: "sd_run hw s0 posted s \<Longrightarrow> op_status s p = Some successful \<Longrightarrow>
    delete_obj (Some p) (operations s) = Some ops \<Longrightarrow> sd_run hw s0 posted (s\<lparr>operations := ops\<rparr>)"

lemma pending_new:
  assumes "pending s ps" and "new_obj r (operations s) = (p, ops)"
  shows "pending (s\<lparr>operations := ops\<rparr>) ps" and "p \<notin> set ps"
    and "cells ops p = Some r" and "op_status s p = None"
proof -
  have p: "p = fresh (operations s)"
    "ops = (operations s)\<lparr>cells := (cells (operations s))(p \<mapsto> r), fresh := Suc p\<rparr>"
    using assms(2) by (auto simp: new_obj_def)
  have "cells (operations s) p = None"
    using assms(1) p by (simp add: pending_def store_ok_fresh)
  then show notin: "p \<notin> set ps" and "op_status s p = None"
    using assms(1) by (auto simp: pending_def op_status_def)
  show "cells ops p = Some r" using p(2) by simp
  from assms(1) notin show "pending (s\<lparr>operations := ops\<rparr>) ps"
    unfolding p by (auto simp: pending_def op_status_def)
qed

lemma post_new_pending:
  assumes "pending s ps" and "new_obj r (operations s) = (p, ops)"
  shows "\<exists>s'. post_read hw p (s\<lparr>operations := ops\<rparr>) = Some (p, s') \<and> pending s' (ps @ [p]) \<and>
    p \<notin> set ps \<and> calls s' = calls s \<and> memory s' = memory s \<and> virtual_base s' = virtual_base s \<and>
    op_data s' = op_data (s\<lparr>operations := ops\<rparr>)"
proof -
  note n = pending_new [OF assms]
  then obtain d where "op_data (s\<lparr>operations := ops\<rparr>) p = Some d"
    by (simp add: op_data_def)
  from post_read_pending [OF n(1) this n(2), of hw] n(2) show ?thesis by auto
qed

lemma pending_release:
  assumes "pending s ps" and "op_status s p = Some successful"
    and "delete_obj (Some p) (operations s) = Some ops"
  shows "pending (s\<lparr>operations := ops\<rparr>) ps"
proof -
  from assms(2) obtain r where "cells (operations s) p = Some r" by (auto simp: op_status_def)
  moreover have "p \<notin> set ps" using assms(1,2) by (auto simp: pending_def split: if_splits)
  ultimately show ?thesis
    using assms(1,3) by (auto simp: pending_def op_status_def delete_cell)
qed

text \<open>Objects are never made twice at one place: no step takes back what the store has given out.\<close>

lemma send_cmd17_fresh [simp]: "fresh (operations (send_cmd17 hw a s)) = fresh (operations s)"
  by simp

lemma initiate_next_read_fresh:
  "initiate_next_read hw s = Some s' \<Longrightarrow> fresh (operations s') = fresh (operations s)"
  by (auto simp: initiate_next_read_def initiate_read_def set_status_def modify_def Let_def
      split: Option.bind_splits option.splits)

lemma complete_read_fresh:
  "complete_read st p s = Some s' \<Longrightarrow> fresh (operations s') = fresh (operations s)"
  by (auto simp: complete_read_def complete_def set_status_def modify_def delete_obj_def
      split: Option.bind_splits option.splits if_splits)

lemma post_read_fresh:
  "post_read hw p s = Some (q, s') \<Longrightarrow> fresh (operations s') = fresh (operations s)"
  by (auto simp: post_read_def set_status_def modify_def Let_def dest!: initiate_next_read_fresh
      split: Option.bind_splits option.splits if_splits)

lemma sd_irq_fresh:
  assumes "sd_irq_handler hw n s = Some s'"
  shows "fresh (operations s') = fresh (operations s)"
proof -
  obtain status s1 where st: "reg_read hw R_stat s = (status, s1)" by fastforce
  then obtain b where "s1 = s\<lparr>bus := b\<rparr>" using reg_read_bus by blast
  then have same: "operations s1 = operations s" by simp
  have fifo: "operations s2 = operations s" if "read_fifo hw 0 s1 = Some s2" for s2
    using read_fifo_frame [OF that] same by auto
  have mod: "fresh ops = fresh t" if "modify x f t = Some ops" for x f and t ops :: "block_read_operation store"
    using that by (auto simp: modify_def split: Option.bind_splits option.splits)
  show ?thesis
  proof (cases "n \<noteq> 83 \<or> active_read s = None")
    case True
    with assms show ?thesis by (auto simp: sd_irq_handler_def split: if_splits)
  next
    case act: False
    show ?thesis
    proof (cases "status AND event_mask E_brr = 0")
      case False
      with assms st act obtain s2 ops where "read_fifo hw 0 s1 = Some s2"
        "modify (active_read s2) (add_blocks_read 1) (operations s2) = Some ops" "operations s' = ops"
        by (auto simp: sd_irq_handler_def split: Option.bind_splits)
      with fifo mod show ?thesis by fastforce
    next
      case brr: True
      show ?thesis
      proof (cases "status AND event_mask E_tc = 0")
        case True
        with assms st act brr same show ?thesis by (auto simp: sd_irq_handler_def split: if_splits)
      next
        case False
        with assms st act brr same show ?thesis
          by (auto simp: sd_irq_handler_def dest!: initiate_next_read_fresh complete_read_fresh
              split: Option.bind_splits if_splits)
      qed
    qed
  qed
qed

definition sd_served :: "'d sd \<Rightarrow> (nat \<times> nat option) list \<Rightarrow> 'd sd \<Rightarrow> (nat \<times> nat option) list \<Rightarrow> (nat \<times> nat option) list \<Rightarrow> bool" where
  "sd_served s0 posted s don ps \<longleftrightarrow> posted = don @ ps \<and> pending s (map fst ps) \<and>
     calls s = calls s0 @ completions don \<and> (\<forall>x \<in> set ps. op_callback s (fst x) = Some (snd x)) \<and>
     (\<forall>x \<in> set don. snd x = None \<longrightarrow> op_callback s (fst x) = None) \<and> (\<forall>x \<in> set posted. fst x < fresh (operations s))"

lemma served_post:
  assumes "sd_served s0 posted s don ps"
    and "new_obj (block_read_operation_new dest n addr own cb) (operations s) = (p, ops)"
    and "post_read hw p (s\<lparr>operations := ops\<rparr>) = Some (q, s')"
  shows "sd_served s0 (posted @ [(p, cb)]) s' don (ps @ [(p, cb)])"
proof -
  let ?s = "s\<lparr>operations := ops\<rparr>"
  have ps: "pending s (map fst ps)" using assms(1) by (simp add: sd_served_def)
  from post_new_pending [OF ps assms(2), of hw] assms(3) have s': "pending s' (map fst ps @ [p])"
    "calls s' = calls s" "op_data s' = op_data ?s" by auto
  have p: "p = fresh (operations s)" "fresh ops = Suc p"
    "ops = (operations s)\<lparr>cells := (cells (operations s))(p \<mapsto> block_read_operation_new dest n addr own cb), fresh := Suc p\<rparr>"
    using assms(2) by (auto simp: new_obj_def)
  have cb: "op_callback s' x = (if x = p then Some cb else op_callback s x)" for x
    using op_callback_data [of s' x ?s] s'(3) p(3)
    by (simp add: op_callback_def block_read_operation_new_def)
  have "fresh (operations s') = Suc p" using post_read_fresh [OF assms(3)] p(2) by simp
  moreover have "fst x \<noteq> p \<and> fst x < Suc p" if "x \<in> set posted" for x
  proof -
    have "fst x < p" using assms(1) that p(1) unfolding sd_served_def by blast
    then show ?thesis by simp
  qed
  moreover have "posted = don @ ps" using assms(1) by (simp add: sd_served_def)
  ultimately show ?thesis
    using assms(1) s'(1, 2) by (auto simp: sd_served_def cb)
qed

lemma served_irq:
  assumes "sd_served s0 posted s don ps" and "sd_irq_handler hw n s = Some s'"
  shows "\<exists>d qs. sd_served s0 posted s' (don @ d) qs"
proof -
  have ps: "pending s (map fst ps)" using assms(1) by (simp add: sd_served_def)
  from irq_pending [OF this assms(2)] obtain fin qs where f: "fin @ qs = map fst ps" "pending s' qs"
    "calls s' = calls s @ completions (map (\<lambda>p. (p, the (op_callback s p))) fin)"
    "\<forall>p \<in> set fin. op_callback s p = Some None \<longrightarrow> op_callback s' p = None"
    "\<forall>q. q \<notin> set fin \<longrightarrow> op_callback s' q = op_callback s q" by blast
  define k where "k = length fin"
  have "take k (map fst ps) = fin" "drop k (map fst ps) = qs" by (simp_all add: k_def flip: f(1))
  then have fin: "fin = map fst (take k ps)" and qs: "qs = map fst (drop k ps)" by (simp_all add: take_map drop_map)
  have cbs: "op_callback s (fst x) = Some (snd x)" if "x \<in> set ps" for x
    using assms(1) that by (simp add: sd_served_def)
  have "map (\<lambda>p. (p, the (op_callback s p))) fin = map (\<lambda>x. (fst x, the (op_callback s (fst x)))) (take k ps)"
    unfolding fin by simp
  also have "\<dots> = take k ps" by (rule map_idI) (simp add: cbs in_set_takeD [of _ k])
  finally have "calls s' = calls s @ completions (take k ps)" using f(3) by simp
  moreover have "distinct (fin @ qs)" using ps f(1) by (simp add: pending_def)
  then have disj: "set fin \<inter> fst ` set (drop k ps) = {}" unfolding qs by simp
  have "op_callback s' (fst x) = Some (snd x)" if "x \<in> set (drop k ps)" for x
  proof -
    have "fst x \<notin> set fin" using disj that by blast
    with f(5) cbs [OF in_set_dropD [OF that]] show ?thesis by simp
  qed
  moreover have "op_callback s' (fst x) = None" if "x \<in> set (take k ps)" "snd x = None" for x
    using f(4) cbs [OF in_set_takeD [OF that(1)]] that unfolding fin by simp
  moreover have "op_callback s' (fst x) = None" if "x \<in> set don" "snd x = None" for x
  proof -
    have none: "op_callback s (fst x) = None" using assms(1) that by (simp add: sd_served_def)
    have "fst x \<notin> set fin"
    proof
      assume "fst x \<in> set fin"
      then obtain y where "y \<in> set ps" "fst x = fst y" unfolding fin by (auto dest: in_set_takeD)
      with none cbs [of y] show False by simp
    qed
    with f(5) none show ?thesis by simp
  qed
  moreover have "posted = don @ take k ps @ drop k ps" using assms(1) by (simp add: sd_served_def)
  ultimately have "sd_served s0 posted s' (don @ take k ps) (drop k ps)"
    using assms(1) f(2) qs sd_irq_fresh [OF assms(2)] by (auto simp: sd_served_def)
  then show ?thesis by blast
qed

lemma sd_run_served:
  assumes "sd_run hw s0 posted s" and "pending s0 []"
  shows "\<exists>don ps. sd_served s0 posted s don ps"
  using assms
proof (induction rule: sd_run.induct)
  case start
  then have "sd_served s0 [] s0 [] []" by (simp add: sd_served_def)
  then show ?case by blast
next
  case (post posted s dest n addr own cb p ops q s')
  then show ?case using served_post by blast
next
  case (irq posted s n s')
  then show ?case using served_irq by blast
next
  case (device posted s d)
  then show ?case by (auto simp: sd_served_def)
next
  case (release posted s p ops)
  then obtain don ps where v: "sd_served s0 posted s don ps" by blast
  then have ps: "pending s (map fst ps)" by (simp add: sd_served_def)
  have notin: "p \<notin> set (map fst ps)" using ps release.hyps(2) by (auto simp: pending_def split: if_splits)
  obtain r where r: "cells (operations s) p = Some r" using release.hyps(2) by (auto simp: op_status_def)
  then have "ops = (operations s)\<lparr>cells := (cells (operations s))(p := None)\<rparr>"
    using release.hyps(3) by (simp add: delete_cell)
  then have cb: "op_callback (s\<lparr>operations := ops\<rparr>) x = (if x = p then None else op_callback s x)"
    "fresh ops = fresh (operations s)" for x
    by (simp_all add: op_callback_def)
  have "fst x \<noteq> p" if "x \<in> set ps" for x using notin that by auto
  then have "sd_served s0 posted (s\<lparr>operations := ops\<rparr>) don ps"
    using v cb pending_release [OF ps release.hyps(2, 3)] by (simp add: sd_served_def)
  then show ?case by blast
qed

text \<open>
  C5: the driver serves its clients in the order in which they post, and loses nothing. After any
  sequence of posts, interrupts and releases, whatever the controller answers, the operations posted
  are some that are completed followed by some that are pending. For the completed ones exactly the
  calls of their callbacks have been made, in the order of posting, each once and with success; those
  without a callback have been deleted. The first pending operation is the active one and the only one in
  progress, all others are in the queue with their callbacks, and none waits while no operation is active.
  From such a state a new operation can always be posted, and an interrupt that says that the
  transfer of the active operation's last block is complete completes it and starts the next.
\<close>

theorem sd_serves_in_order:
  assumes "pending s0 []" and "sd_run hw s0 posted s"
  shows "\<exists>don ps. posted = don @ ps \<and> calls s = calls s0 @ completions don \<and>
    (\<forall>(p, cb) \<in> set don. cb = None \<longrightarrow> cells (operations s) p = None) \<and>
    active_read s = hd_ptr (map fst ps) None \<and> kq_rep (read_queue s) (tl (map fst ps)) \<and>
    (\<forall>(p, cb) \<in> set ps. \<exists>r. cells (operations s) p = Some r \<and> callback r = cb \<and>
       stat r = (if active_read s = Some p then incomplete else queued)) \<and>
    (\<forall>r p ops. new_obj r (operations s) = (p, ops) \<longrightarrow>
       (\<exists>s'. post_read hw p (s\<lparr>operations := ops\<rparr>) = Some (p, s') \<and> pending s' (map fst ps @ [p]))) \<and>
    (\<forall>p cb rest r. ps = (p, cb) # rest \<and> cells (operations s) p = Some r \<and> nblocks r \<le> blocks_read r \<and>
       fst (reg_read hw R_stat s) AND event_mask E_brr = 0 \<and> fst (reg_read hw R_stat s) AND event_mask E_tc \<noteq> 0 \<longrightarrow>
       (\<exists>s'. sd_irq_handler hw 83 s = Some s' \<and> pending s' (map fst rest) \<and> calls s' = calls s @ completions [(p, cb)]))"
proof -
  from sd_run_served [OF assms(2,1)] obtain don ps where v: "sd_served s0 posted s don ps" by blast
  then have ps: "pending s (map fst ps)" by (simp add: sd_served_def)
  have ops: "\<exists>r. cells (operations s) p = Some r \<and> callback r = cb \<and> stat r = (if active_read s = Some p then incomplete else queued)"
    if "(p, cb) \<in> set ps" for p cb
  proof -
    have "op_callback s p = Some cb" using v that by (force simp: sd_served_def)
    moreover have "op_status s p = Some (if active_read s = Some p then incomplete else queued)"
      using ps that by (force simp: pending_def)
    ultimately show ?thesis by (auto simp: op_callback_def op_status_def)
  qed
  have next_irq: "\<exists>s'. sd_irq_handler hw 83 s = Some s' \<and> pending s' (map fst rest) \<and> calls s' = calls s @ completions [(p, cb)]"
    if h: "ps = (p, cb) # rest" "cells (operations s) p = Some r" "nblocks r \<le> blocks_read r"
      "fst (reg_read hw R_stat s) AND event_mask E_brr = 0" "fst (reg_read hw R_stat s) AND event_mask E_tc \<noteq> 0" for p cb rest r
  proof -
    obtain status s1 where st: "reg_read hw R_stat s = (status, s1)" by fastforce
    then obtain b where s1: "s1 = s\<lparr>bus := b\<rparr>" using reg_read_bus by blast
    have act: "active_read s = Some p" using ps h(1) by (simp add: pending_def)
    have "pending s1 (p # map fst rest)" "cells (operations s1) p = Some r" using ps h(1, 2) s1 by simp_all
    from complete_pending [OF this, of hw "event_mask E_tc" R_stat] obtain s2 s3 where
      "complete_read successful p s1 = Some s2"
      "initiate_next_read hw (reg_write hw (event_mask E_tc) R_stat (s2\<lparr>active_read := None\<rparr>)) = Some s3"
      "pending s3 (map fst rest)" "calls s3 = calls s1 @ (case callback r of None \<Rightarrow> [] | Some c \<Rightarrow> [(c, p, successful)])"
      by blast
    moreover have "callback r = cb" using ops [of p cb] h(1, 2) by simp
    ultimately show ?thesis
      using h st s1 act by (intro exI [of _ s3]) (auto simp: sd_irq_handler_def not_less split: option.splits)
  qed
  have "\<forall>r p os. new_obj r (operations s) = (p, os) \<longrightarrow>
      (\<exists>s'. post_read hw p (s\<lparr>operations := os\<rparr>) = Some (p, s') \<and> pending s' (map fst ps @ [p]))"
    using post_new_pending [OF ps, of _ _ _ hw] by blast
  moreover have "\<forall>(p, cb) \<in> set don. cb = None \<longrightarrow> cells (operations s) p = None"
    using v by (fastforce simp: sd_served_def op_callback_def)
  moreover have "posted = don @ ps" "calls s = calls s0 @ completions don" using v by (simp_all add: sd_served_def)
  moreover have "active_read s = hd_ptr (map fst ps) None" "kq_rep (read_queue s) (tl (map fst ps))"
    using ps by (simp_all add: pending_def)
  moreover have "\<forall>(p, cb) \<in> set ps. \<exists>r. cells (operations s) p = Some r \<and> callback r = cb \<and>
      stat r = (if active_read s = Some p then incomplete else queued)"
    using ops by blast
  moreover have "\<forall>p cb rest r. ps = (p, cb) # rest \<and> cells (operations s) p = Some r \<and> nblocks r \<le> blocks_read r \<and>
       fst (reg_read hw R_stat s) AND event_mask E_brr = 0 \<and> fst (reg_read hw R_stat s) AND event_mask E_tc \<noteq> 0 \<longrightarrow>
       (\<exists>s'. sd_irq_handler hw 83 s = Some s' \<and> pending s' (map fst rest) \<and> calls s' = calls s @ completions [(p, cb)])"
    by (intro allI impI next_irq) (elim conjE, assumption)+
  ultimately show ?thesis
    by (intro exI [of _ don] exI [of _ ps] conjI)
qed

text \<open>A driver at rest, in front of registers that only store what is written to them.\<close>

definition idle_sd :: "'d \<Rightarrow> 'd sd" where
  "idle_sd d = \<lparr>bus = \<lparr>dev = d, trace = []\<rparr>, virtual_base = 0, rca = 0, partitions = replicate 4 None,
     active_read = None, read_attempts = 0, read_queue = kqueue_new, operations = empty_store,
     memory = (\<lambda>_. 0), calls = []\<rparr>"

lemma idle_pending: "pending (idle_sd d) []"
  using kq.rep_init by (simp add: idle_sd_def pending_def)

text \<open>A controller that first says that a block can be read, then, once its state changes, that the transfer is complete.\<close>

definition one_block_card :: "nat hardware" where
  "one_block_card = \<lparr>hw_read = (\<lambda>a d. (if a = reg_offset R_stat
       then (if d = 0 then event_mask E_brr else event_mask E_tc) else 0, d)), hw_write = (\<lambda>a v d. d)\<rparr>"

lemma one_block_card_reads:
  "virtual_base s = 0 \<Longrightarrow> reg_read one_block_card R_stat s =
    ((if dev (bus s) = 0 then event_mask E_brr else event_mask E_tc), snd (reg_read one_block_card R_stat s))"
  "virtual_base s = 0 \<Longrightarrow> reg_read one_block_card R_pstate s = (0, snd (reg_read one_block_card R_pstate s))"
  by (simp_all add: reg_read_def io_read_def one_block_card_def reg_offset_def)

lemma sd_serves_in_order_witness:
  "\<exists>s s'. sd_run one_block_card (idle_sd 0) [(0, Some 7)] s \<and> sd_irq_handler one_block_card 83 s = Some s' \<and>
     calls s' = [(7, 0, successful)] \<and> pending s' []"
proof -
  let ?hw = one_block_card and ?r = "block_read_operation_new 0x1000 1 0 None (Some 7)" and ?s = "idle_sd 0 :: nat sd"
  obtain ops where ops: "new_obj ?r (operations ?s) = (0, ops)" "cells ops 0 = Some ?r"
    by (simp add: idle_sd_def new_obj_def empty_store_def)
  from post_new_pending [OF idle_pending ops(1), of ?hw] obtain s1 where
    1: "post_read ?hw 0 (?s\<lparr>operations := ops\<rparr>) = Some (0, s1)" "pending s1 [0]" "virtual_base s1 = 0"
      "op_data s1 = op_data (?s\<lparr>operations := ops\<rparr>)" by (auto simp: idle_sd_def)
  define s2 where "s2 = s1\<lparr>bus := (bus s1)\<lparr>dev := 0\<rparr>\<rparr>"
  have run2: "sd_run ?hw ?s [(0, Some 7)] s2"
    unfolding s2_def using sd_run.device [OF sd_run.post [OF sd_run.start ops(1) 1(1)]] by simp
  have s2: "pending s2 [0]" "virtual_base s2 = 0" "dev (bus s2) = 0" using 1(2, 3) by (simp_all add: s2_def)
  define s3 where "s3 = snd (reg_read ?hw R_pstate (snd (reg_read ?hw R_stat s2)))"
  obtain b where s3: "s3 = s2\<lparr>bus := b\<rparr>"
    using reg_read_bus [of ?hw R_stat s2] reg_read_bus [of ?hw R_pstate "snd (reg_read ?hw R_stat s2)"]
    by (metis s3_def prod.collapse sd.update_convs(1) sd.surjective sd.select_convs(1))
  have "pending s3 (0 # [])" using s2(1) s3 by simp
  from pending_add_block [OF this] obtain ops3 r where r: "cells (operations s3) 0 = Some r" "active_read s3 = Some 0"
    "modify (active_read s3) (add_blocks_read 1) (operations s3) = Some ops3"
    "ops3 = (operations s3)\<lparr>cells := (cells (operations s3))(0 \<mapsto> add_blocks_read 1 r)\<rparr>" by blast
  have "op_data s3 0 = op_data (?s\<lparr>operations := ops\<rparr>) 0" using 1(4) s3 by (simp add: s2_def)
  then have "blocks_read r = 0 \<and> nblocks r = 1 \<and> callback r = Some 7"
    using r(1) ops(2) by (simp add: op_data_def block_read_operation_new_def)
  then have done_r: "nblocks (add_blocks_read 1 r) \<le> blocks_read (add_blocks_read 1 r)" by (simp add: add_blocks_read_def)
  have act: "active_read s2 = Some 0" using r(2) s3 by simp
  define s4 where "s4 = reg_write ?hw (event_mask E_brr) R_stat (s3\<lparr>operations := ops3\<rparr>)"
  have brr: "event_mask E_brr AND event_mask E_brr \<noteq> 0" "event_mask E_tc AND event_mask E_brr = 0"
    "event_mask E_tc AND event_mask E_tc \<noteq> 0" by (simp_all add: event_mask_def event_bit_def)
  have fifo: "read_fifo ?hw 0 (snd (reg_read ?hw R_stat s2)) = Some s3"
  proof -
    obtain t where t: "reg_read ?hw R_pstate (snd (reg_read ?hw R_stat s2)) = (0, t)"
      using one_block_card_reads(2) [of "snd (reg_read ?hw R_stat s2)"] s2(2) by (metis reg_read_simps(1))
    then show ?thesis by (subst read_fifo.simps) (simp add: s3_def)
  qed
  have "sd_irq_handler ?hw 83 s2 = Some s4"
  proof -
    obtain t where "reg_read ?hw R_stat s2 = (event_mask E_brr, t)"
      using one_block_card_reads(1) [OF s2(2)] s2(3) by metis
    then show ?thesis using act brr(1) fifo r(3) by (simp add: sd_irq_handler_def s4_def)
  qed
  define s5 where "s5 = s4\<lparr>bus := (bus s4)\<lparr>dev := 1\<rparr>\<rparr>"
  have run5: "sd_run ?hw ?s [(0, Some 7)] s5"
    unfolding s5_def using sd_run.device [OF sd_run.irq [OF run2 \<open>sd_irq_handler ?hw 83 s2 = Some s4\<close>]] .
  have s5: "active_read s5 = Some 0" "cells (operations s5) 0 = Some (add_blocks_read 1 r)" "virtual_base s5 = 0" "dev (bus s5) = 1"
    using r(2, 4) s2(2) s3 by (simp_all add: s5_def s4_def)
  have st: "fst (reg_read ?hw R_stat s5) = event_mask E_tc" using one_block_card_reads(1) [OF s5(3)] s5(4) by (metis fst_conv zero_neq_one)
  from sd_serves_in_order [OF idle_pending run5] obtain don ps where
    2: "[(0, Some 7)] = don @ ps" "calls s5 = calls ?s @ completions don" "active_read s5 = hd_ptr (map fst ps) None"
      "\<forall>p cb rest r. ps = (p, cb) # rest \<and> cells (operations s5) p = Some r \<and> nblocks r \<le> blocks_read r \<and>
       fst (reg_read ?hw R_stat s5) AND event_mask E_brr = 0 \<and> fst (reg_read ?hw R_stat s5) AND event_mask E_tc \<noteq> 0 \<longrightarrow>
       (\<exists>s'. sd_irq_handler ?hw 83 s5 = Some s' \<and> pending s' (map fst rest) \<and> calls s' = calls s5 @ completions [(p, cb)])"
    by blast
  have "ps \<noteq> []" using 2(3) s5(1) by auto
  with 2(1) have "don = []" "ps = [(0, Some 7)]" by (cases don; simp)+
  with 2(2, 4) s5(2) done_r st brr(2, 3) obtain s6 where
    "sd_irq_handler ?hw 83 s5 = Some s6" "pending s6 []" "calls s6 = calls ?s @ completions [(0, Some 7)]" by fastforce
  moreover have "calls ?s = []" by (simp add: idle_sd_def)
  ultimately show ?thesis using run5 by (intro exI [of _ s5] exI [of _ s6]) simp
qed

end
