(* ===== verification/Sd_Data.thy ===== *)
theory Sd_Data
  imports Sd_Protocol
begin

text \<open>
  The data of the SD card driver: the words that the interrupt handler takes from the FIFO of the
  controller and where they go, the functions that read and wait, and the partition table that is
  decoded from the first block of the card.
\<close>

unbundle bit_operations_syntax

section \<open>Words in memory\<close>

definition word_byte :: "u32 \<Rightarrow> nat \<Rightarrow> u8" where
  "word_byte v j = ucast (drop_bit (8 * j) v)"

primrec store_words :: "u32 \<Rightarrow> u32 list \<Rightarrow> (u32 \<Rightarrow> u8) \<Rightarrow> u32 \<Rightarrow> u8" where
  "store_words a [] m = m"
| "store_words a (w # ws) m = store_words (a + 4) ws (store_word a w m)"

lemma load_word_bytes:
  assumes "\<And>j. j < 4 \<Longrightarrow> m (a + of_nat j) = word_byte v j"
  shows "load_word a m = v"
proof -
  have b: "m a = word_byte v 0" "m (a + 1) = word_byte v 1" "m (a + 2) = word_byte v 2"
    "m (a + 3) = word_byte v 3"
    using assms [of 0] assms [of 1] assms [of 2] assms [of 3] by simp_all
  have "bit (load_word a m) n = bit v n" if "n < 32" for n
    using that unfolding load_word_def b word_byte_def
    by (cases "n < 16"; cases "n < 24") (auto simp: bit_simps)
  then show ?thesis by (intro bit_word_eqI) simp
qed

lemma word_less_4: "unat (d :: u32) < 4 \<longleftrightarrow> d = 0 \<or> d = 1 \<or> d = 2 \<or> d = 3"
proof
  assume "unat d < 4"
  then have "unat d = 0 \<or> unat d = 1 \<or> unat d = 2 \<or> unat d = 3" by linarith
  then show "d = 0 \<or> d = 1 \<or> d = 2 \<or> d = 3"
    by (elim disjE; simp add: word_unat_eq_iff)
qed auto

lemma store_word_at:
  "store_word a v m x = (if unat (x - a) < 4 then word_byte v (unat (x - a)) else m x)"
proof -
  define d where "d = x - a"
  then have x: "x = a + d" by simp
  show ?thesis
    unfolding x word_less_4 by (auto simp: store_word_def word_byte_def word_less_4)
qed

lemma store_words_at:
  assumes "4 * length ws \<le> 2 ^ 32"
  shows "store_words a ws m x =
    (let k = unat (x - a) in if k < 4 * length ws then word_byte (ws ! (k div 4)) (k mod 4) else m x)"
  using assms
proof (induction ws arbitrary: a m)
  case Nil
  then show ?case by simp
next
  case (Cons w ws)
  define d where "d = x - a"
  have k': "x - (a + 4) = d - 4" by (simp add: d_def)
  have IH: "store_words a (w # ws) m x = (let k = unat (d - 4) in
      if k < 4 * length ws then word_byte (ws ! (k div 4)) (k mod 4) else store_word a w m x)"
    using Cons by (simp add: k')
  show ?case
  proof (cases "unat d < 4")
    case True
    then have "\<not> unat (d - 4) < 4 * length ws"
    proof -
      from True have "unat (d - 4) + 4 = 2 ^ 32 + unat d"
        unfolding word_less_4 by (elim disjE; simp add: unsigned_minus_1_eq_mask mask_eq_exp_minus_1)
      with Cons.prems show ?thesis by simp
    qed
    with IH True show ?thesis by (simp add: store_word_at flip: d_def)
  next
    case False
    then have "unat (d - 4) = unat d - 4"
      by (simp add: unat_sub word_le_nat_alt)
    moreover obtain j where "unat d = 4 + j" using False by (metis le_add_diff_inverse not_less)
    moreover have "(4 + j) div 4 = Suc (j div 4)" by simp
    ultimately show ?thesis
      using IH False by (simp add: store_word_at flip: d_def)
  qed
qed

lemma load_stored_word:
  assumes "4 * length ws \<le> 2 ^ 32" and "j < length ws"
  shows "load_word (a + 4 * of_nat j) (store_words a ws m) = ws ! j"
proof (rule load_word_bytes)
  fix i :: nat assume i: "i < 4"
  have e: "a + 4 * of_nat j + of_nat i - a = (of_nat (4 * j + i) :: u32)" by simp
  have "unat (of_nat (4 * j + i) :: u32) = 4 * j + i"
    by (rule unat_word_of_nat_small) (use assms i in simp)
  with e assms i show "store_words a ws m (a + 4 * of_nat j + of_nat i) = word_byte (ws ! j) i"
    by (simp add: store_words_at del: of_nat_add of_nat_mult)
qed

section \<open>The data of a block\<close>

text \<open>
  The words that the controller hands out: it is asked for at most \<open>n\<close> words, and each time
  its state register says before whether there is one.
\<close>

primrec fifo_words :: "'d hardware \<Rightarrow> u32 \<Rightarrow> nat \<Rightarrow> 'd \<Rightarrow> u32 list option" where
  "fifo_words hw base 0 d = None"
| "fifo_words hw base (Suc n) d =
     (let (ps, d1) = hw_read hw (base + reg_offset R_pstate) d in
      if ps AND pstate_bre = 0 then Some []
      else let (v, d2) = hw_read hw (base + reg_offset R_data) d1 in
        map_option (Cons v) (fifo_words hw base n d2))"

lemma reg_read_dev:
  "reg_read hw r s = (v, s') \<longleftrightarrow>
     (\<exists>d. hw_read hw (virtual_base s + reg_offset r) (dev (bus s)) = (v, d) \<and>
       s' = s\<lparr>bus := \<lparr>dev = d, trace = trace (bus s) @ [Read (virtual_base s + reg_offset r) v]\<rparr>\<rparr>)"
  by (cases "hw_read hw (virtual_base s + reg_offset r) (dev (bus s))")
    (auto simp: reg_read_def io_read_def)

lemma read_fifo_words:
  assumes "fifo_words hw (virtual_base s) n (dev (bus s)) = Some ws"
    and "active_read s = Some p" and "cells (operations s) p = Some op"
  shows "\<exists>b. read_fifo hw i s = Some (s\<lparr>bus := b, memory :=
    store_words (destination op + 4 * (i + blocks_read op * sd_block_size)) ws (memory s)\<rparr>)"
  using assms
proof (induction n arbitrary: s ws i)
  case 0
  then show ?case by simp
next
  case (Suc n)
  let ?a = "destination op + 4 * (i + blocks_read op * sd_block_size)"
  obtain ps d1 where r1: "hw_read hw (virtual_base s + reg_offset R_pstate) (dev (bus s)) = (ps, d1)"
    by fastforce
  then obtain s1 where s1: "reg_read hw R_pstate s = (ps, s1)" "dev (bus s1) = d1"
    "\<exists>b. s1 = s\<lparr>bus := b\<rparr>"
    by (simp add: reg_read_dev) (metis bus.select_convs(1) sd.select_convs(1) sd.surjective sd.update_convs(1))
  show ?case
  proof (cases "ps AND pstate_bre = 0")
    case True
    with Suc.prems r1 s1 show ?thesis by (subst read_fifo.simps) auto
  next
    case False
    obtain v d2 where r2: "hw_read hw (virtual_base s + reg_offset R_data) d1 = (v, d2)" by fastforce
    then have "hw_read hw (virtual_base s1 + reg_offset R_data) (dev (bus s1)) = (v, d2)"
      using s1 by auto
    then obtain s2 where s2: "reg_read hw R_data s1 = (v, s2)" "dev (bus s2) = d2"
      "\<exists>b. s2 = s1\<lparr>bus := b\<rparr>"
      by (simp add: reg_read_dev) (metis bus.select_convs(1) sd.select_convs(1) sd.surjective sd.update_convs(1))
    from False r1 r2 Suc.prems(1) obtain vs where vs: "ws = v # vs"
      "fifo_words hw (virtual_base s) n d2 = Some vs" by auto
    let ?s = "s2\<lparr>memory := store_word ?a v (memory s2)\<rparr>"
    have "fifo_words hw (virtual_base ?s) n (dev (bus ?s)) = Some vs"
      "active_read ?s = Some p" "cells (operations ?s) p = Some op"
      using vs s1 s2 Suc.prems by auto
    from Suc.IH [OF this, of "i + 1"] obtain b where "read_fifo hw (i + 1) ?s = Some (?s\<lparr>bus := b, memory :=
        store_words (destination op + 4 * (i + 1 + blocks_read op * sd_block_size)) vs (memory ?s)\<rparr>)"
      by blast
    moreover have e: "destination op + 4 * (i + 1 + blocks_read op * sd_block_size) = ?a + 4"
      by (simp add: algebra_simps)
    ultimately have "read_fifo hw (i + 1) ?s = Some (?s\<lparr>bus := b, memory := store_words (?a + 4) vs (memory ?s)\<rparr>)"
      by (simp only: e)
    moreover have "read_fifo hw i s = read_fifo hw (i + 1) ?s"
      using False s1 s2 Suc.prems by (subst read_fifo.simps) auto
    ultimately show ?thesis
      using s1 s2 vs(1) by (intro exI [of _ b]) auto
  qed
qed

text \<open>
  C20: what a data interrupt does to memory. If the controller signals data and hands out the
  words \<open>ws\<close>, the handler returns and the words are in memory in their order, from the
  destination on for the first block and 2048 bytes further on for every block read before (the
  code counts words in steps of the block size in bytes, although a block has 512 bytes); all other
  memory is unchanged, and the operation has read one block more.
\<close>

theorem sd_block_data:
  assumes "pending s (p # ps)" and "cells (operations s) p = Some op"
    and "hw_read hw (virtual_base s + reg_offset R_stat) (dev (bus s)) = (status, d)"
    and "status AND event_mask E_brr \<noteq> 0"
    and "fifo_words hw (virtual_base s) n d = Some ws" and "4 * length ws \<le> 2 ^ 32"
  shows "\<exists>s'. sd_irq_handler hw 83 s = Some s' \<and> pending s' (p # ps) \<and>
    cells (operations s') p = Some (op\<lparr>blocks_read := blocks_read op + 1\<rparr>) \<and>
    (\<forall>j < length ws. load_word (destination op + 2048 * blocks_read op + 4 * of_nat j) (memory s') = ws ! j) \<and>
    (\<forall>x. 4 * length ws \<le> unat (x - (destination op + 2048 * blocks_read op)) \<longrightarrow> memory s' x = memory s x)"
proof -
  let ?a = "destination op + 2048 * blocks_read op"
  have p: "active_read s = Some p" using assms(1) by (simp add: pending_def)
  obtain s1 b1 where s1: "reg_read hw R_stat s = (status, s1)" "s1 = s\<lparr>bus := b1\<rparr>" "dev b1 = d"
    using assms(3) by (simp add: reg_read_dev)
  have "fifo_words hw (virtual_base s1) n (dev (bus s1)) = Some ws" "active_read s1 = Some p"
    "cells (operations s1) p = Some op"
    using assms s1 p by simp_all
  from read_fifo_words [OF this, of 0] obtain b2 where
    f: "read_fifo hw 0 s1 = Some (s1\<lparr>bus := b2, memory := store_words ?a ws (memory s)\<rparr>)"
    using s1(2) by (auto simp: sd_block_size_def mult.commute)
  let ?s2 = "s1\<lparr>bus := b2, memory := store_words ?a ws (memory s)\<rparr>"
  have "pending ?s2 (p # ps)" using assms(1) s1(2) by simp
  from pending_add_block [OF this] obtain ops where ops:
    "modify (active_read ?s2) (add_blocks_read 1) (operations ?s2) = Some ops"
    "ops = (operations s)\<lparr>cells := (cells (operations s))(p \<mapsto> add_blocks_read 1 op)\<rparr>"
    "pending (?s2\<lparr>operations := ops\<rparr>) (p # ps)"
    using assms(2) s1(2) by auto
  let ?s3 = "reg_write hw (event_mask E_brr) R_stat (?s2\<lparr>operations := ops\<rparr>)"
  have "sd_irq_handler hw 83 s = Some ?s3"
    using p s1(1) assms(4) f ops(1) by (simp add: sd_irq_handler_def)
  moreover have "\<forall>j < length ws. load_word (?a + 4 * of_nat j) (memory ?s3) = ws ! j"
    using load_stored_word [OF assms(6)] by simp
  moreover have "\<forall>x. 4 * length ws \<le> unat (x - ?a) \<longrightarrow> memory ?s3 x = memory s x"
    using assms(6) by (simp add: store_words_at)
  ultimately show ?thesis
    using ops by (intro exI [of _ ?s3]) (simp add: add_blocks_read_def)
qed

text \<open>A controller with two words in its FIFO, whose state is the list of the words left.\<close>

definition two_word_card :: "u32 list hardware" where
  "two_word_card = \<lparr>hw_read = (\<lambda>a ws. if a = reg_offset R_stat then (event_mask E_brr, ws)
       else if a = reg_offset R_pstate then (if ws = [] then 0 else pstate_bre, ws)
       else (case ws of [] \<Rightarrow> (0, []) | w # vs \<Rightarrow> (w, vs))), hw_write = (\<lambda>a v ws. ws)\<rparr>"

definition reading_sd :: "u32 list sd" where
  "reading_sd = (idle_sd [0xbabe, 0xcafe])\<lparr>active_read := Some 0,
     operations := snd (new_obj (block_read_operation_new 0x1000 2 0 None None) empty_store)\<rparr>"

lemma reading_pending: "pending reading_sd [0]"
  using kq.rep_init
  by (auto simp: pending_def reading_sd_def idle_sd_def op_status_def new_obj_def
      block_read_operation_new_def empty_store_def store_ok_def)

lemma sd_block_data_witness:
  "\<exists>s'. sd_irq_handler two_word_card 83 reading_sd = Some s' \<and> load_word 0x1004 (memory s') = 0xcafe"
proof -
  let ?op = "block_read_operation_new 0x1000 2 0 None None"
  have "cells (operations reading_sd) 0 = Some ?op" and base: "virtual_base reading_sd = 0"
    and st: "hw_read two_word_card (0 + reg_offset R_stat) (dev (bus reading_sd)) = (event_mask E_brr, [0xbabe, 0xcafe])"
    by (simp_all add: reading_sd_def idle_sd_def new_obj_def empty_store_def two_word_card_def)
  moreover have "event_mask E_brr AND event_mask E_brr \<noteq> 0"
    by (simp add: event_mask_def event_bit_def)
  moreover have "fifo_words two_word_card 0 3 [0xbabe, 0xcafe] = Some [0xbabe, 0xcafe]"
    by (simp add: two_word_card_def reg_offset_def pstate_bre_def numeral_3_eq_3)
  ultimately obtain s' where "sd_irq_handler two_word_card 83 reading_sd = Some s'"
    "\<forall>j < length [0xbabe, 0xcafe :: u32]. load_word (destination ?op + 2048 * blocks_read ?op + 4 * of_nat j)
       (memory s') = [0xbabe, 0xcafe] ! j"
    using sd_block_data [OF reading_pending, of ?op two_word_card "event_mask E_brr" "[0xbabe, 0xcafe]" 3
        "[0xbabe, 0xcafe]"] by auto
  then show ?thesis
    by (auto simp: block_read_operation_new_def dest: spec [of _ 1])
qed

section \<open>Reading and waiting\<close>

text \<open>
  A wait can only return for an operation that still exists, and an operation without a callback
  exists only while it is pending.
\<close>

lemma wait_for_io_faults:
  assumes "wait_for_io hw op s = Some s'"
  shows "op_status s op \<noteq> None \<and>
    (\<forall>ps. pending s ps \<longrightarrow> op \<in> set ps \<longrightarrow> op_callback s op \<noteq> Some None)"
proof (rule wait_for_io.raw_induct [OF _ assms])
  fix f :: "'d hardware \<Rightarrow> nat \<Rightarrow> 'd sd \<Rightarrow> 'd sd option"
  fix hw :: "'d hardware" and op s s'
  assume IH: "\<And>hw op s s'. f hw op s = Some s' \<Longrightarrow> op_status s op \<noteq> None \<and>
      (\<forall>ps. pending s ps \<longrightarrow> op \<in> set ps \<longrightarrow> op_callback s op \<noteq> Some None)"
    and step: "do { st \<leftarrow> get_status op (operations s);
      if st = queued \<or> st = incomplete then do {
        s' \<leftarrow> sd_irq_handler hw 83 s;
        f hw op s' }
      else Some s } = Some s'"
  have st: "op_status s op \<noteq> None"
    using step by (auto simp: op_status_def get_status_def split: Option.bind_splits)
  moreover have False if ps: "pending s ps" "op \<in> set ps" "op_callback s op = Some None" for ps
  proof -
    from ps(1,2) have "op_status s op = Some queued \<or> op_status s op = Some incomplete"
      by (auto simp: pending_def split: if_splits)
    then have "get_status op (operations s) = Some queued \<or> get_status op (operations s) = Some incomplete"
      by (simp add: op_status_def get_status_def)
    with step obtain s1 where s1: "sd_irq_handler hw 83 s = Some s1" "f hw op s1 = Some s'"
      by (auto split: Option.bind_splits)
    from irq_pending [OF ps(1) s1(1)] obtain fin qs where qs: "fin @ qs = ps" "pending s1 qs"
      and fin: "\<forall>p \<in> set fin. op_callback s p = Some None \<longrightarrow> op_callback s1 p = None"
      and cb: "\<forall>q. q \<notin> set fin \<longrightarrow> op_callback s1 q = op_callback s q"
      by blast
    show False
    proof (cases "op \<in> set fin")
      case True
      with fin ps(3) have "op_status s1 op = None" by (auto simp: op_callback_def op_status_def)
      with IH [OF s1(2)] show False by simp
    next
      case False
      with qs ps(2) have "op \<in> set qs" by auto
      with IH [OF s1(2)] qs(2) cb False ps(3) show False by auto
    qed
  qed
  ultimately show "op_status s op \<noteq> None \<and>
      (\<forall>ps. pending s ps \<longrightarrow> op \<in> set ps \<longrightarrow> op_callback s op \<noteq> Some None)"
    by blast
qed

lemma post_and_wait_faults:
  assumes "pending s ps" and "new_obj r (operations s) = (op, ops)" and "callback r = None"
    and "post_read hw op (s\<lparr>operations := ops\<rparr>) = Some (q, s1)"
  shows "wait_for_io hw op s1 = None"
proof -
  from post_new_pending [OF assms(1,2), of hw] assms(4)
  have s1: "pending s1 (ps @ [op])" "op_data s1 = op_data (s\<lparr>operations := ops\<rparr>)" by auto
  have "op_callback (s\<lparr>operations := ops\<rparr>) op = Some None"
    using pending_new(3) [OF assms(1,2)] assms(3) by (simp add: op_callback_def)
  then have "op_callback s1 op = Some None"
    using op_callback_data [of s1 op "s\<lparr>operations := ops\<rparr>"] s1(2) by simp
  with s1(1) wait_for_io_faults [of hw op s1] show ?thesis
    by (cases "wait_for_io hw op s1") auto
qed

text \<open>
  C27: the functions that read and wait never return. They make an operation without a callback, so
  its completion deletes it; the wait then looks at the status of a deleted operation (and the
  caller would delete it once more). This concerns \<open>read_block\<close> and \<open>read_blocks\<close>, on
  which the file system rests, and the reading of the partition table.
\<close>

theorem blocking_read_faults:
  assumes "pending s ps"
  shows "read_block hw dest addr s = None \<and> read_blocks hw dest addr n s = None \<and>
    read_partition_table hw buf s = None"
proof -
  have "read_blocks hw dest addr n s = None" for n
  proof -
    let ?r = "block_read_operation_new dest n (ucast addr) None None"
    obtain op ops where o: "new_obj ?r (operations s) = (op, ops)" by fastforce
    have "callback ?r = None" by (simp add: block_read_operation_new_def)
    from post_and_wait_faults [OF assms o this, of hw] o show ?thesis
      by (auto simp: read_blocks_def split: Option.bind_splits)
  qed
  moreover have "read_partition_table hw buf s = None"
  proof -
    let ?r = "block_read_operation_new buf 1 0 None None"
    obtain op ops where o: "new_obj ?r (operations s) = (op, ops)" by fastforce
    have "callback ?r = None" by (simp add: block_read_operation_new_def)
    from post_and_wait_faults [OF assms o this, of hw] o show ?thesis
      by (auto simp: read_partition_table_def split: Option.bind_splits)
  qed
  ultimately show ?thesis by (simp add: read_block_def)
qed

lemma blocking_read_faults_witness:
  "read_block two_word_card 0x1000 0 (idle_sd []) = None"
  using blocking_read_faults [OF idle_pending [of "[]"], of two_word_card "0x1000" 0] by (rule conjunct1)

section \<open>The partition table\<close>

lemma bit_u8: "8 \<le> k \<Longrightarrow> \<not> bit (x :: u8) k"
  using bit_imp_le_length [of x k] by auto

lemma bit_load_word:
  "bit (load_word a m) n \<longleftrightarrow> (if n < 8 then bit (m a) n else if n < 16 then bit (m (a + 1)) (n - 8)
     else if n < 24 then bit (m (a + 2)) (n - 16) else bit (m (a + 3)) (n - 24))"
proof -
  consider "n < 8" | "8 \<le> n" "n < 16" | "16 \<le> n" "n < 24" | "24 \<le> n" "n < 32" | "32 \<le> n"
    by linarith
  then show ?thesis
    by cases (auto simp: load_word_def bit_simps bit_u8)
qed

lemma load_word_between:
  "drop_bit 16 (load_word (a - 2) m) OR push_bit 16 (load_word (a + 2) m) = load_word a m"
proof -
  have s: "a - 2 + 1 = a - 1" "a - 2 + 2 = a" "a - 2 + 3 = a + 1" "a + 2 + 1 = a + 3" by simp_all
  have "bit (drop_bit 16 (load_word (a - 2) m) OR push_bit 16 (load_word (a + 2) m)) n =
      bit (load_word a m) n" if n: "n < 32" for n
  proof -
    consider "n < 8" | "8 \<le> n" "n < 16" | "16 \<le> n" "n < 24" | "24 \<le> n" using n by linarith
    then show ?thesis
      using n by cases (simp_all add: bit_or_iff bit_drop_bit_eq bit_push_bit_iff bit_load_word s bit_u8)
  qed
  then show ?thesis by (intro bit_word_eqI) simp
qed

lemma make_partitions_loop:
  assumes "distinct is" and "\<forall>i \<in> set is. i < length (partitions s)"
    and "\<forall>i \<in> set is. \<exists>name. partname sd_name (int i) = Some name"
  shows "\<exists>s'. make_partitions buf is s = Some s' \<and> s' = s\<lparr>partitions := partitions s'\<rparr> \<and>
    length (partitions s') = length (partitions s) \<and>
    (\<forall>i < length (partitions s). partitions s' ! i =
      (if i \<in> set is \<and> fst (partition_entry buf (memory s) i) \<noteq> 0
       then (case partition_entry buf (memory s) i of (ty, start, stop) \<Rightarrow>
         partition_new sd_name sd_block_size start stop ty (int i))
       else partitions s ! i))"
  using assms
proof (induction "is" arbitrary: s)
  case Nil
  then show ?case by simp
next
  case (Cons j js)
  obtain ty start stop where e: "partition_entry buf (memory s) j = (ty, start, stop)"
    by (metis prod_cases3)
  obtain name where "partname sd_name (int j) = Some name" using Cons.prems(3) by auto
  then obtain q where q: "partition_new sd_name sd_block_size start stop ty (int j) = Some q"
    by (simp add: partition_new_def)
  define s1 where "s1 = (if ty \<noteq> 0 then s\<lparr>partitions := (partitions s)[j := Some q]\<rparr> else s)"
  have m: "make_partitions buf (j # js) s = make_partitions buf js s1"
    by (simp add: e q s1_def)
  have len: "length (partitions s1) = length (partitions s)" "memory s1 = memory s"
    "s1 = s\<lparr>partitions := partitions s1\<rparr>"
    by (simp_all add: s1_def)
  with Cons.prems Cons.IH [of s1] obtain s' where s': "make_partitions buf js s1 = Some s'"
    "s' = s1\<lparr>partitions := partitions s'\<rparr>" "length (partitions s') = length (partitions s)"
    "\<forall>i < length (partitions s). partitions s' ! i =
      (if i \<in> set js \<and> fst (partition_entry buf (memory s) i) \<noteq> 0
       then (case partition_entry buf (memory s) i of (ty, start, stop) \<Rightarrow>
         partition_new sd_name sd_block_size start stop ty (int i))
       else partitions s1 ! i)"
    by auto
  have "s' = s\<lparr>partitions := partitions s'\<rparr>"
    by (subst s'(2), subst len(3)) simp
  moreover have "partitions s1 ! i = (if i = j \<and> ty \<noteq> 0 then Some q else partitions s ! i)"
    if "i < length (partitions s)" for i
    using that by (auto simp: s1_def nth_list_update)
  ultimately show ?case
    using s' m e q Cons.prems(1) by (intro exI [of _ s']) (auto split: if_splits)
qed

text \<open>
  C19: the partition table. From the bytes of the first block of the card the driver makes a
  partition for each of the four entries whose type is not 0, and none for the others. The first
  block of a partition and its number of blocks are the little-endian words at offsets 8 and 12 of
  the entry, although the code has to read them in halves from the words around them; the end is
  computed with 64 bits, so the size of the partition is the number of blocks. The partitions of
  the device are called sd0p0 to sd0p3.
\<close>

theorem partition_table_decoded:
  assumes "length (partitions s) = 4"
  shows "\<exists>s'. make_partitions buf [0, 1, 2, 3] s = Some s' \<and> length (partitions s') = 4 \<and>
    (\<forall>i < 4. let e = buf + 446 + of_nat i * 16 in
      if memory s (e + 4) = 0 then partitions s' ! i = partitions s ! i
      else \<exists>p. partitions s' ! i = Some p \<and> part_type p = memory s (e + 4) \<and>
        part_name p = kstr (ascii ''sd0'' @ partition_suffix i) \<and>
        part_start p = ucast (load_word (e + 8) (memory s)) \<and>
        partition_size p = ucast (load_word (e + 12) (memory s)))"
proof -
  have sd: "sd_name = kstr (ascii ''sd0'')" "text_ok (ascii ''sd0'')" "length (ascii ''sd0'') + 2 < 2 ^ 31"
    by (simp_all add: sd_name_def kstr_def text_ok_def ascii_def)
  have name: "partname sd_name (int i) = Some (kstr (ascii ''sd0'' @ partition_suffix i))" if "i < 4" for i
    unfolding sd(1) by (rule partname_kstr [OF sd(2,3) that])
  have "\<forall>i \<in> set [0, 1, 2, 3]. i < length (partitions s)"
    "\<forall>i \<in> set [0, 1, 2, 3]. \<exists>name. partname sd_name (int i) = Some name"
    using assms name [of 0] name [of 1] name [of 2] name [of 3] by auto
  from make_partitions_loop [OF _ this, of buf] assms obtain s' where
    m: "make_partitions buf [0, 1, 2, 3] s = Some s'" "length (partitions s') = 4"
    and entry: "\<And>i. i < 4 \<Longrightarrow> partitions s' ! i =
      (if i \<in> set [0, 1, 2, 3] \<and> fst (partition_entry buf (memory s) i) \<noteq> 0
       then (case partition_entry buf (memory s) i of (ty, start, stop) \<Rightarrow>
         partition_new sd_name sd_block_size start stop ty (int i))
       else partitions s ! i)"
    by auto
  have dec: "partition_entry buf (memory s) i = (memory s (e + 4), ucast (load_word (e + 8) (memory s)),
      ucast (load_word (e + 12) (memory s)) + ucast (load_word (e + 8) (memory s)))"
    if "e = buf + 446 + of_nat i * 16" for i e
    using load_word_between [of "e + 8" "memory s"] load_word_between [of "e + 12" "memory s"]
    unfolding that by (simp add: partition_entry_def Let_def)
  have "let e = buf + 446 + of_nat i * 16 in
      if memory s (e + 4) = 0 then partitions s' ! i = partitions s ! i
      else \<exists>p. partitions s' ! i = Some p \<and> part_type p = memory s (e + 4) \<and>
        part_name p = kstr (ascii ''sd0'' @ partition_suffix i) \<and>
        part_start p = ucast (load_word (e + 8) (memory s)) \<and>
        partition_size p = ucast (load_word (e + 12) (memory s))" if i: "i < 4" for i
  proof -
    have "i \<in> set [0, 1, 2, 3]" using i by auto
    then show ?thesis
      unfolding Let_def entry [OF i] dec [OF refl]
      by (simp add: partition_new_def name [OF i] partition_size_def)
  qed
  with m show ?thesis by blast
qed

lemma partition_table_decoded_witness:
  "\<exists>s'. make_partitions 0 [0, 1, 2, 3] (reading_sd\<lparr>memory := (\<lambda>_. 0)(450 := 0xb)\<rparr>) = Some s' \<and>
     (\<exists>p. partitions s' ! 0 = Some p \<and> part_type p = 0xb)"
proof -
  let ?s = "reading_sd\<lparr>memory := (\<lambda>_. 0)(450 := 0xb)\<rparr>"
  have "length (partitions ?s) = 4" by (simp add: reading_sd_def idle_sd_def)
  from partition_table_decoded [OF this, of 0] obtain s' where
    m: "make_partitions 0 [0, 1, 2, 3] ?s = Some s'" and
    e: "\<forall>i < 4. let e = 0 + 446 + of_nat i * 16 in
      if memory ?s (e + 4) = 0 then partitions s' ! i = partitions ?s ! i
      else \<exists>p. partitions s' ! i = Some p \<and> part_type p = memory ?s (e + 4) \<and>
        part_name p = kstr (ascii ''sd0'' @ partition_suffix i) \<and>
        part_start p = ucast (load_word (e + 8) (memory ?s)) \<and>
        partition_size p = ucast (load_word (e + 12) (memory ?s))"
    by blast
  from e [rule_format, of 0] have "\<exists>p. partitions s' ! 0 = Some p \<and> part_type p = 0xb"
    by (auto simp: Let_def)
  with m show ?thesis by blast
qed

end
