(* ===== verification/Sd_Card.thy ===== *)
theory Sd_Card
  imports Sd_Data "HOL-Library.Sublist"
begin

text \<open>
  The identification of a card: which commands the driver sends, in which order, and when it goes
  on to the next one.
\<close>

unbundle bit_operations_syntax

section \<open>Commands on the bus\<close>

definition commands :: "'d sd \<Rightarrow> u32 list" where
  "commands s = written (virtual_base s + reg_offset R_cmd) (trace (bus s))"

definition cmd_word :: "nat \<Rightarrow> nat \<Rightarrow> u32" where
  "cmd_word n rsp = push_bit cmd_indx (of_nat n) OR push_bit cmd_rsp_type (of_nat rsp)"

lemma reg_offset_inject [simp]: "reg_offset r = reg_offset r' \<longleftrightarrow> r = r'"
  by (cases r; cases r') (simp_all add: reg_offset_def)

lemma commands_write [simp]:
  "commands (reg_write hw v r s) = commands s @ (if r = R_cmd then [v] else [])"
  by (simp add: commands_def reg_write_def)

lemma commands_read: "reg_read hw r s = (v, s') \<Longrightarrow> commands s' = commands s"
  by (auto simp: commands_def reg_read_dev)

lemma commands_rca [simp]: "commands (s\<lparr>rca := x\<rparr>) = commands s"
  by (simp add: commands_def)

lemma reg_wait_commands: "reg_wait hw v r s = Some s' \<Longrightarrow> commands s' = commands s"
  by (auto simp: reg_wait_def commands_def dest: wait_for_bit_written)

text \<open>
  A wait for the status only reads. The status it returns is the one of the first error bit, in the
  order of the code, of a value of the register that shows an error or the end of the command.
\<close>

definition decode_status :: "u32 \<Rightarrow> sd_status" where
  "decode_status v =
     (if v AND event_mask E_dcrc \<noteq> 0 then data_crc_error
      else if v AND event_mask E_dto \<noteq> 0 then data_timeout_error
      else if v AND event_mask E_deb \<noteq> 0 then data_end_bit_error
      else if v AND event_mask E_ccrc \<noteq> 0 then command_crc_error
      else if v AND event_mask E_cerr \<noteq> 0 then card_error
      else if v AND event_mask E_cie \<noteq> 0 then command_index_error
      else if v AND event_mask E_cto \<noteq> 0 then command_timeout else command_complete)"

lemma wait_for_status_reads:
  assumes "wait_for_status hw s = Some (st, s')"
  shows "commands s' = commands s \<and> (\<exists>b. s' = s\<lparr>bus := b\<rparr>) \<and>
    (\<exists>t v. trace (bus s') = t @ [Read (virtual_base s + reg_offset R_stat) v] \<and> st = decode_status v \<and>
      (st = command_complete \<longrightarrow> v AND event_mask E_cc \<noteq> 0))"
proof -
  define P where "P = (\<lambda>(s :: 'a sd) (r :: sd_status \<times> 'a sd). commands (snd r) = commands s \<and>
    (\<exists>b. snd r = s\<lparr>bus := b\<rparr>) \<and>
    (\<exists>t v. trace (bus (snd r)) = t @ [Read (virtual_base s + reg_offset R_stat) v] \<and>
      fst r = decode_status v \<and> (fst r = command_complete \<longrightarrow> v AND event_mask E_cc \<noteq> 0)))"
  have "P s (st, s')"
  proof (rule wait_for_status.raw_induct [OF _ assms])
    fix f :: "'a hardware \<Rightarrow> 'a sd \<Rightarrow> (sd_status \<times> 'a sd) option"
    fix hw :: "'a hardware" and s r
    assume IH: "\<And>hw s r. f hw s = Some r \<Longrightarrow> P s r"
      and step: "(let (status, s') = reg_read hw R_stat s in
      if status AND event_mask E_dcrc \<noteq> 0 then Some (data_crc_error, s')
      else if status AND event_mask E_dto \<noteq> 0 then Some (data_timeout_error, s')
      else if status AND event_mask E_deb \<noteq> 0 then Some (data_end_bit_error, s')
      else if status AND event_mask E_ccrc \<noteq> 0 then Some (command_crc_error, s')
      else if status AND event_mask E_cerr \<noteq> 0 then Some (card_error, s')
      else if status AND event_mask E_cie \<noteq> 0 then Some (command_index_error, s')
      else if status AND event_mask E_cto \<noteq> 0 then Some (command_timeout, s')
      else if status AND event_mask E_cc = 0 then f hw s'
      else Some (command_complete, s')) = Some r"
    obtain v s1 where v: "reg_read hw R_stat s = (v, s1)" by fastforce
    from commands_read [OF v] reg_read_bus [OF v]
    have s1: "commands s1 = commands s" "\<exists>b. s1 = s\<lparr>bus := b\<rparr>" by auto
    from v have t: "\<exists>t. trace (bus s1) = t @ [Read (virtual_base s + reg_offset R_stat) v]"
      by (auto simp: reg_read_dev)
    have "f hw s1 = Some r \<or> r = (decode_status v, s1) \<and>
        (decode_status v = command_complete \<longrightarrow> v AND event_mask E_cc \<noteq> 0)"
      using step unfolding v decode_status_def by (auto split: if_splits)
    then show "P s r"
    proof
      assume "f hw s1 = Some r"
      with IH have "P s1 r" by blast
      with s1 show ?thesis by (auto simp: P_def)
    next
      assume "r = (decode_status v, s1) \<and> (decode_status v = command_complete \<longrightarrow> v AND event_mask E_cc \<noteq> 0)"
      with s1 t show ?thesis by (auto simp: P_def)
    qed
  qed
  then show ?thesis by (auto simp: P_def)
qed

lemma wait_for_status_commands:
  "wait_for_status hw s = Some (st, s') \<Longrightarrow> commands s' = commands s"
  using wait_for_status_reads by blast

lemmas command_simps = cmd_word_def cmd_indx_def cmd_rsp_type_def

lemma send_cmd0_commands: "send_cmd0 hw s = Some s' \<Longrightarrow> commands s' = commands s @ [cmd_word 0 0]"
  by (auto simp: send_cmd0_def command_simps dest: reg_wait_commands)

lemma send_cmd2_commands: "send_cmd2 hw s = Some (ok, s') \<Longrightarrow> commands s' = commands s @ [cmd_word 2 1]"
  by (auto simp: send_cmd2_def command_simps Let_def split: Option.bind_splits
      dest!: wait_for_status_commands)

lemma send_cmd3_commands: "send_cmd3 hw s = Some (ok, s') \<Longrightarrow> commands s' = commands s @ [cmd_word 3 2]"
  by (auto simp: send_cmd3_def command_simps Let_def split: Option.bind_splits if_splits prod.splits
      dest!: wait_for_status_commands commands_read)

lemma send_cmd7_commands: "send_cmd7 hw s = Some (ok, s') \<Longrightarrow> commands s' = commands s @ [cmd_word 7 3]"
  by (auto simp: send_cmd7_def command_simps Let_def split: Option.bind_splits
      dest!: wait_for_status_commands)

lemma send_cmd8_commands: "send_cmd8 hw s = Some (ok, s') \<Longrightarrow> commands s' = commands s @ [cmd_word 8 2]"
  by (auto simp: send_cmd8_def command_simps Let_def split: Option.bind_splits if_splits prod.splits
      dest!: wait_for_status_commands commands_read)

lemma send_cmd55_commands: "send_cmd55 hw s = Some (ok, s') \<Longrightarrow> commands s' = commands s @ [cmd_word 55 2]"
  by (auto simp: send_cmd55_def command_simps Let_def split: Option.bind_splits
      dest!: wait_for_status_commands)

lemma send_acmd41_commands:
  assumes "send_acmd41 hw s = Some (v, s')"
  shows "commands s' = commands s @ [cmd_word 55 2, cmd_word 41 2] \<or>
    v = -1 \<and> commands s' = commands s @ [cmd_word 55 2]"
proof -
  obtain ok s0 where 55: "send_cmd55 hw s = Some (ok, s0)"
    using assms by (auto simp: send_acmd41_def split: Option.bind_splits)
  then show ?thesis
    using assms send_cmd55_commands [OF 55]
    by (auto simp: send_acmd41_def command_simps Let_def split: Option.bind_splits if_splits prod.splits
      dest!: wait_for_status_commands commands_read)
qed

definition acmd41s :: "nat \<Rightarrow> u32 list" where
  "acmd41s k = concat (replicate k [cmd_word 55 2, cmd_word 41 2])"

lemma acmd41s_Suc: "acmd41s (Suc k) = [cmd_word 55 2, cmd_word 41 2] @ acmd41s k"
  by (simp add: acmd41s_def)

lemma acmd41_loop_commands:
  assumes "acmd41_loop hw s = Some (ok, s')"
  shows "\<exists>k cs. commands s' = commands s @ cs \<and> k > 0 \<and> prefix cs (acmd41s k) \<and> (ok \<longrightarrow> cs = acmd41s k)"
proof -
  define P where "P = (\<lambda>(s :: 'a sd) (r :: bool \<times> 'a sd). \<exists>k cs. commands (snd r) = commands s @ cs \<and>
    k > 0 \<and> prefix cs (acmd41s k) \<and> (fst r \<longrightarrow> cs = acmd41s k))"
  have "P s (ok, s')"
  proof (rule acmd41_loop.raw_induct [OF _ assms])
    fix f :: "'a hardware \<Rightarrow> 'a sd \<Rightarrow> (bool \<times> 'a sd) option"
    fix hw :: "'a hardware" and s r
    assume IH: "\<And>hw s r. f hw s = Some r \<Longrightarrow> P s r"
      and step: "do { (acmd41_result, s1) \<leftarrow> send_acmd41 hw s;
        if acmd41_result = -1 then Some (False, s1)
        else if acmd41_result AND push_bit 31 1 = 0 then f hw s1
        else Some (True, s1) } = Some r"
    then obtain v s1 where v: "send_acmd41 hw s = Some (v, s1)"
      by (auto split: Option.bind_splits)
    note c = send_acmd41_commands [OF v]
    show "P s r"
    proof (cases "v = -1")
      case True
      with step v have "r = (False, s1)" by simp
      with c show ?thesis
        unfolding P_def by (intro exI [of _ 1]) (auto simp: acmd41s_def)
    next
      case False
      with c have c: "commands s1 = commands s @ [cmd_word 55 2, cmd_word 41 2]" by blast
      show ?thesis
      proof (cases "v AND push_bit 31 1 = 0")
        case True
        with False step v IH have "P s1 r" by simp
        then obtain k cs where "commands (snd r) = commands s1 @ cs" "k > 0" "prefix cs (acmd41s k)"
          "fst r \<longrightarrow> cs = acmd41s k"
          by (auto simp: P_def)
        with c show ?thesis
          unfolding P_def
          by (intro exI [of _ "Suc k"] exI [of _ "[cmd_word 55 2, cmd_word 41 2] @ cs"])
            (simp add: acmd41s_Suc)
      next
        case 2: False
        with False step v have "r = (True, s1)" by simp
        with c show ?thesis
          unfolding P_def by (intro exI [of _ 1]) (auto simp: acmd41s_def)
      qed
    qed
  qed
  then show ?thesis by (auto simp: P_def)
qed

definition identification :: "nat \<Rightarrow> u32 list" where
  "identification k = [cmd_word 0 0, cmd_word 8 2] @ acmd41s k @ [cmd_word 2 1, cmd_word 3 2, cmd_word 7 3]"

text \<open>
  C18: the identification of a card follows the protocol of SD cards. Whatever the controller
  answers, the commands sent are a first part of CMD0, CMD8, one or more pairs of CMD55 and ACMD41,
  CMD2, CMD3 and CMD7, with the response types of the protocol: no command is sent before its
  predecessor, none is repeated but the pair that polls the card, and all are sent when the
  identification succeeds.
\<close>

theorem identification_order:
  assumes "identify_card hw s = Some (ok, s')"
  shows "\<exists>k cs. commands s' = commands s @ cs \<and> k > 0 \<and> prefix cs (identification k) \<and>
    (ok \<longrightarrow> cs = identification k)"
proof -
  obtain s0 where 0: "send_cmd0 hw s = Some s0"
    using assms by (auto simp: identify_card_def split: Option.bind_splits)
  with assms obtain ok8 s1 where 8: "send_cmd8 hw s0 = Some (ok8, s1)"
    by (auto simp: identify_card_def split: Option.bind_splits)
  have c8: "commands s1 = commands s @ [cmd_word 0 0, cmd_word 8 2]"
    using send_cmd0_commands [OF 0] send_cmd8_commands [OF 8] by simp
  show ?thesis
  proof (cases ok8)
    case False
    with assms 0 8 have "ok = False" "s' = s1" by (auto simp: identify_card_def)
    with c8 show ?thesis by (intro exI [of _ 1]) (auto simp: identification_def)
  next
    case True
    with assms 0 8 obtain ok41 s2 where 41: "acmd41_loop hw s1 = Some (ok41, s2)"
      by (auto simp: identify_card_def split: Option.bind_splits)
    from acmd41_loop_commands [OF 41] c8 obtain k cs where k: "k > 0" "prefix cs (acmd41s k)"
      "ok41 \<longrightarrow> cs = acmd41s k" and c41: "commands s2 = commands s @ [cmd_word 0 0, cmd_word 8 2] @ cs"
      by auto
    show ?thesis
    proof (cases ok41)
      case False
      with assms 0 8 41 True have "ok = False" "s' = s2" by (auto simp: identify_card_def)
      with k c41 show ?thesis
        by (intro exI [of _ k] exI [of _ "[cmd_word 0 0, cmd_word 8 2] @ cs"])
          (auto simp: identification_def)
    next
      case ok: True
      let ?c = "[cmd_word 0 0, cmd_word 8 2] @ acmd41s k"
      from ok k c41 have c41: "commands s2 = commands s @ ?c" by simp
      have rest: "do { (ok2, s3) \<leftarrow> send_cmd2 hw s2;
          if \<not> ok2 then Some (False, s3) else do {
            (ok3, s4) \<leftarrow> send_cmd3 hw s3;
            if \<not> ok3 then Some (False, s4) else send_cmd7 hw s4 } } = Some (ok, s')"
        using assms 0 8 41 True ok by (simp add: identify_card_def)
      have "commands s' = commands s @ ?c @ [cmd_word 2 1] \<and> \<not> ok \<or>
          commands s' = commands s @ ?c @ [cmd_word 2 1, cmd_word 3 2] \<and> \<not> ok \<or>
          commands s' = commands s @ ?c @ [cmd_word 2 1, cmd_word 3 2, cmd_word 7 3]"
        using rest c41
        by (auto split: Option.bind_splits if_splits
            dest!: send_cmd2_commands send_cmd3_commands send_cmd7_commands)
      with k(1) show ?thesis
        by (intro exI [of _ k]) (auto simp: identification_def)
    qed
  qed
qed

text \<open>
  A controller and a card all of whose registers read 0x800001ab: every command is complete without
  an error, the check pattern is accepted and the card is ready.
\<close>

definition willing_card :: "unit hardware" where
  "willing_card = \<lparr>hw_read = (\<lambda>a d. (0x800001ab, d)), hw_write = (\<lambda>a v d. d)\<rparr>"

lemma willing_read: "reg_read willing_card r s = (0x800001ab, snd (reg_read willing_card r s))"
  by (simp add: reg_read_def io_read_def willing_card_def)

lemma willing_wait: "wait_for_status willing_card s = Some (command_complete, snd (reg_read willing_card R_stat s))"
  by (subst wait_for_status.simps, subst willing_read) (simp add: event_mask_def event_bit_def)

lemma willing_commands:
  "\<exists>s'. send_cmd0 willing_card s = Some s'"
  "\<exists>s'. send_cmd2 willing_card s = Some (True, s')"
  "\<exists>s'. send_cmd3 willing_card s = Some (True, s')"
  "\<exists>s'. send_cmd7 willing_card s = Some (True, s')"
  "\<exists>s'. send_cmd8 willing_card s = Some (True, s')"
  "\<exists>s'. send_cmd55 willing_card s = Some (True, s')"
proof -
  have "wait_for_bit willing_card (event_mask E_cc) base offset b \<noteq> None" for base offset b
    by (subst wait_for_bit.simps) (simp add: willing_card_def io_read_def event_mask_def event_bit_def)
  then show "\<exists>s'. send_cmd0 willing_card s = Some s'"
    by (auto simp: send_cmd0_def reg_wait_def Let_def)
qed (simp_all add: send_cmd2_def send_cmd3_def send_cmd7_def send_cmd8_def send_cmd55_def Let_def
    willing_wait split_beta willing_read [THEN arg_cong [where f = fst], simplified])

lemma willing_acmd41: "\<exists>s'. acmd41_loop willing_card s = Some (True, s')"
proof -
  obtain s1 where "send_cmd55 willing_card s = Some (True, s1)" using willing_commands(6) by blast
  then obtain s2 where "send_acmd41 willing_card s = Some (0x800001ab, s2)"
    using willing_read [of R_rsp10] by (auto simp: send_acmd41_def Let_def willing_wait)
  then show ?thesis by (subst acmd41_loop.simps) simp
qed

lemma identification_order_witness:
  "\<exists>s' k. identify_card willing_card (idle_sd ()) = Some (True, s') \<and>
     commands s' = commands (idle_sd ()) @ identification k"
proof -
  let ?s = "idle_sd ()"
  obtain s0 where "send_cmd0 willing_card ?s = Some s0" using willing_commands(1) by blast
  moreover obtain s1 where "send_cmd8 willing_card s0 = Some (True, s1)" using willing_commands(5) by blast
  moreover obtain s2 where "acmd41_loop willing_card s1 = Some (True, s2)" using willing_acmd41 by blast
  moreover obtain s3 where "send_cmd2 willing_card s2 = Some (True, s3)" using willing_commands(2) by blast
  moreover obtain s4 where "send_cmd3 willing_card s3 = Some (True, s4)" using willing_commands(3) by blast
  moreover obtain s5 where "send_cmd7 willing_card s4 = Some (True, s5)" using willing_commands(4) by blast
  ultimately have "identify_card willing_card ?s = Some (True, s5)"
    by (simp add: identify_card_def)
  with identification_order [OF this] show ?thesis by blast
qed

end
