(* ===== verification/Process.thy ===== *)
theory Process
  imports Kqueue Mmu
begin

text \<open>
  Processes, kernel threads and wait blocks (\<open>kernel/process.cpp\<close>, \<open>kernel/kthread.cpp\<close>,
  \<open>kernel/waitblock.cpp\<close>, \<open>kernel/register_contents.cpp\<close>). The objects refer to each other
  and to the queue of the scheduler, so they are parts of one state \<open>kernel\<close>: the stores of
  processes and wait blocks, the scheduler's fields, the MMU with the heap and the page stack, and
  the memory of the applications as it is seen through an application translation table. The
  only class of the source that derives from \<open>process\<close> is \<open>kthread\<close>: every process object
  here has its fields, with no stack of its own when \<open>kstack\<close> is 0.
\<close>

unbundle bit_operations_syntax

section \<open>Register contents\<close>

definition psr_t :: u32 where "psr_t = push_bit 5 1"
definition processor_mode_usr :: u32 where "processor_mode_usr = 0b10000"
definition processor_mode_sys :: u32 where "processor_mode_sys = 0b11111"

record register_contents =
  regs :: "u32 list"
  spsr :: u32
  return_address :: u32

definition register_contents_new :: register_contents where
  "register_contents_new = \<lparr>regs = replicate 15 0, spsr = psr_t OR processor_mode_usr, return_address = 0x1004\<rparr>"

definition register_contents_copy :: "register_contents \<Rightarrow> register_contents" where
  "register_contents_copy c = \<lparr>regs = map (\<lambda>i. regs c ! i) [0..<15], spsr = spsr c, return_address = return_address c\<rparr>"

definition set_reg :: "nat \<Rightarrow> u32 \<Rightarrow> register_contents \<Rightarrow> register_contents" where
  "set_reg i v c = c\<lparr>regs := (regs c)[i := v]\<rparr>"

section \<open>Objects\<close>

text \<open>The two classes that implement \<open>termination_listener\<close>, with the object.\<close>

datatype listener = Process_listener nat | Waitblock_listener nat

text \<open>\<open>exit_code\<close> and \<open>terminated_pid\<close> are not initialised by the constructor.\<close>

record waitblock =
  waitpid :: u32
  status_loc :: u32
  wexit_code :: "u32 option"
  caller :: nat
  terminated_pid :: "u32 option"
  active :: bool

record process =
  program_break :: u32
  pid :: u32
  ptable_address :: u32
  ptable :: translation_table
  exit_code :: u32
  parent :: ptr
  pblock :: ptr
  children :: "nat kqueue"
  termination_listeners :: "listener kqueue"
  child_termination_listener :: "listener option"
  registers :: register_contents
  code_pages :: u32
  data_pages :: u32
  stack_pages :: u32
  usable :: bool
  kstack :: u32

record kernel =
  processes :: "process store"
  waitblocks :: "waitblock store"
  process_queue :: "nat kqueue"
  current_process :: ptr
  next_pid :: u32
  scheduler_ready :: bool
  register_block :: ptr
  kmmu :: mmu
  user_memory :: "u32 \<Rightarrow> u32 \<Rightarrow> u8"

definition default_stack_size :: u32 where
  "default_stack_size = 16 * 1024"

definition upd_process :: "nat \<Rightarrow> (process \<Rightarrow> process) \<Rightarrow> kernel \<Rightarrow> kernel option" where
  "upd_process p f k = do { ps \<leftarrow> modify (Some p) f (processes k); Some (k\<lparr>processes := ps\<rparr>) }"

definition upd_waitblock :: "nat \<Rightarrow> (waitblock \<Rightarrow> waitblock) \<Rightarrow> kernel \<Rightarrow> kernel option" where
  "upd_waitblock w f k = do { ws \<leftarrow> modify (Some w) f (waitblocks k); Some (k\<lparr>waitblocks := ws\<rparr>) }"

text \<open>A byte or a word at an address of the application whose table is in use.\<close>

definition user_store :: "u32 \<Rightarrow> u8 \<Rightarrow> kernel \<Rightarrow> kernel" where
  "user_store a v k = (let t = current_application_table (kmmu k)
     in k\<lparr>user_memory := (user_memory k)(t := (user_memory k t)(a := v))\<rparr>)"

definition user_store_word :: "u32 \<Rightarrow> u32 \<Rightarrow> kernel \<Rightarrow> kernel" where
  "user_store_word a v k = user_store (a + 3) (ucast (drop_bit 24 v)) (user_store (a + 2) (ucast (drop_bit 16 v))
     (user_store (a + 1) (ucast (drop_bit 8 v)) (user_store a (ucast v) k)))"

section \<open>Process identifiers\<close>

primrec find_pid :: "process store \<Rightarrow> u32 \<Rightarrow> nat list \<Rightarrow> ptr option" where
  "find_pid ps x [] = Some None"
| "find_pid ps x (p # rest) = do {
     pr \<leftarrow> cells ps p;
     if pid pr = x then Some (Some p) else find_pid ps x rest }"

definition get_process :: "u32 \<Rightarrow> kernel \<Rightarrow> ptr option" where
  "get_process x k = do { ps \<leftarrow> elements (process_queue k); find_pid (processes k) x ps }"

partial_function (option) allocate_pid :: "kernel \<Rightarrow> (u32 \<times> kernel) option" where
  "allocate_pid k = do {
     let retval = next_pid k;
     let k1 = k\<lparr>next_pid := next_pid k + 1\<rparr>;
     p \<leftarrow> get_process retval k1;
     if p \<noteq> None then allocate_pid k1 else Some (retval, k1) }"

section \<open>Address spaces\<close>

text \<open>The three loops of \<open>setup_addrspace\<close>: a page each, at addresses in steps up or down.\<close>

primrec map_pages :: "(u32 \<Rightarrow> u32) \<Rightarrow> nat \<Rightarrow> u32 \<Rightarrow> u32 \<Rightarrow> permissions \<Rightarrow> interval_type \<Rightarrow>
    translation_table \<times> mmu_mem \<Rightarrow> (translation_table \<times> mmu_mem) option" where
  "map_pages par 0 addr step perms ty s = Some s"
| "map_pages par (Suc n) addr step perms ty s = do {
     (page, m) \<leftarrow> allocate_page (mmem (snd s));
     s' \<leftarrow> map_page par page addr perms ty False (fst s, (snd s)\<lparr>mmem := m\<rparr>);
     map_pages par n (addr + step) step perms ty s' }"

definition setup_addrspace :: "(u32 \<Rightarrow> u32) \<Rightarrow> process \<Rightarrow> mmu_mem \<Rightarrow> (process \<times> mmu_mem) option" where
  "setup_addrspace par proc mem = do {
     s1 \<leftarrow> map_pages par (unat (code_pages proc)) 0x1000 4096 RW_RO CODE (ptable proc, mem);
     s2 \<leftarrow> map_pages par (unat (data_pages proc)) (0x1000 + 4096 * code_pages proc) 4096 RW_RW DATA s1;
     (tt, mem') \<leftarrow> map_pages par (unat (stack_pages proc)) (0x80000000 - 4096) (- 4096) RW_RW STACK s2;
     Some (proc\<lparr>ptable := tt,
       program_break := 0x1000 + (code_pages proc * 0x1000) + (data_pages proc * 0x1000)\<rparr>, mem') }"

text \<open>The fields of a new process object before its constructor.\<close>

definition blank_process :: process where
  "blank_process = \<lparr>program_break = 0, pid = 0, ptable_address = 0, ptable = tt_new 2048, exit_code = 0,
     parent = None, pblock = None, children = kqueue_new, termination_listeners = kqueue_new,
     child_termination_listener = None, registers = register_contents_new,
     code_pages = 0, data_pages = 0, stack_pages = 0, usable = False, kstack = 0\<rparr>"

text \<open>
  The common constructor. A translation table of 2048 entries with its directory takes 16384 bytes,
  a multiple of its alignment; it is cleared at once, so a failed allocation is a fault.
\<close>

definition process_new :: "kernel \<Rightarrow> (process \<times> kernel) option" where
  "process_new k = do {
     (a, m) \<leftarrow> operator_new_aligned 16384 8192 (mmem (kmem (kmmu k)));
     if a = 0 then None else do {
       let mm' = kmmu k;
       let k1 = k\<lparr>kmmu := mm'\<lparr>kmem := (kmem mm')\<lparr>mmem := m\<rparr>\<rparr>\<rparr>;
       let proc = blank_process\<lparr>ptable_address := a, ptable := tt_clear (tt_new 2048)\<rparr>;
       if \<not> scheduler_ready k1 then Some (proc\<lparr>pid := 1\<rparr>, k1)
       else do { (x, k2) \<leftarrow> allocate_pid k1; Some (proc\<lparr>pid := x\<rparr>, k2) } } }"

definition with_addrspace :: "(u32 \<Rightarrow> u32) \<Rightarrow> process \<Rightarrow> kernel \<Rightarrow> (process \<times> kernel) option" where
  "with_addrspace par proc k = do {
     (proc', mem) \<leftarrow> setup_addrspace par proc (kmem (kmmu k));
     Some (proc', k\<lparr>kmmu := (kmmu k)\<lparr>kmem := mem\<rparr>\<rparr>) }"

definition use_table :: "(u32 \<Rightarrow> u32) \<Rightarrow> process \<Rightarrow> kernel \<Rightarrow> kernel" where
  "use_table par proc k = k\<lparr>kmmu := set_application_table par (ptable_address proc) (pid proc) (kmmu k)\<rparr>"

text \<open>The packed header at the start of an application's image, its words with the least byte first.\<close>

record header =
  entry_point :: u32
  signature :: "u8 list"
  version :: u8
  data_start :: u32
  bss_start :: u32
  application_end :: u32

definition app_header :: "(u32 \<Rightarrow> u8) \<Rightarrow> header" where
  "app_header buffer = \<lparr>entry_point = load_word 0 buffer, signature = map buffer [4, 5, 6], version = buffer 7,
     data_start = load_word 8 buffer, bss_start = load_word 12 buffer, application_end = load_word 16 buffer\<rparr>"

definition image_code_pages :: "header \<Rightarrow> u32" where
  "image_code_pages h = drop_bit 12 (data_start h - 0x1000)"

definition image_data_pages :: "header \<Rightarrow> u32" where
  "image_data_pages h = drop_bit 12 (((application_end h + 4095) AND mask_left 4096)
     - push_bit 12 (image_code_pages h) - 0x1000)"

primrec copy_to_user :: "nat \<Rightarrow> u32 \<Rightarrow> (u32 \<Rightarrow> u8) \<Rightarrow> u32 \<Rightarrow> u32 \<Rightarrow> kernel \<Rightarrow> kernel" where
  "copy_to_user 0 dest buffer off i k = k"
| "copy_to_user (Suc n) dest buffer off i k =
     copy_to_user n dest buffer off (i + 1) (user_store (dest + i) (buffer (i + off)) k)"

definition process_load :: "(u32 \<Rightarrow> u32) \<Rightarrow> (u32 \<Rightarrow> u8) \<Rightarrow> kernel \<Rightarrow> (process \<times> kernel) option" where
  "process_load par buffer k = do {
     let h = app_header buffer;
     (proc, k1) \<leftarrow> process_new k;
     let proc1 = proc\<lparr>code_pages := image_code_pages h, data_pages := image_data_pages h,
       stack_pages := drop_bit 12 default_stack_size\<rparr>;
     (proc2, k2) \<leftarrow> with_addrspace par proc1 k1;
     let proc3 = proc2\<lparr>registers := set_reg 13 0x80000000 (registers proc2)\<rparr>;
     let k3 = use_table par proc3 k2;
     let k4 = copy_to_user (unat (data_start h - 0x1000)) 0x1000 buffer 0 0 k3;
     let k5 = copy_to_user (unat (bss_start h - data_start h)) (0x1000 + code_pages proc3 * 0x1000) buffer
       (code_pages proc3 * 0x1000) 0 k4;
     Some (proc3\<lparr>usable := True\<rparr>, k5) }"

text \<open>
  The constructor for a copy of a process, page by page through a buffer of the kernel. The
  buffer is taken from the heap and never given back; storing into a null buffer is a fault.
\<close>

definition read_user_page :: "u32 \<Rightarrow> kernel \<Rightarrow> u32 \<Rightarrow> u8" where
  "read_user_page addr k i = user_memory k (current_application_table (kmmu k)) (addr + i)"

primrec copy_pages :: "(u32 \<Rightarrow> u32) \<Rightarrow> nat \<Rightarrow> u32 \<Rightarrow> process \<Rightarrow> process \<Rightarrow> kernel \<Rightarrow> kernel" where
  "copy_pages par 0 addr from to k = k"
| "copy_pages par (Suc n) addr from to k =
     (let k1 = use_table par from k;
          buffer = read_user_page addr k1;
          k2 = use_table par to k1
      in copy_pages par n (addr + 4096) from to (copy_to_user 4096 addr buffer 0 0 k2))"

definition process_copy :: "(u32 \<Rightarrow> u32) \<Rightarrow> nat \<Rightarrow> kernel \<Rightarrow> (process \<times> kernel) option" where
  "process_copy par par_id k = do {
     (proc, k1) \<leftarrow> process_new k;
     pr \<leftarrow> cells (processes k1) par_id;
     let proc1 = proc\<lparr>parent := Some par_id, registers := register_contents_copy (registers pr),
       code_pages := code_pages pr, data_pages := data_pages pr, stack_pages := stack_pages pr\<rparr>;
     (proc2, k2) \<leftarrow> with_addrspace par proc1 k1;
     (buffer, m) \<leftarrow> operator_new 4096 (mmem (kmem (kmmu k2)));
     let k3 = k2\<lparr>kmmu := (kmmu k2)\<lparr>kmem := (kmem (kmmu k2))\<lparr>mmem := m\<rparr>\<rparr>\<rparr>;
     let text_data = unat (code_pages proc2 + data_pages proc2);
     let stack = unat (stack_pages proc2);
     if buffer = 0 \<and> text_data + stack > 0 then None else do {
       let k4 = copy_pages par text_data 0x1000 pr proc2 k3;
       let k5 = copy_pages par stack (0x80000000 - stack_pages proc2 * 4096) pr proc2 k4;
       Some (proc2\<lparr>usable := True\<rparr>, k5) } }"

text \<open>A kernel thread; the address of the object itself stands for its name in the store.\<close>

definition kthread_new :: "u32 \<Rightarrow> u32 \<Rightarrow> kernel \<Rightarrow> (nat \<times> kernel) option" where
  "kthread_new entry stack_size k = do {
     (proc, k1) \<leftarrow> process_new k;
     (stack, m) \<leftarrow> operator_new_aligned stack_size 8 (mmem (kmem (kmmu k1)));
     let k2 = k1\<lparr>kmmu := (kmmu k1)\<lparr>kmem := (kmem (kmmu k1))\<lparr>mmem := m\<rparr>\<rparr>\<rparr>;
     let this = fresh (processes k2);
     let rc = set_reg 13 (stack + stack_size) (set_reg 0 (of_nat this) (registers proc));
     let proc' = proc\<lparr>kstack := stack, usable := True,
       registers := rc\<lparr>spsr := psr_t OR processor_mode_sys, return_address := entry + 4\<rparr>\<rparr>;
     let (p, ps) = new_obj proc' (processes k2);
     Some (p, k2\<lparr>processes := ps\<rparr>) }"

definition enable_addrspace :: "(u32 \<Rightarrow> u32) \<Rightarrow> kernel \<Rightarrow> kernel" where
  "enable_addrspace par k = k\<lparr>kmmu := set_application_table par 0 0 (kmmu k)\<rparr>"

section \<open>Termination\<close>

definition add_termination_listener :: "listener \<Rightarrow> nat \<Rightarrow> kernel \<Rightarrow> kernel option" where
  "add_termination_listener l p k = do {
     pr \<leftarrow> cells (processes k) p;
     q \<leftarrow> push_front l (termination_listeners pr);
     upd_process p (termination_listeners_update (\<lambda>_. q)) k }"

text \<open>The loops that look for an element with an iterator and remove it.\<close>

definition remove_first :: "'a \<Rightarrow> 'a kqueue \<Rightarrow> 'a kqueue option" where
  "remove_first x q = do {
     ns \<leftarrow> iterate q;
     case find (\<lambda>(n, y). y = x) ns of
       None \<Rightarrow> Some q
     | Some (n, y) \<Rightarrow> map_option snd (kqueue_remove n q) }"

definition remove_termination_listener :: "listener \<Rightarrow> nat \<Rightarrow> kernel \<Rightarrow> kernel option" where
  "remove_termination_listener l p k = do {
     pr \<leftarrow> cells (processes k) p;
     q \<leftarrow> remove_first l (termination_listeners pr);
     upd_process p (termination_listeners_update (\<lambda>_. q)) k }"

definition set_child_termination_listener :: "listener option \<Rightarrow> nat \<Rightarrow> kernel \<Rightarrow> kernel option" where
  "set_child_termination_listener l p k = upd_process p (child_termination_listener_update (\<lambda>_. l)) k"

definition waitblock_terminated :: "nat \<Rightarrow> nat \<Rightarrow> kernel \<Rightarrow> kernel option" where
  "waitblock_terminated w terminated k = do {
     t \<leftarrow> cells (processes k) terminated;
     upd_waitblock w (\<lambda>b. b\<lparr>terminated_pid := Some (pid t), wexit_code := Some (exit_code t), active := False\<rparr>) k }"

text \<open>The call of \<open>process_terminated\<close> of a listener.\<close>

partial_function (option) notify :: "listener \<Rightarrow> nat \<Rightarrow> kernel \<Rightarrow> kernel option" where
  "notify l child k =
     (case l of
        Waitblock_listener w \<Rightarrow> waitblock_terminated w child k
      | Process_listener p \<Rightarrow> do {
          pr \<leftarrow> cells (processes k) p;
          k1 \<leftarrow> (case child_termination_listener pr of None \<Rightarrow> Some k | Some l' \<Rightarrow> notify l' child k);
          pr1 \<leftarrow> cells (processes k1) p;
          q \<leftarrow> remove_first child (children pr1);
          upd_process p (children_update (\<lambda>_. q)) k1 })"

primrec notify_all :: "listener list \<Rightarrow> nat \<Rightarrow> kernel \<Rightarrow> kernel option" where
  "notify_all [] child k = Some k"
| "notify_all (l # ls) child k = do { k1 \<leftarrow> notify l child k; notify_all ls child k1 }"

definition unmap_if :: "u32 \<Rightarrow> u32 \<Rightarrow> u32 \<Rightarrow> translation_table \<times> mmu_mem \<Rightarrow> (translation_table \<times> mmu_mem) option" where
  "unmap_if pages start stop s = (if pages > 0 then unmap_interval start stop s else Some s)"

text \<open>\<open>delete\<close> of a kernel thread: its stack, then what the destructor of a process does.\<close>

definition delete_process :: "nat \<Rightarrow> kernel \<Rightarrow> kernel option" where
  "delete_process p k = do {
     pr \<leftarrow> cells (processes k) p;
     m0 \<leftarrow> operator_delete (kstack pr) (mmem (kmem (kmmu k)));
     let k0 = k\<lparr>kmmu := (kmmu k)\<lparr>kmem := (kmem (kmmu k))\<lparr>mmem := m0\<rparr>\<rparr>\<rparr>;
     ls \<leftarrow> elements (termination_listeners pr);
     k1 \<leftarrow> notify_all ls p k0;
     pr1 \<leftarrow> cells (processes k1) p;
     s1 \<leftarrow> unmap_if (code_pages pr1) 0x1000 (program_break pr1) (ptable pr1, kmem (kmmu k1));
     (tt, mem) \<leftarrow> unmap_if (stack_pages pr1) (0x80000000 - default_stack_size) 0x80000000 s1;
     m \<leftarrow> operator_delete (ptable_address pr1) (mmem mem);
     ps \<leftarrow> delete_obj (Some p) (processes k1);
     Some (k1\<lparr>kmmu := (kmmu k1)\<lparr>kmem := mem\<lparr>mmem := m\<rparr>\<rparr>, processes := ps\<rparr>) }"

section \<open>Wait blocks\<close>

definition not_waiting :: "waitblock \<Rightarrow> waitblock" where
  "not_waiting b = b\<lparr>active := False, terminated_pid := Some (- 1)\<rparr>"

definition waitblock_new :: "u32 \<Rightarrow> u32 \<Rightarrow> nat \<Rightarrow> kernel \<Rightarrow> (nat \<times> kernel) option" where
  "waitblock_new x loc call k = do {
     let (w, ws) = new_obj \<lparr>waitpid = x, status_loc = loc, wexit_code = None, caller = call,
       terminated_pid = None, active = True\<rparr> (waitblocks k);
     let k1 = k\<lparr>waitblocks := ws\<rparr>;
     k2 \<leftarrow> (if x = - 1 \<or> x = 0 then do {
         c \<leftarrow> cells (processes k1) call;
         if kqueue_length (children c) \<noteq> 0
         then set_child_termination_listener (Some (Waitblock_listener w)) call k1
         else upd_waitblock w not_waiting k1 }
       else do {
         p \<leftarrow> get_process x k1;
         case p of None \<Rightarrow> upd_waitblock w not_waiting k1
         | Some q \<Rightarrow> add_termination_listener (Waitblock_listener w) q k1 });
     Some (w, k2) }"

definition waitblock_delete :: "nat \<Rightarrow> kernel \<Rightarrow> kernel option" where
  "waitblock_delete w k = do {
     b \<leftarrow> cells (waitblocks k) w;
     k1 \<leftarrow> (if waitpid b = - 1 \<or> waitpid b = 0 then set_child_termination_listener None (caller b) k else Some k);
     ws \<leftarrow> delete_obj (Some w) (waitblocks k1);
     Some (k1\<lparr>waitblocks := ws\<rparr>) }"

text \<open>Using a field before it has a value is a fault, as for characters of a buffer.\<close>

definition block_return :: "nat \<Rightarrow> kernel \<Rightarrow> kernel option" where
  "block_return w k = do {
     b \<leftarrow> cells (waitblocks k) w;
     t \<leftarrow> terminated_pid b;
     k1 \<leftarrow> upd_process (caller b) (\<lambda>pr. pr\<lparr>registers := set_reg 0 t (registers pr)\<rparr>) k;
     if status_loc b \<noteq> 0 then do { e \<leftarrow> wexit_code b; Some (user_store_word (status_loc b) e k1) }
     else Some k1 }"

definition is_blocking :: "nat \<Rightarrow> kernel \<Rightarrow> bool option" where
  "is_blocking p k = do {
     pr \<leftarrow> cells (processes k) p;
     case pblock pr of None \<Rightarrow> Some False
     | Some w \<Rightarrow> map_option active (cells (waitblocks k) w) }"

end
