(* ===== verification/Io_Write.thy ===== *)
theory Io_Write
  imports Process Io_Operation
begin

text \<open>
  Write operations (\<open>kernel/io_operation.cpp\<close>). The bytes to write are in the address space of the
  owner, so reading one switches to the owner's translation table, and then to that of the process
  which the scheduler has as the current one. Addresses below \<open>0x80000000\<close> are those of applications;
  the memory of the kernel is an argument.
\<close>

record write_operation = io_operation +
  wsource :: u32
  wsize :: u32
  woffset :: u32

definition write_operation_new :: "u32 \<Rightarrow> u32 \<Rightarrow> u32 \<Rightarrow> ptr \<Rightarrow> nat option \<Rightarrow> write_operation" where
  "write_operation_new source n off own cb =
     \<lparr>owner = own, callback = cb, stat = incomplete, wsource = source, wsize = n, woffset = off\<rparr>"

definition read_byte :: "(u32 \<Rightarrow> u8) \<Rightarrow> u32 \<Rightarrow> kernel \<Rightarrow> u8" where
  "read_byte mem a k =
     (if a < 0x80000000 then user_memory k (current_application_table (kmmu k)) a else mem a)"

definition write_operation_at :: "(u32 \<Rightarrow> u32) \<Rightarrow> (u32 \<Rightarrow> u8) \<Rightarrow> u32 \<Rightarrow> write_operation \<Rightarrow> kernel \<Rightarrow> (u8 \<times> kernel) option" where
  "write_operation_at par mem index op k =
     (case owner op of
        None \<Rightarrow> Some (read_byte mem (wsource op + index) k, k)
      | Some p \<Rightarrow> do {
          pr \<leftarrow> cells (processes k) p;
          let k1 = use_table par pr k;
          let retval = read_byte mem (wsource op + index) k1;
          c \<leftarrow> current_process k1;
          cr \<leftarrow> cells (processes k1) c;
          Some (retval, use_table par cr k1) })"

lemma use_table_parts [simp]:
  "processes (use_table par pr k) = processes k" "current_process (use_table par pr k) = current_process k"
  "user_memory (use_table par pr k) = user_memory k"
  "current_application_table (kmmu (use_table par pr k)) = ptable_address pr"
  by (simp_all add: use_table_def set_application_table_def Let_def)

primrec write_bytes :: "(u32 \<Rightarrow> u32) \<Rightarrow> (u32 \<Rightarrow> u8) \<Rightarrow> nat \<Rightarrow> u32 \<Rightarrow> write_operation \<Rightarrow> kernel \<Rightarrow> (u8 list \<times> kernel) option" where
  "write_bytes par mem 0 i op k = Some ([], k)"
| "write_bytes par mem (Suc n) i op k = do {
     (b, k1) \<leftarrow> write_operation_at par mem i op k;
     (bs, k2) \<leftarrow> write_bytes par mem n (i + 1) op k1;
     Some (b # bs, k2) }"

text \<open>
  A driver that reads the bytes of an operation one after the other gets those of the owner's
  memory, whatever table is in use when it starts, and leaves the table of the current process
  in use, whatever it was before.
\<close>

lemma write_bytes_owner:
  assumes "owner op = Some p" and "cells (processes k) p = Some pr"
    and "current_process k = Some c" and "cells (processes k) c = Some cr"
    and "\<forall>m < n. wsource op + (i + of_nat m) < 0x80000000"
  shows "\<exists>k'. write_bytes par mem n i op k =
      Some (map (\<lambda>m. user_memory k (ptable_address pr) (wsource op + (i + of_nat m))) [0..<n], k') \<and>
    processes k' = processes k \<and> user_memory k' = user_memory k \<and>
    (0 < n \<longrightarrow> current_application_table (kmmu k') = ptable_address cr)"
  using assms(2-5)
proof (induction n arbitrary: i k)
  case 0
  then show ?case by simp
next
  case (Suc n)
  let ?k1 = "use_table par cr (use_table par pr k)"
  have "wsource op + i < 0x80000000" using Suc.prems(4) [rule_format, of 0] by simp
  then have b: "write_operation_at par mem i op k = Some (user_memory k (ptable_address pr) (wsource op + i), ?k1)"
    using Suc.prems(1-3) assms(1) by (simp add: write_operation_at_def read_byte_def)
  have "wsource op + (i + 1 + of_nat m) < 0x80000000" if "m < n" for m
    using Suc.prems(4) [rule_format, of "Suc m"] that by (simp add: add.assoc)
  then obtain k' where k': "write_bytes par mem n (i + 1) op ?k1 =
      Some (map (\<lambda>m. user_memory k (ptable_address pr) (wsource op + (i + 1 + of_nat m))) [0..<n], k')"
    "processes k' = processes k" "user_memory k' = user_memory k"
    "0 < n \<longrightarrow> current_application_table (kmmu k') = ptable_address cr"
    using Suc.IH [of ?k1 "i + 1"] Suc.prems(1-3) by auto
  have "current_application_table (kmmu k') = ptable_address cr"
    using k'(1, 4) by (cases n) auto
  moreover have "map (\<lambda>m. user_memory k (ptable_address pr) (wsource op + (i + of_nat m))) [0..<Suc n] =
      user_memory k (ptable_address pr) (wsource op + i) #
      map (\<lambda>m. user_memory k (ptable_address pr) (wsource op + (i + 1 + of_nat m))) [0..<n]"
    by (simp add: map_upt_Suc add.assoc del: upt_Suc)
  ultimately show ?case using b k' by simp
qed

text \<open>With no current process, as after an exit or a wait, reading a byte for an owner is a fault.\<close>

lemma write_operation_idle:
  "owner op = Some p \<Longrightarrow> current_process k = None \<Longrightarrow> write_operation_at par mem index op k = None"
  by (cases "cells (processes k) p") (simp_all add: write_operation_at_def)

end
