(* ===== verification/Scheduler.thy ===== *)
theory Scheduler
  imports Process
begin

text \<open>
  The scheduler (\<open>kernel/scheduler.cpp\<close>) and the table of system calls (\<open>kernel/syscall.cpp\<close>).
  The pointer \<open>register_block\<close> tells the context switch where the registers of the interrupted
  program are saved and from where they are restored: it says which process the CPU runs.
\<close>

section \<open>System calls\<close>

type_synonym 's syscall = "u32 \<Rightarrow> u32 \<Rightarrow> u32 \<Rightarrow> 's \<Rightarrow> (u32 \<times> 's) option"

text \<open>The constructor's loop stops before the last entry; its function object is empty all the same.\<close>

definition syscall_handler_new :: "u8 \<Rightarrow> 's syscall option" where
  "syscall_handler_new = (\<lambda>_. None)"

definition register_syscall :: "'s syscall \<Rightarrow> u8 \<Rightarrow> (u8 \<Rightarrow> 's syscall option) \<Rightarrow> u8 \<Rightarrow> 's syscall option" where
  "register_syscall handler number handlers = handlers(number := Some handler)"

definition unregister_syscall :: "u8 \<Rightarrow> (u8 \<Rightarrow> 's syscall option) \<Rightarrow> u8 \<Rightarrow> 's syscall option" where
  "unregister_syscall number handlers = handlers(number := None)"

definition handle_syscall :: "(u8 \<Rightarrow> 's syscall option) \<Rightarrow> u8 \<Rightarrow> u32 \<Rightarrow> u32 \<Rightarrow> u32 \<Rightarrow> 's \<Rightarrow> (u32 \<times> 's) option" where
  "handle_syscall handlers number a1 a2 a3 s =
     (case handlers number of None \<Rightarrow> Some (0, s) | Some h \<Rightarrow> h a1 a2 a3 s)"

section \<open>The scheduler\<close>

text \<open>The interrupt returns, or stops the kernel when no process is left.\<close>

datatype outcome = Running kernel | Halted kernel

definition schedule :: "nat \<Rightarrow> kernel \<Rightarrow> kernel option" where
  "schedule p k = do { q \<leftarrow> push_back p (process_queue k); Some (k\<lparr>process_queue := q\<rparr>) }"

definition scheduler_new :: "kernel \<Rightarrow> kernel" where
  "scheduler_new k = k\<lparr>process_queue := kqueue_new, current_process := None, next_pid := 2,
     register_block := None, scheduler_ready := True\<rparr>"

text \<open>A process whose wait has ended gets the result of the call before it runs.\<close>

definition release_block :: "nat \<Rightarrow> kernel \<Rightarrow> kernel option" where
  "release_block p k = do {
     pr \<leftarrow> cells (processes k) p;
     case pblock pr of None \<Rightarrow> Some k
     | Some w \<Rightarrow> do {
         k1 \<leftarrow> block_return w k;
         k2 \<leftarrow> waitblock_delete w k1;
         upd_process p (pblock_update (\<lambda>_. None)) k2 } }"

definition interrupt :: "(u32 \<Rightarrow> u32) \<Rightarrow> kernel \<Rightarrow> outcome option" where
  "interrupt par k = do {
     k1 \<leftarrow> (case current_process k of None \<Rightarrow> Some k | Some c \<Rightarrow> schedule c k);
     (nxt, q) \<leftarrow> pop_front (process_queue k1);
     let k2 = k1\<lparr>process_queue := q\<rparr>;
     case nxt of
       None \<Rightarrow> Some (Halted k2)
     | Some p \<Rightarrow> do {
         let k3 = enable_addrspace par (k2\<lparr>current_process := Some p\<rparr>);
         b \<leftarrow> is_blocking p k3;
         if b then do {
           k4 \<leftarrow> schedule p k3;
           Some (Running (k4\<lparr>current_process := None\<rparr>)) }
         else do {
           k4 \<leftarrow> release_block p k3;
           Some (Running (k4\<lparr>register_block := Some p\<rparr>)) } } }"

definition syscall_exit :: "u32 \<Rightarrow> kernel \<Rightarrow> kernel option" where
  "syscall_exit retval k = do {
     p \<leftarrow> current_process k;
     k1 \<leftarrow> upd_process p (exit_code_update (\<lambda>_. retval)) k;
     k2 \<leftarrow> delete_process p k1;
     Some (k2\<lparr>current_process := None, register_block := None\<rparr>) }"

definition syscall_wait :: "u32 \<Rightarrow> u32 \<Rightarrow> kernel \<Rightarrow> kernel option" where
  "syscall_wait x loc k = do {
     p \<leftarrow> current_process k;
     (w, k1) \<leftarrow> waitblock_new x loc p k;
     k2 \<leftarrow> upd_process p (pblock_update (\<lambda>_. Some w)) k1;
     k3 \<leftarrow> schedule p k2;
     Some (k3\<lparr>current_process := None, register_block := None\<rparr>) }"

text \<open>
  The body of \<open>fork\<close> is commented out, so the function ends without a value, and using its value
  is a fault.
\<close>

definition fork :: "nat \<Rightarrow> kernel \<Rightarrow> nat option" where
  "fork p k = None"

definition syscall_fork :: "(u32 \<Rightarrow> u32) \<Rightarrow> kernel \<Rightarrow> (u32 \<times> kernel) option" where
  "syscall_fork par k = do {
     p \<leftarrow> current_process k;
     child \<leftarrow> fork p k;
     pr \<leftarrow> cells (processes k) p;
     let k1 = use_table par pr k;
     c \<leftarrow> cells (processes k1) child;
     if usable c then do { k2 \<leftarrow> schedule child k1; Some (pid c, k2) }
     else do { k2 \<leftarrow> delete_process child k1; Some (- 1, k2) } }"

section \<open>Process identifiers are unused\<close>

definition pids :: "kernel \<Rightarrow> nat list \<Rightarrow> u32 list" where
  "pids k ps = map (\<lambda>p. pid (the (cells (processes k) p))) ps"

lemma find_pid_list:
  assumes "\<forall>p \<in> set ps. cells s p \<noteq> None"
  shows "find_pid s x ps = Some (find (\<lambda>p. pid (the (cells s p)) = x) ps)"
  using assms by (induction ps) auto

lemma get_process_queue:
  assumes "kq_rep (process_queue k) ps" and "\<forall>p \<in> set ps. cells (processes k) p \<noteq> None"
  shows "get_process x k = Some (find (\<lambda>p. pid (the (cells (processes k) p)) = x) ps)"
  using kq.rep_elems [OF assms(1)] find_pid_list [OF assms(2)] by (simp add: get_process_def)

lemma get_process_None:
  assumes "kq_rep (process_queue k) ps" and "\<forall>p \<in> set ps. cells (processes k) p \<noteq> None"
  shows "get_process x k = Some None \<longleftrightarrow> x \<notin> set (pids k ps)"
  unfolding get_process_queue [OF assms] by (force simp: find_None_iff pids_def image_iff)

lemma allocate_pid_run:
  assumes "kq_rep (process_queue k) ps" and "\<forall>p \<in> set ps. cells (processes k) p \<noteq> None"
    and "\<forall>m < n. next_pid k + of_nat m \<in> set (pids k ps)" and "next_pid k + of_nat n \<notin> set (pids k ps)"
  shows "allocate_pid k = Some (next_pid k + of_nat n, k\<lparr>next_pid := next_pid k + of_nat n + 1\<rparr>)"
  using assms
proof (induction n arbitrary: k)
  case 0
  then have "get_process (next_pid k) (k\<lparr>next_pid := next_pid k + 1\<rparr>) = Some None"
    using get_process_None [of "k\<lparr>next_pid := next_pid k + 1\<rparr>" ps "next_pid k"]
    by (simp add: pids_def)
  then show ?case by (subst allocate_pid.simps) (simp add: Let_def)
next
  case (Suc n)
  let ?k = "k\<lparr>next_pid := next_pid k + 1\<rparr>"
  have "next_pid k \<in> set (pids k ps)" using Suc.prems(3) [rule_format, of 0] by simp
  then have "get_process (next_pid k) ?k \<noteq> Some None"
    using get_process_None [of ?k ps "next_pid k"] Suc.prems(1,2) by (simp add: pids_def)
  moreover have "get_process (next_pid k) ?k \<noteq> None"
    using get_process_queue [of ?k ps "next_pid k"] Suc.prems(1,2) by simp
  moreover have "allocate_pid ?k = Some (next_pid ?k + of_nat n, ?k\<lparr>next_pid := next_pid ?k + of_nat n + 1\<rparr>)"
  proof (rule Suc.IH)
    show "\<forall>m < n. next_pid ?k + of_nat m \<in> set (pids ?k ps)"
    proof (intro allI impI)
      fix m assume "m < n"
      with Suc.prems(3) have "next_pid k + of_nat (Suc m) \<in> set (pids k ps)" by blast
      then show "next_pid ?k + of_nat m \<in> set (pids ?k ps)" by (simp add: pids_def algebra_simps)
    qed
  qed (use Suc.prems in \<open>simp_all add: pids_def algebra_simps\<close>)
  ultimately obtain v where "get_process (next_pid k) ?k = Some (Some v)"
    and rest: "allocate_pid ?k = Some (next_pid ?k + of_nat n, ?k\<lparr>next_pid := next_pid ?k + of_nat n + 1\<rparr>)"
    by (cases "get_process (next_pid k) ?k") auto
  then have "allocate_pid k = allocate_pid ?k"
    by (subst allocate_pid.simps) (simp add: Let_def)
  moreover have "next_pid ?k + of_nat n = next_pid k + of_nat (Suc n)" by (simp add: add.commute add.left_commute)
  ultimately show ?case using rest by simp
qed

text \<open>
  C30: with fewer than 2 to the 32 processes in the queue the search for an identifier ends,
  although it calls itself without a bound: it returns the first number from \<open>next_pid\<close> on, modulo
  2 to the 32, that no queued process has, and continues after it the next time.
\<close>

theorem allocate_pid_unused:
  assumes "kq_rep (process_queue k) ps" and "\<forall>p \<in> set ps. cells (processes k) p \<noteq> None"
    and "length ps < 2 ^ 32"
  shows "\<exists>x. allocate_pid k = Some (x, k\<lparr>next_pid := x + 1\<rparr>) \<and> x \<notin> set (pids k ps) \<and>
    (\<forall>y. y - next_pid k < x - next_pid k \<longrightarrow> y \<in> set (pids k ps))"
proof -
  have "card (set (pids k ps)) < 2 ^ 32"
    using card_length [of "pids k ps"] assms(3) by (simp add: pids_def)
  also have "(2 :: nat) ^ 32 = card (UNIV :: u32 set)" by (simp add: card_word)
  finally have "set (pids k ps) \<noteq> UNIV" by auto
  then obtain y where y: "y \<notin> set (pids k ps)" by blast
  define P where "P = (\<lambda>n. next_pid k + of_nat n \<notin> set (pids k ps))"
  have "P (unat (y - next_pid k))" using y by (simp add: P_def)
  then obtain n where n: "P n" "\<forall>m < n. \<not> P m" and le: "n \<le> unat (y - next_pid k)"
    using exists_least_iff [of P] by (metis leI)
  define x where "x = next_pid k + of_nat n"
  have nx: "unat (x - next_pid k) = n"
    using le unat_u32 [of "y - next_pid k"] by (simp add: x_def unat_word_of_nat_small)
  have "z \<in> set (pids k ps)" if "z - next_pid k < x - next_pid k" for z
  proof -
    have "unat (z - next_pid k) < n" using that nx by (simp add: word_less_nat_alt)
    with n(2) show ?thesis by (fastforce simp: P_def)
  qed
  with allocate_pid_run [OF assms(1,2), of n] n show ?thesis
    by (intro exI [of _ x]) (simp add: P_def x_def)
qed

end
