(* ===== verification/Scheduler_Run.thy ===== *)
theory Scheduler_Run
  imports Scheduler
begin

text \<open>
  What the scheduler guarantees: the turns of the processes, the effect of the end of a process on
  those that wait for it, and what becomes of a wait for a process that does not exist.
\<close>

section \<open>The processes in turn\<close>

text \<open>
  The processes that the scheduler knows, in the order of their turns: the queue and then the
  current one. Each exists and occurs once, and a wait block that a process has is its own and holds
  its results when it is no longer active.
\<close>

definition known :: "kernel \<Rightarrow> nat list \<Rightarrow> nat list" where
  "known k ps = ps @ (case current_process k of None \<Rightarrow> [] | Some c \<Rightarrow> [c])"

definition block_ok :: "kernel \<Rightarrow> nat \<Rightarrow> nat \<Rightarrow> bool" where
  "block_ok k p w \<longleftrightarrow> (\<exists>b. cells (waitblocks k) w = Some b \<and> caller b = p \<and>
     (\<not> active b \<longrightarrow> terminated_pid b \<noteq> None \<and> (status_loc b \<noteq> 0 \<longrightarrow> wexit_code b \<noteq> None)))"

definition process_ok :: "kernel \<Rightarrow> nat \<Rightarrow> bool" where
  "process_ok k p \<longleftrightarrow> (\<exists>pr. cells (processes k) p = Some pr \<and> (\<forall>w. pblock pr = Some w \<longrightarrow> block_ok k p w))"

definition ready :: "kernel \<Rightarrow> nat list \<Rightarrow> bool" where
  "ready k ps \<longleftrightarrow> kq_rep (process_queue k) ps \<and> distinct (known k ps) \<and>
     (\<forall>p \<in> set (known k ps). process_ok k p)"

lemma process_ok_frame:
  "processes k' = processes k \<Longrightarrow> waitblocks k' = waitblocks k \<Longrightarrow> process_ok k' p = process_ok k p"
  by (simp add: process_ok_def block_ok_def)

lemma kernel_frame [simp]:
  "processes (enable_addrspace par k) = processes k" "waitblocks (enable_addrspace par k) = waitblocks k"
  "process_queue (enable_addrspace par k) = process_queue k"
  "current_process (enable_addrspace par k) = current_process k"
  "register_block (enable_addrspace par k) = register_block k"
  "processes (user_store_word a v k) = processes k" "waitblocks (user_store_word a v k) = waitblocks k"
  "process_queue (user_store_word a v k) = process_queue k"
  "current_process (user_store_word a v k) = current_process k"
  "register_block (user_store_word a v k) = register_block k"
  by (simp_all add: enable_addrspace_def user_store_word_def user_store_def Let_def)

lemma is_blocking_frame:
  "processes k' = processes k \<Longrightarrow> waitblocks k' = waitblocks k \<Longrightarrow> is_blocking p k' = is_blocking p k"
  by (cases "cells (processes k) p") (auto simp: is_blocking_def split: option.split)

lemma is_blocking_ok:
  assumes "process_ok k p"
  shows "is_blocking p k \<noteq> None"
proof -
  from assms obtain pr where "cells (processes k) p = Some pr"
    "\<forall>w. pblock pr = Some w \<longrightarrow> block_ok k p w" by (auto simp: process_ok_def)
  then show ?thesis by (cases "pblock pr") (auto simp: block_ok_def is_blocking_def)
qed

text \<open>A block that is released gives its results and disappears, with no effect on another process.\<close>

lemma release_block_ok:
  assumes "process_ok k p" and "is_blocking p k = Some False"
  shows "\<exists>k'. release_block p k = Some k' \<and> process_queue k' = process_queue k \<and>
    current_process k' = current_process k \<and> register_block k' = register_block k \<and>
    (\<exists>pr. cells (processes k') p = Some pr \<and> pblock pr = None) \<and>
    (\<forall>q. q \<noteq> p \<longrightarrow> cells (processes k') q = cells (processes k) q) \<and>
    (\<forall>q. q \<noteq> p \<longrightarrow> process_ok k q \<longrightarrow> process_ok k' q \<and> is_blocking q k' = is_blocking q k)"
proof -
  from assms(1) obtain pr where pr: "cells (processes k) p = Some pr"
    and bl: "\<forall>w. pblock pr = Some w \<longrightarrow> block_ok k p w" by (auto simp: process_ok_def)
  show ?thesis
  proof (cases "pblock pr")
    case None
    with pr show ?thesis by (simp add: release_block_def)
  next
    case (Some w)
    with bl assms(2) pr obtain b t where b: "cells (waitblocks k) w = Some b" "caller b = p"
      "terminated_pid b = Some t" "status_loc b \<noteq> 0 \<longrightarrow> wexit_code b \<noteq> None"
      by (auto simp: block_ok_def is_blocking_def)
    let ?pr = "pr\<lparr>registers := set_reg 0 t (registers pr)\<rparr>"
    let ?k1 = "k\<lparr>processes := (processes k)\<lparr>cells := (cells (processes k))(p \<mapsto> ?pr)\<rparr>\<rparr>"
    obtain k1 where k1: "block_return w k = Some k1" "processes k1 = processes ?k1"
      "waitblocks k1 = waitblocks k" "process_queue k1 = process_queue k"
      "current_process k1 = current_process k" "register_block k1 = register_block k"
      using b pr by (cases "status_loc b = 0") (auto simp: block_return_def upd_process_def modify_cell)
    define pr1 where "pr1 = (if waitpid b = - 1 \<or> waitpid b = 0 then ?pr\<lparr>child_termination_listener := None\<rparr> else ?pr)"
    obtain k2 where k2: "waitblock_delete w k1 = Some k2"
      "processes k2 = (processes k)\<lparr>cells := (cells (processes k))(p \<mapsto> pr1)\<rparr>"
      "cells (waitblocks k2) = (cells (waitblocks k))(w := None)" "process_queue k2 = process_queue k"
      "current_process k2 = current_process k" "register_block k2 = register_block k"
      using b k1 by (cases "waitpid b = - 1 \<or> waitpid b = 0")
        (simp_all add: waitblock_delete_def set_child_termination_listener_def upd_process_def
          modify_cell delete_cell pr1_def)
    let ?k3 = "k2\<lparr>processes := (processes k)\<lparr>cells := (cells (processes k))(p \<mapsto> pr1\<lparr>pblock := None\<rparr>)\<rparr>\<rparr>"
    have "release_block p k = Some ?k3"
      using pr Some k1(1) k2 by (simp add: release_block_def upd_process_def modify_cell)
    moreover have "process_ok ?k3 q \<and> is_blocking q ?k3 = is_blocking q k" if q: "q \<noteq> p" "process_ok k q" for q
    proof -
      from q(2) obtain pq where pq: "cells (processes k) q = Some pq"
        "\<forall>v. pblock pq = Some v \<longrightarrow> block_ok k q v" by (auto simp: process_ok_def)
      have "block_ok ?k3 q v \<and> cells (waitblocks ?k3) v = cells (waitblocks k) v" if "pblock pq = Some v" for v
        using that pq(2) q(1) b k2(3) by (auto simp: block_ok_def)
      with pq(1) q(1) show ?thesis
        by (cases "pblock pq") (simp_all add: process_ok_def is_blocking_def)
    qed
    ultimately show ?thesis
      using k2 by (intro exI [of _ ?k3]) simp
  qed
qed

lemma interrupt_turn:
  assumes "ready k ps" and "known k ps = p # rest"
  shows "\<exists>k'. interrupt par k = Some (Running k') \<and>
    (\<forall>q. q \<noteq> p \<longrightarrow> cells (processes k') q = cells (processes k) q) \<and>
    (\<forall>q \<in> set rest. is_blocking q k' = is_blocking q k) \<and>
    (if is_blocking p k = Some True
     then current_process k' = None \<and> ready k' (rest @ [p]) \<and> register_block k' = register_block k \<and>
       processes k' = processes k \<and> waitblocks k' = waitblocks k
     else current_process k' = Some p \<and> ready k' rest \<and> register_block k' = Some p \<and>
       (\<exists>pr. cells (processes k') p = Some pr \<and> pblock pr = None))"
proof -
  from assms have q: "kq_rep (process_queue k) ps" and d: "distinct (p # rest)"
    and ok: "\<forall>x \<in> set (p # rest). process_ok k x"
    by (auto simp: ready_def)
  obtain q1 where q1: "kq_rep q1 (p # rest)"
    "(case current_process k of None \<Rightarrow> Some k | Some c \<Rightarrow> schedule c k) = Some (k\<lparr>process_queue := q1\<rparr>)"
  proof (cases "current_process k")
    case None
    with q assms(2) show ?thesis by (intro that [of "process_queue k"]) (simp_all add: known_def)
  next
    case (Some c)
    with kq.rep_pushb [OF q, of c] assms(2) show ?thesis
      by (auto simp: known_def schedule_def intro: that)
  qed
  obtain q2 where q2: "pop_front q1 = Some (Some p, q2)" "kq_rep q2 rest"
    using kq.popf_cases [OF q1(1)] by auto
  let ?k3 = "enable_addrspace par (k\<lparr>process_queue := q2, current_process := Some p\<rparr>)"
  have fr: "processes ?k3 = processes k" "waitblocks ?k3 = waitblocks k" by simp_all
  obtain b where b: "is_blocking p k = Some b" using is_blocking_ok [of k p] ok by auto
  then have b3: "is_blocking p ?k3 = Some b" using is_blocking_frame [OF fr] by simp
  show ?thesis
  proof (cases b)
    case True
    obtain q3 where q3: "push_back p q2 = Some q3" "kq_rep q3 (rest @ [p])"
      using kq.rep_pushb [OF q2(2), of p] by auto
    let ?k = "?k3\<lparr>process_queue := q3, current_process := None\<rparr>"
    have "interrupt par k = Some (Running ?k)"
      using q1(2) q2(1) q3(1) b3 True by (simp add: interrupt_def schedule_def)
    moreover have "ready ?k (rest @ [p])"
      using q3(2) d ok process_ok_frame [of ?k k] by (auto simp: ready_def known_def)
    moreover have "is_blocking x ?k = is_blocking x k" for x
      by (rule is_blocking_frame) simp_all
    ultimately show ?thesis
      using b True by (intro exI [of _ ?k]) simp
  next
    case False
    have "process_ok ?k3 p" using process_ok_frame [OF fr] ok by simp
    from release_block_ok [OF this] b3 False obtain k4 where k4: "release_block p ?k3 = Some k4"
      "process_queue k4 = q2" "current_process k4 = Some p"
      "\<exists>pr. cells (processes k4) p = Some pr \<and> pblock pr = None"
      "\<forall>q. q \<noteq> p \<longrightarrow> cells (processes k4) q = cells (processes k) q"
      "\<forall>q. q \<noteq> p \<longrightarrow> process_ok ?k3 q \<longrightarrow> process_ok k4 q \<and> is_blocking q k4 = is_blocking q ?k3" by auto
    let ?k = "k4\<lparr>register_block := Some p\<rparr>"
    have "interrupt par k = Some (Running ?k)"
      using q1(2) q2(1) k4(1) b3 False by (simp add: interrupt_def)
    moreover have "process_ok ?k x" if "x \<in> set (rest @ [p])" for x
    proof (cases "x = p")
      case True
      with k4(4) show ?thesis by (auto simp: process_ok_def)
    next
      case False
      with that ok have "process_ok k x" by simp
      with False k4(6) process_ok_frame [OF fr] process_ok_frame [of ?k k4] show ?thesis by simp
    qed
    then have "ready ?k rest"
      using q2(2) k4(2,3) d by (auto simp: ready_def known_def)
    moreover have "is_blocking x ?k = is_blocking x k" if "x \<in> set rest" for x
    proof -
      have "x \<noteq> p" "process_ok ?k3 x" using that d ok process_ok_frame [OF fr] by auto
      with k4(6) is_blocking_frame [OF fr, of x] is_blocking_frame [of ?k k4 x] show ?thesis by simp
    qed
    ultimately show ?thesis
      using b False k4 by (intro exI [of _ ?k]) simp
  qed
qed

lemma interrupt_empty:
  assumes "ready k ps" and "known k ps = []"
  shows "\<exists>k'. interrupt par k = Some (Halted k')"
proof -
  from assms have "current_process k = None" "kq_rep (process_queue k) []"
    by (auto simp: known_def ready_def split: option.splits)
  with kq.popf_cases [of "process_queue k" "[]"] show ?thesis
    by (auto simp: interrupt_def)
qed

fun interrupts :: "(u32 \<Rightarrow> u32) \<Rightarrow> nat \<Rightarrow> kernel \<Rightarrow> outcome option" where
  "interrupts par 0 k = Some (Running k)"
| "interrupts par (Suc n) k = do {
     r \<leftarrow> interrupt par k;
     case r of Running k' \<Rightarrow> interrupts par n k' | Halted k' \<Rightarrow> Some (Halted k') }"

lemma interrupts_reach:
  assumes "ready k ps" and "known k ps = xs @ p # ys" and "is_blocking p k = Some False"
  shows "\<exists>k' qs. interrupts par (Suc (length xs)) k = Some (Running k') \<and> current_process k' = Some p \<and>
    register_block k' = Some p \<and> ready k' qs \<and> known k' qs = ys @ xs @ [p] \<and>
    (\<forall>q \<in> set (known k ps). is_blocking q k = Some True \<longrightarrow> is_blocking q k' = Some True)"
  using assms
proof (induction xs arbitrary: k ps ys)
  case Nil
  with interrupt_turn [OF Nil.prems(1), of p ys par] obtain k' where
    "interrupt par k = Some (Running k')" "current_process k' = Some p" "ready k' ys" "register_block k' = Some p"
    "\<forall>q \<in> set ys. is_blocking q k' = is_blocking q k"
    by auto
  moreover have "set (known k ps) = insert p (set ys)" using Nil.prems(2) by simp
  ultimately show ?case
    using Nil.prems(3) by (intro exI [of _ k'] exI [of _ ys]) (auto simp: known_def [of k'])
next
  case (Cons x xs)
  let ?rest = "xs @ p # ys"
  from Cons.prems have kn: "known k ps = x # ?rest" by simp
  from Cons.prems(1) kn have "x \<noteq> p" by (auto simp: ready_def)
  from interrupt_turn [OF Cons.prems(1) kn, of par] obtain k1 where
    k1: "interrupt par k = Some (Running k1)" "\<forall>q \<in> set ?rest. is_blocking q k1 = is_blocking q k"
    and turn: "if is_blocking x k = Some True
      then current_process k1 = None \<and> ready k1 (?rest @ [x]) \<and> register_block k1 = register_block k \<and>
        processes k1 = processes k \<and> waitblocks k1 = waitblocks k
      else current_process k1 = Some x \<and> ready k1 ?rest \<and> register_block k1 = Some x \<and>
        (\<exists>pr. cells (processes k1) x = Some pr \<and> pblock pr = None)"
    by blast
  from turn obtain qs where qs: "ready k1 qs" "known k1 qs = xs @ p # (ys @ [x])"
    by (cases "is_blocking x k = Some True") (auto simp: known_def)
  have "is_blocking p k1 = Some False" using k1(2) Cons.prems(3) by simp
  from Cons.IH [OF qs this] obtain k' qs' where
    2: "interrupts par (Suc (length xs)) k1 = Some (Running k')" "current_process k' = Some p" "register_block k' = Some p"
      "ready k' qs'" "known k' qs' = (ys @ [x]) @ xs @ [p]"
      "\<forall>q \<in> set (known k1 qs). is_blocking q k1 = Some True \<longrightarrow> is_blocking q k' = Some True" by blast
  have "is_blocking q k1 = Some True" if "q \<in> set (known k ps)" "is_blocking q k = Some True" for q
  proof (cases "q = x")
    case True
    with turn that(2) is_blocking_frame [of k1 k x] show ?thesis by simp
  next
    case False
    with kn that(1) have "q \<in> set ?rest" by auto
    with k1(2) have "is_blocking q k1 = is_blocking q k" by (rule bspec)
    with that(2) show ?thesis by simp
  qed
  moreover have "set (known k1 qs) = set (known k ps)" using qs(2) kn by auto
  ultimately show ?case
    using 2 k1(1) by (intro exI [of _ k'] exI [of _ qs']) auto
qed

text \<open>
  C9: the scheduler serves the processes in turn, and only them. An interrupt with a process to run
  always returns: it puts the current process at the end and takes the first one. If that one does not
  wait, it runs, and its registers are those the context switch restores; if it waits, it goes to the
  end, no process is current, the registers to restore are still those of the process that ran before,
  and no process and no wait block has changed. In both cases every other process waits after the
  interrupt exactly if it did before. A process that does not wait therefore runs after at most as many
  interrupts as there are processes before it, plus one, and those that waited before still wait
  then. With no process left the kernel halts.
\<close>

theorem scheduler_round_robin:
  assumes "ready k ps"
  shows "(known k ps = [] \<longrightarrow> (\<exists>k'. interrupt par k = Some (Halted k'))) \<and>
    (\<forall>p rest. known k ps = p # rest \<longrightarrow> (\<exists>k' qs. interrupt par k = Some (Running k') \<and> ready k' qs \<and>
       known k' qs = rest @ [p] \<and> (\<forall>q \<in> set rest. is_blocking q k' = is_blocking q k) \<and>
       (\<forall>q. q \<noteq> p \<longrightarrow> cells (processes k') q = cells (processes k) q) \<and>
       (if is_blocking p k = Some True
        then current_process k' = None \<and> register_block k' = register_block k \<and>
          processes k' = processes k \<and> waitblocks k' = waitblocks k \<and> is_blocking p k' = Some True
        else current_process k' = Some p \<and> register_block k' = Some p))) \<and>
    (\<forall>xs p ys. known k ps = xs @ p # ys \<longrightarrow> is_blocking p k = Some False \<longrightarrow>
       (\<exists>k'. interrupts par (length xs + 1) k = Some (Running k') \<and> current_process k' = Some p \<and>
         (\<forall>q \<in> set (known k ps). is_blocking q k = Some True \<longrightarrow> is_blocking q k' = Some True)))"
proof (intro conjI allI impI)
  fix p rest assume kn: "known k ps = p # rest"
  from interrupt_turn [OF assms kn, of par] obtain k' where
    t: "interrupt par k = Some (Running k')" "\<forall>q. q \<noteq> p \<longrightarrow> cells (processes k') q = cells (processes k) q"
      "\<forall>q \<in> set rest. is_blocking q k' = is_blocking q k"
      "if is_blocking p k = Some True
       then current_process k' = None \<and> ready k' (rest @ [p]) \<and> register_block k' = register_block k \<and>
         processes k' = processes k \<and> waitblocks k' = waitblocks k
       else current_process k' = Some p \<and> ready k' rest \<and> register_block k' = Some p \<and>
         (\<exists>pr. cells (processes k') p = Some pr \<and> pblock pr = None)" by blast
  show "\<exists>k' qs. interrupt par k = Some (Running k') \<and> ready k' qs \<and>
      known k' qs = rest @ [p] \<and> (\<forall>q \<in> set rest. is_blocking q k' = is_blocking q k) \<and>
      (\<forall>q. q \<noteq> p \<longrightarrow> cells (processes k') q = cells (processes k) q) \<and>
      (if is_blocking p k = Some True
       then current_process k' = None \<and> register_block k' = register_block k \<and>
         processes k' = processes k \<and> waitblocks k' = waitblocks k \<and> is_blocking p k' = Some True
       else current_process k' = Some p \<and> register_block k' = Some p)"
  proof (cases "is_blocking p k = Some True")
    case True
    with t(4) is_blocking_frame [of k' k p] have "is_blocking p k' = Some True" by simp
    with True t show ?thesis by (intro exI [of _ k'] exI [of _ "rest @ [p]"]) (simp add: known_def)
  next
    case False
    with t show ?thesis by (intro exI [of _ k'] exI [of _ rest]) (simp add: known_def)
  qed
next
  fix xs p ys assume "known k ps = xs @ p # ys" "is_blocking p k = Some False"
  from interrupts_reach [OF assms this, of par] show
    "\<exists>k'. interrupts par (length xs + 1) k = Some (Running k') \<and> current_process k' = Some p \<and>
       (\<forall>q \<in> set (known k ps). is_blocking q k = Some True \<longrightarrow> is_blocking q k' = Some True)"
    by auto
qed (use interrupt_empty [OF assms] in blast)

text \<open>A kernel with processes 0 to \<open>n - 1\<close>, none of which waits.\<close>

definition idle_mmu :: mmu where
  "idle_mmu = \<lparr>kernel_table = tt_new 4096, kmem = boot_mem, next_device_addr = 0xc0000000,
     current_application_table = 0, asid = 0, ttbcr = 1, ttbr0 = 0, ttbr1 = 0, dacr = 0, contextidr = 0\<rparr>"

definition example_kernel :: "process list \<Rightarrow> waitblock list \<Rightarrow> nat kqueue \<Rightarrow> kernel" where
  "example_kernel prs bs q = \<lparr>processes = \<lparr>cells = (\<lambda>i. if i < length prs then Some (prs ! i) else None), fresh = length prs\<rparr>,
     waitblocks = \<lparr>cells = (\<lambda>i. if i < length bs then Some (bs ! i) else None), fresh = length bs\<rparr>,
     process_queue = q, current_process = None, next_pid = 2, scheduler_ready = True,
     register_block = None, kmmu = idle_mmu, user_memory = (\<lambda>_ _. 0)\<rparr>"

lemma kq_rep_exists: "\<exists>q. kq_rep q xs"
proof (induction xs rule: rev_induct)
  case Nil
  then show ?case using kq.rep_init by blast
next
  case (snoc x xs)
  then obtain q where "kq_rep q xs" by blast
  from kq.rep_pushb [OF this, of x] show ?case by blast
qed

definition example_waiter :: waitblock where
  "example_waiter = \<lparr>waitpid = 7, status_loc = 0, wexit_code = None, caller = 0, terminated_pid = None, active = True\<rparr>"

lemma scheduler_round_robin_witness:
  "\<exists>k k'. ready k [0, 1] \<and> is_blocking 0 k = Some True \<and> interrupts (\<lambda>a. a) 2 k = Some (Running k') \<and>
     current_process k' = Some 1 \<and> is_blocking 0 k' = Some True"
proof -
  obtain q where q: "kq_rep q [0 :: nat, 1]" using kq_rep_exists by blast
  let ?k = "example_kernel [blank_process\<lparr>pblock := Some 0\<rparr>, blank_process] [example_waiter] q"
  have r: "ready ?k [0, 1]" "known ?k [0, 1] = [0] @ 1 # []" "is_blocking 1 ?k = Some False"
    "is_blocking 0 ?k = Some True"
    using q by (auto simp: ready_def known_def process_ok_def block_ok_def example_kernel_def
        blank_process_def example_waiter_def is_blocking_def less_Suc_eq)
  with scheduler_round_robin [OF r(1), of "\<lambda>a. a"] have
    "\<exists>k'. interrupts (\<lambda>a. a) (length [0 :: nat] + 1) ?k = Some (Running k') \<and> current_process k' = Some 1 \<and>
       (\<forall>q \<in> set (known ?k [0, 1]). is_blocking q ?k = Some True \<longrightarrow> is_blocking q k' = Some True)"
    by blast
  then obtain k' where "interrupts (\<lambda>a. a) (length [0 :: nat] + 1) ?k = Some (Running k')"
    "current_process k' = Some 1" "is_blocking 0 k' = Some True" using r by auto
  with r show ?thesis by (intro exI [of _ ?k] exI [of _ k']) (simp add: numeral_2_eq_2)
qed

lemma allocate_pid_unused_witness:
  "\<exists>k x. kq_rep (process_queue k) [0] \<and> allocate_pid k = Some (x, k\<lparr>next_pid := x + 1\<rparr>) \<and>
     x \<notin> set (pids k [0])"
proof -
  obtain q where q: "kq_rep q [0 :: nat]" using kq_rep_exists by blast
  let ?k = "example_kernel [blank_process\<lparr>pid := 2\<rparr>] [] q"
  have "kq_rep (process_queue ?k) [0]" "\<forall>p \<in> set [0]. cells (processes ?k) p \<noteq> None"
    using q by (simp_all add: example_kernel_def)
  from allocate_pid_unused [OF this] this show ?thesis by auto
qed

section \<open>The end of a process\<close>

text \<open>What the end of a process with this identifier and exit code does to a wait block.\<close>

definition ended :: "u32 \<Rightarrow> u32 \<Rightarrow> waitblock \<Rightarrow> waitblock" where
  "ended x e b = b\<lparr>terminated_pid := Some x, wexit_code := Some e, active := False\<rparr>"

lemma ended_idem [simp]: "ended x e (ended x e b) = ended x e b"
  by (simp add: ended_def)

text \<open>A notification changes no process but in its list of children.\<close>

definition childless :: "kernel \<Rightarrow> nat \<Rightarrow> process option" where
  "childless k p = map_option (children_update (\<lambda>_. kqueue_new)) (cells (processes k) p)"

definition notified :: "nat \<Rightarrow> kernel \<Rightarrow> kernel \<Rightarrow> bool" where
  "notified child k k' \<longleftrightarrow> childless k' = childless k \<and>
     (\<forall>c w b. cells (processes k) child = Some c \<longrightarrow> cells (waitblocks k) w = Some b \<longrightarrow>
        cells (waitblocks k') w \<in> {Some b, Some (ended (pid c) (exit_code c) b)})"

lemma childless_child:
  "childless k' p = childless k p \<Longrightarrow> cells (processes k) p = Some c \<Longrightarrow>
     \<exists>c'. cells (processes k') p = Some c' \<and> pid c' = pid c \<and> exit_code c' = exit_code c \<and>
       pblock c' = pblock c \<and> registers c' = registers c"
proof -
  assume a: "childless k' p = childless k p" "cells (processes k) p = Some c"
  then obtain c' where c': "cells (processes k') p = Some c'"
    "children_update (\<lambda>_. kqueue_new) c' = children_update (\<lambda>_. kqueue_new) c"
    by (auto simp: childless_def)
  from arg_cong [OF c'(2), of pid] arg_cong [OF c'(2), of exit_code] arg_cong [OF c'(2), of pblock]
    arg_cong [OF c'(2), of registers] c'(1) show ?thesis by simp
qed

lemma notified_trans:
  assumes "notified child k k1" and "notified child k1 k2"
  shows "notified child k k2"
  unfolding notified_def
proof (intro conjI allI impI)
  show "childless k2 = childless k" using assms by (simp add: notified_def)
  fix c w b assume c: "cells (processes k) child = Some c" "cells (waitblocks k) w = Some b"
  from assms(1) have "childless k1 child = childless k child" by (simp add: notified_def)
  from childless_child [OF this c(1)] obtain c1 where c1: "cells (processes k1) child = Some c1"
    "pid c1 = pid c" "exit_code c1 = exit_code c" by blast
  from assms(1) c have "cells (waitblocks k1) w \<in> {Some b, Some (ended (pid c) (exit_code c) b)}"
    by (auto simp: notified_def)
  with assms(2) c1 show "cells (waitblocks k2) w \<in> {Some b, Some (ended (pid c) (exit_code c) b)}"
    by (fastforce simp: notified_def)
qed

lemma waitblock_terminated_notified:
  assumes "waitblock_terminated w child k = Some k'"
  shows "notified child k k' \<and> (\<exists>c b. cells (processes k) child = Some c \<and> cells (waitblocks k) w = Some b \<and>
    cells (waitblocks k') w = Some (ended (pid c) (exit_code c) b))"
proof -
  obtain c where c: "cells (processes k) child = Some c"
    "upd_waitblock w (ended (pid c) (exit_code c)) k = Some k'"
    using assms by (auto simp: waitblock_terminated_def ended_def [abs_def] split: Option.bind_splits)
  then obtain b where b: "cells (waitblocks k) w = Some b"
    by (cases "cells (waitblocks k) w") (auto simp: upd_waitblock_def modify_dangling)
  with c show ?thesis
    by (auto simp: upd_waitblock_def modify_cell notified_def childless_def fun_eq_iff)
qed

lemma notify_notified:
  assumes "notify l child k = Some k'"
  shows "notified child k k'"
proof (rule notify.raw_induct [OF _ assms])
  fix f l child k k'
  assume IH: "\<And>l child k k'. f l child k = Some k' \<Longrightarrow> notified child k k'"
    and step: "(case l of
        Process_listener p \<Rightarrow> do {
          pr \<leftarrow> cells (processes k) p;
          k1 \<leftarrow> (case child_termination_listener pr of None \<Rightarrow> Some k | Some l' \<Rightarrow> f l' child k);
          pr1 \<leftarrow> cells (processes k1) p;
          q \<leftarrow> remove_first child (children pr1);
          upd_process p (children_update (\<lambda>_. q)) k1 }
      | Waitblock_listener w \<Rightarrow> waitblock_terminated w child k) = Some k'"
  show "notified child k k'"
  proof (cases l)
    case (Waitblock_listener w)
    with step waitblock_terminated_notified show ?thesis by auto
  next
    case (Process_listener p)
    with step obtain pr k1 pr1 q where k1: "cells (processes k) p = Some pr"
      "(case child_termination_listener pr of None \<Rightarrow> Some k | Some l' \<Rightarrow> f l' child k) = Some k1"
      "cells (processes k1) p = Some pr1" "upd_process p (children_update (\<lambda>_. q)) k1 = Some k'"
      by (auto split: Option.bind_splits)
    have "notified child k k" by (simp add: notified_def)
    with k1(2) IH have 1: "notified child k k1" by (auto split: option.splits)
    have "notified child k1 k'"
      using k1(3,4) by (auto simp: upd_process_def modify_cell notified_def childless_def fun_eq_iff)
    with 1 show ?thesis by (rule notified_trans)
  qed
qed

lemma notify_all_notified:
  assumes "notify_all ls child k = Some k'" and "cells (processes k) child = Some c"
  shows "notified child k k' \<and> (\<forall>w b. Waitblock_listener w \<in> set ls \<longrightarrow> cells (waitblocks k) w = Some b \<longrightarrow>
    cells (waitblocks k') w = Some (ended (pid c) (exit_code c) b))"
  using assms
proof (induction ls arbitrary: k c)
  case Nil
  then show ?case by (simp add: notified_def)
next
  case (Cons l ls)
  then obtain k1 where k1: "notify l child k = Some k1" "notify_all ls child k1 = Some k'"
    by (auto split: Option.bind_splits)
  note n1 = notify_notified [OF k1(1)]
  then have "childless k1 child = childless k child" by (simp add: notified_def)
  from childless_child [OF this Cons.prems(2)] obtain c1 where c1: "cells (processes k1) child = Some c1"
    "pid c1 = pid c" "exit_code c1 = exit_code c" by blast
  note IH = Cons.IH [OF k1(2) c1(1)]
  have "cells (waitblocks k') w = Some (ended (pid c) (exit_code c) b)"
    if w: "Waitblock_listener w \<in> set (l # ls)" and b: "cells (waitblocks k) w = Some b" for w b
  proof -
    from n1 Cons.prems(2) b have "cells (waitblocks k1) w \<in> {Some b, Some (ended (pid c) (exit_code c) b)}"
      by (auto simp: notified_def)
    moreover have "cells (waitblocks k1) w = Some (ended (pid c) (exit_code c) b)" if "l = Waitblock_listener w"
      using that k1(1) waitblock_terminated_notified [of w child k k1] Cons.prems(2) b
      by (auto simp: notify.simps)
    ultimately show ?thesis
      using w IH c1 by (auto simp: notified_def) (metis ended_idem)+
  qed
  with notified_trans [OF n1] IH show ?case by blast
qed

lemma delete_process_parts:
  assumes "delete_process p k = Some k'" and "cells (processes k) p = Some pr"
    and "elements (termination_listeners pr) = Some ls"
  shows "\<exists>k0 k1. processes k0 = processes k \<and> waitblocks k0 = waitblocks k \<and> notify_all ls p k0 = Some k1 \<and>
    waitblocks k' = waitblocks k1 \<and> cells (processes k') = (cells (processes k1))(p := None)"
proof -
  obtain m0 where m0: "operator_delete (kstack pr) (mmem (kmem (kmmu k))) = Some m0"
    using assms(1,2) by (auto simp: delete_process_def split: Option.bind_splits)
  let ?k0 = "k\<lparr>kmmu := (kmmu k)\<lparr>kmem := (kmem (kmmu k))\<lparr>mmem := m0\<rparr>\<rparr>\<rparr>"
  obtain k1 where k1: "notify_all ls p ?k0 = Some k1"
    using assms m0 by (auto simp: delete_process_def Let_def split: Option.bind_splits)
  with assms m0 obtain pr1 tt mem m ps where "cells (processes k1) p = Some pr1"
    "delete_obj (Some p) (processes k1) = Some ps"
    "k' = k1\<lparr>kmmu := (kmmu k1)\<lparr>kmem := mem\<lparr>mmem := m\<rparr>\<rparr>, processes := ps\<rparr>"
    by (auto simp: delete_process_def Let_def split: Option.bind_splits)
  with k1 show ?thesis
    by (intro exI [of _ ?k0] exI [of _ k1]) (auto simp: delete_cell)
qed

definition user_bytes :: "kernel \<Rightarrow> u32 \<Rightarrow> u8 list" where
  "user_bytes k a = map (\<lambda>i. user_memory k (current_application_table (kmmu k)) (a + of_nat i)) [0..<4]"

lemma user_store_word_bytes:
  "user_bytes (user_store_word a v k) a = map (\<lambda>i. ucast (drop_bit (8 * i) v)) [0..<4]"
proof -
  have "[0..<4] = [0, 1, 2, 3 :: nat]" by (simp add: upt_conv_Cons)
  then show ?thesis by (simp add: user_bytes_def user_store_word_def user_store_def Let_def)
qed

lemma release_block_result:
  assumes "cells (processes k) c = Some pc" and "pblock pc = Some w"
    and "cells (waitblocks k) w = Some b" and "caller b = c" and "terminated_pid b = Some t"
    and "status_loc b \<noteq> 0 \<longrightarrow> wexit_code b = Some e"
  shows "\<exists>k' pc'. release_block c k = Some k' \<and> cells (processes k') c = Some pc' \<and> pblock pc' = None \<and>
    registers pc' = set_reg 0 t (registers pc) \<and> cells (waitblocks k') w = None \<and>
    (status_loc b \<noteq> 0 \<longrightarrow> user_bytes k' (status_loc b) = map (\<lambda>i. ucast (drop_bit (8 * i) e)) [0..<4])"
proof -
  let ?pr = "pc\<lparr>registers := set_reg 0 t (registers pc)\<rparr>"
  let ?k0 = "k\<lparr>processes := (processes k)\<lparr>cells := (cells (processes k))(c \<mapsto> ?pr)\<rparr>\<rparr>"
  let ?k1 = "if status_loc b \<noteq> 0 then user_store_word (status_loc b) e ?k0 else ?k0"
  have k1: "block_return w k = Some ?k1"
    using assms by (auto simp: block_return_def upd_process_def modify_cell)
  have fr: "processes ?k1 = processes ?k0" "waitblocks ?k1 = waitblocks k"
    "status_loc b \<noteq> 0 \<longrightarrow> user_bytes ?k1 (status_loc b) = map (\<lambda>i. ucast (drop_bit (8 * i) e)) [0..<4]"
    by (simp_all add: user_store_word_bytes)
  have ub: "user_bytes (k'\<lparr>waitblocks := ws\<rparr>) a = user_bytes k' a"
    "user_bytes (k'\<lparr>processes := ps\<rparr>) a = user_bytes k' a" for k' ws ps a
    by (simp_all add: user_bytes_def)
  obtain k2 pc2 where k2: "waitblock_delete w ?k1 = Some k2" "cells (processes k2) c = Some pc2"
    "registers pc2 = registers ?pr" "cells (waitblocks k2) w = None" "\<forall>a. user_bytes k2 a = user_bytes ?k1 a"
  proof (cases "waitpid b = - 1 \<or> waitpid b = 0")
    case True
    then show ?thesis
      using assms fr ub by (intro that [of "?k1\<lparr>processes := (processes ?k0)\<lparr>cells := (cells (processes ?k0))
          (c \<mapsto> ?pr\<lparr>child_termination_listener := None\<rparr>)\<rparr>,
          waitblocks := (waitblocks k)\<lparr>cells := (cells (waitblocks k))(w := None)\<rparr>\<rparr>"
          "?pr\<lparr>child_termination_listener := None\<rparr>"])
        (simp_all add: waitblock_delete_def set_child_termination_listener_def upd_process_def modify_cell
          delete_cell user_bytes_def)
  next
    case False
    then show ?thesis
      using assms fr ub by (intro that [of "?k1\<lparr>waitblocks := (waitblocks k)\<lparr>cells := (cells (waitblocks k))(w := None)\<rparr>\<rparr>" ?pr])
        (simp_all add: waitblock_delete_def delete_cell user_bytes_def)
  qed
  let ?k3 = "k2\<lparr>processes := (processes k2)\<lparr>cells := (cells (processes k2))(c \<mapsto> pc2\<lparr>pblock := None\<rparr>)\<rparr>\<rparr>"
  have "release_block c k = Some ?k3"
    using assms(1,2) k1 k2(1,2) by (simp add: release_block_def upd_process_def modify_cell)
  then show ?thesis
    using k2 fr ub by (intro exI [of _ ?k3] exI [of _ "pc2\<lparr>pblock := None\<rparr>"]) (simp add: user_bytes_def)
qed

text \<open>
  The exit of a process wakes the one that waits for it. When the current process \<open>p\<close>, with
  the wait block of \<open>c\<close> among its listeners, exits with code \<open>e\<close>, and the exit returns, \<open>p\<close> is
  gone, no process is current and none has registers to save, and \<open>c\<close> does not wait any more. When
  \<open>c\<close> is scheduled the next time, its register 0 holds the identifier of \<open>p\<close>, the word it
  named holds \<open>e\<close>, least significant byte first, and its wait block is deleted.
\<close>

theorem exit_wakes_waiter:
  assumes "current_process k = Some p" and "cells (processes k) p = Some pr"
    and "elements (termination_listeners pr) = Some ls" and "Waitblock_listener w \<in> set ls"
    and "cells (waitblocks k) w = Some b" and "caller b = c" and "c \<noteq> p"
    and "cells (processes k) c = Some pc" and "pblock pc = Some w"
    and "syscall_exit e k = Some k'"
  shows "cells (processes k') p = None \<and> current_process k' = None \<and> register_block k' = None \<and>
    is_blocking c k' = Some False \<and>
    (\<exists>k2 pc2. release_block c k' = Some k2 \<and> cells (processes k2) c = Some pc2 \<and> pblock pc2 = None \<and>
      registers pc2 = set_reg 0 (pid pr) (registers pc) \<and> cells (waitblocks k2) w = None \<and>
      (status_loc b \<noteq> 0 \<longrightarrow> user_bytes k2 (status_loc b) = map (\<lambda>i. ucast (drop_bit (8 * i) e)) [0..<4]))"
proof -
  let ?pr = "pr\<lparr>exit_code := e\<rparr>"
  let ?k = "k\<lparr>processes := (processes k)\<lparr>cells := (cells (processes k))(p \<mapsto> ?pr)\<rparr>\<rparr>"
  from assms(1,2,10) obtain kd where kd: "delete_process p ?k = Some kd"
    "k' = kd\<lparr>current_process := None, register_block := None\<rparr>"
    by (auto simp: syscall_exit_def upd_process_def modify_cell split: Option.bind_splits)
  have "cells (processes ?k) p = Some ?pr" "elements (termination_listeners ?pr) = Some ls"
    using assms(3) by simp_all
  from delete_process_parts [OF kd(1) this] obtain k0 k1 where
    k1: "processes k0 = processes ?k" "waitblocks k0 = waitblocks k" "notify_all ls p k0 = Some k1"
    "waitblocks kd = waitblocks k1" "cells (processes kd) = (cells (processes k1))(p := None)"
    by auto
  have "cells (processes k0) p = Some ?pr" using k1(1) by simp
  from notify_all_notified [OF k1(3) this] assms(4,5) k1(2)
  have n: "notified p k0 k1" "cells (waitblocks k1) w = Some (ended (pid pr) e b)" by auto
  have "childless k1 c = childless k0 c" "cells (processes k0) c = Some pc"
    using n(1) k1(1) assms(7,8) by (simp_all add: notified_def)
  from childless_child [OF this] obtain pc1 where pc1: "cells (processes k1) c = Some pc1"
    "pblock pc1 = Some w" "registers pc1 = registers pc"
    using assms(9) by auto
  have at: "cells (processes k') c = Some pc1" "cells (waitblocks k') w = Some (ended (pid pr) e b)"
    using kd(2) k1 pc1 n(2) assms(7) by auto
  then have "is_blocking c k' = Some False"
    using pc1(2) by (simp add: is_blocking_def ended_def)
  moreover from release_block_result [OF at(1) pc1(2) at(2)] assms(6) pc1(3)
  have "\<exists>k2 pc2. release_block c k' = Some k2 \<and> cells (processes k2) c = Some pc2 \<and> pblock pc2 = None \<and>
      registers pc2 = set_reg 0 (pid pr) (registers pc) \<and> cells (waitblocks k2) w = None \<and>
      (status_loc b \<noteq> 0 \<longrightarrow> user_bytes k2 (status_loc b) = map (\<lambda>i. ucast (drop_bit (8 * i) e)) [0..<4])"
    by (fastforce simp: ended_def)
  ultimately show ?thesis using kd(2) k1(5) by simp
qed

text \<open>An exit that returns: a process without pages or a stack, and one wait block that listens.\<close>

lemma syscall_exit_returns:
  assumes "current_process k = Some p" and "cells (processes k) p = Some pr"
    and "kstack pr = 0" and "ptable_address pr = 0" and "code_pages pr = 0" and "stack_pages pr = 0"
    and "elements (termination_listeners pr) = Some [Waitblock_listener w]"
    and "cells (waitblocks k) w = Some b"
  shows "\<exists>k'. syscall_exit e k = Some k'"
  using assms by (simp add: syscall_exit_def upd_process_def modify_cell delete_process_def Let_def
      operator_delete_def mm_free_def notify.simps waitblock_terminated_def upd_waitblock_def
      unmap_if_def delete_obj_def)

lemma exit_wakes_waiter_witness:
  "\<exists>k k' k2 pc2. syscall_exit 7 k = Some k' \<and> cells (processes k') 0 = None \<and> is_blocking 1 k' = Some False \<and>
     release_block 1 k' = Some k2 \<and> cells (processes k2) 1 = Some pc2 \<and> registers pc2 = set_reg 0 2 register_contents_new \<and>
     user_bytes k2 0x2000 = [7, 0, 0, 0]"
proof -
  obtain q where "kq_rep q [Waitblock_listener 0]" using kq_rep_exists by blast
  then have els: "elements q = Some [Waitblock_listener 0]" by (rule kq.rep_elems)
  let ?p = "blank_process\<lparr>pid := 2, termination_listeners := q\<rparr>"
  let ?c = "blank_process\<lparr>pid := 3, pblock := Some 0\<rparr>"
  let ?b = "\<lparr>waitpid = 2, status_loc = 0x2000, wexit_code = None, caller = 1, terminated_pid = None, active = True\<rparr>"
  let ?k = "example_kernel [?p, ?c] [?b] kqueue_new\<lparr>current_process := Some 0\<rparr>"
  have cells: "cells (processes ?k) 0 = Some ?p" "cells (processes ?k) 1 = Some ?c"
    "cells (waitblocks ?k) 0 = Some ?b" "current_process ?k = Some 0"
    by (simp_all add: example_kernel_def)
  obtain k' where k': "syscall_exit 7 ?k = Some k'"
    using syscall_exit_returns [OF cells(4,1) _ _ _ _ _ cells(3), of 7] els by (auto simp: blank_process_def)
  have "[0..<4] = [0, 1, 2, 3 :: nat]" by (simp add: upt_conv_Cons)
  with exit_wakes_waiter [OF cells(4,1) _ _ cells(3) _ _ cells(2) _ k', of "[Waitblock_listener 0]"] els k'
  show ?thesis by (auto simp: blank_process_def)
qed

section \<open>Waiting for a process that does not exist\<close>

lemma new_waitblock_cells:
  assumes "new_obj b (waitblocks k) = (w, ws)"
  shows "cells ws w = Some b" "cells ws = (cells (waitblocks k))(w \<mapsto> b)"
  using assms by (auto simp: new_obj_def)

text \<open>
  C29: a process that waits for an identifier that no queued process has does not wait. Its
  block is inactive from the start, and when the process is scheduled next its register 0 holds -1.
  That holds only if it passed no address for the exit code: with one, the exit code of
  the block is used without ever having been set.
\<close>

theorem wait_unknown_pid:
  assumes "current_process k = Some p" and "cells (processes k) p = Some pr"
    and "kq_rep (process_queue k) ps" and "\<forall>q \<in> set ps. cells (processes k) q \<noteq> None"
    and "x \<notin> set (pids k ps)" and "x \<noteq> 0" and "x \<noteq> - 1"
  shows "\<exists>k' q. syscall_wait x loc k = Some k' \<and> current_process k' = None \<and> is_blocking p k' = Some False \<and>
    kq_rep (process_queue k') (ps @ [p]) \<and>
    (if loc = 0 then \<exists>k2 pr2. release_block p k' = Some k2 \<and> cells (processes k2) p = Some pr2 \<and>
       registers pr2 = set_reg 0 (- 1) (registers pr) \<and> pblock pr2 = None
     else release_block p k' = None)"
proof -
  let ?b = "\<lparr>waitpid = x, status_loc = loc, wexit_code = None, caller = p, terminated_pid = None, active = True\<rparr>"
  obtain w ws where new: "new_obj ?b (waitblocks k) = (w, ws)" by fastforce
  note ws = new_waitblock_cells [OF new]
  let ?ws = "ws\<lparr>cells := (cells ws)(w \<mapsto> not_waiting ?b)\<rparr>"
  let ?ps = "(processes k)\<lparr>cells := (cells (processes k))(p \<mapsto> pr\<lparr>pblock := Some w\<rparr>)\<rparr>"
  have "get_process x (k\<lparr>waitblocks := ws\<rparr>) = Some None"
    using get_process_None [of "k\<lparr>waitblocks := ws\<rparr>" ps x] assms(3-5) by (simp add: pids_def)
  then have wb: "waitblock_new x loc p k = Some (w, k\<lparr>waitblocks := ?ws\<rparr>)"
    using new ws(1) assms(6,7) by (simp add: waitblock_new_def upd_waitblock_def modify_cell)
  from kq.rep_pushb [OF assms(3), of p] obtain q where
    q: "push_back p (process_queue k) = Some q" "kq_rep q (ps @ [p])" by blast
  let ?k' = "k\<lparr>processes := ?ps, waitblocks := ?ws, process_queue := q, current_process := None, register_block := None\<rparr>"
  have k': "syscall_wait x loc k = Some ?k'"
    using assms(1,2) wb q(1) by (simp add: syscall_wait_def upd_process_def modify_cell schedule_def)
  have at: "cells (processes ?k') p = Some (pr\<lparr>pblock := Some w\<rparr>)" "cells (waitblocks ?k') w = Some (not_waiting ?b)"
    by simp_all
  have "is_blocking p ?k' = Some False" by (simp add: is_blocking_def not_waiting_def)
  moreover have "release_block p ?k' = None" if "loc \<noteq> 0"
    using that by (simp add: release_block_def block_return_def not_waiting_def upd_process_def modify_cell)
  moreover have "\<exists>k2 pr2. release_block p ?k' = Some k2 \<and> cells (processes k2) p = Some pr2 \<and>
       registers pr2 = set_reg 0 (- 1) (registers pr) \<and> pblock pr2 = None" if "loc = 0"
  proof -
    have 1: "pblock (pr\<lparr>pblock := Some w\<rparr>) = Some w" "caller (not_waiting ?b) = p" "terminated_pid (not_waiting ?b) = Some (- 1)"
      "status_loc (not_waiting ?b) \<noteq> 0 \<longrightarrow> wexit_code (not_waiting ?b) = Some 0"
      using that by (simp_all add: not_waiting_def)
    from release_block_result [OF at(1) 1(1) at(2) 1(2-4)] show ?thesis by auto
  qed
  ultimately show ?thesis using k' q(2) by (intro exI [of _ ?k']) simp
qed

lemma wait_unknown_pid_witness:
  "\<exists>k k'. syscall_wait 9 0x2000 k = Some k' \<and> is_blocking 0 k' = Some False \<and> release_block 0 k' = None"
proof -
  obtain q :: "nat kqueue" where q: "kq_rep q []" using kq_rep_exists by blast
  let ?k = "example_kernel [blank_process] [] q\<lparr>current_process := Some 0\<rparr>"
  have "current_process ?k = Some 0" "cells (processes ?k) 0 = Some blank_process" "kq_rep (process_queue ?k) []"
    using q by (simp_all add: example_kernel_def)
  from wait_unknown_pid [OF this, of 9 "0x2000"] show ?thesis by (auto simp: pids_def)
qed

end
