(* ===== verification/Kernel_Run.thy ===== *)
theory Kernel_Run
  imports Scheduler_Run
begin

text \<open>
  Runs of the kernel: the steps that the hardware and the running process can cause, the states
  they reach, and the invariant that all of them keep.
\<close>

section \<open>Steps\<close>

text \<open>
  A timer interrupt that does not halt the kernel, the system calls of the running process that
  give up the CPU, and the start of a kernel thread.
\<close>

inductive kernel_step :: "(u32 \<Rightarrow> u32) \<Rightarrow> kernel \<Rightarrow> kernel \<Rightarrow> bool" for par where
  step_interrupt: "interrupt par k = Some (Running k') \<Longrightarrow> kernel_step par k k'"
| step_exit: "syscall_exit retval k = Some k' \<Longrightarrow> kernel_step par k k'"
| step_wait: "syscall_wait x loc k = Some k' \<Longrightarrow> kernel_step par k k'"
| step_thread: "kthread_new entry stack_size k = Some (p, k1) \<Longrightarrow> schedule p k1 = Some k' \<Longrightarrow> kernel_step par k k'"

abbreviation kernel_run :: "(u32 \<Rightarrow> u32) \<Rightarrow> kernel \<Rightarrow> kernel \<Rightarrow> bool" where
  "kernel_run par \<equiv> rtranclp (kernel_step par)"

section \<open>The invariant\<close>

text \<open>
  The part of the state the invariant speaks of: which processes exist and the wait block each has,
  and which wait blocks exist and whose they are.
\<close>

definition block_of :: "kernel \<Rightarrow> nat \<Rightarrow> ptr option" where
  "block_of k p = map_option pblock (cells (processes k) p)"

definition caller_of :: "kernel \<Rightarrow> nat \<Rightarrow> nat option" where
  "caller_of k w = map_option caller (cells (waitblocks k) w)"

definition alive :: "kernel \<Rightarrow> nat \<Rightarrow> bool" where
  "alive k p \<longleftrightarrow> (\<exists>x. block_of k p = Some x \<and> (\<forall>w. x = Some w \<longrightarrow> caller_of k w = Some p))"

text \<open>
  The processes in the queue and the current one are different and exist, and so do their wait
  blocks. The registers that the context switch restores are those of a process the scheduler
  knows, and of the current one if there is one.
\<close>

definition queue_ok :: "kernel \<Rightarrow> nat list \<Rightarrow> bool" where
  "queue_ok k ps \<longleftrightarrow> kq_rep (process_queue k) ps \<and> distinct (known k ps) \<and> (\<forall>p \<in> set (known k ps). alive k p) \<and>
     (\<forall>r. register_block k = Some r \<longrightarrow> r \<in> set (known k ps)) \<and>
     (current_process k \<noteq> None \<longrightarrow> register_block k = current_process k)"

definition kernel_ok :: "kernel \<Rightarrow> bool" where
  "kernel_ok k \<longleftrightarrow> store_ok (processes k) \<and> store_ok (waitblocks k) \<and> (\<exists>ps. queue_ok k ps)"

lemma parts_upd [simp]:
  "block_of (k\<lparr>process_queue := q\<rparr>) = block_of k" "caller_of (k\<lparr>process_queue := q\<rparr>) = caller_of k"
  "block_of (k\<lparr>current_process := c\<rparr>) = block_of k" "caller_of (k\<lparr>current_process := c\<rparr>) = caller_of k"
  "block_of (k\<lparr>register_block := c\<rparr>) = block_of k" "caller_of (k\<lparr>register_block := c\<rparr>) = caller_of k"
  "block_of (k\<lparr>kmmu := m\<rparr>) = block_of k" "caller_of (k\<lparr>kmmu := m\<rparr>) = caller_of k"
  by (simp_all add: block_of_def caller_of_def fun_eq_iff)

text \<open>Most functions leave this part of the state alone.\<close>

definition frame :: "kernel \<Rightarrow> kernel \<Rightarrow> bool" where
  "frame k k' \<longleftrightarrow> block_of k' = block_of k \<and> caller_of k' = caller_of k \<and>
     fresh (processes k') = fresh (processes k) \<and> fresh (waitblocks k') = fresh (waitblocks k) \<and>
     process_queue k' = process_queue k \<and> current_process k' = current_process k \<and>
     register_block k' = register_block k"

named_theorems frames

lemma frame_refl [simp]: "frame k k"
  by (simp add: frame_def)

lemma frame_trans: "frame k k1 \<Longrightarrow> frame k1 k2 \<Longrightarrow> frame k k2"
  by (simp add: frame_def)

lemma store_ok_block_of: "store_ok (processes k) \<longleftrightarrow> (\<forall>a. fresh (processes k) \<le> a \<longrightarrow> block_of k a = None)"
  by (simp add: store_ok_def block_of_def)

lemma store_ok_caller_of: "store_ok (waitblocks k) \<longleftrightarrow> (\<forall>a. fresh (waitblocks k) \<le> a \<longrightarrow> caller_of k a = None)"
  by (simp add: store_ok_def caller_of_def)

lemma kernel_ok_frame: "frame k k' \<Longrightarrow> queue_ok k' ps = queue_ok k ps"
  by (simp add: frame_def queue_ok_def known_def alive_def)

lemma stores_ok_frame:
  "frame k k' \<Longrightarrow> store_ok (processes k') = store_ok (processes k)"
  "frame k k' \<Longrightarrow> store_ok (waitblocks k') = store_ok (waitblocks k)"
  by (simp_all add: frame_def store_ok_block_of store_ok_caller_of)

lemma upd_process_cells:
  assumes "upd_process p f k = Some k'"
  obtains pr where "cells (processes k) p = Some pr"
    "k' = k\<lparr>processes := (processes k)\<lparr>cells := (cells (processes k))(p \<mapsto> f pr)\<rparr>\<rparr>"
  using assms
  by (cases "cells (processes k) p") (auto simp: upd_process_def modify_def)

lemma upd_waitblock_cells:
  assumes "upd_waitblock w f k = Some k'"
  obtains b where "cells (waitblocks k) w = Some b"
    "k' = k\<lparr>waitblocks := (waitblocks k)\<lparr>cells := (cells (waitblocks k))(w \<mapsto> f b)\<rparr>\<rparr>"
  using assms
  by (cases "cells (waitblocks k) w") (auto simp: upd_waitblock_def modify_def)

lemma upd_process_frame [frames]:
  assumes "upd_process p f k = Some k'" and "\<And>pr. pblock (f pr) = pblock pr"
  shows "frame k k'"
  using assms by (elim upd_process_cells) (auto simp: frame_def block_of_def caller_of_def fun_eq_iff)

lemma upd_waitblock_frame [frames]:
  assumes "upd_waitblock w f k = Some k'" and "\<And>b. caller (f b) = caller b"
  shows "frame k k'"
  using assms by (elim upd_waitblock_cells) (auto simp: frame_def block_of_def caller_of_def fun_eq_iff)

lemma mmu_frame [simp]: "frame k (k\<lparr>kmmu := m\<rparr>)" "frame k (k\<lparr>next_pid := x\<rparr>)"
  "frame k (user_store_word a v k)" "frame k (enable_addrspace par k)"
  by (simp_all add: frame_def block_of_def caller_of_def fun_eq_iff)

lemma allocate_pid_frame [frames]:
  assumes "allocate_pid k = Some r"
  shows "frame k (snd r)"
proof (rule allocate_pid.raw_induct [OF _ assms])
  fix f k r
  assume IH: "\<And>k r. f k = Some r \<Longrightarrow> frame k (snd r)"
    and "(let retval = next_pid k; k1 = k\<lparr>next_pid := next_pid k + 1\<rparr>
        in get_process retval k1 \<bind> (\<lambda>p. if p \<noteq> None then f k1 else Some (retval, k1))) = Some r"
  then show "frame k (snd r)"
    using frame_trans [OF mmu_frame(2) IH]
    by (auto simp: Let_def split: Option.bind_splits if_splits)
qed

lemma notify_frame [frames]:
  assumes "notify l child k = Some k'"
  shows "frame k k'"
proof (rule notify.raw_induct [OF _ assms])
  fix f l child k k'
  assume IH: "\<And>l child k k'. f l child k = Some k' \<Longrightarrow> frame k k'"
    and step: "(case l of
        Process_listener p \<Rightarrow> do {
          pr \<leftarrow> cells (processes k) p;
          k1 \<leftarrow> (case child_termination_listener pr of None \<Rightarrow> Some k | Some l' \<Rightarrow> f l' child k);
          pr1 \<leftarrow> cells (processes k1) p;
          q \<leftarrow> remove_first child (children pr1);
          upd_process p (children_update (\<lambda>_. q)) k1 }
      | Waitblock_listener w \<Rightarrow> waitblock_terminated w child k) = Some k'"
  show "frame k k'"
  proof (cases l)
    case (Process_listener p)
    with step obtain pr :: process and k1 q where
      1: "(case child_termination_listener pr of None \<Rightarrow> Some k | Some l' \<Rightarrow> f l' child k) = Some k1"
      "upd_process p (children_update (\<lambda>_. q)) k1 = Some k'"
      by (auto split: Option.bind_splits)
    have "frame k k1" using 1(1) IH by (cases "child_termination_listener pr") auto
    moreover have "frame k1 k'" by (rule upd_process_frame [OF 1(2)]) simp
    ultimately show ?thesis by (rule frame_trans)
  next
    case (Waitblock_listener w)
    with step obtain t :: process where
      "upd_waitblock w (\<lambda>b. b\<lparr>terminated_pid := Some (pid t), wexit_code := Some (exit_code t), active := False\<rparr>) k = Some k'"
      by (auto simp: waitblock_terminated_def split: Option.bind_splits)
    then show ?thesis by (rule upd_waitblock_frame) simp
  qed
qed

lemma notify_all_frame [frames]: "notify_all ls child k = Some k' \<Longrightarrow> frame k k'"
  by (induction ls arbitrary: k) (auto intro: frame_trans notify_frame split: Option.bind_splits)

section \<open>The operations keep the invariant\<close>

lemma block_return_frame [frames]:
  assumes "block_return w k = Some k'"
  shows "frame k k'"
proof -
  from assms obtain b :: waitblock and t k1 where
    u: "upd_process (caller b) (\<lambda>pr. pr\<lparr>registers := set_reg 0 t (registers pr)\<rparr>) k = Some k1"
    and k': "k' = k1 \<or> (\<exists>e. k' = user_store_word (status_loc b) e k1)"
    by (auto simp: block_return_def split: Option.bind_splits if_splits)
  from u have "frame k k1" by (rule upd_process_frame) simp
  with k' show ?thesis by (auto intro: frame_trans)
qed

lemma set_child_frame [frames]: "set_child_termination_listener l p k = Some k' \<Longrightarrow> frame k k'"
  unfolding set_child_termination_listener_def by (erule upd_process_frame) simp

lemma add_termination_listener_frame [frames]:
  assumes "add_termination_listener l p k = Some k'"
  shows "frame k k'"
proof -
  from assms obtain q where "upd_process p (termination_listeners_update (\<lambda>_. q)) k = Some k'"
    by (auto simp: add_termination_listener_def split: Option.bind_splits)
  then show ?thesis by (rule upd_process_frame) simp
qed

lemma delete_obj_cells:
  assumes "delete_obj (Some a) s = Some s'"
  shows "s' = s\<lparr>cells := (cells s)(a := None)\<rparr>"
  using assms by (auto simp: delete_obj_def split: option.splits)

lemma waitblock_delete_frame:
  assumes "waitblock_delete w k = Some k'"
  obtains k1 where "frame k k1" "k' = k1\<lparr>waitblocks := (waitblocks k1)\<lparr>cells := (cells (waitblocks k1))(w := None)\<rparr>\<rparr>"
proof -
  from assms obtain b :: waitblock and k1 ws where
    1: "(if waitpid b = - 1 \<or> waitpid b = 0 then set_child_termination_listener None (caller b) k else Some k) = Some k1"
    and 2: "delete_obj (Some w) (waitblocks k1) = Some ws" "k' = k1\<lparr>waitblocks := ws\<rparr>"
    by (auto simp: waitblock_delete_def split: Option.bind_splits)
  from 1 have "frame k k1" by (auto intro: set_child_frame split: if_splits)
  with 2 show thesis by (intro that) (auto dest: delete_obj_cells)
qed

text \<open>What \<open>release_block\<close> does: nothing, or the block is gone and its process has none.\<close>

lemma release_block_effect:
  assumes "release_block p k = Some k'"
  shows "frame k k' \<or> (\<exists>w. block_of k p = Some (Some w) \<and> block_of k' = (block_of k)(p \<mapsto> None) \<and>
    caller_of k' = (caller_of k)(w := None) \<and> fresh (processes k') = fresh (processes k) \<and>
    fresh (waitblocks k') = fresh (waitblocks k) \<and> process_queue k' = process_queue k \<and>
    current_process k' = current_process k \<and> register_block k' = register_block k)"
proof -
  from assms obtain pr where pr: "cells (processes k) p = Some pr"
    and step: "(case pblock pr of None \<Rightarrow> Some k | Some w \<Rightarrow> do {
         k1 \<leftarrow> block_return w k;
         k2 \<leftarrow> waitblock_delete w k1;
         upd_process p (pblock_update (\<lambda>_. None)) k2 }) = Some k'"
    by (auto simp: release_block_def split: Option.bind_splits)
  show ?thesis
  proof (cases "pblock pr")
    case None
    with step show ?thesis by simp
  next
    case (Some w)
    with step obtain k1 k2 where 1: "block_return w k = Some k1" "waitblock_delete w k1 = Some k2"
      "upd_process p (pblock_update (\<lambda>_. None)) k2 = Some k'"
      by (auto split: Option.bind_splits)
    obtain k3 where 3: "frame k1 k3" "k2 = k3\<lparr>waitblocks := (waitblocks k3)\<lparr>cells := (cells (waitblocks k3))(w := None)\<rparr>\<rparr>"
      using 1(2) by (rule waitblock_delete_frame)
    have f: "frame k k3" using block_return_frame [OF 1(1)] 3(1) by (rule frame_trans)
    obtain pr2 where "k' = k2\<lparr>processes := (processes k2)\<lparr>cells := (cells (processes k2))(p \<mapsto> pblock_update (\<lambda>_. None) pr2)\<rparr>\<rparr>"
      using 1(3) by (rule upd_process_cells)
    then have "block_of k' = (block_of k3)(p \<mapsto> None)" "caller_of k' = (caller_of k3)(w := None)"
      "fresh (processes k') = fresh (processes k3)" "fresh (waitblocks k') = fresh (waitblocks k3)"
      "process_queue k' = process_queue k3" "current_process k' = current_process k3" "register_block k' = register_block k3"
      by (auto simp: 3(2) block_of_def caller_of_def fun_eq_iff)
    moreover have "block_of k p = Some (Some w)" using pr Some by (simp add: block_of_def)
    ultimately show ?thesis using f by (simp add: frame_def)
  qed
qed

lemma release_block_live:
  assumes "release_block p k = Some k'" and "alive k p" and "alive k q"
  shows "alive k' q"
  using release_block_effect [OF assms(1)]
proof (elim disjE exE conjE)
  assume "frame k k'"
  then show ?thesis using assms(3) by (simp add: alive_def frame_def)
next
  fix w assume w: "block_of k p = Some (Some w)" "block_of k' = (block_of k)(p \<mapsto> None)" "caller_of k' = (caller_of k)(w := None)"
  from assms(2) w(1) have "caller_of k w = Some p" by (auto simp: alive_def)
  with assms(3) w(2, 3) show ?thesis by (auto simp: alive_def)
qed

lemma release_block_stores:
  assumes "release_block p k = Some k'" and "store_ok (processes k)" and "store_ok (waitblocks k)"
  shows "store_ok (processes k') \<and> store_ok (waitblocks k')"
  using release_block_effect [OF assms(1)] assms(2, 3)
  by (auto simp: frame_def store_ok_block_of store_ok_caller_of)

lemma release_block_sched:
  assumes "release_block p k = Some k'"
  shows "process_queue k' = process_queue k" "current_process k' = current_process k" "register_block k' = register_block k"
  using release_block_effect [OF assms] by (auto simp: frame_def)

lemma interrupt_ok:
  assumes "kernel_ok k" and "interrupt par k = Some (Running k')"
  shows "kernel_ok k'"
proof -
  obtain ps where q: "queue_ok k ps" and st: "store_ok (processes k)" "store_ok (waitblocks k)"
    using assms(1) by (auto simp: kernel_ok_def)
  obtain k1 where k1: "(case current_process k of None \<Rightarrow> Some k | Some c \<Rightarrow> schedule c k) = Some k1"
    and kq1: "kq_rep (process_queue k1) (known k ps)" and same: "k1 = k\<lparr>process_queue := process_queue k1\<rparr>"
  proof (cases "current_process k")
    case None
    with q show thesis by (intro that [of k]) (simp_all add: queue_ok_def known_def)
  next
    case (Some c)
    from q have "kq_rep (process_queue k) ps" by (simp add: queue_ok_def)
    from kq.rep_pushb [OF this, of c] obtain q1 where q1: "push_back c (process_queue k) = Some q1" "kq_rep q1 (ps @ [c])"
      by blast
    show thesis
      by (rule that [of "k\<lparr>process_queue := q1\<rparr>"]) (use Some q1 in \<open>simp_all add: schedule_def known_def\<close>)
  qed
  obtain p rest where kn: "known k ps = p # rest"
    and pop: "\<exists>q'. pop_front (process_queue k1) = Some (Some p, q') \<and> kq_rep q' rest"
    using kq.popf_cases [OF kq1] assms(2) k1 by (cases "known k ps") (auto simp: interrupt_def)
  then obtain q' where q': "pop_front (process_queue k1) = Some (Some p, q')" "kq_rep q' rest" by blast
  define k3 where "k3 = enable_addrspace par (k1\<lparr>process_queue := q', current_process := Some p\<rparr>)"
  have eq3: "block_of k3 = block_of k" "caller_of k3 = caller_of k" "process_queue k3 = q'"
    "current_process k3 = Some p" "register_block k3 = register_block k"
    "store_ok (processes k3)" "store_ok (waitblocks k3)"
    using st by (subst k3_def, subst same, simp add: block_of_def caller_of_def fun_eq_iff)+
  have lv: "alive k3 x" if "x \<in> set (p # rest)" for x
    using q that kn by (auto simp: queue_ok_def alive_def eq3)
  have d: "distinct (p # rest)" "\<forall>r. register_block k = Some r \<longrightarrow> r \<in> set (p # rest)"
    using q unfolding queue_ok_def kn by blast+
  have "do { b \<leftarrow> is_blocking p k3;
      if b then do { k4 \<leftarrow> schedule p k3; Some (Running (k4\<lparr>current_process := None\<rparr>)) }
      else do { k4 \<leftarrow> release_block p k3; Some (Running (k4\<lparr>register_block := Some p\<rparr>)) } } = Some (Running k')"
    using assms(2) k1 q'(1) unfolding k3_def interrupt_def Let_def by simp
  then obtain b where step: "(if b then do { k4 \<leftarrow> schedule p k3; Some (Running (k4\<lparr>current_process := None\<rparr>)) }
      else do { k4 \<leftarrow> release_block p k3; Some (Running (k4\<lparr>register_block := Some p\<rparr>)) }) = Some (Running k')"
    by (cases "is_blocking p k3") auto
  show ?thesis
  proof (cases b)
    case True
    with step obtain q2 where "push_back p q' = Some q2" "k' = k3\<lparr>process_queue := q2, current_process := None\<rparr>"
      by (auto simp: schedule_def eq3 split: Option.bind_splits)
    moreover from this(1) have "kq_rep q2 (rest @ [p])" using kq.rep_pushb [OF q'(2), of p] by simp
    ultimately have "queue_ok k' (rest @ [p])"
      using lv d eq3 by (auto simp: queue_ok_def known_def alive_def block_of_def caller_of_def)
    then show ?thesis using eq3 \<open>k' = _\<close> by (auto simp: kernel_ok_def)
  next
    case False
    with step obtain k4 where k4: "release_block p k3 = Some k4" "k' = k4\<lparr>register_block := Some p\<rparr>"
      by (auto split: Option.bind_splits)
    have "alive k4 x" if "x \<in> set (p # rest)" for x
      using release_block_live [OF k4(1) lv lv] that by simp
    then have "queue_ok k' rest"
      using d q'(2) eq3 release_block_sched [OF k4(1)] k4(2)
      by (auto simp: queue_ok_def known_def alive_def block_of_def caller_of_def)
    moreover have "store_ok (processes k') \<and> store_ok (waitblocks k')"
      using release_block_stores [OF k4(1)] eq3 k4(2) by simp
    ultimately show ?thesis by (auto simp: kernel_ok_def)
  qed
qed

lemma delete_process_effect:
  assumes "delete_process p k = Some k'"
  shows "block_of k' = (block_of k)(p := None) \<and> caller_of k' = caller_of k \<and>
    fresh (processes k') = fresh (processes k) \<and> fresh (waitblocks k') = fresh (waitblocks k) \<and>
    process_queue k' = process_queue k"
proof -
  from assms obtain pr :: process and m0 ls k1 tt mem m ps where
    1: "notify_all ls p (k\<lparr>kmmu := (kmmu k)\<lparr>kmem := (kmem (kmmu k))\<lparr>mmem := m0\<rparr>\<rparr>\<rparr>) = Some k1"
    and 2: "delete_obj (Some p) (processes k1) = Some ps"
    "k' = k1\<lparr>kmmu := (kmmu k1)\<lparr>kmem := mem\<lparr>mmem := m\<rparr>\<rparr>, processes := ps\<rparr>"
    by (auto simp: delete_process_def Let_def split: Option.bind_splits)
  have "frame k k1" using frame_trans [OF mmu_frame(1) notify_all_frame [OF 1]] .
  moreover have "block_of k' = (block_of k1)(p := None)" "caller_of k' = caller_of k1"
    "fresh (processes k') = fresh (processes k1)" "fresh (waitblocks k') = fresh (waitblocks k1)"
    "process_queue k' = process_queue k1"
    using delete_obj_cells [OF 2(1)] 2(2) by (auto simp: block_of_def caller_of_def fun_eq_iff)
  ultimately show ?thesis by (simp add: frame_def)
qed

lemma syscall_exit_ok:
  assumes "kernel_ok k" and "syscall_exit retval k = Some k'"
  shows "kernel_ok k'"
proof -
  obtain ps where q: "queue_ok k ps" and st: "store_ok (processes k)" "store_ok (waitblocks k)"
    using assms(1) by (auto simp: kernel_ok_def)
  obtain p k1 k2 where p: "current_process k = Some p" "upd_process p (exit_code_update (\<lambda>_. retval)) k = Some k1"
    "delete_process p k1 = Some k2" "k' = k2\<lparr>current_process := None, register_block := None\<rparr>"
    using assms(2) by (auto simp: syscall_exit_def split: Option.bind_splits)
  have f: "frame k k1" by (rule upd_process_frame [OF p(2)]) simp
  have e: "block_of k' = (block_of k)(p := None)" "caller_of k' = caller_of k" "process_queue k' = process_queue k"
    "fresh (processes k') = fresh (processes k)" "fresh (waitblocks k') = fresh (waitblocks k)"
    "current_process k' = None" "register_block k' = None"
    using delete_process_effect [OF p(3)] f p(4) by (auto simp: frame_def block_of_def caller_of_def)
  have "queue_ok k' ps" using q p(1) e by (auto simp: queue_ok_def known_def alive_def)
  then show ?thesis using st e by (auto simp: kernel_ok_def store_ok_block_of store_ok_caller_of)
qed

text \<open>A new wait block is nobody's yet.\<close>

lemma waitblock_new_effect:
  assumes "waitblock_new x loc p k = Some (w, k')"
  shows "w = fresh (waitblocks k) \<and> block_of k' = block_of k \<and> caller_of k' = (caller_of k)(w \<mapsto> p) \<and>
    fresh (processes k') = fresh (processes k) \<and> fresh (waitblocks k') = Suc w \<and>
    process_queue k' = process_queue k \<and> current_process k' = current_process k \<and> register_block k' = register_block k"
proof -
  define b where "b = \<lparr>waitpid = x, status_loc = loc, wexit_code = None, caller = p, terminated_pid = None, active = True\<rparr>"
  define k1 where "k1 = k\<lparr>waitblocks := snd (new_obj b (waitblocks k))\<rparr>"
  define r where "r = (if x = - 1 \<or> x = 0 then do {
         c \<leftarrow> cells (processes k1) p;
         if kqueue_length (children c) \<noteq> 0
         then set_child_termination_listener (Some (Waitblock_listener (fresh (waitblocks k)))) p k1
         else upd_waitblock (fresh (waitblocks k)) not_waiting k1 }
       else do {
         q \<leftarrow> get_process x k1;
         case q of None \<Rightarrow> upd_waitblock (fresh (waitblocks k)) not_waiting k1
         | Some q \<Rightarrow> add_termination_listener (Waitblock_listener (fresh (waitblocks k))) q k1 })"
  have "waitblock_new x loc p k = do { k2 \<leftarrow> r; Some (fresh (waitblocks k), k2) }"
    unfolding waitblock_new_def r_def k1_def b_def new_obj_def Let_def prod.case snd_conv by simp
  with assms have w: "w = fresh (waitblocks k)" and step: "r = Some k'"
    by (cases r; simp)+
  have nw: "frame k1 k2" if "upd_waitblock w not_waiting k1 = Some k2" for k2
    using that by (rule upd_waitblock_frame) (simp add: not_waiting_def)
  have "frame k1 k'"
    using step nw set_child_frame add_termination_listener_frame
    unfolding r_def w [symmetric] by (auto split: Option.bind_splits if_splits option.splits)
  moreover have "block_of k1 = block_of k" "caller_of k1 = (caller_of k)(w \<mapsto> p)" "fresh (processes k1) = fresh (processes k)"
    "fresh (waitblocks k1) = Suc w" "process_queue k1 = process_queue k" "current_process k1 = current_process k"
    "register_block k1 = register_block k"
    by (auto simp: k1_def b_def new_obj_def w block_of_def caller_of_def fun_eq_iff)
  ultimately show ?thesis using w by (simp add: frame_def)
qed

lemma syscall_wait_ok:
  assumes "kernel_ok k" and "syscall_wait x loc k = Some k'"
  shows "kernel_ok k'"
proof -
  obtain ps where q: "queue_ok k ps" and st: "store_ok (processes k)" "store_ok (waitblocks k)"
    using assms(1) by (auto simp: kernel_ok_def)
  obtain p w k1 k2 k3 where p: "current_process k = Some p" "waitblock_new x loc p k = Some (w, k1)"
    "upd_process p (pblock_update (\<lambda>_. Some w)) k1 = Some k2" "schedule p k2 = Some k3"
    "k' = k3\<lparr>current_process := None, register_block := None\<rparr>"
    using assms(2) by (auto simp: syscall_wait_def split: Option.bind_splits)
  note new = waitblock_new_effect [OF p(2)]
  obtain pr where k2: "cells (processes k1) p = Some pr"
    "k2 = k1\<lparr>processes := (processes k1)\<lparr>cells := (cells (processes k1))(p \<mapsto> pblock_update (\<lambda>_. Some w) pr)\<rparr>\<rparr>"
    using p(3) by (rule upd_process_cells)
  have "kq_rep (process_queue k2) ps" using q new k2 by (simp add: queue_ok_def)
  from kq.rep_pushb [OF this, of p] obtain q2 where q2: "push_back p (process_queue k2) = Some q2" "kq_rep q2 (ps @ [p])"
    by blast
  then have k3: "k3 = k2\<lparr>process_queue := q2\<rparr>" using p(4) by (simp add: schedule_def)
  have e: "block_of k' = (block_of k)(p \<mapsto> Some w)" "caller_of k' = (caller_of k)(w \<mapsto> p)" "process_queue k' = q2"
    "current_process k' = None" "register_block k' = None" "fresh (processes k') = fresh (processes k)"
    "fresh (waitblocks k') = Suc w" "w = fresh (waitblocks k)"
    using new k2 k3 p(5) by (auto simp: block_of_def caller_of_def fun_eq_iff)
  have "caller_of k w = None" using st(2) e(8) by (simp add: store_ok_caller_of)
  moreover have bp: "block_of k p \<noteq> None"
  proof -
    have "block_of k1 p = Some (pblock pr)" by (simp add: block_of_def k2(1))
    with new show ?thesis by simp
  qed
  ultimately have al: "alive k' p" "alive k r \<Longrightarrow> r \<noteq> p \<Longrightarrow> alive k' r" for r
    using e(1, 2) by (auto simp: alive_def)
  have "queue_ok k' (ps @ [p])"
    using q p(1) q2(2) e al by (auto simp: queue_ok_def known_def)
  moreover have "store_ok (processes k')"
    using st(1) e bp by (auto simp: store_ok_block_of)
  moreover have "store_ok (waitblocks k')" using st(2) e by (auto simp: store_ok_caller_of)
  ultimately show ?thesis by (auto simp: kernel_ok_def)
qed

lemma process_new_frame [frames]:
  assumes "process_new k = Some (proc, k')"
  shows "frame k k' \<and> pblock proc = None"
proof -
  from assms obtain a m where
    "(if a = 0 then None else do {
       let mm' = kmmu k;
       let k1 = k\<lparr>kmmu := mm'\<lparr>kmem := (kmem mm')\<lparr>mmem := m\<rparr>\<rparr>\<rparr>;
       let proc = blank_process\<lparr>ptable_address := a, ptable := tt_clear (tt_new 2048)\<rparr>;
       if \<not> scheduler_ready k1 then Some (proc\<lparr>pid := 1\<rparr>, k1)
       else do { (x, k2) \<leftarrow> allocate_pid k1; Some (proc\<lparr>pid := x\<rparr>, k2) } }) = Some (proc, k')"
    by (auto simp: process_new_def split: Option.bind_splits)
  then show ?thesis
    by (auto simp: Let_def blank_process_def split: if_splits Option.bind_splits
        dest!: allocate_pid_frame intro: frame_trans [OF mmu_frame(1)])
qed

lemma kthread_ok:
  assumes "kernel_ok k" and "kthread_new entry stack_size k = Some (p, k1)" and "schedule p k1 = Some k'"
  shows "kernel_ok k'"
proof -
  obtain ps where q: "queue_ok k ps" and st: "store_ok (processes k)" "store_ok (waitblocks k)"
    using assms(1) by (auto simp: kernel_ok_def)
  obtain proc k2 where n: "process_new k = Some (proc, k2)" and r: "do {
     (stack, m) \<leftarrow> operator_new_aligned stack_size 8 (mmem (kmem (kmmu k2)));
     let k2 = k2\<lparr>kmmu := (kmmu k2)\<lparr>kmem := (kmem (kmmu k2))\<lparr>mmem := m\<rparr>\<rparr>\<rparr>;
     let this = fresh (processes k2);
     let rc = set_reg 13 (stack + stack_size) (set_reg 0 (of_nat this) (registers proc));
     let proc' = proc\<lparr>kstack := stack, usable := True,
       registers := rc\<lparr>spsr := psr_t OR processor_mode_sys, return_address := entry + 4\<rparr>\<rparr>;
     let (p, ps) = new_obj proc' (processes k2);
     Some (p, k2\<lparr>processes := ps\<rparr>) } = Some (p, k1)"
    using assms(2) by (cases "process_new k") (auto simp: kthread_new_def)
  have f: "frame k k2" and pb: "pblock proc = None" using process_new_frame [OF n] by simp_all
  from r obtain s m where "operator_new_aligned stack_size 8 (mmem (kmem (kmmu k2))) = Some (s, m)"
    by (cases "operator_new_aligned stack_size 8 (mmem (kmem (kmmu k2)))") auto
  with r pb have k1: "p = fresh (processes k2) \<and> block_of k1 = (block_of k2)(p \<mapsto> None) \<and> caller_of k1 = caller_of k2 \<and>
    fresh (processes k1) = Suc p \<and> fresh (waitblocks k1) = fresh (waitblocks k2) \<and> process_queue k1 = process_queue k2 \<and>
    current_process k1 = current_process k2 \<and> register_block k1 = register_block k2"
    by (auto simp: new_obj_def Let_def block_of_def caller_of_def fun_eq_iff)
  with f have e1: "p = fresh (processes k)" "block_of k1 = (block_of k)(p \<mapsto> None)" "caller_of k1 = caller_of k"
    "fresh (processes k1) = Suc p" "fresh (waitblocks k1) = fresh (waitblocks k)" "process_queue k1 = process_queue k"
    "current_process k1 = current_process k" "register_block k1 = register_block k"
    by (auto simp: frame_def)
  have "kq_rep (process_queue k1) ps" using q e1 by (simp add: queue_ok_def)
  from kq.rep_pushb [OF this, of p] obtain q2 where q2: "push_back p (process_queue k1) = Some q2" "kq_rep q2 (ps @ [p])"
    by blast
  then have k': "k' = k1\<lparr>process_queue := q2\<rparr>" using assms(3) by (simp add: schedule_def)
  have new: "block_of k p = None" using st(1) e1(1) by (simp add: store_ok_block_of)
  then have "p \<notin> set (known k ps)" using q by (auto simp: queue_ok_def alive_def)
  then have "queue_ok k' (ps @ [p])"
    using q q2(2) e1 k' new by (auto simp: queue_ok_def known_def alive_def block_of_def caller_of_def split: option.splits)
  moreover have "store_ok (processes k')" "store_ok (waitblocks k')"
    using st e1 k' by (auto simp: store_ok_block_of store_ok_caller_of block_of_def caller_of_def)
  ultimately show ?thesis by (auto simp: kernel_ok_def)
qed

section \<open>Runs\<close>

lemma kernel_step_ok: "kernel_step par k k' \<Longrightarrow> kernel_ok k \<Longrightarrow> kernel_ok k'"
  by (induction rule: kernel_step.induct) (blast intro: interrupt_ok syscall_exit_ok syscall_wait_ok kthread_ok)+

text \<open>The state that the constructor of the scheduler leaves.\<close>

lemma scheduler_new_ok:
  assumes "store_ok (processes k)" and "store_ok (waitblocks k)"
  shows "kernel_ok (scheduler_new k)"
proof -
  have "queue_ok (scheduler_new k) []"
    using kq.rep_init by (simp add: queue_ok_def known_def scheduler_new_def)
  then show ?thesis using assms by (auto simp: kernel_ok_def scheduler_new_def)
qed

text \<open>
  C8: whatever interrupts, exits, waits and new threads happen after the scheduler was constructed,
  in any order: the processes in its queue and the current one are different and exist, each with
  its own wait block if it has one, and the registers that the context switch will restore
  belong to one of them, which is the current process if there is one. So the CPU never
  continues with the registers of a deleted process.
\<close>

theorem kernel_run_invariant:
  assumes "store_ok (processes k)" and "store_ok (waitblocks k)" and "kernel_run par (scheduler_new k) k'"
  shows "\<exists>ps. kq_rep (process_queue k') ps \<and> distinct (known k' ps) \<and>
    (\<forall>p \<in> set (known k' ps). \<exists>pr. cells (processes k') p = Some pr \<and>
       (\<forall>w. pblock pr = Some w \<longrightarrow> (\<exists>b. cells (waitblocks k') w = Some b \<and> caller b = p))) \<and>
    (\<forall>r. register_block k' = Some r \<longrightarrow> r \<in> set (known k' ps)) \<and>
    (\<forall>c. current_process k' = Some c \<longrightarrow> register_block k' = Some c)"
proof -
  from assms(3) have "kernel_ok k'"
    by (induction rule: rtranclp_induct) (auto intro: kernel_step_ok scheduler_new_ok assms)
  then obtain ps where "queue_ok k' ps" by (auto simp: kernel_ok_def)
  then show ?thesis
    by (intro exI [of _ ps]) (fastforce simp: queue_ok_def alive_def block_of_def caller_of_def)
qed

text \<open>The first process of a scheduler, when the heap has room for its table and its stack.\<close>

lemma first_thread:
  assumes "operator_new_aligned 16384 8192 (mmem (kmem (kmmu k))) = Some (a, m1)" and "a \<noteq> 0"
    and "operator_new_aligned n 8 m1 = Some (stack, m2)" and "processes k = empty_store"
  shows "\<exists>k1 k2 pr. kthread_new entry n (scheduler_new k) = Some (0, k1) \<and> schedule 0 k1 = Some k2 \<and>
    ready k2 [0] \<and> current_process k2 = None \<and> register_block k2 = None \<and> cells (processes k2) 0 = Some pr \<and>
    pblock pr = None \<and> pid pr = 2 \<and> registers pr = \<lparr>regs = (replicate 15 0)[0 := 0, 13 := stack + n],
      spsr = psr_t OR processor_mode_sys, return_address = entry + 4\<rparr> \<and>
    kmmu k2 = (kmmu k)\<lparr>kmem := (kmem (kmmu k))\<lparr>mmem := m2\<rparr>\<rparr>"
proof -
  let ?k0 = "(scheduler_new k)\<lparr>kmmu := (kmmu k)\<lparr>kmem := (kmem (kmmu k))\<lparr>mmem := m1\<rparr>\<rparr>\<rparr>"
  have "elements kqueue_new = Some ([] :: nat list)" using kq.rep_elems [OF kq.rep_init] .
  then have "allocate_pid ?k0 = Some (2, ?k0\<lparr>next_pid := 3\<rparr>)"
    by (subst allocate_pid.simps) (simp add: get_process_def scheduler_new_def)
  then have p: "process_new (scheduler_new k) =
      Some (blank_process\<lparr>ptable_address := a, ptable := tt_clear (tt_new 2048), pid := 2\<rparr>, ?k0\<lparr>next_pid := 3\<rparr>)"
    using assms(1, 2) by (simp add: process_new_def scheduler_new_def Let_def)
  obtain q where q: "push_back 0 kqueue_new = Some q" "kq_rep q [0 :: nat]"
    using kq.rep_pushb [OF kq.rep_init, of 0] by auto
  from p assms(3, 4) q show ?thesis
    by (simp add: kthread_new_def new_obj_def empty_store_def schedule_def ready_def known_def process_ok_def scheduler_new_def
        blank_process_def register_contents_new_def set_reg_def Let_def)
qed

text \<open>A kernel without processes, whose heap is the memory behind its data, starts a thread and runs it.\<close>

definition early_kernel :: kernel where
  "early_kernel = (example_kernel [] [] kqueue_new)\<lparr>kmmu := idle_mmu\<lparr>kmem := boot_mem\<lparr>mmem :=
     (one_block 0x1000 48)\<lparr>initialization_completed := False, kernel_data_end := 0x10000\<rparr>\<rparr>\<rparr>\<rparr>"

lemma early_new:
  assumes "\<not> initialization_completed m" and "sz \<noteq> 0"
  shows "\<exists>a m'. operator_new_aligned sz al m = Some (a, m') \<and> \<not> initialization_completed m'"
  using assms by (simp add: operator_new_aligned_def mm_allocate_def early_allocate_def Let_def)

lemma early_table:
  "\<exists>a m. operator_new_aligned 16384 8192 (mmem (kmem (kmmu early_kernel))) = Some (a, m) \<and> a \<noteq> 0 \<and>
     \<not> initialization_completed m"
proof -
  have "mask_left 8192 = NOT (mask 13)" using mask_left_pow2 [of 13] by simp
  then show ?thesis
    by (simp add: early_kernel_def operator_new_aligned_def mm_allocate_def early_allocate_def Let_def
        one_block_def round_size_def mask_eq_decr_exp)
qed

lemma early_thread:
  "\<exists>p k1 k2. kthread_new 0x2000 1024 (scheduler_new early_kernel) = Some (p, k1) \<and> schedule p k1 = Some k2 \<and>
     current_process k2 = None \<and> ready k2 [p] \<and> is_blocking p k2 = Some False"
proof -
  obtain a m where 1: "operator_new_aligned 16384 8192 (mmem (kmem (kmmu early_kernel))) = Some (a, m)" "a \<noteq> 0"
    "\<not> initialization_completed m"
    using early_table by blast
  obtain s m' where 2: "operator_new_aligned 1024 8 m = Some (s, m')" using early_new [OF 1(3), of 1024 8] by auto
  have "processes early_kernel = empty_store" by (simp add: early_kernel_def example_kernel_def empty_store_def)
  from first_thread [OF 1(1, 2) 2 this, of "0x2000"] show ?thesis by (force simp: is_blocking_def)
qed

lemma kernel_run_invariant_witness:
  "\<exists>k ps p. kernel_run (\<lambda>a. a) (scheduler_new early_kernel) k \<and> current_process k = Some p \<and>
     kq_rep (process_queue k) ps \<and> distinct (known k ps) \<and> register_block k = Some p"
proof -
  obtain p k1 k2 where t: "kthread_new 0x2000 1024 (scheduler_new early_kernel) = Some (p, k1)" "schedule p k1 = Some k2"
    "current_process k2 = None" "ready k2 [p]" "is_blocking p k2 = Some False"
    using early_thread by blast
  have "known k2 [p] = [p]" using t(3) by (simp add: known_def)
  from interrupt_turn [OF t(4) this] t(5) obtain k where
    i: "interrupt (\<lambda>a. a) k2 = Some (Running k)" "current_process k = Some p" by auto
  have run: "kernel_run (\<lambda>a. a) (scheduler_new early_kernel) k"
    using step_thread [OF t(1, 2)] step_interrupt [OF i(1)] by (rule converse_rtranclp_into_rtranclp [OF _ r_into_rtranclp])
  have "store_ok (processes early_kernel)" "store_ok (waitblocks early_kernel)"
    by (simp_all add: early_kernel_def example_kernel_def store_ok_def)
  from kernel_run_invariant [OF this run] i(2) run show ?thesis by blast
qed

end
