(* ===== verification/Timer.thy ===== *)
theory Timer
  imports Irq_Handler
begin

text \<open>
  The general purpose timers (\<open>kernel/timer.cpp\<close>): starting and stopping a module, and the handler
  of its interrupt line. The callback is a value of any type and the code behind it the argument
  \<open>call\<close> of the handler; it may start or stop timers, this one included. The value registered with
  the interrupt dispatcher, the address of the handler, is the argument \<open>h\<close>.
\<close>

unbundle bit_operations_syntax

definition tiocp_cfg :: u32 where "tiocp_cfg = 0x10"
definition tiocp_softreset :: u32 where "tiocp_softreset = push_bit 1 1"
definition tistat :: u32 where "tistat = 0x14"
definition tistat_resetdone :: u32 where "tistat_resetdone = push_bit 0 1"
definition tisr :: u32 where "tisr = 0x18"
definition ovf_it_flag :: u32 where "ovf_it_flag = push_bit 1 1"
definition tier :: u32 where "tier = 0x1c"
definition ovf_it_ena :: u32 where "ovf_it_ena = push_bit 1 1"
definition tclr :: u32 where "tclr = 0x24"
definition tclr_st :: u32 where "tclr_st = push_bit 0 1"
definition tclr_ar :: u32 where "tclr_ar = push_bit 1 1"
definition tclr_trg :: nat where "tclr_trg = 10"
definition tldr :: u32 where "tldr = 0x2c"
definition ttgr :: u32 where "ttgr = 0x30"

lemmas timer_registers = tiocp_cfg_def tiocp_softreset_def tistat_def tistat_resetdone_def tisr_def
  ovf_it_flag_def tier_def ovf_it_ena_def tclr_def tclr_st_def tclr_ar_def tclr_trg_def tldr_def ttgr_def

datatype timer_mode = disabled | one_shot | repeating

record 'c timer =
  module :: int
  mode :: timer_mode
  tcallback :: "'c option"
  interval :: u32
  tbase :: u32

definition timer_irq_base :: int where
  "timer_irq_base = 37"

definition get_irq_num :: "'c timer \<Rightarrow> int" where
  "get_irq_num t = timer_irq_base + module t"

text \<open>The constructor: a reset, a wait for its end, and the timer stopped.\<close>

definition timer_new :: "'d hardware \<Rightarrow> int \<Rightarrow> u32 \<Rightarrow> 'd bus \<Rightarrow> ('c timer \<times> 'd bus) option" where
  "timer_new hw n base b = do {
     let b1 = io_write hw tiocp_softreset base tiocp_cfg b;
     b2 \<leftarrow> wait_for_bit hw tistat_resetdone base tistat b1;
     Some (\<lparr>module = n, mode = disabled, tcallback = None, interval = 0, tbase = base\<rparr>,
           and_register hw (NOT tclr_st) base tclr b2) }"

definition timer_stop :: "'d hardware \<Rightarrow> 'c timer \<times> 'h irq_handler \<times> 'd bus \<Rightarrow>
    ('c timer \<times> 'h irq_handler \<times> 'd bus) option" where
  "timer_stop hw s = do {
     let (t, irq) = s;
     (ih, b) \<leftarrow> unregister_handler hw (get_irq_num t) irq;
     Some (t\<lparr>tcallback := None, interval := 0\<rparr>, ih, and_register hw (NOT tclr_st) (tbase t) tclr b) }"

text \<open>
  What \<open>start\<close> does for its mode; the message printed for the wrong one is left out. The register
  accesses after that are the same for all of them.
\<close>

definition start_mode :: "'d hardware \<Rightarrow> timer_mode \<Rightarrow> 'c timer \<times> 'h irq_handler \<times> 'd bus \<Rightarrow>
    ('c timer \<times> 'h irq_handler \<times> 'd bus) option" where
  "start_mode hw m s =
     (let (t, ih, b) = s
      in case m of
           disabled \<Rightarrow> timer_stop hw s
         | one_shot \<Rightarrow> Some (t, ih, and_register hw (NOT tclr_ar) (tbase t) tclr b)
         | repeating \<Rightarrow> Some (t, ih, or_register hw tclr_ar (tbase t) tclr b))"

definition start_hardware :: "'d hardware \<Rightarrow> u32 \<Rightarrow> u32 \<Rightarrow> 'd bus \<Rightarrow> 'd bus" where
  "start_hardware hw intv base b =
     (let b1 = or_register hw (push_bit tclr_trg 1) base tclr b;
          b2 = io_write hw (0xffffffff - intv) base tldr b1;
          b3 = io_write hw 1 base ttgr b2;
          b4 = io_write hw ovf_it_ena base tier b3
      in or_register hw tclr_st base tclr b4)"

definition timer_start :: "'d hardware \<Rightarrow> 'h \<Rightarrow> 'c option \<Rightarrow> timer_mode \<Rightarrow> u32 \<Rightarrow>
    'c timer \<times> 'h irq_handler \<times> 'd bus \<Rightarrow> ('c timer \<times> 'h irq_handler \<times> 'd bus) option" where
  "timer_start hw h cb m microseconds s = do {
     let (t, irq) = s;
     let intv = microseconds * 12;
     let t1 = t\<lparr>interval := intv, tcallback := cb\<rparr>;
     (ih, b) \<leftarrow> register_handler hw h (get_irq_num t1) priority_mid irq;
     (t2, ih2, b2) \<leftarrow> start_mode hw m (t1\<lparr>mode := m\<rparr>, ih, b);
     Some (t2, ih2, start_hardware hw intv (tbase t2) b2) }"

text \<open>The modules, with the interrupt dispatcher and the state of the code behind the callbacks.\<close>

record ('c, 'h, 'd, 's) timers =
  timer_modules :: "'c timer list"
  irqs :: "'h irq_handler \<times> 'd bus"
  clients :: 's

definition get_timer :: "int \<Rightarrow> ('c, 'h, 'd, 's) timers \<Rightarrow> 'c timer option" where
  "get_timer n st =
     (if 0 \<le> n \<and> nat n < length (timer_modules st) then Some (timer_modules st ! nat n) else None)"

text \<open>The interrupt of a module. Calling an empty function object is a fault.\<close>

definition timer_irq_handler :: "'d hardware \<Rightarrow> ('c \<Rightarrow> ('c, 'h, 'd, 's) timers \<Rightarrow> ('c, 'h, 'd, 's) timers option) \<Rightarrow>
    int \<Rightarrow> ('c, 'h, 'd, 's) timers \<Rightarrow> ('c, 'h, 'd, 's) timers option" where
  "timer_irq_handler hw call n st = do {
     t \<leftarrow> get_timer (n - timer_irq_base) st;
     cb \<leftarrow> tcallback t;
     st1 \<leftarrow> call cb st;
     t1 \<leftarrow> get_timer (n - timer_irq_base) st1;
     let (ih, b) = irqs st1;
     let b1 = and_register hw ovf_it_flag (tbase t1) tisr b;
     if mode t1 = one_shot then do {
       (t2, irq2) \<leftarrow> timer_stop hw (t1, ih, b1);
       Some (st1\<lparr>timer_modules := (timer_modules st1)[nat (n - timer_irq_base) := t2], irqs := irq2\<rparr>) }
     else Some (st1\<lparr>irqs := (ih, io_write hw (0xffffffff - interval t1) (tbase t1) tldr b1)\<rparr>) }"

section \<open>The registers of a running timer\<close>

text \<open>What the registers hold after \<open>start_hardware\<close>, and which ones it writes.\<close>

lemma plain_or [simp]:
  "dev (or_register plain_registers v base off b) = (dev b)(base + off := dev b (base + off) OR v)"
  by (simp add: or_register_def io_read_def io_write_def plain_registers_def)

lemma plain_and [simp]:
  "dev (and_register plain_registers v base off b) = (dev b)(base + off := dev b (base + off) AND v)"
  by (simp add: and_register_def io_read_def io_write_def plain_registers_def)

lemma plain_access [simp]:
  "hw_read plain_registers a r = (r a, r)" "hw_write plain_registers a v r = r(a := v)"
  by (simp_all add: plain_registers_def)

lemma start_hardware_dev:
  "dev (start_hardware plain_registers intv base b) =
     (dev b)(base + tclr := dev b (base + tclr) OR push_bit tclr_trg 1 OR tclr_st,
             base + tldr := 0xffffffff - intv, base + ttgr := 1, base + tier := ovf_it_ena)"
  by (rule ext) (simp add: start_hardware_def timer_registers Let_def or.assoc)

lemma timer_line:
  assumes "0 \<le> module t" and "module t \<le> 10" and "length (irq_handlers ih) = number_of_irqs"
  shows "\<exists>ih' b'. register_handler hw h (get_irq_num t) p (ih, b) = Some (ih', b') \<and> length (irq_handlers ih') = number_of_irqs"
    and "\<exists>ih' b'. unregister_handler hw (get_irq_num t) (ih, b) = Some (ih', b') \<and> length (irq_handlers ih') = number_of_irqs"
proof -
  have "\<exists>ih'. set_handler x (get_irq_num t) ih = Some ih'" for x
    using assms by (simp add: set_handler_def number_of_irqs_def get_irq_num_def timer_irq_base_def)
  then obtain f where f: "\<And>x. set_handler x (get_irq_num t) ih = Some (f x)" by metis
  then have len: "length (irq_handlers (f x)) = number_of_irqs" for x
    using set_handler_length assms(3) by metis
  show "\<exists>ih' b'. register_handler hw h (get_irq_num t) p (ih, b) = Some (ih', b') \<and> length (irq_handlers ih') = number_of_irqs"
    using len [of "Some h"] by (simp add: register_handler_def f Let_def)
  show "\<exists>ih' b'. unregister_handler hw (get_irq_num t) (ih, b) = Some (ih', b') \<and> length (irq_handlers ih') = number_of_irqs"
    using len [of None] by (simp add: unregister_handler_def f Let_def)
qed

lemma get_irq_num_upd [simp]:
  "get_irq_num (t\<lparr>mode := m\<rparr>) = get_irq_num t" "get_irq_num (t\<lparr>tcallback := c\<rparr>) = get_irq_num t"
  "get_irq_num (t\<lparr>interval := i\<rparr>) = get_irq_num t"
  by (simp_all add: get_irq_num_def)

text \<open>
  Starting a timer sets it up for its mode: the handler of the timers is registered for its
  line and for no other; the value it reloads is the overflow value minus twelve ticks for each
  microsecond, modulo the word size; the overflow interrupt is enabled, and the timer is running
  and reloads itself exactly when it is to repeat.
\<close>

theorem timer_start_registers:
  assumes "0 \<le> module t" and "module t \<le> 10" and "m \<noteq> disabled"
    and "length (irq_handlers ih) = number_of_irqs"
  shows "\<exists>ih' b'. timer_start plain_registers h cb m microseconds (t, ih, b) =
      Some (t\<lparr>mode := m, tcallback := cb, interval := 12 * microseconds\<rparr>, ih', b') \<and>
    (\<forall>n. handler_of n ih' = (if n = get_irq_num t then Some h else handler_of n ih)) \<and>
    dev b' (tbase t + tldr) = 0xffffffff - 12 * microseconds \<and>
    dev b' (tbase t + tier) = ovf_it_ena \<and> bit (dev b' (tbase t + tclr)) 0 \<and>
    bit (dev b' (tbase t + tclr)) 1 = (m = repeating)"
proof -
  obtain ih' b1 where r: "register_handler plain_registers h (get_irq_num t) priority_mid (ih, b) = Some (ih', b1)"
    using timer_line(1) [OF assms(1, 2, 4)] by blast
  define b2 where "b2 = (if m = repeating then or_register plain_registers tclr_ar (tbase t) tclr b1
    else and_register plain_registers (NOT tclr_ar) (tbase t) tclr b1)"
  let ?t = "t\<lparr>interval := microseconds * 12, tcallback := cb, mode := m\<rparr>"
  have "start_mode plain_registers m (?t, ih', b1) = Some (?t, ih', b2)"
    using assms(3) by (cases m) (simp_all add: start_mode_def b2_def)
  then have "timer_start plain_registers h cb m microseconds (t, ih, b) =
      Some (t\<lparr>interval := microseconds * 12, tcallback := cb, mode := m\<rparr>, ih',
        start_hardware plain_registers (microseconds * 12) (tbase t) b2)"
    using r by (simp add: timer_start_def Let_def)
  moreover have "bit (dev b2 (tbase t + tclr)) 1 = (m = repeating)"
    by (simp add: b2_def tclr_ar_def bit_simps)
  ultimately show ?thesis
    using handler_of_register [OF r]
    by (simp add: start_hardware_dev timer_registers bit_simps mult.commute)
qed

lemma timer_start_registers_witness:
  "\<exists>ih' b'. timer_start plain_registers 7 (Some 0) repeating 10000
      (\<lparr>module = 0, mode = disabled, tcallback = None, interval = 0, tbase = 0x1000\<rparr>,
       \<lparr>intc_base = 0x2000, irq_handlers = replicate number_of_irqs None\<rparr>, \<lparr>dev = \<lambda>_. 0, trace = []\<rparr>) =
      Some (\<lparr>module = 0, mode = repeating, tcallback = Some (0 :: nat), interval = 120000, tbase = 0x1000\<rparr>, ih', b') \<and>
    handler_of 37 ih' = Some (7 :: nat) \<and> dev b' 0x102c = 0xffffffff - 120000 \<and> bit (dev b' 0x1024) 0"
  using timer_start_registers [of "\<lparr>module = 0, mode = disabled, tcallback = None, interval = 0, tbase = 0x1000\<rparr>"
      repeating "\<lparr>intc_base = 0x2000, irq_handlers = replicate number_of_irqs None\<rparr>" "7 :: nat" "Some (0 :: nat)" 10000
      "\<lparr>dev = \<lambda>_. 0, trace = []\<rparr>"]
  by (auto simp: get_irq_num_def timer_irq_base_def tldr_def tclr_def)

section \<open>Interrupts\<close>

text \<open>
  C25: on the interrupt of a timer with a callback the callback is called first; then, if the timer
  is in one-shot mode, it is stopped: no callback, no handler on its line, not running; otherwise
  its reload value is written again and the timers are as the callback left them. A one-shot timer
  that its own callback started again is therefore stopped as well. An interrupt of a timer
  without a callback is a fault.
\<close>

theorem timer_interrupt:
  assumes "get_timer (n - timer_irq_base) st = Some t" and "tcallback t = Some cb"
    and "call cb st = Some st1" and "get_timer (n - timer_irq_base) st1 = Some t1"
    and "module t1 = n - timer_irq_base" and "module t1 \<le> 10"
    and "irqs st1 = (ih, b)" and "length (irq_handlers ih) = number_of_irqs"
  shows "\<exists>st'. timer_irq_handler plain_registers call n st = Some st' \<and> clients st' = clients st1 \<and>
    (\<forall>k. k \<noteq> module t1 \<longrightarrow> get_timer k st' = get_timer k st1) \<and>
    (if mode t1 = one_shot
     then get_timer (module t1) st' = Some (t1\<lparr>tcallback := None, interval := 0\<rparr>) \<and>
       handler_of n (fst (irqs st')) = None \<and> \<not> bit (dev (snd (irqs st')) (tbase t1 + tclr)) 0
     else get_timer (module t1) st' = Some t1 \<and> fst (irqs st') = ih \<and>
       dev (snd (irqs st')) (tbase t1 + tldr) = 0xffffffff - interval t1)"
proof -
  define i where "i = nat (n - timer_irq_base)"
  define b1 where "b1 = and_register plain_registers ovf_it_flag (tbase t1) tisr b"
  have n: "get_irq_num t1 = n" using assms(5) by (simp add: get_irq_num_def)
  have i: "0 \<le> module t1" "i < length (timer_modules st1)" "module t1 = int i"
    using assms(4, 5) by (auto simp: get_timer_def i_def split: if_splits)
  have irq: "timer_irq_handler plain_registers call n st =
     (if mode t1 = one_shot then do {
       (t2, irq2) \<leftarrow> timer_stop plain_registers (t1, ih, b1);
       Some (st1\<lparr>timer_modules := (timer_modules st1)[i := t2], irqs := irq2\<rparr>) }
     else Some (st1\<lparr>irqs := (ih, io_write plain_registers (0xffffffff - interval t1) (tbase t1) tldr b1)\<rparr>))"
    unfolding timer_irq_handler_def using assms(1-4, 7) by (simp add: i_def b1_def)
  show ?thesis
  proof (cases "mode t1 = one_shot")
    case True
    obtain ih' b' where u: "unregister_handler plain_registers n (ih, b1) = Some (ih', b')"
      using timer_line(2) [OF i(1) assms(6, 8), of plain_registers b1] unfolding n by blast
    have "timer_stop plain_registers (t1, ih, b1) = Some (t1\<lparr>tcallback := None, interval := 0\<rparr>, ih',
        and_register plain_registers (NOT tclr_st) (tbase t1) tclr b')"
      by (simp add: timer_stop_def n u)
    then show ?thesis
      using True irq i handler_of_unregister [OF u]
      by (auto simp: get_timer_def nth_list_update tclr_st_def bit_simps)
  next
    case False
    then show ?thesis
      using irq assms(4, 5) by (auto simp: get_timer_def split: if_splits)
  qed
qed

lemma timer_interrupt_witness:
  "\<exists>st'. timer_irq_handler plain_registers (\<lambda>cb st. Some (st\<lparr>clients := clients st + cb\<rparr>)) 37
      \<lparr>timer_modules = [\<lparr>module = 0, mode = one_shot, tcallback = Some (5 :: nat), interval = 12, tbase = 0x1000\<rparr>],
       irqs = (\<lparr>intc_base = 0x2000, irq_handlers = replicate number_of_irqs (Some (7 :: nat))\<rparr>, \<lparr>dev = \<lambda>_. 3, trace = []\<rparr>),
       clients = 1\<rparr> = Some st' \<and>
     clients st' = 6 \<and> handler_of 37 (fst (irqs st')) = None \<and> \<not> bit (dev (snd (irqs st')) 0x1024) 0"
proof -
  let ?t = "\<lparr>module = 0, mode = one_shot, tcallback = Some (5 :: nat), interval = 12, tbase = 0x1000\<rparr>"
  let ?ih = "\<lparr>intc_base = 0x2000, irq_handlers = replicate number_of_irqs (Some (7 :: nat))\<rparr>"
  let ?b = "\<lparr>dev = \<lambda>_. 3, trace = []\<rparr>"
  let ?call = "\<lambda>cb st. Some (st\<lparr>clients := clients st + cb\<rparr>)"
  have "get_timer (37 - timer_irq_base) \<lparr>timer_modules = [?t], irqs = (?ih, ?b), clients = c\<rparr> = Some ?t" for c :: nat
    by (simp add: get_timer_def timer_irq_base_def)
  with timer_interrupt [of 37 "\<lparr>timer_modules = [?t], irqs = (?ih, ?b), clients = 1\<rparr>" ?t 5 ?call
      "\<lparr>timer_modules = [?t], irqs = (?ih, ?b), clients = 6\<rparr>" ?t ?ih ?b]
  show ?thesis by (auto simp: timer_irq_base_def tclr_def)
qed

text \<open>
  Starting a timer in the disabled mode stops it and then runs it all the same: it has no
  callback and no handler on its line, and the hardware counts with the overflow interrupt
  enabled and the value of the interval that was forgotten.
\<close>

theorem timer_start_disabled:
  assumes "0 \<le> module t" and "module t \<le> 10" and "length (irq_handlers ih) = number_of_irqs"
  shows "\<exists>ih' b'. timer_start plain_registers h cb disabled microseconds (t, ih, b) =
      Some (t\<lparr>mode := disabled, tcallback := None, interval := 0\<rparr>, ih', b') \<and>
    handler_of (get_irq_num t) ih' = None \<and> bit (dev b' (tbase t + tclr)) 0 \<and>
    dev b' (tbase t + tier) = ovf_it_ena \<and> dev b' (tbase t + tldr) = 0xffffffff - 12 * microseconds"
proof -
  obtain ih1 b1 where r: "register_handler plain_registers h (get_irq_num t) priority_mid (ih, b) = Some (ih1, b1)"
    "length (irq_handlers ih1) = number_of_irqs"
    using timer_line(1) [OF assms] by blast
  obtain ih' b2 where u: "unregister_handler plain_registers (get_irq_num t) (ih1, b1) = Some (ih', b2)"
    using timer_line(2) [OF assms(1, 2) r(2)] by blast
  let ?t = "t\<lparr>interval := microseconds * 12, tcallback := cb, mode := disabled\<rparr>"
  have "start_mode plain_registers disabled (?t, ih1, b1) =
      Some (t\<lparr>mode := disabled, tcallback := None, interval := 0\<rparr>, ih',
        and_register plain_registers (NOT tclr_st) (tbase t) tclr b2)"
    by (simp add: start_mode_def timer_stop_def u)
  then have "timer_start plain_registers h cb disabled microseconds (t, ih, b) =
      Some (t\<lparr>mode := disabled, tcallback := None, interval := 0\<rparr>, ih',
        start_hardware plain_registers (microseconds * 12) (tbase t)
          (and_register plain_registers (NOT tclr_st) (tbase t) tclr b2))"
    using r by (simp add: timer_start_def Let_def)
  then show ?thesis
    using handler_of_unregister [OF u]
    by (simp add: start_hardware_dev timer_registers bit_simps mult.commute)
qed

lemma timer_start_disabled_witness:
  "\<exists>ih' b'. timer_start plain_registers 7 (Some 0) disabled 10000
      (\<lparr>module = 1, mode = repeating, tcallback = None, interval = 0, tbase = 0x1000\<rparr>,
       \<lparr>intc_base = 0x2000, irq_handlers = replicate number_of_irqs (Some (7 :: nat))\<rparr>, \<lparr>dev = \<lambda>_. 0, trace = []\<rparr>) =
      Some (\<lparr>module = 1, mode = disabled, tcallback = (None :: nat option), interval = 0, tbase = 0x1000\<rparr>, ih', b') \<and>
    handler_of 38 ih' = None \<and> bit (dev b' 0x1024) 0"
  using timer_start_disabled [of "\<lparr>module = 1, mode = repeating, tcallback = None, interval = 0, tbase = 0x1000\<rparr>"
      "\<lparr>intc_base = 0x2000, irq_handlers = replicate number_of_irqs (Some (7 :: nat))\<rparr>" "7 :: nat" "Some (0 :: nat)" 10000
      "\<lparr>dev = \<lambda>_. 0, trace = []\<rparr>"]
  by (auto simp: get_irq_num_def timer_irq_base_def tclr_def)

end
