(* ===== verification/Kernel_Time.thy ===== *)
theory Kernel_Time
  imports Kernel_Run Timer
begin

text \<open>
  The scheduler on the hardware: \<open>scheduler::start\<close> gives timer 0 the method \<open>interrupt\<close> as its
  callback, and from then on every interrupt of the timer's line goes through the dispatcher
  and the timer's handler to the scheduler. The scheduler's constructor, which reserves the
  timer and registers the system calls, is here too.
\<close>

section \<open>System calls of the scheduler\<close>

text \<open>
  Exit and wait do not return to their caller: they wait for the next interrupt in a loop. Their
  state is what that interrupt finds; the value stands for the one that nobody receives.
\<close>

definition exit_call :: "kernel syscall" where
  "exit_call a1 a2 a3 k = map_option (Pair 0) (syscall_exit a1 k)"

definition wait_call :: "kernel syscall" where
  "wait_call a1 a2 a3 k = map_option (Pair 0) (syscall_wait a1 a2 k)"

definition fork_call :: "(u32 \<Rightarrow> u32) \<Rightarrow> kernel syscall" where
  "fork_call par a1 a2 a3 k = syscall_fork par k"

definition scheduler_syscalls :: "(u32 \<Rightarrow> u32) \<Rightarrow> (u8 \<Rightarrow> kernel syscall option) \<Rightarrow> u8 \<Rightarrow> kernel syscall option" where
  "scheduler_syscalls par handlers =
     register_syscall wait_call 3 (register_syscall (fork_call par) 2 (register_syscall exit_call 1 handlers))"

section \<open>Timer interrupts\<close>

datatype irq_target = Timer_irq | Driver_irq nat

type_synonym 'd system = "(unit, irq_target, 'd, kernel) timers"

text \<open>
  The callback. When no process is left it stops the timer and halts the kernel, so it does not
  return.
\<close>

definition scheduler_callback :: "(u32 \<Rightarrow> u32) \<Rightarrow> unit \<Rightarrow> 'd system \<Rightarrow> 'd system option" where
  "scheduler_callback par cb st = do {
     r \<leftarrow> interrupt par (clients st);
     case r of Running k \<Rightarrow> Some (st\<lparr>clients := k\<rparr>) | Halted k \<Rightarrow> None }"

definition set_timer :: "int \<Rightarrow> 'c timer \<Rightarrow> ('c, 'h, 'd, 's) timers \<Rightarrow> ('c, 'h, 'd, 's) timers" where
  "set_timer n t st = st\<lparr>timer_modules := (timer_modules st)[nat n := t]\<rparr>"

definition scheduler_start :: "'d hardware \<Rightarrow> 'd system \<Rightarrow> 'd system option" where
  "scheduler_start hw st = do {
     t \<leftarrow> get_timer 0 st;
     (t1, irq) \<leftarrow> timer_start hw Timer_irq (Some ()) repeating 10000 (t, irqs st);
     Some ((set_timer 0 t1 st)\<lparr>irqs := irq\<rparr>) }"

text \<open>An interrupt request; the handlers of the other drivers are the argument \<open>driver\<close>.\<close>

definition call_target :: "'d hardware \<Rightarrow> (u32 \<Rightarrow> u32) \<Rightarrow> (nat \<Rightarrow> int \<Rightarrow> 'd system \<Rightarrow> 'd system option) \<Rightarrow>
    irq_target \<Rightarrow> int \<Rightarrow> 'd system \<Rightarrow> 'd system option" where
  "call_target hw par driver h n st = (case h of
     Timer_irq \<Rightarrow> timer_irq_handler hw (scheduler_callback par) n st
   | Driver_irq i \<Rightarrow> driver i n st)"

definition system_irq :: "'d hardware \<Rightarrow> (u32 \<Rightarrow> u32) \<Rightarrow> (nat \<Rightarrow> int \<Rightarrow> 'd system \<Rightarrow> 'd system option) \<Rightarrow>
    'd system \<Rightarrow> 'd system option" where
  "system_irq hw par driver st =
     handle_irq hw irqs (\<lambda>r st. st\<lparr>irqs := r\<rparr>) (call_target hw par driver) st"

primrec system_irqs :: "'d hardware \<Rightarrow> (u32 \<Rightarrow> u32) \<Rightarrow> (nat \<Rightarrow> int \<Rightarrow> 'd system \<Rightarrow> 'd system option) \<Rightarrow>
    nat \<Rightarrow> 'd system \<Rightarrow> 'd system option" where
  "system_irqs hw par driver 0 st = Some st"
| "system_irqs hw par driver (Suc n) st = do { st1 \<leftarrow> system_irq hw par driver st; system_irqs hw par driver n st1 }"

section \<open>The timer drives the scheduler\<close>

lemma get_timer_upd [simp]:
  "get_timer n (st\<lparr>irqs := r\<rparr>) = get_timer n st" "get_timer n (st\<lparr>clients := k\<rparr>) = get_timer n st"
  by (simp_all add: get_timer_def)

text \<open>
  A system whose timer 0 runs the scheduler. The hardware raises only its line, so the
  interrupt controller names that line whenever it is asked.
\<close>

definition armed :: "'d hardware \<Rightarrow> 'd system \<Rightarrow> bool" where
  "armed hw st \<longleftrightarrow> handler_of timer_irq_base (fst (irqs st)) = Some Timer_irq \<and>
     (\<exists>t. get_timer 0 st = Some t \<and> mode t = repeating \<and> tcallback t = Some ()) \<and>
     (\<forall>d. fst (hw_read hw (intc_base (fst (irqs st)) + sir_irq) d) AND 0x7f = 37)"

lemma system_irq_armed:
  assumes "armed hw st" and "interrupt par (clients st) = Some (Running k)"
  shows "\<exists>st'. system_irq hw par driver st = Some st' \<and> armed hw st' \<and> clients st' = k \<and>
    fst (irqs st') = fst (irqs st) \<and>
    last (trace (snd (irqs st'))) = Write (intc_base (fst (irqs st)) + control_reg) control_newirqagr"
proof -
  obtain ih b where ir: "irqs st = (ih, b)" by fastforce
  obtain t where t: "get_timer 0 st = Some t" "mode t = repeating" "tcallback t = Some ()"
    and h: "handler_of 37 ih = Some Timer_irq"
    and sir: "fst (hw_read hw (intc_base ih + sir_irq) d) AND 0x7f = 37" for d
    using assms(1) ir by (auto simp: armed_def timer_irq_base_def)
  obtain v b1 where r: "io_read hw (intc_base ih) sir_irq b = (v, b1)" by fastforce
  then have v: "v AND 0x7f = 37" using io_read_trace(3) [of hw "intc_base ih" sir_irq b] sir by simp
  let ?st1 = "st\<lparr>irqs := (ih, b1), clients := k\<rparr>"
  have cb: "scheduler_callback par () (st\<lparr>irqs := (ih, b1)\<rparr>) = Some ?st1"
    using assms(2) by (simp add: scheduler_callback_def)
  obtain b2 where th: "timer_irq_handler hw (scheduler_callback par) 37 (st\<lparr>irqs := (ih, b1)\<rparr>) = Some (?st1\<lparr>irqs := (ih, b2)\<rparr>)"
    using t cb by (simp add: timer_irq_handler_def timer_irq_base_def Let_def)
  define st' where "st' = ?st1\<lparr>irqs := (ih, io_write hw control_newirqagr (intc_base ih) control_reg b2)\<rparr>"
  have "system_irq hw par driver st = Some st'"
    using ir r v h th by (simp add: system_irq_def handle_irq_def call_target_def st'_def Let_def)
  moreover have "armed hw st'"
    using assms(1) ir by (simp add: armed_def st'_def)
  ultimately show ?thesis using ir by (auto simp: st'_def)
qed

lemma system_irqs_armed:
  assumes "armed hw st" and "interrupts par n (clients st) = Some (Running k)"
  shows "\<exists>st'. system_irqs hw par driver n st = Some st' \<and> clients st' = k \<and> armed hw st' \<and>
    (0 < n \<longrightarrow> last (trace (snd (irqs st'))) = Write (intc_base (fst (irqs st)) + control_reg) control_newirqagr)"
  using assms
proof (induction n arbitrary: st)
  case 0
  then show ?case by simp
next
  case (Suc n)
  then obtain k1 where 1: "interrupt par (clients st) = Some (Running k1)" "interrupts par n k1 = Some (Running k)"
    by (auto split: Option.bind_splits outcome.splits)
  obtain st1 where s1: "system_irq hw par driver st = Some st1" "armed hw st1" "clients st1 = k1" "fst (irqs st1) = fst (irqs st)"
    "last (trace (snd (irqs st1))) = Write (intc_base (fst (irqs st)) + control_reg) control_newirqagr"
    using system_irq_armed [OF Suc.prems(1) 1(1)] by blast
  with Suc.IH [of st1] 1(2) show ?case by (cases n) auto
qed

lemma register_handler_base:
  assumes "register_handler hw h n p (ih, b) = Some (ih', b')"
  shows "intc_base ih' = intc_base ih"
  using assms by (auto simp: register_handler_def Let_def set_handler_def split: if_splits Option.bind_splits)

text \<open>
  The registers of a timer that was just started: the accesses to them are the last ones. It reloads and
  signals overflows, counts from 120000 ticks below the overflow (10 ms), interrupts, and runs.
\<close>

definition timer_started :: "u32 \<Rightarrow> access list \<Rightarrow> bool" where
  "timer_started base acc \<longleftrightarrow> (\<exists>before v1 v2 v3. acc = before @
     [Read (base + 0x24) v1, Write (base + 0x24) (v1 OR 2), Read (base + 0x24) v2, Write (base + 0x24) (v2 OR 0x400),
      Write (base + 0x2c) (0xffffffff - 120000), Write (base + 0x30) 1, Write (base + 0x1c) 2,
      Read (base + 0x24) v3, Write (base + 0x24) (v3 OR 1)])"

lemma start_hardware_started:
  "timer_started base (trace (start_hardware hw 120000 base (or_register hw tclr_ar base tclr b)))"
  by (simp add: timer_started_def start_hardware_def timer_registers Let_def)

lemma scheduler_start_armed:
  assumes "get_timer 0 st = Some t" and "module t = 0" and "length (irq_handlers (fst (irqs st))) = number_of_irqs"
    and "\<And>d. fst (hw_read hw (intc_base (fst (irqs st)) + sir_irq) d) AND 0x7f = 37"
  shows "\<exists>st'. scheduler_start hw st = Some st' \<and> armed hw st' \<and> clients st' = clients st \<and>
    intc_base (fst (irqs st')) = intc_base (fst (irqs st)) \<and>
    (\<exists>t'. get_timer 0 st' = Some t' \<and> tbase t' = tbase t) \<and> timer_started (tbase t) (trace (snd (irqs st')))"
proof -
  obtain ih b where ir: "irqs st = (ih, b)" by fastforce
  have m: "0 \<le> module t" "module t \<le> 10" "length (irq_handlers ih) = number_of_irqs" using assms(2, 3) ir by simp_all
  have n: "get_irq_num t = 37" using assms(2) by (simp add: get_irq_num_def timer_irq_base_def)
  obtain ih' b' where r: "register_handler hw Timer_irq 37 priority_mid (ih, b) = Some (ih', b')"
    using timer_line(1) [OF m, of hw Timer_irq priority_mid b] n by auto
  let ?t = "t\<lparr>interval := 120000, tcallback := Some (), mode := repeating\<rparr>"
  define b2 where "b2 = start_hardware hw 120000 (tbase t) (or_register hw tclr_ar (tbase t) tclr b')"
  have ts: "timer_start hw Timer_irq (Some ()) repeating 10000 (t, irqs st) = Some (?t, ih', b2)"
    using r n ir by (simp add: timer_start_def start_mode_def b2_def Let_def)
  define st' where "st' = (set_timer 0 ?t st)\<lparr>irqs := (ih', b2)\<rparr>"
  have "0 < length (timer_modules st)" using assms(1) by (auto simp: get_timer_def split: if_splits)
  then have gt: "get_timer 0 st' = Some ?t" by (simp add: get_timer_def st'_def set_timer_def)
  have "handler_of 37 ih' = Some Timer_irq" using handler_of_register [OF r] by simp
  then have "armed hw st'"
    using gt assms(4) ir register_handler_base [OF r] by (simp add: armed_def st'_def timer_irq_base_def)
  moreover have "intc_base (fst (irqs st')) = intc_base (fst (irqs st))"
    using register_handler_base [OF r] ir by (simp add: st'_def)
  moreover have "timer_started (tbase t) (trace (snd (irqs st')))"
    using start_hardware_started by (simp add: st'_def b2_def)
  moreover have "\<exists>t'. get_timer 0 st' = Some t' \<and> tbase t' = tbase t" using gt by simp
  ultimately show ?thesis using assms(1) ts by (simp add: scheduler_start_def st'_def set_timer_def)
qed

text \<open>
  C16: the timer drives the scheduler. Starting the scheduler returns; the last accesses to the
  registers set the period of timer 0, enable its interrupt and start it, in the repeating mode, and the
  processes are as before. If from then on the interrupt controller always names the line of that timer, a process that
  does not wait is the current one after as many interrupts as there are processes before it, and one
  more: every one of them goes through the dispatcher and the timer's handler to the scheduler,
  returns, and ends with the acknowledgement to the controller; the processes that wait still wait, and the timer is
  still repeating, with its handler registered and the scheduler as its callback.
\<close>

theorem timer_drives_scheduler:
  assumes "get_timer 0 st = Some t" and "module t = 0" and "length (irq_handlers (fst (irqs st))) = number_of_irqs"
    and "\<And>d. fst (hw_read hw (intc_base (fst (irqs st)) + sir_irq) d) AND 0x7f = 37"
    and "ready (clients st) ps" and "known (clients st) ps = xs @ p # ys" and "is_blocking p (clients st) = Some False"
  shows "\<exists>st1 st'. scheduler_start hw st = Some st1 \<and> clients st1 = clients st \<and>
    timer_started (tbase t) (trace (snd (irqs st1))) \<and>
    system_irqs hw par driver (length xs + 1) st1 = Some st' \<and>
    current_process (clients st') = Some p \<and> register_block (clients st') = Some p \<and>
    (\<forall>q \<in> set (known (clients st) ps). is_blocking q (clients st) = Some True \<longrightarrow> is_blocking q (clients st') = Some True) \<and>
    last (trace (snd (irqs st'))) = Write (intc_base (fst (irqs st)) + control_reg) control_newirqagr \<and>
    handler_of timer_irq_base (fst (irqs st')) = Some Timer_irq \<and>
    (\<exists>t'. get_timer 0 st' = Some t' \<and> mode t' = repeating \<and> tcallback t' = Some ())"
proof -
  obtain st1 where s: "scheduler_start hw st = Some st1" "armed hw st1" "clients st1 = clients st"
    "intc_base (fst (irqs st1)) = intc_base (fst (irqs st))" "timer_started (tbase t) (trace (snd (irqs st1)))"
    using scheduler_start_armed [OF assms(1-4)] by blast
  obtain k' where k': "interrupts par (Suc (length xs)) (clients st) = Some (Running k')" "current_process k' = Some p"
    "register_block k' = Some p"
    "\<forall>q \<in> set (known (clients st) ps). is_blocking q (clients st) = Some True \<longrightarrow> is_blocking q k' = Some True"
    using interrupts_reach [OF assms(5-7), of par] by blast
  from system_irqs_armed [OF s(2), of par "Suc (length xs)" k' driver] s(3) k'(1) obtain st' where
    "system_irqs hw par driver (length xs + 1) st1 = Some st'" "clients st' = k'" "armed hw st'"
    "last (trace (snd (irqs st'))) = Write (intc_base (fst (irqs st1)) + control_reg) control_newirqagr" by auto
  with s k' show ?thesis by (intro exI [of _ st1] exI [of _ st']) (auto simp: armed_def)
qed

text \<open>Two processes, the first of which waits, and hardware that answers 37 to every read.\<close>

lemma timer_drives_scheduler_witness:
  "\<exists>k st1 st'. is_blocking 0 k = Some True \<and> scheduler_start \<lparr>hw_read = (\<lambda>a d. (37, d)), hw_write = (\<lambda>a v d. d)\<rparr>
      \<lparr>timer_modules = [\<lparr>module = 0, mode = disabled, tcallback = None, interval = 0, tbase = 0x1000\<rparr>],
       irqs = (\<lparr>intc_base = 0x2000, irq_handlers = replicate number_of_irqs None\<rparr>, \<lparr>dev = (), trace = []\<rparr>),
       clients = k\<rparr> = Some st1 \<and> timer_started 0x1000 (trace (snd (irqs st1))) \<and>
     system_irqs \<lparr>hw_read = (\<lambda>a d. (37, d)), hw_write = (\<lambda>a v d. d)\<rparr> (\<lambda>a. a) (\<lambda>i n st. None) 2 st1 = Some st' \<and>
     current_process (clients st') = Some 1 \<and> is_blocking 0 (clients st') = Some True"
proof -
  let ?hw = "\<lparr>hw_read = (\<lambda>a d. (37, d)), hw_write = (\<lambda>a v d. d)\<rparr> :: unit hardware"
  let ?t = "\<lparr>module = 0, mode = disabled, tcallback = None, interval = 0, tbase = 0x1000\<rparr> :: unit timer"
  obtain q where q: "kq_rep q [0 :: nat, 1]" using kq_rep_exists by blast
  let ?k = "example_kernel [blank_process\<lparr>pblock := Some 0\<rparr>, blank_process] [example_waiter] q"
  let ?st = "\<lparr>timer_modules = [?t],
    irqs = (\<lparr>intc_base = 0x2000, irq_handlers = replicate number_of_irqs None\<rparr>, \<lparr>dev = (), trace = []\<rparr>), clients = ?k\<rparr> :: unit system"
  have r: "ready ?k [0, 1]" "known ?k [0, 1] = [0] @ 1 # []" "is_blocking 1 ?k = Some False" "is_blocking 0 ?k = Some True"
    using q by (auto simp: ready_def known_def process_ok_def block_ok_def example_kernel_def blank_process_def
        example_waiter_def is_blocking_def less_Suc_eq)
  have g: "get_timer 0 ?st = Some ?t" by (simp add: get_timer_def)
  obtain st1 st' where "scheduler_start ?hw ?st = Some st1" "timer_started (tbase ?t) (trace (snd (irqs st1)))"
    "system_irqs ?hw (\<lambda>a. a) (\<lambda>i n st. None) (length [0 :: nat] + 1) st1 = Some st'" "current_process (clients st') = Some 1"
    "is_blocking 0 (clients st') = Some True"
    using timer_drives_scheduler [of ?st ?t ?hw "[0, 1]" "[0]" 1 "[]" "\<lambda>a. a" "\<lambda>i n st. None", OF g] r by auto
  with r(4) show ?thesis
    by - (rule exI [of _ ?k], rule exI [of _ st1], rule exI [of _ st'], simp add: numeral_2_eq_2)
qed

section \<open>System calls through the table\<close>

lemma dispatch_calls:
  "handle_syscall (scheduler_syscalls par handlers) 1 a1 a2 a3 k = exit_call a1 a2 a3 k"
  "handle_syscall (scheduler_syscalls par handlers) 2 a1 a2 a3 k = fork_call par a1 a2 a3 k"
  "handle_syscall (scheduler_syscalls par handlers) 3 a1 a2 a3 k = wait_call a1 a2 a3 k"
  by (simp_all add: handle_syscall_def scheduler_syscalls_def register_syscall_def)

end
