(* ===== verification/Kernel_Context.thy ===== *)
theory Kernel_Context
  imports Kernel_Time
begin

text \<open>
  Context switches: what the assembler entries of interrupts and system calls
  (\<open>kernel/interrupts.S\<close>, \<open>kernel/context_switch.S\<close>) do around the C++ functions. The CPU is the
  contents of its registers at the entry, in the order in which they are saved; the return
  address is the value of the link register. Between two interrupts the program that runs
  computes on these registers, as an argument of the model says for every process. The theorems
  state that time sharing gives every process a CPU of its own.
\<close>

unbundle bit_operations_syntax

section \<open>Saving and restoring\<close>

text \<open>An entry from a system call, in the supervisor mode, adds 4 to the return address.\<close>

definition store_context :: "bool \<Rightarrow> register_contents \<Rightarrow> kernel \<Rightarrow> kernel option" where
  "store_context svc cpu k = (case register_block k of
     None \<Rightarrow> Some k
   | Some r \<Rightarrow> upd_process r
       (registers_update (\<lambda>_. if svc then cpu\<lparr>return_address := return_address cpu + 4\<rparr> else cpu)) k)"

text \<open>With no registers to restore the CPU waits for the next interrupt, with the registers it has.\<close>

definition restore_context :: "register_contents \<Rightarrow> kernel \<Rightarrow> register_contents option" where
  "restore_context cpu k = (case register_block k of
     None \<Rightarrow> Some cpu
   | Some r \<Rightarrow> map_option registers (cells (processes k) r))"

definition switch_context :: "'d hardware \<Rightarrow> (u32 \<Rightarrow> u32) \<Rightarrow> (nat \<Rightarrow> int \<Rightarrow> 'd system \<Rightarrow> 'd system option) \<Rightarrow>
    register_contents \<times> 'd system \<Rightarrow> (register_contents \<times> 'd system) option" where
  "switch_context hw par driver m = do {
     let (cpu, st) = m;
     k \<leftarrow> store_context False cpu (clients st);
     st1 \<leftarrow> system_irq hw par driver (st\<lparr>clients := k\<rparr>);
     cpu1 \<leftarrow> restore_context cpu (clients st1);
     Some (cpu1, st1) }"

text \<open>The entry of interrupts. Only the line of timer 0 switches the context.\<close>

definition int_irq :: "'d hardware \<Rightarrow> (u32 \<Rightarrow> u32) \<Rightarrow> (nat \<Rightarrow> int \<Rightarrow> 'd system \<Rightarrow> 'd system option) \<Rightarrow>
    register_contents \<times> 'd system \<Rightarrow> (register_contents \<times> 'd system) option" where
  "int_irq hw par driver m = do {
     let (cpu, st) = m;
     let (ih, b) = irqs st;
     let (v, b1) = io_read hw (intc_base ih) sir_irq b;
     let st1 = st\<lparr>irqs := (ih, b1)\<rparr>;
     if v AND 0xff = 37 then switch_context hw par driver (cpu, st1)
     else do { st2 \<leftarrow> system_irq hw par driver st1; Some (cpu, st2) } }"

text \<open>
  The entry of system calls. The number is in the instruction, which lies before the return address in
  the memory of the program: with the lowest bit of the address clear the last half-word before it is read,
  otherwise the last word. The value of the call goes to the first register.
\<close>

definition load_half :: "u32 \<Rightarrow> (u32 \<Rightarrow> u8) \<Rightarrow> u32" where
  "load_half a m = ucast (m a) OR push_bit 8 (ucast (m (a + 1)))"

definition svc_number :: "(u32 \<Rightarrow> u8) \<Rightarrow> u32 \<Rightarrow> u8" where
  "svc_number code lr =
     (let r0 = (if lr AND 1 = 0 then load_half (lr - 2) code else load_word (lr - 4) code) in ucast (r0 AND 0xff))"

definition int_svc :: "(u32 \<Rightarrow> u8) \<Rightarrow> (u8 \<Rightarrow> kernel syscall option) \<Rightarrow> register_contents \<times> kernel \<Rightarrow> (u32 \<times> kernel) option" where
  "int_svc code handlers m = do {
     let (cpu, k) = m;
     k1 \<leftarrow> store_context True cpu k;
     handle_syscall handlers (svc_number code (return_address cpu)) (regs cpu ! 0) (regs cpu ! 1) (regs cpu ! 2) k1 }"

text \<open>
  The Thumb instruction \<open>svc n\<close> before an address, and what the entry reads of it. The processor clears the
  lowest bit of the return address in the ARM state too, so of an ARM instruction the entry reads the
  wrong half-word: the number is then 0.
\<close>

definition svc_at :: "(u32 \<Rightarrow> u8) \<Rightarrow> u8 \<Rightarrow> u32 \<Rightarrow> bool" where
  "svc_at code n lr \<longleftrightarrow> lr AND 1 = 0 \<and> code (lr - 2) = n \<and> code (lr - 1) = 0xdf"

definition put_svc :: "u8 \<Rightarrow> u32 \<Rightarrow> (u32 \<Rightarrow> u8) \<Rightarrow> u32 \<Rightarrow> u8" where
  "put_svc n lr code = code(lr - 1 := 0xdf, lr - 2 := n)"

lemma load_half_low: "ucast (load_half a m AND 0xff) = m a"
proof -
  have m: "(0xff :: u32) = mask 8" by (simp add: mask_eq_decr_exp)
  show ?thesis
    unfolding m by (rule bit_word_eqI) (auto simp: load_half_def bit_simps)
qed

lemma svc_number_at: "svc_at code n lr \<Longrightarrow> svc_number code lr = n"
  by (simp add: svc_at_def svc_number_def load_half_low)

lemma put_svc_at: "lr AND 1 = 0 \<Longrightarrow> svc_at (put_svc n lr code) n lr"
  by (simp add: svc_at_def put_svc_def)

lemma svc_number_arm:
  assumes "lr AND 1 = 0" and "code (lr - 4) = n" and "code (lr - 3) = 0" and "code (lr - 2) = 0" and "code (lr - 1) = 0xef"
  shows "svc_number code lr = 0"
  using assms by (simp add: svc_number_def load_half_low)

text \<open>
  Time sharing: the program whose registers are in the CPU computes until the next interrupt.
  The result lists whose turn it was between the interrupts.
\<close>

primrec time_sharing :: "'d hardware \<Rightarrow> (u32 \<Rightarrow> u32) \<Rightarrow> (nat \<Rightarrow> int \<Rightarrow> 'd system \<Rightarrow> 'd system option) \<Rightarrow>
    (nat \<Rightarrow> register_contents \<Rightarrow> register_contents) \<Rightarrow> nat \<Rightarrow> register_contents \<times> 'd system \<Rightarrow>
    (ptr list \<times> register_contents \<times> 'd system) option" where
  "time_sharing hw par driver user 0 m = Some ([], m)"
| "time_sharing hw par driver user (Suc n) m = do {
     let who = register_block (clients (snd m));
     let cpu = (case who of None \<Rightarrow> fst m | Some r \<Rightarrow> user r (fst m));
     m1 \<leftarrow> int_irq hw par driver (cpu, snd m);
     (ran, m2) \<leftarrow> time_sharing hw par driver user n m1;
     Some (who # ran, m2) }"

section \<open>The registers of a process\<close>

text \<open>They are in the CPU while it runs, and in its object otherwise.\<close>

definition own_registers :: "nat \<Rightarrow> register_contents \<Rightarrow> kernel \<Rightarrow> register_contents option" where
  "own_registers p cpu k = (if register_block k = Some p then Some cpu else map_option registers (cells (processes k) p))"

text \<open>A process whose registers nobody else writes: it does not wait, or it waits still.\<close>

definition undisturbed :: "kernel \<Rightarrow> nat \<Rightarrow> bool" where
  "undisturbed k p \<longleftrightarrow> (\<exists>pr. cells (processes k) p = Some pr \<and> pblock pr = None) \<or> is_blocking p k = Some True"

definition block_known :: "kernel \<Rightarrow> nat list \<Rightarrow> bool" where
  "block_known k ps \<longleftrightarrow> (\<forall>r. register_block k = Some r \<longrightarrow> r \<in> set (known k ps))"

lemma upd_registers:
  assumes "upd_process r (registers_update f) k = Some k1"
  shows "ready k1 ps = ready k ps" "known k1 ps = known k ps" "register_block k1 = register_block k"
    "is_blocking p k1 = is_blocking p k" "undisturbed k1 p = undisturbed k p" "block_known k1 ps = block_known k ps"
proof -
  obtain pr where pr: "cells (processes k) r = Some pr"
    "k1 = k\<lparr>processes := (processes k)\<lparr>cells := (cells (processes k))(r \<mapsto> registers_update f pr)\<rparr>\<rparr>"
    using assms by (rule upd_process_cells)
  show kn: "known k1 ps = known k ps" "register_block k1 = register_block k"
    by (simp_all add: known_def pr(2))
  then show "block_known k1 ps = block_known k ps" by (simp add: block_known_def)
  have ok: "process_ok k1 x = process_ok k x" for x
    using pr by (cases "x = r") (auto simp: process_ok_def block_ok_def)
  show "ready k1 ps = ready k ps"
    unfolding ready_def kn ok by (simp add: pr(2))
  show b: "is_blocking p k1 = is_blocking p k" for p
    using pr by (cases "p = r"; cases "cells (processes k) p") (auto simp: is_blocking_def split: option.split)
  show "undisturbed k1 p = undisturbed k p"
    unfolding undisturbed_def b using pr by (cases "p = r") auto
qed

text \<open>Saving puts the registers of every process where it finds them later.\<close>

lemma store_context_ok:
  assumes "ready k ps" and "block_known k ps"
  shows "\<exists>k1. store_context False cpu k = Some k1 \<and> ready k1 ps \<and> known k1 ps = known k ps \<and> block_known k1 ps \<and>
    register_block k1 = register_block k \<and>
    (\<forall>p. undisturbed k1 p = undisturbed k p) \<and>
    (\<forall>p. map_option registers (cells (processes k1) p) = own_registers p cpu k)"
proof (cases "register_block k")
  case None
  then show ?thesis using assms by (simp add: store_context_def own_registers_def)
next
  case (Some r)
  then obtain pr where pr: "cells (processes k) r = Some pr"
    using assms by (auto simp: block_known_def ready_def process_ok_def)
  then obtain k1 where k1: "upd_process r (registers_update (\<lambda>_. cpu)) k = Some k1"
    "processes k1 = (processes k)\<lparr>cells := (cells (processes k))(r \<mapsto> registers_update (\<lambda>_. cpu) pr)\<rparr>"
    by (simp add: upd_process_def modify_cell)
  with Some pr have "map_option registers (cells (processes k1) p) = own_registers p cpu k" for p
    by (simp add: own_registers_def)
  with Some k1(1) upd_registers [OF k1(1)] assms show ?thesis by (simp add: store_context_def)
qed

lemma restore_context_own:
  assumes "restore_context cpu k = Some cpu'"
  shows "own_registers p cpu' k = map_option registers (cells (processes k) p)"
  using assms by (auto simp: restore_context_def own_registers_def split: option.splits)

text \<open>An interrupt does not write to a process that nobody else writes to.\<close>

lemma interrupt_undisturbed:
  assumes "ready k ps" and "known k ps = p # rest" and "interrupt par k = Some (Running k')" and "undisturbed k p"
  shows "cells (processes k') p = cells (processes k) p \<and> is_blocking p k' = is_blocking p k"
proof -
  obtain k1 where k1: "(case current_process k of None \<Rightarrow> Some k | Some c \<Rightarrow> schedule c k) = Some k1"
    and kq1: "kq_rep (process_queue k1) (p # rest)" and same: "k1 = k\<lparr>process_queue := process_queue k1\<rparr>"
  proof (cases "current_process k")
    case None
    with assms(1, 2) show thesis by (intro that [of k]) (simp_all add: ready_def known_def)
  next
    case (Some c)
    from assms(1) have "kq_rep (process_queue k) ps" by (simp add: ready_def)
    from kq.rep_pushb [OF this, of c] obtain q1 where q1: "push_back c (process_queue k) = Some q1" "kq_rep q1 (ps @ [c])"
      by blast
    show thesis
      by (rule that [of "k\<lparr>process_queue := q1\<rparr>"]) (use Some q1 assms(2) in \<open>simp_all add: schedule_def known_def\<close>)
  qed
  obtain q' where q': "pop_front (process_queue k1) = Some (Some p, q')" using kq.popf_cases [OF kq1] by auto
  define k3 where "k3 = enable_addrspace par (k1\<lparr>process_queue := q', current_process := Some p\<rparr>)"
  have fr: "processes k3 = processes k" "waitblocks k3 = waitblocks k"
    by (subst k3_def, subst same, simp)+
  then have b3: "is_blocking p k3 = is_blocking p k" by (rule is_blocking_frame)
  have step: "do { b \<leftarrow> is_blocking p k3;
      if b then do { k4 \<leftarrow> schedule p k3; Some (Running (k4\<lparr>current_process := None\<rparr>)) }
      else do { k4 \<leftarrow> release_block p k3; Some (Running (k4\<lparr>register_block := Some p\<rparr>)) } } = Some (Running k')"
    using assms(3) k1 q' unfolding k3_def interrupt_def Let_def by simp
  from assms(4) consider pr where "cells (processes k) p = Some pr" "pblock pr = None" | "is_blocking p k = Some True"
    by (auto simp: undisturbed_def)
  then show ?thesis
  proof cases
    case (1 pr)
    then have "is_blocking p k3 = Some False" "release_block p k3 = Some k3"
      using fr by (simp_all add: is_blocking_def release_block_def)
    with step have "k' = k3\<lparr>register_block := Some p\<rparr>" by simp
    then show ?thesis using fr 1 by (simp add: is_blocking_def)
  next
    case 2
    with step b3 obtain k4 where k': "k' = k4\<lparr>current_process := None\<rparr>" "schedule p k3 = Some k4"
      by (auto split: Option.bind_splits)
    then have "processes k' = processes k" "waitblocks k' = waitblocks k"
      by (auto simp: fr schedule_def split: Option.bind_splits)
    with is_blocking_frame [OF this, of p] show ?thesis by simp
  qed
qed

section \<open>One turn\<close>

text \<open>
  The interrupt controller names the line of timer 0, without the flag of a spurious interrupt,
  whenever it is asked.
\<close>

definition timer_only :: "'d hardware \<Rightarrow> 'd system \<Rightarrow> bool" where
  "timer_only hw st \<longleftrightarrow> armed hw st \<and>
     (\<forall>d. fst (hw_read hw (intc_base (fst (irqs st)) + sir_irq) d) AND 0xff = 37)"

lemma timer_only_upd:
  "timer_only hw st \<Longrightarrow> fst r = fst (irqs st) \<Longrightarrow> timer_only hw (st\<lparr>irqs := r\<rparr>)"
  "timer_only hw (st\<lparr>clients := k\<rparr>) = timer_only hw st"
  by (simp_all add: timer_only_def armed_def)

lemma undisturbed_turn:
  assumes "ready k ps" and "known k ps = p # rest" and "interrupt par k = Some (Running k')"
    and "q \<in> set (known k ps)" and "undisturbed k q"
  shows "cells (processes k') q = cells (processes k) q \<and> is_blocking q k' = is_blocking q k \<and> undisturbed k' q"
proof -
  from interrupt_turn [OF assms(1, 2), of par] assms(3) have
    o: "\<forall>x. x \<noteq> p \<longrightarrow> cells (processes k') x = cells (processes k) x" and
    b: "\<forall>x \<in> set rest. is_blocking x k' = is_blocking x k" by auto
  have "cells (processes k') q = cells (processes k) q \<and> is_blocking q k' = is_blocking q k"
    using interrupt_undisturbed [OF assms(1-3)] o b assms(2, 4, 5) by (cases "q = p") auto
  then show ?thesis using assms(5) by (simp add: undisturbed_def)
qed

lemma switch_context_turn:
  assumes "timer_only hw st" and "ready (clients st) ps" and "block_known (clients st) ps"
    and "known (clients st) ps = p # rest"
  shows "\<exists>cpu' st' qs. switch_context hw par driver (cpu, st) = Some (cpu', st') \<and> timer_only hw st' \<and>
    ready (clients st') qs \<and> block_known (clients st') qs \<and> known (clients st') qs = rest @ [p] \<and>
    (if is_blocking p (clients st) = Some True then register_block (clients st') = register_block (clients st)
     else register_block (clients st') = Some p \<and> current_process (clients st') = Some p) \<and>
    (\<forall>q \<in> set (p # rest). undisturbed (clients st) q \<longrightarrow> undisturbed (clients st') q \<and>
       is_blocking q (clients st') = is_blocking q (clients st) \<and>
       own_registers q cpu' (clients st') = own_registers q cpu (clients st))"
proof -
  obtain k1 where k1: "store_context False cpu (clients st) = Some k1" "ready k1 ps" "known k1 ps = p # rest"
    "block_known k1 ps" "register_block k1 = register_block (clients st)"
    and und: "\<And>q. undisturbed k1 q = undisturbed (clients st) q"
    and own: "\<And>q. map_option registers (cells (processes k1) q) = own_registers q cpu (clients st)"
    using store_context_ok [OF assms(2, 3), of cpu] assms(4) by auto
  have bl: "is_blocking q k1 = is_blocking q (clients st)" for q
    using k1(1) upd_registers(4) by (auto simp: store_context_def split: option.splits)
  obtain k2 where k2: "interrupt par k1 = Some (Running k2)"
    and turn: "if is_blocking p k1 = Some True
       then current_process k2 = None \<and> ready k2 (rest @ [p]) \<and> register_block k2 = register_block k1
       else current_process k2 = Some p \<and> ready k2 rest \<and> register_block k2 = Some p"
    using interrupt_turn [OF k1(2, 3), of par] by (auto split: if_splits)
  obtain qs where qs: "ready k2 qs" "known k2 qs = rest @ [p]"
    using turn by (cases "is_blocking p k1 = Some True") (auto simp: known_def)
  have rb: "block_known k2 qs"
    using turn k1(3, 4) qs(2) by (auto simp: block_known_def split: if_splits)
  have "armed hw (st\<lparr>clients := k1\<rparr>)" using assms(1) by (simp add: timer_only_def armed_def)
  then obtain st' where st': "system_irq hw par driver (st\<lparr>clients := k1\<rparr>) = Some st'" "armed hw st'"
    "clients st' = k2" "fst (irqs st') = fst (irqs st)"
    using system_irq_armed [of hw "st\<lparr>clients := k1\<rparr>" par k2 driver] k2 by auto
  obtain cpu' where cpu': "restore_context cpu k2 = Some cpu'"
  proof (cases "register_block k2")
    case None
    then show thesis by (intro that [of cpu]) (simp add: restore_context_def)
  next
    case (Some r)
    with rb qs(1) obtain pr where "cells (processes k2) r = Some pr"
      by (auto simp: block_known_def ready_def process_ok_def)
    with Some show thesis by (intro that [of "registers pr"]) (simp add: restore_context_def)
  qed
  have "switch_context hw par driver (cpu, st) = Some (cpu', st')"
    using k1(1) st'(1, 3) cpu' by (simp add: switch_context_def)
  moreover have "timer_only hw st'" using st'(2, 4) assms(1) by (simp add: timer_only_def)
  moreover have "undisturbed k2 q \<and> is_blocking q k2 = is_blocking q (clients st) \<and> own_registers q cpu' k2 = own_registers q cpu (clients st)"
    if "q \<in> set (p # rest)" "undisturbed (clients st) q" for q
    using undisturbed_turn [OF k1(2, 3) k2, of q] that und bl [of q] own [of q] k1(3) restore_context_own [OF cpu', of q] by simp
  ultimately show ?thesis
    using qs rb turn bl [of p] k1(5) st'(3) by (intro exI [of _ cpu'] exI [of _ st'] exI [of _ qs]) auto
qed

lemma int_irq_turn:
  assumes "timer_only hw st" and "ready (clients st) ps" and "block_known (clients st) ps"
    and "known (clients st) ps = p # rest"
  shows "\<exists>cpu' st' qs. int_irq hw par driver (cpu, st) = Some (cpu', st') \<and> timer_only hw st' \<and>
    ready (clients st') qs \<and> block_known (clients st') qs \<and> known (clients st') qs = rest @ [p] \<and>
    (if is_blocking p (clients st) = Some True then register_block (clients st') = register_block (clients st)
     else register_block (clients st') = Some p \<and> current_process (clients st') = Some p) \<and>
    (\<forall>q \<in> set (p # rest). undisturbed (clients st) q \<longrightarrow> undisturbed (clients st') q \<and>
       is_blocking q (clients st') = is_blocking q (clients st) \<and>
       own_registers q cpu' (clients st') = own_registers q cpu (clients st))"
proof -
  obtain ih b where ir: "irqs st = (ih, b)" by fastforce
  obtain v b1 where r: "io_read hw (intc_base ih) sir_irq b = (v, b1)" by fastforce
  have v: "v AND 0xff = 37"
    using assms(1) r ir io_read_trace(3) [of hw "intc_base ih" sir_irq b] by (simp add: timer_only_def)
  have t: "timer_only hw (st\<lparr>irqs := (ih, b1)\<rparr>)"
    using assms(1) ir by (intro timer_only_upd(1)) simp_all
  have "int_irq hw par driver (cpu, st) = switch_context hw par driver (cpu, st\<lparr>irqs := (ih, b1)\<rparr>)"
    using ir r v by (simp add: int_irq_def)
  then show ?thesis using switch_context_turn [OF t, of ps p rest par driver cpu] assms(2-4) by (simp cong: if_cong split del: if_split)
qed

section \<open>Time sharing\<close>

text \<open>What the program that runs computes is not visible to the other processes.\<close>

lemma own_registers_compute:
  "own_registers p (case register_block k of None \<Rightarrow> cpu | Some r \<Rightarrow> user r cpu) k =
    map_option (user p ^^ (if register_block k = Some p then 1 else 0)) (own_registers p cpu k)"
  by (simp add: own_registers_def option.map_id)

lemma funpow_map_option:
  "map_option (f ^^ m) (map_option (f ^^ n) x) = map_option (f ^^ (n + m)) x"
  by (cases x) (simp_all add: funpow_add add.commute [of n m])

text \<open>By induction on the number of interrupts.\<close>

lemma time_sharing_view:
  assumes "timer_only hw st" and "ready (clients st) ps" and "block_known (clients st) ps"
    and "p \<in> set (known (clients st) ps)" and "undisturbed (clients st) p"
  shows "\<exists>ran cpu' st'. time_sharing hw par driver user n (cpu, st) = Some (ran, cpu', st') \<and> length ran = n \<and>
    own_registers p cpu' (clients st') = map_option (user p ^^ count_list ran (Some p)) (own_registers p cpu (clients st))"
  using assms
proof (induction n arbitrary: cpu st ps)
  case 0
  then show ?case by (simp add: option.map_id)
next
  case (Suc n)
  define cpu1 where "cpu1 = (case register_block (clients st) of None \<Rightarrow> cpu | Some r \<Rightarrow> user r cpu)"
  obtain h rest where kn: "known (clients st) ps = h # rest" using Suc.prems(4) by (cases "known (clients st) ps") auto
  obtain cpu2 st2 qs where 2: "int_irq hw par driver (cpu1, st) = Some (cpu2, st2)" "timer_only hw st2"
    "ready (clients st2) qs" "block_known (clients st2) qs" "known (clients st2) qs = rest @ [h]"
    and u: "undisturbed (clients st2) p" "own_registers p cpu2 (clients st2) = own_registers p cpu1 (clients st)"
    using int_irq_turn [OF Suc.prems(1-3) kn, of par driver cpu1] Suc.prems(4, 5) kn by metis
  have "p \<in> set (known (clients st2) qs)" using 2(5) kn Suc.prems(4) by auto
  from Suc.IH [OF 2(2-4) this u(1), of cpu2] obtain ran cpu' st' where
    r: "time_sharing hw par driver user n (cpu2, st2) = Some (ran, cpu', st')" "length ran = n"
    "own_registers p cpu' (clients st') = map_option (user p ^^ count_list ran (Some p)) (own_registers p cpu2 (clients st2))"
    by blast
  have "time_sharing hw par driver user (Suc n) (cpu, st) = Some (register_block (clients st) # ran, cpu', st')"
    using 2(1) r(1) by (cases "register_block (clients st)") (simp_all add: cpu1_def)
  moreover have "own_registers p cpu' (clients st') =
      map_option (user p ^^ count_list (register_block (clients st) # ran) (Some p)) (own_registers p cpu (clients st))"
    unfolding r(3) u(2) cpu1_def own_registers_compute funpow_map_option by simp
  ultimately show ?case using r(2) by auto
qed

text \<open>
  C6: time sharing gives every process a CPU of its own. Whatever the programs compute and whatever
  the order of their turns, after any number of timer interrupts (saving, dispatch, scheduling and
  restoring included, all of which return) a process that does not wait has exactly the registers
  that it has after computing alone for as many turns as it got. A process that waits keeps its
  registers as long as it does.
\<close>

theorem time_sharing_own_cpu:
  assumes "timer_only hw st" and "ready (clients st) ps" and "block_known (clients st) ps"
    and "p \<in> set (known (clients st) ps)" and "undisturbed (clients st) p"
  shows "\<exists>ran cpu' st'. time_sharing hw par driver user n (cpu, st) = Some (ran, cpu', st') \<and> length ran = n \<and>
    own_registers p cpu' (clients st') = map_option (user p ^^ count_list ran (Some p)) (own_registers p cpu (clients st))"
  by (rule time_sharing_view [OF assms])

text \<open>
  The order of the turns when nobody waits: the current process, then the queue, and again.
\<close>

lemma time_sharing_order:
  assumes "timer_only hw st" and "ready (clients st) ps" and "known (clients st) ps = zs" and "zs \<noteq> []"
    and "register_block (clients st) = Some (last zs)"
    and "\<forall>q \<in> set zs. undisturbed (clients st) q \<and> is_blocking q (clients st) = Some False"
  shows "\<exists>m'. time_sharing hw par driver user n (cpu, st) = Some (List.map (\<lambda>i. Some (last (rotate i zs))) [0..<n], m')"
  using assms
proof (induction n arbitrary: cpu st ps zs)
  case 0
  then show ?case by simp
next
  case (Suc n)
  define cpu1 where "cpu1 = (case register_block (clients st) of None \<Rightarrow> cpu | Some r \<Rightarrow> user r cpu)"
  obtain h rest where zs: "zs = h # rest" using Suc.prems(4) by (cases zs) auto
  have kn: "known (clients st) ps = h # rest" using Suc.prems(3) zs by simp
  have bk: "block_known (clients st) ps"
    using Suc.prems(3, 4, 5) last_in_set [of zs] by (simp add: block_known_def)
  have nb: "is_blocking h (clients st) = Some False" using Suc.prems(6) zs by simp
  obtain cpu2 st2 qs where 2: "int_irq hw par driver (cpu1, st) = Some (cpu2, st2)" "timer_only hw st2"
    "ready (clients st2) qs" "known (clients st2) qs = rest @ [h]" "register_block (clients st2) = Some h"
    and u: "\<forall>q \<in> set (h # rest). undisturbed (clients st) q \<longrightarrow> undisturbed (clients st2) q \<and>
       is_blocking q (clients st2) = is_blocking q (clients st) \<and>
       own_registers q cpu2 (clients st2) = own_registers q cpu1 (clients st)"
    using int_irq_turn [OF Suc.prems(1, 2) bk kn, of par driver cpu1] nb by auto
  have "\<exists>m'. time_sharing hw par driver user n (cpu2, st2) =
      Some (List.map (\<lambda>i. Some (last (rotate i (rest @ [h])))) [0..<n], m')"
    using Suc.prems(6) u zs 2(5) by (intro Suc.IH [OF 2(2-4)]) auto
  moreover have "rotate (Suc i) zs = rotate i (rest @ [h])" for i
    using rotate1_rotate_swap [of i zs] by (simp add: zs)
  then have "List.map (\<lambda>i. Some (last (rotate i zs))) [0..<Suc n] =
      Some (last zs) # List.map (\<lambda>i. Some (last (rotate i (rest @ [h])))) [0..<n]"
    by (simp add: map_upt_Suc del: upt_Suc rotate_Suc)
  ultimately show ?case using 2(1) Suc.prems(5) by (auto simp: cpu1_def)
qed

lemma last_rotate:
  assumes "0 < length zs"
  shows "last (rotate i zs) = zs ! ((i + (length zs - 1)) mod length zs)"
proof -
  have "last (rotate i zs) = rotate i zs ! (length (rotate i zs) - 1)"
    using assms by (intro last_conv_nth) auto
  also have "\<dots> = zs ! ((i + (length zs - 1)) mod length zs)"
    unfolding length_rotate by (rule nth_rotate) (use assms in simp)
  finally show ?thesis .
qed

lemma rotate_lasts:
  assumes "0 < length zs"
  shows "List.map (\<lambda>i. Some (last (rotate i zs))) [0..<length zs] = List.map Some (last zs # butlast zs)"
proof (rule nth_equalityI)
  fix i assume "i < length (List.map (\<lambda>i. Some (last (rotate i zs))) [0..<length zs])"
  then have i: "i < length zs" by simp
  show "List.map (\<lambda>i. Some (last (rotate i zs))) [0..<length zs] ! i = List.map Some (last zs # butlast zs) ! i"
  proof (cases i)
    case 0
    then show ?thesis using i by simp
  next
    case (Suc j)
    then have "i + (length zs - 1) = j + length zs" using assms by simp
    then have "(i + (length zs - 1)) mod length zs = j" using i Suc by simp
    then show ?thesis using Suc i last_rotate [OF assms, of i] by (simp add: nth_butlast del: rotate_Suc)
  qed
qed (use assms in simp)

lemma upt_round: "[0..<Suc q * m] = [0..<m] @ List.map (\<lambda>i. i + m) [0..<q * m]"
proof -
  have "[0..<m + q * m] = [0..<m] @ [m..<m + q * m]" by (rule upt_add_eq_append) simp
  then show ?thesis by (simp add: map_add_upt add.commute)
qed

lemma rotate_rounds:
  assumes "0 < length zs"
  shows "List.map (\<lambda>i. Some (last (rotate i zs))) [0..<q * length zs] =
    concat (replicate q (List.map Some (last zs # butlast zs)))"
proof (induction q)
  case 0
  then show ?case by simp
next
  case (Suc q)
  have "rotate (i + length zs) zs = rotate i zs" for i
    unfolding rotate_rotate [symmetric] by simp
  then have "List.map (\<lambda>i. Some (last (rotate i zs))) (List.map (\<lambda>i. i + length zs) [0..<q * length zs]) =
      List.map (\<lambda>i. Some (last (rotate i zs))) [0..<q * length zs]"
    unfolding List.map_map comp_def by (simp only:)
  then show ?case
    unfolding upt_round map_append rotate_lasts [OF assms] Suc.IH replicate_Suc concat.simps by (simp only:)
qed

lemma count_list_rounds: "count_list (concat (replicate q xs)) x = q * count_list xs x"
  by (induction q) simp_all

lemma count_list_distinct: "distinct xs \<Longrightarrow> x \<in> set xs \<Longrightarrow> count_list xs x = 1"
  by (induction xs) auto

text \<open>
  C17: time sharing is fair. If the current process runs and no process waits, then after any
  number of full rounds the turns were those of the current process and of the queue, in this
  order, round after round, and every process has the registers that it has after computing
  alone for as many turns as there were rounds.
\<close>

theorem fair_time_slices:
  assumes "timer_only hw st" and "ready (clients st) ps" and "current_process (clients st) = Some c"
    and "register_block (clients st) = Some c"
    and "\<forall>p \<in> set (c # ps). \<exists>pr. cells (processes (clients st)) p = Some pr \<and> pblock pr = None"
  shows "\<exists>cpu' st'. time_sharing hw par driver user (q * (length ps + 1)) (cpu, st) =
      Some (concat (replicate q (List.map Some (c # ps))), cpu', st') \<and>
    (\<forall>p \<in> set (c # ps). own_registers p cpu' (clients st') = map_option (user p ^^ q) (own_registers p cpu (clients st)))"
proof -
  have kn: "known (clients st) ps = ps @ [c]" using assms(3) by (simp add: known_def)
  then have d: "distinct (c # ps)" using assms(2) by (auto simp: ready_def)
  have u: "undisturbed (clients st) p" "is_blocking p (clients st) = Some False" if "p \<in> set (c # ps)" for p
    using assms(5) that by (auto simp: undisturbed_def is_blocking_def)
  have "\<exists>m'. time_sharing hw par driver user (q * (length ps + 1)) (cpu, st) =
      Some (List.map (\<lambda>i. Some (last (rotate i (ps @ [c])))) [0..<q * (length ps + 1)], m')"
    using assms(4) u by (intro time_sharing_order [OF assms(1, 2) kn]) auto
  then obtain cpu' st' where r: "time_sharing hw par driver user (q * (length ps + 1)) (cpu, st) =
      Some (concat (replicate q (List.map Some (c # ps))), cpu', st')"
    using rotate_rounds [of "ps @ [c]" q] by auto
  have "own_registers p cpu' (clients st') = map_option (user p ^^ q) (own_registers p cpu (clients st))"
    if "p \<in> set (c # ps)" for p
  proof -
    have "block_known (clients st) ps" "p \<in> set (known (clients st) ps)"
      using assms(4) that kn by (auto simp: block_known_def)
    from time_sharing_view [OF assms(1, 2) this u(1) [OF that], of par driver user "q * (length ps + 1)" cpu] r
    have "own_registers p cpu' (clients st') =
        map_option (user p ^^ count_list (concat (replicate q (List.map Some (c # ps)))) (Some p)) (own_registers p cpu (clients st))"
      by simp
    moreover have "count_list (List.map Some (c # ps)) (Some p) = 1"
      by (rule count_list_distinct) (use d that in \<open>auto simp: distinct_map\<close>)
    ultimately show ?thesis by (simp add: count_list_rounds)
  qed
  with r show ?thesis by blast
qed

section \<open>A system with two processes\<close>

definition example_system :: "kernel \<Rightarrow> unit system" where
  "example_system k = \<lparr>timer_modules = [\<lparr>module = 0, mode = repeating, tcallback = Some (), interval = 0, tbase = 0x1000\<rparr>],
     irqs = (\<lparr>intc_base = 0x2000, irq_handlers = (replicate number_of_irqs None)[37 := Some Timer_irq]\<rparr>,
       \<lparr>dev = (), trace = []\<rparr>),
     clients = k\<rparr>"

definition constant_hardware :: "u32 \<Rightarrow> unit hardware" where
  "constant_hardware v = \<lparr>hw_read = (\<lambda>a d. (v, d)), hw_write = (\<lambda>a v d. d)\<rparr>"

definition two_processes :: "nat kqueue \<Rightarrow> kernel" where
  "two_processes q = example_kernel [blank_process, blank_process] [] q\<lparr>current_process := Some 1, register_block := Some 1\<rparr>"

lemma example_armed: "v AND 0x7f = 37 \<Longrightarrow> armed (constant_hardware v) (example_system k)"
  by (simp add: armed_def example_system_def constant_hardware_def get_timer_def handler_of_def
      timer_irq_base_def number_of_irqs_def)

lemma two_processes_ready:
  assumes "kq_rep q [0]"
  shows "ready (two_processes q) [0]" "known (two_processes q) [0] = [0, 1]"
    "\<forall>p \<in> {0, 1}. \<exists>pr. cells (processes (two_processes q)) p = Some pr \<and> pblock pr = None"
  using assms by (auto simp: ready_def known_def process_ok_def two_processes_def example_kernel_def
      blank_process_def less_Suc_eq)

text \<open>Every process adds 1 to its status register in each of its turns.\<close>

lemma fair_time_slices_witness:
  "\<exists>q cpu' st'. time_sharing (constant_hardware 37) (\<lambda>a. a) (\<lambda>i n st. None) (\<lambda>p. spsr_update (\<lambda>x. x + 1)) 6
      (register_contents_new, example_system (two_processes q)) =
      Some ([Some 1, Some 0, Some 1, Some 0, Some 1, Some 0], cpu', st') \<and>
    own_registers 0 cpu' (clients st') = Some (register_contents_new\<lparr>spsr := spsr register_contents_new + 3\<rparr>)"
proof -
  obtain q where q: "kq_rep q [0 :: nat]" using kq_rep_exists by blast
  let ?st = "example_system (two_processes q)" and ?user = "\<lambda>p :: nat. spsr_update (\<lambda>x :: u32. x + 1) :: register_contents \<Rightarrow> register_contents"
  have t: "timer_only (constant_hardware 37) ?st"
    using example_armed [of 37 "two_processes q"] by (simp add: timer_only_def constant_hardware_def)
  have own: "own_registers 0 register_contents_new (clients ?st) = Some register_contents_new"
    by (simp add: own_registers_def example_system_def two_processes_def example_kernel_def blank_process_def)
  have "clients ?st = two_processes q" by (simp add: example_system_def)
  then have "ready (clients ?st) [0]" "current_process (clients ?st) = Some 1" "register_block (clients ?st) = Some 1"
    "\<forall>p \<in> set [1, 0]. \<exists>pr. cells (processes (clients ?st)) p = Some pr \<and> pblock pr = None"
    using two_processes_ready [OF q] by (simp_all add: two_processes_def)
  from fair_time_slices [OF t this, of "\<lambda>a. a" "\<lambda>i n st. None" ?user 3 register_contents_new] own
  have "\<exists>cpu' st'. time_sharing (constant_hardware 37) (\<lambda>a. a) (\<lambda>i n st. None) ?user 6 (register_contents_new, ?st) =
      Some (concat (replicate 3 [Some 1, Some 0]), cpu', st') \<and>
    own_registers 0 cpu' (clients st') = Some ((?user 0 ^^ 3) register_contents_new)"
    by (auto simp del: time_sharing.simps)
  moreover have "concat (replicate 3 [Some 1, Some 0]) = [Some 1, Some 0, Some 1, Some 0, Some 1, Some (0 :: nat)]"
    by (simp add: numeral_3_eq_3)
  moreover have "(?user 0 ^^ 3) register_contents_new = register_contents_new\<lparr>spsr := spsr register_contents_new + 3\<rparr>"
    by (simp add: numeral_3_eq_3)
  ultimately show ?thesis by metis
qed

lemma time_sharing_own_cpu_witness:
  "\<exists>q ran cpu' st'. time_sharing (constant_hardware 37) (\<lambda>a. a) (\<lambda>i n st. None) (\<lambda>p. set_reg p 1) 5
      (register_contents_new, example_system (two_processes q)) = Some (ran, cpu', st') \<and>
    own_registers 0 cpu' (clients st') = Some ((set_reg 0 1 ^^ count_list ran (Some 0)) register_contents_new)"
proof -
  obtain q where q: "kq_rep q [0 :: nat]" using kq_rep_exists by blast
  let ?st = "example_system (two_processes q)"
  have t: "timer_only (constant_hardware 37) ?st"
    using example_armed [of 37 "two_processes q"] by (simp add: timer_only_def constant_hardware_def)
  have own: "own_registers 0 register_contents_new (clients ?st) = Some register_contents_new"
    by (simp add: own_registers_def example_system_def two_processes_def example_kernel_def blank_process_def)
  have "clients ?st = two_processes q" by (simp add: example_system_def)
  then have "ready (clients ?st) [0]" "block_known (clients ?st) [0]" "0 \<in> set (known (clients ?st) [0])"
    "undisturbed (clients ?st) 0"
    using two_processes_ready [OF q] by (simp_all add: block_known_def undisturbed_def) (simp add: two_processes_def)
  from time_sharing_own_cpu [OF t this, of "\<lambda>a. a" "\<lambda>i n st. None" "\<lambda>p. set_reg p 1" 5 register_contents_new] own
  show ?thesis by auto
qed

section \<open>Flagged interrupts\<close>

text \<open>
  C28: the entry of interrupts looks at eight bits of the number that the interrupt controller gives,
  the dispatcher at seven. If the controller sets the eighth bit, which belongs to its flag for
  spurious interrupts, together with the number of the timer, the scheduler runs without a switch
  of the context: the next process takes over the registers of the one that ran before, whose
  computation since it was last saved is lost.
\<close>

theorem flagged_interrupt_mixes_registers:
  assumes "armed hw st" and "\<And>d. fst (hw_read hw (intc_base (fst (irqs st)) + sir_irq) d) AND 0xff \<noteq> 37"
    and "ready (clients st) ps" and "known (clients st) ps = p # rest" and "is_blocking p (clients st) = Some False"
    and "register_block (clients st) = Some c" and "c \<noteq> p"
  shows "\<exists>st'. int_irq hw par driver (cpu, st) = Some (cpu, st') \<and> own_registers p cpu (clients st') = Some cpu \<and>
    own_registers c cpu (clients st') = map_option registers (cells (processes (clients st)) c)"
proof -
  obtain ih b where ir: "irqs st = (ih, b)" by fastforce
  obtain v b1 where r: "io_read hw (intc_base ih) sir_irq b = (v, b1)" by fastforce
  then have v: "v AND 0xff \<noteq> 37" using io_read_trace(3) [of hw "intc_base ih" sir_irq b] assms(2) ir by simp
  obtain k' where k': "interrupt par (clients st) = Some (Running k')" "register_block k' = Some p"
    "cells (processes k') c = cells (processes (clients st)) c"
    using interrupt_turn [OF assms(3, 4), of par] assms(5, 7) by auto
  have "armed hw (st\<lparr>irqs := (ih, b1)\<rparr>)" using assms(1) ir by (simp add: armed_def)
  from system_irq_armed [OF this, of par k' driver] k'(1) obtain st' where
    "system_irq hw par driver (st\<lparr>irqs := (ih, b1)\<rparr>) = Some st'" "clients st' = k'" by auto
  then show ?thesis
    using ir r v k'(2, 3) assms(7) by (simp add: int_irq_def own_registers_def)
qed

lemma flagged_interrupt_mixes_registers_witness:
  "\<exists>q st'. int_irq (constant_hardware 0xa5) (\<lambda>a. a) (\<lambda>i n st. None)
      (register_contents_new\<lparr>spsr := 0\<rparr>, example_system (two_processes q)) = Some (register_contents_new\<lparr>spsr := 0\<rparr>, st') \<and>
    own_registers 0 (register_contents_new\<lparr>spsr := 0\<rparr>) (clients st') = Some (register_contents_new\<lparr>spsr := 0\<rparr>)"
proof -
  obtain q where q: "kq_rep q [0 :: nat]" using kq_rep_exists by blast
  let ?st = "example_system (two_processes q)"
  have a: "armed (constant_hardware 0xa5) ?st" by (rule example_armed) simp
  have n: "fst (hw_read (constant_hardware 0xa5) (intc_base (fst (irqs ?st)) + sir_irq) d) AND 0xff \<noteq> 37" for d
    by (simp add: constant_hardware_def)
  have "clients ?st = two_processes q" by (simp add: example_system_def)
  then have "ready (clients ?st) [0]" "known (clients ?st) [0] = 0 # [1]" "is_blocking 0 (clients ?st) = Some False"
    "register_block (clients ?st) = Some 1"
    using two_processes_ready [OF q] by (simp_all add: is_blocking_def) (auto simp: two_processes_def)
  from flagged_interrupt_mixes_registers [OF a n this, of "\<lambda>a. a" "\<lambda>i n st. None" "register_contents_new\<lparr>spsr := 0\<rparr>"]
  show ?thesis by auto
qed

end
