(* ===== verification/Kernel_Wait.thy ===== *)
theory Kernel_Wait
  imports Kernel_Context
begin

text \<open>
  Waiting for a process from the system call to the restored registers: the call goes through the
  entry of system calls, the table, the scheduler and a wait block; the timer gives the CPU to the process
  that is waited for; its exit ends the wait, and the timer returns to the caller.
\<close>

section \<open>What an interrupt leaves alone\<close>

definition kheap :: "kernel \<Rightarrow> mm" where
  "kheap k = mmem (kmem (kmmu k))"

lemma kheap_upd [simp]:
  "kheap (k\<lparr>processes := x\<rparr>) = kheap k" "kheap (k\<lparr>waitblocks := y\<rparr>) = kheap k"
  "kheap (k\<lparr>process_queue := q\<rparr>) = kheap k" "kheap (k\<lparr>current_process := c\<rparr>) = kheap k"
  "kheap (k\<lparr>register_block := c\<rparr>) = kheap k" "kheap (user_store_word a v k) = kheap k"
  "kheap (enable_addrspace par k) = kheap k"
  by (simp_all add: kheap_def user_store_word_def user_store_def enable_addrspace_def set_application_table_def Let_def)

lemma upd_process_kheap: "upd_process p f k = Some k' \<Longrightarrow> kheap k' = kheap k \<and> waitblocks k' = waitblocks k"
  by (elim upd_process_cells) simp

text \<open>Releasing a process deletes its wait block and no other, and gives back no memory of the model's heap.\<close>

lemma release_block_keeps:
  assumes "release_block p k = Some k'"
  shows "kheap k' = kheap k \<and> (block_of k p \<noteq> Some (Some w) \<longrightarrow> cells (waitblocks k') w = cells (waitblocks k) w)"
proof -
  obtain pr where pr: "cells (processes k) p = Some pr"
    using assms by (auto simp: release_block_def split: Option.bind_splits)
  show ?thesis
  proof (cases "pblock pr")
    case None
    then show ?thesis using assms pr by (simp add: release_block_def)
  next
    case (Some v)
    then obtain k1 k2 where k1: "block_return v k = Some k1" and k2: "waitblock_delete v k1 = Some k2"
      and k3: "upd_process p (pblock_update (\<lambda>_. None)) k2 = Some k'"
      using assms pr by (auto simp: release_block_def split: Option.bind_splits)
    have 1: "kheap k1 = kheap k \<and> waitblocks k1 = waitblocks k"
      using k1 upd_process_kheap by (auto simp: block_return_def split: Option.bind_splits if_splits)
    obtain b :: waitblock and k0 ws where b: "delete_obj (Some v) (waitblocks k0) = Some ws" "k2 = k0\<lparr>waitblocks := ws\<rparr>"
      and k0: "(if waitpid b = - 1 \<or> waitpid b = 0 then set_child_termination_listener None (caller b) k1 else Some k1) = Some k0"
      using k2 by (auto simp: waitblock_delete_def split: Option.bind_splits)
    have "kheap k0 = kheap k1 \<and> waitblocks k0 = waitblocks k1"
      using k0 upd_process_kheap by (auto simp: set_child_termination_listener_def split: if_splits)
    moreover from b(1) have "ws = (waitblocks k0)\<lparr>cells := (cells (waitblocks k0))(v := None)\<rparr>"
      by (rule delete_obj_cells)
    ultimately show ?thesis
      using 1 b(2) upd_process_kheap [OF k3] pr Some by (auto simp: block_of_def)
  qed
qed

text \<open>The two branches of an interrupt that has a process to look at.\<close>

lemma interrupt_parts:
  assumes "ready k ps" and "known k ps = p # rest" and "interrupt par k = Some (Running k')"
  obtains k3 where "processes k3 = processes k" "waitblocks k3 = waitblocks k" "kheap k3 = kheap k"
    "is_blocking p k = Some True \<longrightarrow> processes k' = processes k \<and> waitblocks k' = waitblocks k \<and> kheap k' = kheap k"
    "is_blocking p k = Some False \<longrightarrow>
      (\<exists>k4. release_block p k3 = Some k4 \<and> k' = k4\<lparr>register_block := Some p\<rparr>)"
proof -
  obtain k1 where k1: "(case current_process k of None \<Rightarrow> Some k | Some c \<Rightarrow> schedule c k) = Some k1"
    and kq1: "kq_rep (process_queue k1) (p # rest)" and same: "k1 = k\<lparr>process_queue := process_queue k1\<rparr>"
  proof (cases "current_process k")
    case None
    with assms(1, 2) show thesis by (intro that [of k]) (simp_all add: ready_def known_def)
  next
    case (Some c)
    from assms(1) have "kq_rep (process_queue k) ps" by (simp add: ready_def)
    from kq.rep_pushb [OF this, of c] obtain q1 where q1: "push_back c (process_queue k) = Some q1" "kq_rep q1 (ps @ [c])"
      by blast
    show thesis
      by (rule that [of "k\<lparr>process_queue := q1\<rparr>"]) (use Some q1 assms(2) in \<open>simp_all add: schedule_def known_def\<close>)
  qed
  obtain q' where q': "pop_front (process_queue k1) = Some (Some p, q')" using kq.popf_cases [OF kq1] by auto
  define k3 where "k3 = enable_addrspace par (k1\<lparr>process_queue := q', current_process := Some p\<rparr>)"
  have fr: "processes k3 = processes k" "waitblocks k3 = waitblocks k" "kheap k3 = kheap k"
    by (subst k3_def, subst same, simp)+
  have b3: "is_blocking p k3 = is_blocking p k" by (rule is_blocking_frame [OF fr(1, 2)])
  have step: "do { b \<leftarrow> is_blocking p k3;
      if b then do { k4 \<leftarrow> schedule p k3; Some (Running (k4\<lparr>current_process := None\<rparr>)) }
      else do { k4 \<leftarrow> release_block p k3; Some (Running (k4\<lparr>register_block := Some p\<rparr>)) } } = Some (Running k')"
    using assms(3) k1 q' unfolding k3_def interrupt_def Let_def by simp
  show thesis
  proof (rule that [OF fr])
    show "is_blocking p k = Some True \<longrightarrow> processes k' = processes k \<and> waitblocks k' = waitblocks k \<and> kheap k' = kheap k"
    proof
      assume "is_blocking p k = Some True"
      with step b3 obtain k4 where "schedule p k3 = Some k4" "k' = k4\<lparr>current_process := None\<rparr>"
        by (auto split: Option.bind_splits)
      with fr show "processes k' = processes k \<and> waitblocks k' = waitblocks k \<and> kheap k' = kheap k"
        by (auto simp: schedule_def split: Option.bind_splits)
    qed
    show "is_blocking p k = Some False \<longrightarrow> (\<exists>k4. release_block p k3 = Some k4 \<and> k' = k4\<lparr>register_block := Some p\<rparr>)"
    proof
      assume "is_blocking p k = Some False"
      with step b3 have "do { k4 \<leftarrow> release_block p k3; Some (Running (k4\<lparr>register_block := Some p\<rparr>)) } = Some (Running k')"
        by simp
      then show "\<exists>k4. release_block p k3 = Some k4 \<and> k' = k4\<lparr>register_block := Some p\<rparr>"
        by (cases "release_block p k3") auto
    qed
  qed
qed

text \<open>
  The wait blocks that the turns of some processes leave alone: those of other processes, and those
  that still wait.
\<close>

definition lasting :: "kernel \<Rightarrow> nat list \<Rightarrow> nat \<Rightarrow> bool" where
  "lasting k xs w \<longleftrightarrow> (\<forall>q \<in> set xs. block_of k q \<noteq> Some (Some w)) \<or> (\<exists>b. cells (waitblocks k) w = Some b \<and> active b)"

lemma interrupt_keeps:
  assumes "ready k ps" and "known k ps = p # rest" and "interrupt par k = Some (Running k')"
  shows "kheap k' = kheap k \<and> (lasting k [p] w \<longrightarrow> cells (waitblocks k') w = cells (waitblocks k) w)"
proof -
  obtain k3 where k3: "processes k3 = processes k" "waitblocks k3 = waitblocks k" "kheap k3 = kheap k"
    "is_blocking p k = Some True \<longrightarrow> processes k' = processes k \<and> waitblocks k' = waitblocks k \<and> kheap k' = kheap k"
    "is_blocking p k = Some False \<longrightarrow> (\<exists>k4. release_block p k3 = Some k4 \<and> k' = k4\<lparr>register_block := Some p\<rparr>)"
    by (rule interrupt_parts [OF assms])
  have "is_blocking p k \<noteq> None"
    using assms(1, 2) by (intro is_blocking_ok) (simp add: ready_def)
  then obtain blocked where b: "is_blocking p k = Some blocked" by blast
  show ?thesis
  proof (cases blocked)
    case True
    with b k3(4) show ?thesis by simp
  next
    case False
    with b k3(5) obtain k4 where k4: "release_block p k3 = Some k4" "k' = k4\<lparr>register_block := Some p\<rparr>" by auto
    have eq: "block_of k3 p = block_of k p" using k3(1) by (simp add: block_of_def)
    have "block_of k p \<noteq> Some (Some w)" if "lasting k [p] w"
      using that False b by (auto simp: lasting_def is_blocking_def block_of_def)
    with eq release_block_keeps [OF k4(1), of w] k3(2, 3) k4(2) show ?thesis by auto
  qed
qed

text \<open>The interrupts before the one that gives the CPU to a process leave it alone.\<close>

lemma interrupts_keep:
  assumes "ready k ps" and "known k ps = xs @ p # ys"
  shows "\<exists>k' qs. interrupts par (length xs) k = Some (Running k') \<and> ready k' qs \<and> known k' qs = p # ys @ xs \<and>
    kheap k' = kheap k \<and> (\<forall>q. q \<notin> set xs \<longrightarrow> cells (processes k') q = cells (processes k) q) \<and>
    (\<forall>w. lasting k xs w \<longrightarrow> cells (waitblocks k') w = cells (waitblocks k) w)"
  using assms
proof (induction xs arbitrary: k ps ys)
  case Nil
  then show ?case by auto
next
  case (Cons x xs)
  have kn: "known k ps = x # (xs @ p # ys)" using Cons.prems(2) by simp
  from interrupt_turn [OF Cons.prems(1) kn, of par] obtain k1 where
    k1: "interrupt par k = Some (Running k1)" "\<forall>q. q \<noteq> x \<longrightarrow> cells (processes k1) q = cells (processes k) q"
    and turn: "if is_blocking x k = Some True
      then current_process k1 = None \<and> ready k1 ((xs @ p # ys) @ [x]) \<and> register_block k1 = register_block k \<and>
        processes k1 = processes k \<and> waitblocks k1 = waitblocks k
      else current_process k1 = Some x \<and> ready k1 (xs @ p # ys) \<and> register_block k1 = Some x \<and>
        (\<exists>pr. cells (processes k1) x = Some pr \<and> pblock pr = None)"
    by blast
  from turn obtain qs where qs: "ready k1 qs" "known k1 qs = xs @ p # (ys @ [x])"
    by (cases "is_blocking x k = Some True") (auto simp: known_def)
  have d: "x \<notin> set xs" using Cons.prems kn by (simp add: ready_def)
  from Cons.IH [OF qs] obtain k' qs' where k': "interrupts par (length xs) k1 = Some (Running k')" "ready k' qs'"
    "known k' qs' = p # (ys @ [x]) @ xs" "kheap k' = kheap k1"
    "\<forall>q. q \<notin> set xs \<longrightarrow> cells (processes k') q = cells (processes k1) q"
    and w: "\<forall>w. lasting k1 xs w \<longrightarrow> cells (waitblocks k') w = cells (waitblocks k1) w"
    by blast
  have "cells (waitblocks k') w = cells (waitblocks k) w" if l: "lasting k (x # xs) w" for w
  proof -
    have "lasting k [x] w" using l by (auto simp: lasting_def)
    then have same: "cells (waitblocks k1) w = cells (waitblocks k) w"
      using interrupt_keeps [OF Cons.prems(1) kn k1(1), of w] by simp
    have "block_of k1 q = block_of k q" if "q \<in> set xs" for q
      using that d k1(2) by (auto simp: block_of_def)
    with l same have "lasting k1 xs w" by (auto simp: lasting_def)
    with w same show ?thesis by simp
  qed
  then show ?case
    using k1 k' interrupt_keeps [OF Cons.prems(1) kn k1(1)] by (intro exI [of _ k'] exI [of _ qs']) auto
qed

lemma interrupts_last:
  "interrupts par n k = Some (Running k1) \<Longrightarrow> interrupts par (n + 1) k = interrupt par k1"
proof (induction n arbitrary: k)
  case 0
  then show ?case by (cases "interrupt par k1") (auto split: outcome.split)
next
  case (Suc n)
  then obtain k0 where "interrupt par k = Some (Running k0)" "interrupts par n k0 = Some (Running k1)"
    by (auto split: Option.bind_splits outcome.splits)
  with Suc.IH [of k0] interrupts.simps(2) [of par "n + 1" k] show ?case by simp
qed


lemma run_next:
  assumes "ready k ps" and "known k ps = xs @ p # ys" and "is_blocking p k = Some False"
  obtains k3 k4 k' qs where "interrupts par (length xs + 1) k = Some (Running k')"
    "current_process k' = Some p" "register_block k' = Some p" "ready k' qs" "known k' qs = ys @ xs @ [p]"
    "kheap k' = kheap k" "release_block p k3 = Some k4" "k' = k4\<lparr>register_block := Some p\<rparr>"
    "\<And>q. q \<notin> set xs \<Longrightarrow> cells (processes k3) q = cells (processes k) q"
    "\<And>w. lasting k xs w \<Longrightarrow> cells (waitblocks k3) w = cells (waitblocks k) w"
    "\<And>q. q \<notin> set (xs @ [p]) \<Longrightarrow> cells (processes k') q = cells (processes k) q"
    "\<And>w. lasting k (xs @ [p]) w \<Longrightarrow> cells (waitblocks k') w = cells (waitblocks k) w"
proof -
  obtain k0 qs0 where k0: "interrupts par (length xs) k = Some (Running k0)" "ready k0 qs0" "known k0 qs0 = p # ys @ xs"
    "kheap k0 = kheap k" "\<forall>q. q \<notin> set xs \<longrightarrow> cells (processes k0) q = cells (processes k) q"
    and w0: "\<forall>w. lasting k xs w \<longrightarrow> cells (waitblocks k0) w = cells (waitblocks k) w"
    using interrupts_keep [OF assms(1, 2), of par] by blast
  obtain k' qs where k': "interrupts par (Suc (length xs)) k = Some (Running k')" "current_process k' = Some p"
    "register_block k' = Some p" "ready k' qs" "known k' qs = ys @ xs @ [p]"
    using interrupts_reach [OF assms, of par] by blast
  have i: "interrupt par k0 = Some (Running k')" using interrupts_last [OF k0(1)] k'(1) by simp
  have pxs: "p \<notin> set xs" using assms(1, 2) by (simp add: ready_def)
  then have pc: "cells (processes k0) p = cells (processes k) p" using k0(5) by simp
  obtain k0' where "interrupt par k0 = Some (Running k0')"
    and turn: "\<forall>q. q \<noteq> p \<longrightarrow> cells (processes k0') q = cells (processes k0) q"
      "if is_blocking p k0 = Some True then current_process k0' = None \<and> ready k0' ((ys @ xs) @ [p]) \<and> register_block k0' = register_block k0 \<and>
        processes k0' = processes k0 \<and> waitblocks k0' = waitblocks k0
       else current_process k0' = Some p \<and> ready k0' (ys @ xs) \<and> register_block k0' = Some p \<and>
         (\<exists>pr. cells (processes k0') p = Some pr \<and> pblock pr = None)"
    using interrupt_turn [OF k0(2, 3), of par] by blast
  with i have "k0' = k'" by simp
  with turn k'(2) have nb: "is_blocking p k0 \<noteq> Some True" and others: "\<forall>q. q \<noteq> p \<longrightarrow> cells (processes k') q = cells (processes k0) q"
    by auto
  have "is_blocking p k0 \<noteq> None" using k0(2, 3) by (intro is_blocking_ok) (simp add: ready_def)
  with nb have b0: "is_blocking p k0 = Some False" by (cases "is_blocking p k0") auto
  obtain k3 where k3: "processes k3 = processes k0" "waitblocks k3 = waitblocks k0"
    "is_blocking p k0 = Some False \<longrightarrow> (\<exists>k4. release_block p k3 = Some k4 \<and> k' = k4\<lparr>register_block := Some p\<rparr>)"
    by (rule interrupt_parts [OF k0(2, 3) i]) blast
  from k3(3) b0 obtain k4 where k4: "release_block p k3 = Some k4" "k' = k4\<lparr>register_block := Some p\<rparr>" by blast
  have heap: "kheap k' = kheap k" using interrupt_keeps [OF k0(2, 3) i] k0(4) by simp
  have blocks: "cells (waitblocks k') w = cells (waitblocks k) w"
    if l: "lasting k (xs @ [p]) w" for w
  proof -
    have "lasting k xs w" using l by (auto simp: lasting_def)
    with w0 have same: "cells (waitblocks k0) w = cells (waitblocks k) w" by simp
    moreover have "block_of k0 p = block_of k p" using pc by (simp add: block_of_def)
    ultimately have "lasting k0 [p] w" using l by (auto simp: lasting_def)
    with interrupt_keeps [OF k0(2, 3) i, of w] same show ?thesis by simp
  qed
  show thesis
    by (rule that [OF _ k'(2-5) heap k4 _ _ _ blocks]) (use k'(1) k0(5) k3(1, 2) w0 others in simp_all)
qed

text \<open>The wait block of a process is its own.\<close>

lemma block_owner:
  assumes "ready k ps" and "q \<in> set (known k ps)" and "block_of k q = Some (Some w)"
  shows "\<exists>b. cells (waitblocks k) w = Some b \<and> caller b = q"
proof -
  from assms(1, 2) obtain pr where "cells (processes k) q = Some pr" "\<forall>w. pblock pr = Some w \<longrightarrow> block_ok k q w"
    by (auto simp: ready_def process_ok_def)
  with assms(3) show ?thesis by (auto simp: block_of_def block_ok_def)
qed

text \<open>The next turn of a process without a wait block, and of one whose wait has ended.\<close>

lemma run_unblocked:
  assumes "ready k ps" and "known k ps = xs @ p # ys" and "cells (processes k) p = Some pr" and "pblock pr = None"
  obtains k' qs where "interrupts par (length xs + 1) k = Some (Running k')"
    "current_process k' = Some p" "register_block k' = Some p" "ready k' qs" "known k' qs = ys @ xs @ [p]"
    "kheap k' = kheap k" "\<And>q. q \<notin> set xs \<Longrightarrow> cells (processes k') q = cells (processes k) q"
    "\<And>w. lasting k (xs @ [p]) w \<Longrightarrow> cells (waitblocks k') w = cells (waitblocks k) w"
proof -
  have b: "is_blocking p k = Some False" using assms(3, 4) by (simp add: is_blocking_def)
  have pxs: "p \<notin> set xs" using assms(1, 2) by (simp add: ready_def)
  show thesis
  proof (rule run_next [OF assms(1, 2) b, of par], rule that)
    fix k3 k4 k' qs q
    assume k3: "release_block p k3 = Some k4" "k' = k4\<lparr>register_block := Some p\<rparr>"
      "\<And>q. q \<notin> set xs \<Longrightarrow> cells (processes k3) q = cells (processes k) q"
    then have "k4 = k3" using assms(3, 4) pxs by (simp add: release_block_def)
    with k3 show "q \<notin> set xs \<Longrightarrow> cells (processes k') q = cells (processes k) q" by simp
  qed
qed

lemma run_released:
  assumes "ready k ps" and "known k ps = xs @ p # ys" and "cells (processes k) p = Some pr" and "pblock pr = Some w"
    and "cells (waitblocks k) w = Some b" and "\<not> active b" and "terminated_pid b = Some t"
    and "status_loc b \<noteq> 0 \<longrightarrow> wexit_code b = Some e"
  shows "\<exists>k' pr'. interrupts par (length xs + 1) k = Some (Running k') \<and> current_process k' = Some p \<and>
    register_block k' = Some p \<and> cells (processes k') p = Some pr' \<and> registers pr' = set_reg 0 t (registers pr) \<and>
    kheap k' = kheap k \<and>
    (status_loc b \<noteq> 0 \<longrightarrow> user_bytes k' (status_loc b) = map (\<lambda>i. ucast (drop_bit (8 * i) e)) [0..<4])"
proof -
  have nb: "is_blocking p k = Some False" using assms(3-6) by (simp add: is_blocking_def)
  have pxs: "p \<notin> set xs" using assms(1, 2) by (simp add: ready_def)
  have mine: "caller b = p" using block_owner [OF assms(1), of p w] assms(2-5) by (simp add: block_of_def)
  have "block_of k q \<noteq> Some (Some w)" if "q \<in> set xs" for q
    using block_owner [OF assms(1), of q w] that assms(2, 5) mine pxs by auto
  then have "lasting k xs w" by (simp add: lasting_def)
  then show ?thesis
  proof (rule_tac run_next [OF assms(1, 2) nb, of par])
    fix k3 k4 k' qs
    assume u: "lasting k xs w"
      and r: "interrupts par (length xs + 1) k = Some (Running k')" "current_process k' = Some p" "register_block k' = Some p"
      "kheap k' = kheap k" "release_block p k3 = Some k4" "k' = k4\<lparr>register_block := Some p\<rparr>"
      and k3: "\<And>q. q \<notin> set xs \<Longrightarrow> cells (processes k3) q = cells (processes k) q"
      "\<And>w. lasting k xs w \<Longrightarrow> cells (waitblocks k3) w = cells (waitblocks k) w"
    have "cells (processes k3) p = Some pr" "cells (waitblocks k3) w = Some b"
      using k3 u pxs assms(3, 5) by simp_all
    from release_block_result [OF this(1) assms(4) this(2) mine assms(7, 8)] r(5) obtain pr' where
      "cells (processes k4) p = Some pr'" "registers pr' = set_reg 0 t (registers pr)"
      "status_loc b \<noteq> 0 \<longrightarrow> user_bytes k4 (status_loc b) = map (\<lambda>i. ucast (drop_bit (8 * i) e)) [0..<4]" by auto
    with r show ?thesis
      by (intro exI [of _ k'] exI [of _ pr']) (simp add: user_bytes_def)
  qed
qed

section \<open>The two calls\<close>

definition waiting_block :: "u32 \<Rightarrow> u32 \<Rightarrow> nat \<Rightarrow> waitblock" where
  "waiting_block x loc c = \<lparr>waitpid = x, status_loc = loc, wexit_code = None, caller = c, terminated_pid = None, active = True\<rparr>"

lemma get_process_found:
  assumes "ready k ps" and "get_process x k = Some (Some p)"
  shows "p \<in> set ps \<and> (\<forall>pr. cells (processes k) p = Some pr \<longrightarrow> pid pr = x)"
proof -
  have "kq_rep (process_queue k) ps" "\<forall>q \<in> set ps. cells (processes k) q \<noteq> None"
    using assms(1) by (auto simp: ready_def known_def process_ok_def)
  from get_process_queue [OF this, of x] assms(2)
  have "find (\<lambda>q. pid (the (cells (processes k) q)) = x) ps = Some p" by simp
  then show ?thesis by (auto simp: find_Some_iff)
qed

lemma syscall_wait_found:
  assumes "ready k ps" and "store_ok (waitblocks k)" and "current_process k = Some c"
    and "get_process x k = Some (Some p)" and "x \<noteq> 0" and "x \<noteq> - 1" and "cells (processes k) p = Some pr"
    and "kq_rep (termination_listeners pr) ls" and "cells (processes k) c = Some pc"
  obtains k' q where "syscall_wait x loc k = Some k'" "current_process k' = None" "register_block k' = None"
    "kheap k' = kheap k" "ready k' (ps @ [c])" "kq_rep q (Waitblock_listener (fresh (waitblocks k)) # ls)"
    "cells (processes k') = (cells (processes k))(p \<mapsto> pr\<lparr>termination_listeners := q\<rparr>, c \<mapsto> pc\<lparr>pblock := Some (fresh (waitblocks k))\<rparr>)"
    "cells (waitblocks k') = (cells (waitblocks k))(fresh (waitblocks k) \<mapsto> waiting_block x loc c)"
proof -
  let ?w = "fresh (waitblocks k)"
  obtain q where q: "push_front (Waitblock_listener ?w) (termination_listeners pr) = Some q"
    "kq_rep q (Waitblock_listener ?w # ls)" using kq.rep_pushf [OF assms(8)] by blast
  have kq: "kq_rep (process_queue k) ps" using assms(1) by (simp add: ready_def)
  obtain q2 where q2: "push_back c (process_queue k) = Some q2" "kq_rep q2 (ps @ [c])" using kq.rep_pushb [OF kq] by blast
  have kn: "known k ps = ps @ [c]" using assms(3) by (simp add: known_def)
  have pin: "p \<in> set ps" using get_process_found [OF assms(1, 4)] by simp
  have pc: "p \<noteq> c" using assms(1) kn pin by (auto simp: ready_def)
  define ws where "ws = (waitblocks k)\<lparr>cells := (cells (waitblocks k))(?w \<mapsto> waiting_block x loc c), fresh := Suc ?w\<rparr>"
  define ps' where "ps' = (processes k)\<lparr>cells := (cells (processes k))(p \<mapsto> pr\<lparr>termination_listeners := q\<rparr>, c \<mapsto> pc\<lparr>pblock := Some ?w\<rparr>)\<rparr>"
  define k' where "k' = k\<lparr>waitblocks := ws, processes := ps', process_queue := q2, current_process := None, register_block := None\<rparr>"
  have "get_process x (k\<lparr>waitblocks := ws\<rparr>) = Some (Some p)" using assms(4) by (simp add: get_process_def)
  then have r: "syscall_wait x loc k = Some k'"
    using assms(3, 5-7, 9) pc q(1) q2(1) unfolding k'_def ps'_def ws_def
    by (simp add: syscall_wait_def waitblock_new_def new_obj_def waiting_block_def add_termination_listener_def
        upd_process_def modify_cell schedule_def)
  have fresh: "cells (waitblocks k) ?w = None" using assms(2) by (rule store_ok_fresh)
  have "process_ok k' y" if y: "y \<in> set (ps @ [c])" for y
  proof -
    from y assms(1) kn obtain py where py: "cells (processes k) y = Some py" "\<forall>v. pblock py = Some v \<longrightarrow> block_ok k y v"
      by (auto simp: ready_def process_ok_def)
    have old: "block_ok k' y v" if "block_ok k y v" for v
    proof -
      from that fresh have "v \<noteq> ?w" by (auto simp: block_ok_def)
      with that show ?thesis by (simp add: block_ok_def k'_def ws_def)
    qed
    have new: "block_ok k' c ?w" by (simp add: block_ok_def k'_def ws_def waiting_block_def)
    show ?thesis
      using py old new assms(7) by (cases "y = c"; cases "y = p") (auto simp: process_ok_def k'_def ps'_def)
  qed
  moreover have "known k' (ps @ [c]) = ps @ [c]" by (simp add: known_def k'_def)
  ultimately have "ready k' (ps @ [c])"
    using assms(1) kn q2(2) by (simp add: ready_def k'_def)
  with r q(2) show thesis
    by (intro that [of k' q]) (simp_all add: k'_def ps'_def ws_def)
qed

text \<open>All wait blocks that listen to a process learn of its end.\<close>

definition ended_blocks :: "u32 \<Rightarrow> u32 \<Rightarrow> nat list \<Rightarrow> (nat \<Rightarrow> waitblock option) \<Rightarrow> nat \<Rightarrow> waitblock option" where
  "ended_blocks x e ws f = (\<lambda>w. if w \<in> set ws then map_option (ended x e) (f w) else f w)"

lemma notify_blocks:
  assumes "cells (processes k) p = Some pr" and "\<forall>w \<in> set ws. cells (waitblocks k) w \<noteq> None"
  shows "notify_all (map Waitblock_listener ws) p k = Some (k\<lparr>waitblocks := (waitblocks k)\<lparr>cells :=
    ended_blocks (pid pr) (exit_code pr) ws (cells (waitblocks k))\<rparr>\<rparr>)"
  using assms
proof (induction ws arbitrary: k)
  case Nil
  then show ?case by (simp add: ended_blocks_def)
next
  case (Cons w ws)
  then obtain b where b: "cells (waitblocks k) w = Some b" by auto
  let ?k = "k\<lparr>waitblocks := (waitblocks k)\<lparr>cells := (cells (waitblocks k))(w \<mapsto> ended (pid pr) (exit_code pr) b)\<rparr>\<rparr>"
  have "notify (Waitblock_listener w) p k = Some ?k"
    using Cons.prems(1) b by (simp add: notify.simps waitblock_terminated_def upd_waitblock_def modify_cell ended_def)
  moreover have "notify_all (map Waitblock_listener ws) p ?k = Some (?k\<lparr>waitblocks := (waitblocks ?k)\<lparr>cells :=
      ended_blocks (pid pr) (exit_code pr) ws (cells (waitblocks ?k))\<rparr>\<rparr>)"
    by (rule Cons.IH) (use Cons.prems in auto)
  moreover have "ended_blocks (pid pr) (exit_code pr) ws (cells (waitblocks ?k)) =
      ended_blocks (pid pr) (exit_code pr) (w # ws) (cells (waitblocks k))"
    using b by (auto simp: ended_blocks_def fun_eq_iff option.map_comp comp_def)
  ultimately show ?case by simp
qed

text \<open>The exit of a process without pages, which only wait blocks listen to.\<close>

lemma syscall_exit_ends:
  assumes "ready k qs" and "current_process k = Some p" and "cells (processes k) p = Some pr"
    and "code_pages pr = 0" and "stack_pages pr = 0"
    and "operator_delete (kstack pr) (kheap k) = Some m1" and "operator_delete (ptable_address pr) m1 = Some m2"
    and "kq_rep (termination_listeners pr) (map Waitblock_listener ws)" and "\<forall>w \<in> set ws. cells (waitblocks k) w \<noteq> None"
  obtains k' where "syscall_exit e k = Some k'" "current_process k' = None" "register_block k' = None" "kheap k' = m2"
    "ready k' qs" "cells (processes k') = (cells (processes k))(p := None)"
    "cells (waitblocks k') = ended_blocks (pid pr) e ws (cells (waitblocks k))"
proof -
  let ?pr = "pr\<lparr>exit_code := e\<rparr>"
  let ?k0 = "k\<lparr>processes := (processes k)\<lparr>cells := (cells (processes k))(p \<mapsto> ?pr)\<rparr>,
    kmmu := (kmmu k)\<lparr>kmem := (kmem (kmmu k))\<lparr>mmem := m1\<rparr>\<rparr>\<rparr>"
  define bs where "bs = (waitblocks k)\<lparr>cells := ended_blocks (pid pr) e ws (cells (waitblocks k))\<rparr>"
  define ps where "ps = (processes k)\<lparr>cells := (cells (processes k))(p := None)\<rparr>"
  define k' where "k' = k\<lparr>waitblocks := bs, processes := ps, kmmu := (kmmu k)\<lparr>kmem := (kmem (kmmu k))\<lparr>mmem := m2\<rparr>\<rparr>,
    current_process := None, register_block := None\<rparr>"
  have els: "elements (termination_listeners pr) = Some (map Waitblock_listener ws)" by (rule kq.rep_elems [OF assms(8)])
  have "cells (processes ?k0) p = Some ?pr" "\<forall>w \<in> set ws. cells (waitblocks ?k0) w \<noteq> None" using assms(9) by simp_all
  from notify_blocks [OF this] have nt: "notify_all (map Waitblock_listener ws) p ?k0 = Some (?k0\<lparr>waitblocks := bs\<rparr>)"
    by (simp add: bs_def)
  have r: "syscall_exit e k = Some k'"
    using assms(2-7) els nt unfolding k'_def ps_def kheap_def
    by (simp add: syscall_exit_def upd_process_def modify_cell delete_process_def Let_def unmap_if_def delete_obj_def)
  have kn: "known k qs = qs @ [p]" "known k' qs = qs" using assms(2) by (simp_all add: known_def k'_def)
  have "process_ok k' y" if y: "y \<in> set qs" for y
  proof -
    have "y \<noteq> p" using y assms(1) kn by (auto simp: ready_def)
    moreover from y assms(1) kn obtain py where py: "cells (processes k) y = Some py"
      "\<forall>v. pblock py = Some v \<longrightarrow> block_ok k y v" by (auto simp: ready_def process_ok_def)
    moreover have "block_ok k' y v" if "block_ok k y v" for v
      using that by (auto simp: block_ok_def k'_def bs_def ended_blocks_def ended_def)
    ultimately show ?thesis by (simp add: process_ok_def k'_def ps_def)
  qed
  then have "ready k' qs" using assms(1) kn by (auto simp: ready_def k'_def)
  with r show thesis by (intro that [of k']) (simp_all add: k'_def ps_def bs_def kheap_def)
qed

section \<open>From the call to its return\<close>

lemma find_pid_registers:
  "cells s c = Some pc \<Longrightarrow> find_pid (s\<lparr>cells := (cells s)(c \<mapsto> pc\<lparr>registers := r\<rparr>)\<rparr>) x ps = find_pid s x ps"
  by (induction ps) (auto split: Option.bind_split)

text \<open>The entry of system calls saves the registers, and changes nothing else.\<close>

lemma svc_saves:
  assumes "ready k ps" and "register_block k = Some c" and "cells (processes k) c = Some pc"
  obtains k0 where "store_context True cpu k = Some k0" "ready k0 ps" "current_process k0 = current_process k"
    "cells (processes k0) = (cells (processes k))(c \<mapsto> pc\<lparr>registers := cpu\<lparr>return_address := return_address cpu + 4\<rparr>\<rparr>)"
    "waitblocks k0 = waitblocks k" "kheap k0 = kheap k" "\<And>x. get_process x k0 = get_process x k"
proof -
  let ?r = "cpu\<lparr>return_address := return_address cpu + 4\<rparr>"
  define k0 where "k0 = k\<lparr>processes := (processes k)\<lparr>cells := (cells (processes k))(c \<mapsto> pc\<lparr>registers := ?r\<rparr>)\<rparr>\<rparr>"
  have u: "upd_process c (registers_update (\<lambda>_. ?r)) k = Some k0"
    using assms(3) by (simp add: upd_process_def modify_cell k0_def)
  then have "store_context True cpu k = Some k0" using assms(2) by (simp add: store_context_def)
  moreover have "ready k0 ps" using upd_registers(1) [OF u] assms(1) by simp
  moreover have "get_process x k0 = get_process x k" for x
    by (cases "elements (process_queue k)") (simp_all add: get_process_def k0_def find_pid_registers [OF assms(3)])
  ultimately show thesis by (intro that [of k0]) (simp_all add: k0_def)
qed

lemma svc_dispatch:
  assumes "store_context True cpu k = Some k0" and "regs cpu = a1 # a2 # a3 # rest"
  shows "svc_at code 1 (return_address cpu) \<Longrightarrow>
      int_svc code (scheduler_syscalls par handlers) (cpu, k) = map_option (\<lambda>k'. (0, k')) (syscall_exit a1 k0)"
    "svc_at code 3 (return_address cpu) \<Longrightarrow>
      int_svc code (scheduler_syscalls par handlers) (cpu, k) = map_option (\<lambda>k'. (0, k')) (syscall_wait a1 a2 k0)"
  using assms by (simp_all add: int_svc_def svc_number_at dispatch_calls exit_call_def wait_call_def)

text \<open>
  C10: waiting for a process, from the system call to its return. The current process \<open>c\<close> calls
  \<open>wait\<close>, with the instruction \<open>svc 3\<close> before its return address, and the identifier \<open>x\<close> of a queued process \<open>p\<close> that does not wait itself, has no pages, whose
  listeners are other blocks that wait for it, and whose memory can be given back. Everything returns: after one timer
  interrupt for each process before \<open>p\<close> and one more, the CPU has the registers of \<open>p\<close>; when
  \<open>p\<close> calls \<open>exit\<close> by \<open>svc 1\<close> with the code \<open>e\<close>, it is gone and its memory is given back; and after one interrupt for each
  process that was behind it and one more, the CPU has the registers that \<open>c\<close> had at its call, with \<open>x\<close> in
  the first one and the address behind the call, and the word that \<open>c\<close> named holds \<open>e\<close>, its
  least significant byte first.
\<close>

theorem wait_returns_after_exit:
  assumes "ready k (xs @ p # ys)" and "store_ok (waitblocks k)" and "current_process k = Some c" and "register_block k = Some c"
    and "get_process x k = Some (Some p)" and "x \<noteq> 0" and "x \<noteq> - 1"
    and "cells (processes k) p = Some pr" and "pblock pr = None" and "kq_rep (termination_listeners pr) (map Waitblock_listener ws)"
    and "\<forall>w \<in> set ws. \<exists>b. cells (waitblocks k) w = Some b \<and> active b"
    and "code_pages pr = 0" and "stack_pages pr = 0"
    and "operator_delete (kstack pr) (mmem (kmem (kmmu k))) = Some m1" and "operator_delete (ptable_address pr) m1 = Some m2"
    and "regs cpu = x # loc # r2 # rs" and "regs cpu' = e # r1' # r2' # rs'"
    and "svc_at code 3 (return_address cpu)" and "svc_at code' 1 (return_address cpu')"
  shows "\<exists>k1 k2 k3 k4. int_svc code (scheduler_syscalls par handlers) (cpu, k) = Some (0, k1) \<and>
    interrupts par (length xs + 1) k1 = Some (Running k2) \<and> restore_context cpu1 k2 = Some (registers pr) \<and>
    int_svc code' (scheduler_syscalls par handlers) (cpu', k2) = Some (0, k3) \<and>
    cells (processes k3) p = None \<and> mmem (kmem (kmmu k3)) = m2 \<and>
    interrupts par (length ys + 1) k3 = Some (Running k4) \<and>
    restore_context cpu2 k4 = Some (set_reg 0 x (cpu\<lparr>return_address := return_address cpu + 4\<rparr>)) \<and>
    (loc \<noteq> 0 \<longrightarrow> user_bytes k4 loc = map (\<lambda>i. ucast (drop_bit (8 * i) e)) [0..<4])"
proof -
  let ?ps = "xs @ p # ys" and ?w = "fresh (waitblocks k)" and ?r = "cpu\<lparr>return_address := return_address cpu + 4\<rparr>"
  have kn: "known k ?ps = ?ps @ [c]" using assms(3) by (simp add: known_def)
  then have d: "c \<notin> set xs" "c \<notin> set ys" "c \<noteq> p" "p \<notin> set xs"
    and ok: "\<And>q. q \<in> set ?ps \<union> {c} \<Longrightarrow> process_ok k q" using assms(1) by (auto simp: ready_def)
  obtain pc where pc: "cells (processes k) c = Some pc" using ok [of c] by (auto simp: process_ok_def)
  have px: "pid pr = x" using get_process_found [OF assms(1, 5)] assms(8) by simp
  obtain k0 where k0: "store_context True cpu k = Some k0" "ready k0 ?ps" "current_process k0 = Some c"
    "cells (processes k0) = (cells (processes k))(c \<mapsto> pc\<lparr>registers := ?r\<rparr>)"
    "waitblocks k0 = waitblocks k" "kheap k0 = kheap k" "get_process x k0 = Some (Some p)"
    by (rule svc_saves [OF assms(1, 4) pc, of cpu]) (use assms(3, 5) in auto)
  have st0: "store_ok (waitblocks k0)" using assms(2) k0(5) by simp
  have c0: "cells (processes k0) p = Some pr" "cells (processes k0) c = Some (pc\<lparr>registers := ?r\<rparr>)"
    using assms(8) d(3) k0(4) by simp_all
  obtain k1 q where k1: "syscall_wait x loc k0 = Some k1" "current_process k1 = None" "kheap k1 = kheap k" "ready k1 (?ps @ [c])"
    "kq_rep q (map Waitblock_listener (?w # ws))" "cells (processes k1) = (cells (processes k0))(p \<mapsto> pr\<lparr>termination_listeners := q\<rparr>,
       c \<mapsto> pc\<lparr>registers := ?r, pblock := Some ?w\<rparr>)"
    "cells (waitblocks k1) = (cells (waitblocks k))(?w \<mapsto> waiting_block x loc c)"
    by (rule syscall_wait_found [OF k0(2) st0 k0(3, 7) assms(6, 7) c0(1) assms(10) c0(2), of loc]) (use k0(5, 6) in auto)
  have svc1: "int_svc code (scheduler_syscalls par handlers) (cpu, k) = Some (0, k1)"
    using svc_dispatch(2) [OF k0(1) assms(16, 18)] k1(1) by simp
  let ?pr = "pr\<lparr>termination_listeners := q\<rparr>" and ?pc = "pc\<lparr>registers := ?r, pblock := Some ?w\<rparr>"
  have kn1: "known k1 (?ps @ [c]) = xs @ p # (ys @ [c])" using k1(2) by (simp add: known_def)
  have p1: "cells (processes k1) p = Some ?pr" "pblock ?pr = None" "cells (processes k1) c = Some ?pc"
    using k1(6) d(3) assms(9) by simp_all
  obtain k2 qs where k2: "interrupts par (length xs + 1) k1 = Some (Running k2)" "current_process k2 = Some p"
    "register_block k2 = Some p" "ready k2 qs" "known k2 qs = (ys @ [c]) @ xs @ [p]" "kheap k2 = kheap k1"
    "\<And>q. q \<notin> set xs \<Longrightarrow> cells (processes k2) q = cells (processes k1) q"
    "\<And>w. lasting k1 (xs @ [p]) w \<Longrightarrow> cells (waitblocks k2) w = cells (waitblocks k1) w"
    by (rule run_unblocked [OF k1(4) kn1 p1(1, 2), of par]) blast
  have act: "\<exists>b. cells (waitblocks k1) w = Some b \<and> active b" if "w \<in> set (?w # ws)" for w
    using that assms(11) k1(7) by (auto simp: waiting_block_def)
  then have w1: "cells (waitblocks k2) w = cells (waitblocks k1) w" if "w \<in> set (?w # ws)" for w
    using k2(8) [of w] that by (auto simp: lasting_def)
  have c2: "cells (processes k2) p = Some ?pr" "cells (processes k2) c = Some ?pc"
    "cells (waitblocks k2) ?w = Some (waiting_block x loc c)"
    using k2(7) w1 p1 d k1(7) by simp_all
  have qs: "qs = ys @ c # xs" using k2(2, 5) by (simp add: known_def)
  let ?r' = "cpu'\<lparr>return_address := return_address cpu' + 4\<rparr>"
  obtain k2' where k2': "store_context True cpu' k2 = Some k2'" "ready k2' qs" "current_process k2' = Some p"
    "cells (processes k2') = (cells (processes k2))(p \<mapsto> ?pr\<lparr>registers := ?r'\<rparr>)"
    "waitblocks k2' = waitblocks k2" "kheap k2' = kheap k"
    by (rule svc_saves [OF k2(4, 3) c2(1), of cpu']) (use k2(2, 6) k1(3) in auto)
  have listening: "\<forall>w \<in> set (?w # ws). cells (waitblocks k2') w \<noteq> None"
    unfolding k2'(5) using w1 act by fastforce
  let ?b = "ended x e (waiting_block x loc c)"
  obtain k3 where k3: "syscall_exit e k2' = Some k3" "current_process k3 = None" "kheap k3 = m2" "ready k3 qs"
    "cells (processes k3) = (cells (processes k2'))(p := None)"
    "cells (waitblocks k3) = ended_blocks x e (?w # ws) (cells (waitblocks k2'))"
    by (rule syscall_exit_ends [OF k2'(2, 3), of "?pr\<lparr>registers := ?r'\<rparr>" m1 m2 "?w # ws" e])
      (use assms(12-15) k1(5) k2'(4, 6) listening px in \<open>simp_all add: kheap_def\<close>)
  have svc3: "int_svc code' (scheduler_syscalls par handlers) (cpu', k2) = Some (0, k3)"
    using svc_dispatch(1) [OF k2'(1) assms(17, 19)] k3(1) by simp
  have kn3: "known k3 qs = ys @ c # xs" using k3(2) qs by (simp add: known_def)
  have c3: "cells (processes k3) c = Some ?pc" "pblock ?pc = Some ?w" "cells (waitblocks k3) ?w = Some ?b"
    using k3(5, 6) k2'(4, 5) c2(2, 3) d(3) by (simp_all add: ended_blocks_def)
  obtain k4 pc4 where k4: "interrupts par (length ys + 1) k3 = Some (Running k4)" "register_block k4 = Some c"
    "cells (processes k4) c = Some pc4" "registers pc4 = set_reg 0 x ?r"
    "loc \<noteq> 0 \<longrightarrow> user_bytes k4 loc = map (\<lambda>i. ucast (drop_bit (8 * i) e)) [0..<4]"
    using run_released [OF k3(4) kn3 c3, of x e par] by (auto simp: ended_def waiting_block_def)
  have "restore_context cpu1 k2 = Some (registers pr)" "restore_context cpu2 k4 = Some (set_reg 0 x ?r)"
    using k2(3) c2(1) k4(2-4) by (simp_all add: restore_context_def)
  with svc1 k2(1) svc3 k3(3, 5) k4(1, 5) show ?thesis
    by (intro exI [of _ k1] exI [of _ k2] exI [of _ k3] exI [of _ k4]) (simp add: kheap_def)
qed

lemma wait_returns_after_exit_witness:
  "\<exists>k k1 k2 k3 k4. int_svc (put_svc 3 0x1004 (\<lambda>_. 0)) (scheduler_syscalls (\<lambda>a. a) syscall_handler_new)
      (register_contents_new\<lparr>regs := [5, 0x2000, 0]\<rparr>, k) = Some (0, k1) \<and>
    interrupts (\<lambda>a. a) 1 k1 = Some (Running k2) \<and>
    int_svc (put_svc 1 0x1004 (\<lambda>_. 0)) (scheduler_syscalls (\<lambda>a. a) syscall_handler_new)
      (register_contents_new\<lparr>regs := [7, 0, 0]\<rparr>, k2) = Some (0, k3) \<and>
    cells (processes k3) 1 = None \<and> interrupts (\<lambda>a. a) 1 k3 = Some (Running k4) \<and>
    restore_context register_contents_new k4 = Some (register_contents_new\<lparr>regs := [5, 0x2000, 0], return_address := 0x1008\<rparr>) \<and>
    user_bytes k4 0x2000 = [7, 0, 0, 0]"
proof -
  obtain q where q: "kq_rep q [1 :: nat]" using kq_rep_exists by blast
  let ?p = "blank_process\<lparr>pid := 5\<rparr>"
  define k where "k = (example_kernel [blank_process, ?p] [] q)\<lparr>current_process := Some 0, register_block := Some 0\<rparr>"
  have pr: "cells (processes k) 1 = Some ?p" "cells (processes k) 0 = Some blank_process"
    by (simp_all add: k_def example_kernel_def)
  have 1: "ready k ([] @ 1 # [])" "store_ok (waitblocks k)" "current_process k = Some 0" "register_block k = Some 0"
    using q by (simp_all add: ready_def known_def process_ok_def k_def example_kernel_def store_ok_def blank_process_def)
  have 2: "get_process 5 k = Some (Some 1)"
    using get_process_queue [of k "[1]" 5] 1(1) pr by (simp add: ready_def)
  have 3: "pblock ?p = None" "kq_rep (termination_listeners ?p) (map Waitblock_listener [])"
    "\<forall>w \<in> set []. \<exists>b. cells (waitblocks k) w = Some b \<and> active b" "code_pages ?p = 0" "stack_pages ?p = 0"
    using kq.rep_init by (simp_all add: blank_process_def)
  have 4: "operator_delete (kstack ?p) (mmem (kmem (kmmu k))) = Some (mmem (kmem (kmmu k)))"
    "operator_delete (ptable_address ?p) (mmem (kmem (kmmu k))) = Some (mmem (kmem (kmmu k)))"
    by (simp_all add: blank_process_def operator_delete_def mm_free_def)
  have 5: "(5 :: u32) \<noteq> 0" "(5 :: u32) \<noteq> - 1" by simp_all
  have 6: "regs (register_contents_new\<lparr>regs := [5, 0x2000, 0]\<rparr>) = 5 # 0x2000 # 0 # []"
    "regs (register_contents_new\<lparr>regs := [7, 0, 0]\<rparr>) = 7 # 0 # 0 # []" by simp_all
  have e: "set_reg 0 5 ((register_contents_new\<lparr>regs := [5, 0x2000, 0]\<rparr>)\<lparr>return_address :=
      return_address (register_contents_new\<lparr>regs := [5, 0x2000, 0]\<rparr>) + 4\<rparr>) =
    register_contents_new\<lparr>regs := [5, 0x2000, 0], return_address := 0x1008\<rparr>"
    by (simp add: set_reg_def register_contents_new_def)
  have b: "map (\<lambda>i. ucast (drop_bit (8 * i) (7 :: u32))) [0..<4] = [7, 0, 0, 0 :: u8]" by (simp add: upt_conv_Cons)
  have 7: "svc_at (put_svc 3 0x1004 (\<lambda>_. 0)) 3 (return_address (register_contents_new\<lparr>regs := [5, 0x2000, 0]\<rparr>))"
    "svc_at (put_svc 1 0x1004 (\<lambda>_. 0)) 1 (return_address (register_contents_new\<lparr>regs := [7, 0, 0]\<rparr>))"
    by (simp_all add: put_svc_at register_contents_new_def)
  have "(0x2000 :: u32) \<noteq> 0" "length ([] :: nat list) + 1 = 1" by simp_all
  with wait_returns_after_exit [OF 1 2 5 pr(1) 3 4 6 7, of "\<lambda>a. a" syscall_handler_new register_contents_new register_contents_new]
  show ?thesis unfolding e b by metis
qed

section \<open>The end of a kernel thread\<close>

text \<open>
  A kernel thread starts in a function that calls the thread's method, an argument here, and passes
  its value to the instruction \<open>svc 1\<close>; the loop behind it is never reached.
\<close>

definition kthread_exit :: "(u8 \<Rightarrow> kernel syscall option) \<Rightarrow> u32 \<Rightarrow> register_contents \<times> kernel \<Rightarrow> (u32 \<times> kernel) option" where
  "kthread_exit handlers n m =
     int_svc (put_svc 1 (return_address (fst m)) (\<lambda>_. 0)) handlers (set_reg 0 n (fst m), snd m)"

definition kthread_entry_point :: "(u8 \<Rightarrow> kernel syscall option) \<Rightarrow>
    (register_contents \<times> kernel \<Rightarrow> (u32 \<times> register_contents \<times> kernel) option) \<Rightarrow>
    register_contents \<times> kernel \<Rightarrow> (u32 \<times> kernel) option" where
  "kthread_entry_point handlers run m = do { (n, m1) \<leftarrow> run m; kthread_exit handlers n m1 }"

text \<open>
  When the method of the only thread returns, as the one of the initialisation thread does, the
  thread is deleted with its memory, and the next timer interrupt halts the kernel.
\<close>

theorem last_thread_halts:
  assumes "run m = Some (n, cpu, k)" and "regs cpu = r0 # r1 # r2 # rs" and "ready k []"
    and "current_process k = Some p" and "register_block k = Some p" and "cells (processes k) p = Some pr"
    and "kq_rep (termination_listeners pr) []" and "code_pages pr = 0" and "stack_pages pr = 0"
    and "operator_delete (kstack pr) (mmem (kmem (kmmu k))) = Some m1" and "operator_delete (ptable_address pr) m1 = Some m2"
    and "return_address cpu AND 1 = 0"
  shows "\<exists>k1 k2. kthread_entry_point (scheduler_syscalls par handlers) run m = Some (0, k1) \<and>
    cells (processes k1) p = None \<and> mmem (kmem (kmmu k1)) = m2 \<and> interrupt par k1 = Some (Halted k2)"
proof -
  let ?cpu = "set_reg 0 n cpu"
  let ?pr = "pr\<lparr>registers := ?cpu\<lparr>return_address := return_address ?cpu + 4\<rparr>\<rparr>"
  obtain k0 where k0: "store_context True ?cpu k = Some k0" "ready k0 []" "current_process k0 = Some p"
    "cells (processes k0) p = Some ?pr" "kheap k0 = kheap k"
    by (rule svc_saves [OF assms(3, 5, 6), of ?cpu]) (use assms(4) in auto)
  obtain k1 where k1: "syscall_exit n k0 = Some k1" "current_process k1 = None" "kheap k1 = m2" "ready k1 []"
    "cells (processes k1) = (cells (processes k0))(p := None)"
    by (rule syscall_exit_ends [OF k0(2-4), of m1 m2 "[]" n]) (use assms(7-11) k0(5) in \<open>simp_all add: kheap_def\<close>)
  have "regs ?cpu = n # r1 # r2 # rs" using assms(2) by (simp add: set_reg_def)
  moreover have "svc_at (put_svc 1 (return_address cpu) (\<lambda>_. 0)) 1 (return_address ?cpu)"
    using put_svc_at [OF assms(12)] by (simp add: set_reg_def)
  ultimately have "kthread_entry_point (scheduler_syscalls par handlers) run m = Some (0, k1)"
    using svc_dispatch(1) [OF k0(1), of n r1 r2 rs] k1(1) assms(1) by (simp add: kthread_entry_point_def kthread_exit_def)
  moreover obtain k2 where "interrupt par k1 = Some (Halted k2)"
    using interrupt_empty [OF k1(4), of par] k1(2) by (auto simp: known_def)
  ultimately show ?thesis using k1(3, 5) by (auto simp: kheap_def)
qed

end
