(* ===== verification/Direntry.thy ===== *)
theory Direntry
  imports Kstring
begin

text \<open>
  Directory entries (\<open>kernel/direntry.cpp\<close>) and the base class of files
  (\<open>kernel/file.cpp\<close>). A listing of a directory is a linked list of entries in a store;
  \<open>listing s p ds\<close> says that the entries from \<open>p\<close> on carry the information \<open>ds\<close>.
\<close>

section \<open>Entries\<close>

datatype direntry_type = File | Directory | Character_device | Block_device | Symbolic_link

text \<open>A pointer to the filesystem an entry belongs to is a name, as for other objects.\<close>

record direntry =
  de_name :: kstring
  entry_type :: direntry_type
  de_next :: ptr
  de_fs :: ptr
  inode :: u32
  file_size :: u64
  permissions :: u16
  de_owner :: u16
  de_group :: u16

definition direntry_new :: "kstring \<Rightarrow> direntry_type \<Rightarrow> ptr \<Rightarrow> u32 \<Rightarrow> u64 \<Rightarrow> u16 \<Rightarrow> u16 \<Rightarrow> u16 \<Rightarrow> direntry option" where
  "direntry_new name ty fs ino sz perms ow gr = do {
     n \<leftarrow> kstring_copy name;
     Some \<lparr>de_name = n, entry_type = ty, de_next = None, de_fs = fs, inode = ino, file_size = sz,
       permissions = perms, de_owner = ow, de_group = gr\<rparr> }"

definition direntry_copy :: "direntry \<Rightarrow> direntry option" where
  "direntry_copy e = do {
     n0 \<leftarrow> kstring_new;
     n \<leftarrow> kstring_assign n0 (de_name e);
     Some \<lparr>de_name = n, entry_type = entry_type e, de_next = None, de_fs = de_fs e, inode = inode e,
       file_size = file_size e, permissions = permissions e, de_owner = de_owner e, de_group = de_group e\<rparr> }"

partial_function (option) find_entry_loop :: "kstring \<Rightarrow> ptr \<Rightarrow> direntry store \<Rightarrow> ptr option" where
  "find_entry_loop name current s =
     (case current of
        None \<Rightarrow> Some None
      | Some c \<Rightarrow> do {
          e \<leftarrow> deref s (Some c);
          same \<leftarrow> kstring_equals (de_name e) name;
          if same then Some (Some c) else find_entry_loop name (de_next e) s })"

definition find_entry :: "kstring \<Rightarrow> ptr \<Rightarrow> direntry store \<Rightarrow> ptr option" where
  "find_entry name start s = (if start = None then Some None else find_entry_loop name start s)"

partial_function (option) free_list :: "ptr \<Rightarrow> direntry store \<Rightarrow> direntry store option" where
  "free_list current s =
     (case current of
        None \<Rightarrow> Some s
      | Some temp \<Rightarrow> do {
          e \<leftarrow> deref s (Some temp);
          s' \<leftarrow> delete_obj (Some temp) s;
          free_list (de_next e) s' })"

section \<open>Files\<close>

record kfile =
  file_path :: kstring
  file_fs :: ptr
  fsize :: u64
  start_inode :: u32
  read_only :: bool

text \<open>The path of the file is initialised with the directory part of the path given.\<close>

definition file_new :: "kstring \<Rightarrow> ptr \<Rightarrow> u64 \<Rightarrow> u32 \<Rightarrow> bool \<Rightarrow> kfile option" where
  "file_new path fs sz start ro = do {
     d \<leftarrow> dirname path;
     p \<leftarrow> kstring_copy d;
     Some \<lparr>file_path = p, file_fs = fs, fsize = sz, start_inode = start, read_only = ro\<rparr> }"

section \<open>Listings\<close>

text \<open>The entries \<open>as\<close> are linked in this order from \<open>p\<close> on, and the last one has no next.\<close>

primrec linked :: "(nat \<rightharpoonup> direntry) \<Rightarrow> nat list \<Rightarrow> bool" where
  "linked h [] \<longleftrightarrow> True"
| "linked h (a # as) \<longleftrightarrow>
     (case h a of None \<Rightarrow> False | Some e \<Rightarrow> de_next e = hd_ptr as None \<and> linked h as)"

text \<open>What an entry says, whatever comes after it.\<close>

definition info :: "direntry \<Rightarrow> direntry" where
  "info e = e\<lparr>de_next := None\<rparr>"

definition listing :: "direntry store \<Rightarrow> ptr \<Rightarrow> nat list \<Rightarrow> direntry list \<Rightarrow> bool" where
  "listing s p as ds \<longleftrightarrow> p = hd_ptr as None \<and> distinct as \<and> linked (cells s) as \<and>
     map (\<lambda>a. info (the (cells s a))) as = ds"

definition names_ok :: "direntry list \<Rightarrow> bool" where
  "names_ok ds \<longleftrightarrow> (\<forall>d \<in> set ds. \<exists>n. de_name d = kstr n \<and> text_ok n)"

lemma info_simps [simp]:
  "de_name (info e) = de_name e" "entry_type (info e) = entry_type e" "inode (info e) = inode e"
  "file_size (info e) = file_size e" "de_next (info e) = None" "info (info e) = info e"
  "info (e\<lparr>de_next := q\<rparr>) = info e"
  by (simp_all add: info_def)

lemma linked_cong: "(\<And>a. a \<in> set as \<Longrightarrow> h a = h' a) \<Longrightarrow> linked h as = linked h' as"
  by (induction as) (auto split: option.splits)

lemma linked_upd_notin [simp]: "a \<notin> set as \<Longrightarrow> linked (h(a := x)) as = linked h as"
  by (rule linked_cong) auto

lemma linked_dom: "linked h as \<Longrightarrow> a \<in> set as \<Longrightarrow> \<exists>e. h a = Some e"
  by (induction as) (auto split: option.splits)

lemma linked_append:
  assumes "linked h (as @ [a])" and "h a = Some e" and "b \<notin> set (as @ [a])" and "distinct (as @ [a])"
    and "de_next e' = None"
  shows "linked (h(b \<mapsto> e', a \<mapsto> e\<lparr>de_next := Some b\<rparr>)) (as @ [a, b])"
  using assms by (induction as) (auto split: option.splits)

lemma listing_frame:
  assumes "listing s p as ds" and "\<And>a. a \<in> set as \<Longrightarrow> cells s' a = cells s a"
  shows "listing s' p as ds"
  using assms linked_cong [of as "cells s" "cells s'"] by (auto simp: listing_def cong: map_cong)

lemma listing_length: "listing s p as ds \<Longrightarrow> length as = length ds"
  by (auto simp: listing_def)

lemma listing_None [simp]: "listing s p [] ds \<longleftrightarrow> p = None \<and> ds = []"
  by (auto simp: listing_def)

lemma listing_cells: "listing s p as ds \<Longrightarrow> a \<in> set as \<Longrightarrow> \<exists>e. cells s a = Some e \<and> info e \<in> set ds"
  by (auto simp: listing_def) (metis linked_dom option.sel imageI)

text \<open>The search returns the first entry with the name.\<close>

definition first_named :: "bytes \<Rightarrow> direntry list \<Rightarrow> direntry option" where
  "first_named n ds = find (\<lambda>d. de_name d = kstr n) ds"

lemma find_entry_loop_listing:
  assumes "linked (cells s) as" and "names_ok (map (\<lambda>a. info (the (cells s a))) as)" and "text_ok n"
  shows "find_entry_loop (kstr n) (hd_ptr as None) s = Some (find (\<lambda>a. de_name (the (cells s a)) = kstr n) as)"
  using assms(1,2)
proof (induction as)
  case Nil
  then show ?case by (subst find_entry_loop.simps) simp
next
  case (Cons a as)
  then obtain e where e: "cells s a = Some e" "de_next e = hd_ptr as None" "linked (cells s) as"
    by (auto split: option.splits)
  with Cons.prems obtain m where m: "de_name e = kstr m" "text_ok m"
    by (auto simp: names_ok_def)
  with assms(3) have "kstring_equals (de_name e) (kstr n) = Some (m = n)"
    by (simp add: kstr_simps)
  with Cons e m show ?case
    by (subst find_entry_loop.simps) (simp add: names_ok_def)
qed

lemma find_entry_listing:
  assumes "listing s p as ds" and "names_ok ds" and "text_ok n"
  shows "\<exists>r. find_entry (kstr n) p s = Some r \<and>
    (case first_named n ds of None \<Rightarrow> r = None
     | Some d \<Rightarrow> \<exists>a e. r = Some a \<and> a \<in> set as \<and> cells s a = Some e \<and> info e = d)"
proof -
  let ?f = "\<lambda>a. info (the (cells s a))"
  have l: "linked (cells s) as" "ds = map ?f as" "p = hd_ptr as None"
    using assms(1) by (auto simp: listing_def)
  have 1: "find_entry (kstr n) p s = Some (find (\<lambda>a. de_name (the (cells s a)) = kstr n) as)"
    using find_entry_loop_listing [OF l(1) _ assms(3)] assms(2) l(2,3)
    by (cases as) (simp_all add: find_entry_def)
  have 2: "first_named n ds = map_option ?f (find (\<lambda>a. de_name (the (cells s a)) = kstr n) as)"
    unfolding l(2) first_named_def by (induction as) auto
  show ?thesis
  proof (cases "find (\<lambda>a. de_name (the (cells s a)) = kstr n) as")
    case None
    with 1 2 show ?thesis by simp
  next
    case (Some a)
    then have "a \<in> set as" by (auto simp: find_Some_iff)
    moreover from linked_dom [OF l(1) this] obtain e where "cells s a = Some e" by blast
    ultimately show ?thesis using 1 2 Some by auto
  qed
qed

lemma free_list_linked:
  assumes "linked (cells s) as" and "distinct as"
  shows "\<exists>s'. free_list (hd_ptr as None) s = Some s' \<and> fresh s' = fresh s \<and>
    cells s' = (\<lambda>a. if a \<in> set as then None else cells s a)"
  using assms
proof (induction as arbitrary: s)
  case Nil
  then show ?case by (subst free_list.simps) simp
next
  case (Cons a as)
  then obtain e where e: "cells s a = Some e" "de_next e = hd_ptr as None" "linked (cells s) as"
    by (auto split: option.splits)
  let ?s = "s\<lparr>cells := (cells s)(a := None)\<rparr>"
  have "linked (cells ?s) as" using e(3) Cons.prems by simp
  moreover have "distinct as" using Cons.prems by simp
  ultimately obtain s' where
    "free_list (hd_ptr as None) ?s = Some s'" "fresh s' = fresh ?s"
    "cells s' = (\<lambda>b. if b \<in> set as then None else cells ?s b)" using Cons.IH [of ?s] by blast
  with e show ?case by (subst free_list.simps) (auto simp: delete_cell fun_eq_iff)
qed

lemma free_list_listing:
  assumes "listing s p as ds"
  shows "\<exists>s'. free_list p s = Some s' \<and> fresh s' = fresh s \<and>
    cells s' = (\<lambda>a. if a \<in> set as then None else cells s a)"
  using free_list_linked [of s as] assms by (auto simp: listing_def)

lemma direntry_copy_info:
  assumes "de_name e = kstr n" and "text_ok n"
  shows "direntry_copy e = Some (info e)"
  using assms by (cases e) (simp add: direntry_copy_def kstr_simps info_def)

lemma direntry_new_kstr:
  "text_ok n \<Longrightarrow> direntry_new (kstr n) ty fs ino sz perms ow gr =
    Some \<lparr>de_name = kstr n, entry_type = ty, de_next = None, de_fs = fs, inode = ino, file_size = sz,
       permissions = perms, de_owner = ow, de_group = gr\<rparr>"
  by (simp add: direntry_new_def kstr_simps)

end
