(* ===== verification/Fat32.thy ===== *)
theory Fat32
  imports Partition Direntry
begin

text \<open>
  The FAT32 driver (\<open>kernel/filesystems/fat32.cpp\<close>, \<open>kernel/filesystems/fat32_file.cpp\<close>):
  the volume header, the chains of clusters, directories, the walk along a path, and the reading
  of files. The driver of the partition's device is an argument \<open>dev\<close>: posting a read of some
  blocks and waiting for it (the virtual \<open>post_read\<close>) gives the bytes the driver has stored and the
  device's new state. The functions \<open>read_block\<close> and \<open>read_blocks\<close> around it return false whatever
  happened (\<open>kernel/device.cpp\<close>). Buffers keep their length, so an access outside one, or to a byte
  that was never stored, is a fault.
\<close>

unbundle bit_operations_syntax

section \<open>Buffers and volumes\<close>

type_synonym 'd blockdev = "u64 \<Rightarrow> u32 \<Rightarrow> 'd \<Rightarrow> (bytes \<times> 'd) option"

definition rd16 :: "cbuf \<Rightarrow> nat \<Rightarrow> u16 option" where
  "rd16 b i = do { c0 \<leftarrow> rd b i; c1 \<leftarrow> rd b (i + 1); Some (ucast c0 OR push_bit 8 (ucast c1)) }"

definition rd32 :: "cbuf \<Rightarrow> nat \<Rightarrow> u32 option" where
  "rd32 b i = do {
     c0 \<leftarrow> rd b i; c1 \<leftarrow> rd b (i + 1); c2 \<leftarrow> rd b (i + 2); c3 \<leftarrow> rd b (i + 3);
     Some (ucast c0 OR push_bit 8 (ucast c1) OR push_bit 16 (ucast c2) OR push_bit 24 (ucast c3)) }"

text \<open>Both functions post the operation, wait for it, delete it, and return false.\<close>

definition read_into :: "'d blockdev \<Rightarrow> cbuf \<Rightarrow> u64 \<Rightarrow> u32 \<Rightarrow> 'd \<Rightarrow> (bool \<times> cbuf \<times> 'd) option" where
  "read_into dev b address n d = do {
     (data, d') \<leftarrow> dev address n d;
     if length data \<le> length b then Some (False, map Some data @ drop (length data) b, d') else None }"

text \<open>The object, with its own address as a filesystem.\<close>

record fat32 =
  fs_this :: nat
  fs_part :: partition
  fs_usable :: bool
  bytes_per_sector :: u16
  reserved_sectors :: u16
  number_of_fats :: u8
  sector_count :: u32
  sectors_per_fat :: u32
  first_root_cluster :: u32
  sectors_per_cluster :: u8
  first_data_sector :: u64
  fsinfo_sector :: u64
  volume_id :: u32
  volume_label :: kstring

abbreviation fs_block_size :: "fat32 \<Rightarrow> u32" where
  "fs_block_size v \<equiv> part_block_size (fs_part v)"

text \<open>
  The constructor; \<open>raw\<close> is what the memory of the object holds before. The flag \<open>usable\<close> is
  initialised, every other field keeps its old contents until it is set.
\<close>

definition fat32_new :: "'d blockdev \<Rightarrow> partition \<Rightarrow> fat32 \<Rightarrow> 'd \<Rightarrow> (fat32 \<times> 'd) option" where
  "fat32_new dev part raw d = do {
     l0 \<leftarrow> kstring_new;
     let v0 = raw\<lparr>fs_part := part, fs_usable := False, volume_label := l0\<rparr>;
     (ok, b, d1) \<leftarrow> read_into dev (new_chars (unat (part_block_size part))) (part_start part) 1 d;
     c0 \<leftarrow> rd b 0;
     if c0 \<noteq> 0xeb \<and> c0 \<noteq> 0xe9 then Some (v0, d1)
     else do {
       bps \<leftarrow> rd16 b 11;
       let v1 = v0\<lparr>bytes_per_sector := bps\<rparr>;
       if ucast bps \<noteq> part_block_size part then Some (v1, d1)
       else do {
         spc \<leftarrow> rd b 13;
         res \<leftarrow> rd16 b 14;
         nf \<leftarrow> rd b 16;
         sc \<leftarrow> rd32 b 32;
         let v2 = v1\<lparr>sectors_per_cluster := spc, reserved_sectors := res, number_of_fats := nf, sector_count := sc\<rparr>;
         if ucast sc \<noteq> partition_size part then Some (v2, d1)
         else do {
           spf \<leftarrow> rd32 b 36;
           root \<leftarrow> rd32 b 44;
           info_sector \<leftarrow> rd16 b 48;
           vid \<leftarrow> rd32 b 67;
           name \<leftarrow> those (map (rd b) [71..<82]);
           label \<leftarrow> kstring_assign_c l0 (map Some name @ [Some 0]);
           Some (v2\<lparr>sectors_per_fat := spf, first_root_cluster := root,
             fsinfo_sector := ucast info_sector + part_start part, volume_id := vid, volume_label := label,
             first_data_sector := ucast (ucast res + (ucast nf * spf) :: u32) + part_start part,
             fs_usable := True\<rparr>, d1) } } } }"

text \<open>The product is computed in 32 bits before it is widened.\<close>

definition get_free_space :: "'d blockdev \<Rightarrow> fat32 \<Rightarrow> 'd \<Rightarrow> (u64 \<times> 'd) option" where
  "get_free_space dev v d = do {
     (ok, b, d1) \<leftarrow> read_into dev (new_chars (unat (fs_block_size v))) (fsinfo_sector v) 1 d;
     free_count \<leftarrow> rd32 b 488;
     Some (if free_count \<noteq> 0xffffffff
           then ucast (ucast (sectors_per_cluster v) * free_count * fs_block_size v :: u32) else 0, d1) }"

section \<open>Clusters\<close>

definition get_cluster_address :: "fat32 \<Rightarrow> u32 \<Rightarrow> u64" where
  "get_cluster_address v cluster =
     ucast ((cluster - 2) * ucast (sectors_per_cluster v) :: u32) + first_data_sector v"

definition get_next_cluster :: "'d blockdev \<Rightarrow> fat32 \<Rightarrow> u32 \<Rightarrow> 'd \<Rightarrow> (u32 \<times> 'd) option" where
  "get_next_cluster dev v cluster d = do {
     let fat_offset = push_bit 2 cluster;
     let fat_address = part_start (fs_part v) + ucast (reserved_sectors v) + ucast (drop_bit 9 fat_offset);
     (ok, b, d1) \<leftarrow> read_into dev (new_chars (unat (fs_block_size v))) fat_address 1 d;
     if \<not> ok then Some (1, d1)
     else do {
       w \<leftarrow> rd32 b (unat (fat_offset AND 0x1ff));
       let next_cluster = w AND 0x0fffffff;
       Some (if next_cluster \<ge> 0x0ffffff8 then 0 else next_cluster, d1) } }"

section \<open>Directories\<close>

definition attr_long_name :: u8 where "attr_long_name = 0x01 OR 0x02 OR 0x04 OR 0x08"
definition attr_directory :: u8 where "attr_directory = 0x10"

primrec decode_83_loop :: "nat \<Rightarrow> nat \<Rightarrow> kstring \<Rightarrow> kstring \<Rightarrow> kstring option" where
  "decode_83_loop 0 i name retval = Some retval"
| "decode_83_loop (Suc n) i name retval = do {
     c \<leftarrow> char_at name (int i);
     r \<leftarrow> (if c \<noteq> 0x20 then kstring_append_char retval c else Some retval);
     decode_83_loop n (i + 1) name r }"

definition decode_83_filename :: "kstring \<Rightarrow> kstring option" where
  "decode_83_filename name = do {
     r \<leftarrow> kstring_new;
     l \<leftarrow> kstring_length name;
     decode_83_loop l 0 name r }"

text \<open>Where an entry of a long name keeps the low bytes of its 13 characters.\<close>

definition long_name_offsets :: "nat list" where
  "long_name_offsets = [1, 3, 5, 7, 9, 14, 16, 18, 20, 22, 24, 28, 30]"

text \<open>The variables of the loop over the entries: the list so far, its last entry, the long name.\<close>

record scan =
  scan_head :: ptr
  scan_previous :: ptr
  long_filename :: kstring
  scan_entries :: "direntry store"

definition insert_entry :: "direntry \<Rightarrow> scan \<Rightarrow> scan option" where
  "insert_entry e sc = do {
     let (n, s) = new_obj e (scan_entries sc);
     case scan_head sc of
       None \<Rightarrow> Some (sc\<lparr>scan_head := Some n, scan_previous := Some n, scan_entries := s\<rparr>)
     | Some h \<Rightarrow> do {
         s' \<leftarrow> modify (scan_previous sc) (de_next_update (\<lambda>_. Some n)) s;
         Some (sc\<lparr>scan_previous := Some n, scan_entries := s'\<rparr>) } }"

definition scan_entry :: "fat32 \<Rightarrow> cbuf \<Rightarrow> nat \<Rightarrow> scan \<Rightarrow> (bool \<times> scan) option" where
  "scan_entry v b i sc = do {
     h2 \<leftarrow> rd b (i + 20); h3 \<leftarrow> rd b (i + 21); h0 \<leftarrow> rd b (i + 26); h1 \<leftarrow> rd b (i + 27);
     let file_cluster = push_bit 16 (ucast h2) OR push_bit 24 (ucast h3) OR ucast h0 OR push_bit 8 (ucast h1);
     sz \<leftarrow> rd32 b (i + 28);
     first \<leftarrow> rd b i;
     if first = 0xe5 then do {
       l \<leftarrow> kstring_length (long_filename sc);
       ln \<leftarrow> (if l \<noteq> 0 then kstring_clear (long_filename sc) else Some (long_filename sc));
       Some (False, sc\<lparr>long_filename := ln\<rparr>) }
     else if first = 0 then Some (True, sc)
     else do {
       attr \<leftarrow> rd b (i + 11);
       if attr AND attr_long_name = attr_long_name then do {
         temp \<leftarrow> those (map (\<lambda>j. rd b (i + j)) long_name_offsets);
         ln \<leftarrow> kstring_prepend_c (long_filename sc) (map Some temp @ [Some 0]);
         Some (False, sc\<lparr>long_filename := ln\<rparr>) }
       else do {
         entry_name \<leftarrow> those (map (\<lambda>j. rd b (i + j)) [0..<11]);
         let ty = (if attr AND attr_directory \<noteq> 0 then Directory else File);
         l \<leftarrow> kstring_length (long_filename sc);
         name \<leftarrow> (if l \<noteq> 0 then Some (long_filename sc) else do {
             en \<leftarrow> kstring_c (map Some entry_name @ [Some 0, Some 0]);
             decode_83_filename en });
         e \<leftarrow> direntry_new name ty (Some (fs_this v)) file_cluster (ucast sz) 0x124 0 0;
         ln \<leftarrow> kstring_clear (long_filename sc);
         sc' \<leftarrow> insert_entry e (sc\<lparr>long_filename := ln\<rparr>);
         Some (False, sc') } } }"

primrec scan_sector :: "fat32 \<Rightarrow> nat \<Rightarrow> cbuf \<Rightarrow> nat \<Rightarrow> scan \<Rightarrow> (bool \<times> scan) option" where
  "scan_sector v 0 b i sc = Some (False, sc)"
| "scan_sector v (Suc n) b i sc = do {
     (finished, sc') \<leftarrow> scan_entry v b i sc;
     if finished then Some (True, sc') else scan_sector v n b (i + 32) sc' }"

partial_function (option) directory_loop :: "'d blockdev \<Rightarrow> fat32 \<Rightarrow> u32 \<Rightarrow> scan \<Rightarrow> 'd \<Rightarrow>
    (ptr \<times> direntry store \<times> 'd) option" where
  "directory_loop dev v cluster sc d = do {
     (ok, b, d1) \<leftarrow> read_into dev (new_chars (unat (fs_block_size v * ucast (sectors_per_cluster v))))
       (get_cluster_address v cluster) (ucast (sectors_per_cluster v)) d;
     (finished, sc1) \<leftarrow> scan_sector v ((unat (fs_block_size v) + 31) div 32) b 0 sc;
     if finished then Some (scan_head sc1, scan_entries sc1, d1)
     else do {
       (c, d2) \<leftarrow> get_next_cluster dev v cluster d1;
       if c = 0 then Some (scan_head sc1, scan_entries sc1, d2)
       else if c = 1 then do {
         s \<leftarrow> free_list (scan_head sc1) (scan_entries sc1);
         Some (None, s, d2) }
       else directory_loop dev v c sc1 d2 } }"

definition read_cluster_directory :: "'d blockdev \<Rightarrow> fat32 \<Rightarrow> u32 \<Rightarrow> direntry store \<Rightarrow> 'd \<Rightarrow>
    (ptr \<times> direntry store \<times> 'd) option" where
  "read_cluster_directory dev v cluster s d = do {
     ln \<leftarrow> kstring_new;
     directory_loop dev v cluster \<lparr>scan_head = None, scan_previous = None, long_filename = ln, scan_entries = s\<rparr> d }"

text \<open>The walk along the components of a path; \<open>current\<close> is the listing of the directory reached.\<close>

partial_function (option) walk_path :: "'d blockdev \<Rightarrow> fat32 \<Rightarrow> ptr \<Rightarrow> kstring \<Rightarrow> direntry store \<Rightarrow> 'd \<Rightarrow>
    (ptr \<times> direntry store \<times> 'd) option" where
  "walk_path dev v current path s d =
     (if current = None then Some (None, s, d)
      else do {
        slash_index \<leftarrow> kstring_index path slash;
        if slash_index = npos then do {
          temp \<leftarrow> find_entry path current s;
          (case temp of
             None \<Rightarrow> Some (None, s, d)
           | Some t \<Rightarrow> do {
               e \<leftarrow> deref s (Some t);
               (r, s1, d1) \<leftarrow> read_cluster_directory dev v (inode e) s d;
               s2 \<leftarrow> free_list current s1;
               Some (r, s2, d1) }) }
        else do {
          component \<leftarrow> substring path 0 slash_index;
          next_entry \<leftarrow> find_entry component current s;
          (case next_entry of
             None \<Rightarrow> Some (None, s, d)
           | Some t \<Rightarrow> do {
               e \<leftarrow> deref s (Some t);
               if entry_type e \<noteq> Directory then Some (None, s, d)
               else do {
                 s1 \<leftarrow> free_list current s;
                 (current', s2, d1) \<leftarrow> read_cluster_directory dev v (inode e) s1 d;
                 path' \<leftarrow> kstring_assign_c path (drop (nat slash_index + 1) (buffer path));
                 walk_path dev v current' path' s2 d1 } }) } })"

definition read_directory :: "'d blockdev \<Rightarrow> fat32 \<Rightarrow> kstring \<Rightarrow> direntry store \<Rightarrow> 'd \<Rightarrow>
    (ptr \<times> direntry store \<times> 'd) option" where
  "read_directory dev v path s d = do {
     c \<leftarrow> char_at path 0;
     tmp \<leftarrow> (if c = slash then kstring_c (drop 1 (buffer path)) else kstring_copy path);
     mutable_path \<leftarrow> kstring_copy tmp;
     root \<leftarrow> kstring_c (cstr [slash]);
     is_root \<leftarrow> kstring_equals path root;
     empty_path \<leftarrow> kstring_c (cstr []);
     is_empty \<leftarrow> (if is_root then Some True else kstring_equals mutable_path empty_path);
     if is_root \<or> is_empty then read_cluster_directory dev v 2 s d
     else do {
       (current, s1, d1) \<leftarrow> read_cluster_directory dev v 2 s d;
       walk_path dev v current mutable_path s1 d1 } }"

section \<open>Files\<close>

record fat32_file = kfile +
  bytes_per_cluster :: u32

text \<open>A shift by a negative amount, or by the width of the type, is undefined: a fault.\<close>

definition fat32_file_new :: "kstring \<Rightarrow> fat32 \<Rightarrow> u64 \<Rightarrow> u32 \<Rightarrow> fat32_file option" where
  "fat32_file_new path v sz start_cluster = do {
     f \<leftarrow> file_new path (Some (fs_this v)) sz start_cluster True;
     let spc = unat (sectors_per_cluster v);
     if spc = 0 \<or> spc > 32 then None
     else Some (kfile.extend f \<lparr>bytes_per_cluster = push_bit (spc - 1) (ucast (bytes_per_sector v))\<rparr>) }"

definition open_file :: "'d blockdev \<Rightarrow> fat32 \<Rightarrow> kstring \<Rightarrow> direntry store \<Rightarrow> 'd \<Rightarrow>
    (fat32_file option \<times> direntry store \<times> 'd) option" where
  "open_file dev v path s d = do {
     dir \<leftarrow> dirname path;
     fname \<leftarrow> filename path;
     (dir_contents, s1, d1) \<leftarrow> read_directory dev v dir s d;
     if dir_contents = None then Some (None, s1, d1)
     else do {
       fe \<leftarrow> find_entry fname dir_contents s1;
       (case fe of
          None \<Rightarrow> do { s2 \<leftarrow> free_list dir_contents s1; Some (None, s2, d1) }
        | Some t \<Rightarrow> do {
            e \<leftarrow> deref s1 (Some t);
            f \<leftarrow> fat32_file_new path v (file_size e) (inode e);
            s2 \<leftarrow> free_list dir_contents s1;
            Some (Some f, s2, d1) }) } }"

partial_function (option) seek_loop :: "'d blockdev \<Rightarrow> fat32 \<Rightarrow> u32 \<Rightarrow> u32 \<Rightarrow> u32 \<Rightarrow> 'd \<Rightarrow>
    ((u32 \<times> u32) option \<times> 'd) option" where
  "seek_loop dev v bpc cluster offset d =
     (if offset > bpc then do {
        (c, d1) \<leftarrow> get_next_cluster dev v cluster d;
        if c = 0 \<or> c = 1 then Some (None, d1)
        else seek_loop dev v bpc c (offset - bpc) d1 }
      else Some (Some (cluster, offset), d))"

primrec copy_chunk :: "nat \<Rightarrow> nat \<Rightarrow> u32 \<Rightarrow> u32 \<Rightarrow> cbuf \<Rightarrow> cbuf \<Rightarrow> (u32 \<times> cbuf) option" where
  "copy_chunk 0 j bytes_read sz temp b = Some (bytes_read, b)"
| "copy_chunk (Suc n) j bytes_read sz temp b =
     (if bytes_read < sz then do {
        c \<leftarrow> rd temp j;
        b' \<leftarrow> wr b (unat bytes_read) c;
        copy_chunk n (j + 1) (bytes_read + 1) sz temp b' }
      else Some (bytes_read, b))"

partial_function (option) file_read_loop :: "'d blockdev \<Rightarrow> fat32 \<Rightarrow> u32 \<Rightarrow> u32 \<Rightarrow> u32 \<Rightarrow> u32 \<Rightarrow> u32 \<Rightarrow>
    cbuf \<Rightarrow> cbuf \<Rightarrow> 'd \<Rightarrow> (cbuf \<times> 'd) option" where
  "file_read_loop dev v bpc cluster offset bytes_read sz temp b d =
     (if bytes_read < sz then do {
        (ok, temp1, d1) \<leftarrow> read_into dev temp (get_cluster_address v cluster) (ucast (sectors_per_cluster v)) d;
        (br, b1) \<leftarrow> copy_chunk (unat bpc - unat offset) (unat offset) bytes_read sz temp1 b;
        (c, d2) \<leftarrow> get_next_cluster dev v cluster d1;
        if (c = 0 \<or> c = 1) \<and> br < sz then Some (b1, d2)
        else file_read_loop dev v bpc c 0 br sz temp1 b1 d2 }
      else Some (b, d))"

definition fat32_file_read :: "'d blockdev \<Rightarrow> fat32 \<Rightarrow> fat32_file \<Rightarrow> cbuf \<Rightarrow> u32 \<Rightarrow> u32 \<Rightarrow> 'd \<Rightarrow>
    (bool \<times> cbuf \<times> 'd) option" where
  "fat32_file_read dev v f b sz offset d = do {
     (r, d1) \<leftarrow> seek_loop dev v (bytes_per_cluster f) (start_inode f) offset d;
     (case r of
        None \<Rightarrow> Some (False, b, d1)
      | Some (cluster, off) \<Rightarrow> do {
          (b1, d2) \<leftarrow> file_read_loop dev v (bytes_per_cluster f) cluster off 0 sz
            (new_chars (unat (bytes_per_cluster f))) b d1;
          Some (True, b1, d2) }) }"

definition fat32_file_write :: "fat32_file \<Rightarrow> bool" where
  "fat32_file_write f = (if read_only f then False else False)"

end
