(* ===== verification/Fat32_Read.thy ===== *)
theory Fat32_Read
  imports Fat32
begin

text \<open>
  What reading from a FAT32 volume gives. The device is any one whose driver \<open>serves\<close> the contents
  of its sectors. Since the functions that read blocks always return false, the successor of a
  cluster is always reported as an error: of every file only the first cluster can be read.
\<close>

unbundle bit_operations_syntax

section \<open>Volumes with known contents\<close>

definition sectors :: "(u64 \<Rightarrow> bytes) \<Rightarrow> u64 \<Rightarrow> nat \<Rightarrow> bytes" where
  "sectors content a n = concat (map (\<lambda>i. content (a + of_nat i)) [0..<n])"

text \<open>The driver stores the contents of the sectors it is asked for, and the device does not change.\<close>

definition serves :: "'d blockdev \<Rightarrow> nat \<Rightarrow> (u64 \<Rightarrow> bytes) \<Rightarrow> 'd \<Rightarrow> bool" where
  "serves dev bs content d \<longleftrightarrow> (\<forall>a. length (content a) = bs) \<and>
     (\<forall>a n. dev a n d = Some (sectors content a (unat n), d))"

definition volume_ok :: "fat32 \<Rightarrow> nat \<Rightarrow> bool" where
  "volume_ok v bs \<longleftrightarrow> unat (fs_block_size v) = bs \<and> 512 \<le> bs \<and> bs < 2 ^ 16"

definition le32 :: "bytes \<Rightarrow> nat \<Rightarrow> u32" where
  "le32 xs i = ucast (xs ! i) OR push_bit 8 (ucast (xs ! (i + 1)))
     OR push_bit 16 (ucast (xs ! (i + 2))) OR push_bit 24 (ucast (xs ! (i + 3)))"

definition cluster_bytes :: "fat32 \<Rightarrow> (u64 \<Rightarrow> bytes) \<Rightarrow> u32 \<Rightarrow> bytes" where
  "cluster_bytes v content c = sectors content (get_cluster_address v c) (unat (sectors_per_cluster v))"

lemma sectors_length: "\<forall>a. length (content a) = bs \<Longrightarrow> length (sectors content a n) = n * bs"
  by (induction n) (simp_all add: sectors_def)

lemma cluster_bytes_length:
  "serves dev bs content d \<Longrightarrow> length (cluster_bytes v content c) = unat (sectors_per_cluster v) * bs"
  by (simp add: serves_def cluster_bytes_def sectors_length)

lemma read_into_serves:
  assumes "serves dev bs content d" and "length b = unat n * bs"
  shows "read_into dev b a n d = Some (False, map Some (sectors content a (unat n)), d)"
  using assms by (simp add: serves_def read_into_def sectors_length)

lemma rd32_bytes: "i + 3 < length xs \<Longrightarrow> rd32 (map Some xs) i = Some (le32 xs i)"
  by (simp add: rd32_def rd_map_Some le32_def)

text \<open>Looking up the successor of a cluster reads a sector of the table, and never looks at it.\<close>

lemma get_next_cluster_serves:
  assumes "serves dev bs content d" and "volume_ok v bs"
  shows "get_next_cluster dev v c d = Some (1, d)"
proof -
  let ?a = "part_start (fs_part v) + ucast (reserved_sectors v) + ucast (drop_bit 9 (push_bit 2 c :: u32))"
  have "read_into dev (new_chars (unat (fs_block_size v))) ?a 1 d = Some (False, map Some (content ?a), d)"
    using read_into_serves [OF assms(1), of "new_chars (unat (fs_block_size v))" 1 ?a] assms(2)
    by (simp add: volume_ok_def new_chars_def sectors_def)
  then show ?thesis by (simp add: get_next_cluster_def Let_def)
qed

lemma unat_ucast_byte: "unat (ucast (x :: u8) :: u32) = unat x"
proof -
  have "unat x < 2 ^ 8" using unsigned_less [where ?'a = nat, of x] by simp
  then show ?thesis by (simp add: unsigned_ucast_eq take_bit_nat_eq_self)
qed

lemma cluster_size:
  assumes "volume_ok v bs"
  shows "unat (fs_block_size v * ucast (sectors_per_cluster v) :: u32) = unat (sectors_per_cluster v) * bs"
proof -
  have u: "unat (ucast (sectors_per_cluster v) :: u32) = unat (sectors_per_cluster v)"
    by (rule unat_ucast_byte)
  have "unat (sectors_per_cluster v) < 2 ^ 8" using unsigned_less [where ?'a = nat, of "sectors_per_cluster v"] by simp
  then have "unat (sectors_per_cluster v) * bs < 2 ^ 8 * 2 ^ 16"
    using assms by (intro mult_strict_mono) (simp_all add: volume_ok_def)
  then show ?thesis
    using assms u by (subst unat_mult_lem [THEN iffD1]) (simp_all add: volume_ok_def mult.commute)
qed

lemma read_cluster_serves:
  assumes "serves dev bs content d" and "length b = unat (sectors_per_cluster v) * bs"
  shows "read_into dev b (get_cluster_address v c) (ucast (sectors_per_cluster v)) d =
    Some (False, map Some (cluster_bytes v content c), d)"
  using read_into_serves [OF assms(1), of b "ucast (sectors_per_cluster v)"] assms(2)
  by (simp add: cluster_bytes_def unat_ucast_byte)

section \<open>Finding the first cluster\<close>

lemma seek_loop_serves:
  assumes "serves dev bs content d" and "volume_ok v bs"
  shows "seek_loop dev v bpc c offset d = Some (if offset > bpc then None else Some (c, offset), d)"
  by (subst seek_loop.simps) (simp add: get_next_cluster_serves [OF assms])

section \<open>Reading a file\<close>

lemma copy_chunk_result:
  assumes "length done = unat br" and "br \<le> sz" and "unat sz \<le> length done + length rest"
    and "j + n = length tb" and "m = min n (unat sz - unat br)"
  shows "copy_chunk n j br sz (map Some tb) (map Some done @ rest) =
    Some (br + of_nat m, map Some (done @ take m (drop j tb)) @ drop m rest)"
  using assms
proof (induction n arbitrary: j br "done" rest m)
  case 0
  then show ?case by simp
next
  case (Suc n)
  show ?case
  proof (cases "br < sz")
    case False
    with Suc.prems have "m = 0" by (simp add: word_le_nat_alt word_less_nat_alt)
    with False show ?thesis by simp
  next
    case True
    with Suc.prems(1,3) obtain x rest' where rest: "rest = x # rest'"
      by (cases rest) (auto simp: word_less_nat_alt)
    have j: "j < length tb" using Suc.prems(4) by simp
    let ?c = "tb ! j"
    have w: "wr (map Some done @ rest) (unat br) ?c = Some (map Some (done @ [?c]) @ rest')"
      using Suc.prems(1) by (simp add: wr_def rest list_update_append)
    have br: "unat (br + 1) = unat br + 1"
      using True unat_u32 [of sz] by (subst unat_add_small) (simp_all add: word_less_nat_alt)
    then have le: "br + 1 \<le> sz" using True by (simp add: word_less_nat_alt word_le_nat_alt)
    define k where "k = min n (unat sz - unat (br + 1))"
    have m: "m = Suc k" using Suc.prems(5) True br by (simp add: k_def word_less_nat_alt)
    have "copy_chunk n (j + 1) (br + 1) sz (map Some tb) (map Some (done @ [?c]) @ rest') =
      Some (br + 1 + of_nat k, map Some ((done @ [?c]) @ take k (drop (j + 1) tb)) @ drop k rest')"
      using Suc.prems br le rest by (intro Suc.IH) (simp_all add: k_def)
    then show ?thesis
      using True w j by (simp add: rd_map_Some m rest Cons_nth_drop_Suc [symmetric] add.assoc)
  qed
qed

lemma file_read_loop_done:
  "\<not> br < sz \<Longrightarrow> file_read_loop dev v bpc c off br sz temp b d = Some (b, d)"
  by (subst file_read_loop.simps) simp

text \<open>The loop ends after one round: either everything is read, or there is no next cluster.\<close>

lemma file_read_loop_serves:
  assumes "serves dev bs content d" and "volume_ok v bs" and "unat bpc = unat (sectors_per_cluster v) * bs"
    and "unat off \<le> unat bpc" and "length temp = unat bpc" and "unat sz \<le> length b"
    and "X = take (unat sz) (drop (unat off) (cluster_bytes v content c))"
  shows "file_read_loop dev v bpc c off 0 sz temp b d = Some (map Some X @ drop (length X) b, d)"
proof (cases "sz = 0")
  case True
  with assms(7) show ?thesis by (subst file_read_loop.simps) simp
next
  case False
  let ?tb = "cluster_bytes v content c" and ?m = "min (unat bpc - unat off) (unat sz)"
  have len: "length ?tb = unat bpc" using cluster_bytes_length [OF assms(1)] assms(3) by simp
  have X: "X = take ?m (drop (unat off) ?tb)" "length X = ?m" using assms(7) len by (simp_all add: min_def)
  have rd: "read_into dev temp (get_cluster_address v c) (ucast (sectors_per_cluster v)) d = Some (False, map Some ?tb, d)"
    using read_cluster_serves [OF assms(1)] assms(3,5) by simp
  have "copy_chunk (unat bpc - unat off) (unat off) 0 sz (map Some ?tb) (map Some [] @ b) =
      Some (0 + of_nat ?m, map Some ([] @ take ?m (drop (unat off) ?tb)) @ drop ?m b)"
    using assms len by (intro copy_chunk_result) simp_all
  with X have cp: "copy_chunk (unat bpc - unat off) (unat off) 0 sz (map Some ?tb) b =
      Some (of_nat ?m, map Some X @ drop (length X) b)" by simp
  have "(of_nat ?m :: u32) \<le> sz"
    using unat_u32 [of sz] by (simp add: word_le_nat_alt unat_word_of_nat_small)
  then show ?thesis
    using rd cp False get_next_cluster_serves [OF assms(1,2)]
    by (subst file_read_loop.simps) (auto simp: file_read_loop_done word_neq_0_conv)
qed

text \<open>The size of a cluster that a new file object computes: twice as much for every further sector.\<close>

lemma fat32_file_new_fields:
  assumes "fat32_file_new path v fsz start = Some f"
  shows "start_inode f = start" and "1 \<le> unat (sectors_per_cluster v)" and "unat (sectors_per_cluster v) \<le> 32"
    and "bytes_per_cluster f = push_bit (unat (sectors_per_cluster v) - 1) (ucast (bytes_per_sector v))"
  using assms by (auto simp: fat32_file_new_def file_new_def kfile.defs Let_def split: Option.bind_splits if_splits)

lemma bytes_per_cluster_small:
  assumes "fat32_file_new path v fsz start = Some f" and "volume_ok v bs" and "unat (bytes_per_sector v) = bs"
    and "unat (sectors_per_cluster v) \<le> 16"
  shows "unat (bytes_per_cluster f) = bs * 2 ^ (unat (sectors_per_cluster v) - 1)"
proof -
  let ?n = "unat (sectors_per_cluster v) - 1"
  have "unat (ucast (bytes_per_sector v) :: u32) = bs"
    using assms(2,3) by (simp add: unsigned_ucast_eq take_bit_nat_eq_self volume_ok_def)
  moreover have "bs * 2 ^ ?n < 2 ^ 16 * 2 ^ 16"
  proof (rule mult_less_le_imp_less)
    have "(2 :: nat) ^ ?n \<le> 2 ^ 16" using assms(4) by (intro power_increasing) simp_all
    then show "(2 :: nat) ^ ?n \<le> 2 ^ 16" .
  qed (use assms(2) in \<open>simp_all add: volume_ok_def\<close>)
  ultimately have "unat (push_bit ?n (ucast (bytes_per_sector v) :: u32)) = bs * 2 ^ ?n"
    by (simp only: unsigned_push_bit_eq) (simp add: push_bit_eq_mult take_bit_nat_eq_self)
  then show ?thesis by (simp only: fat32_file_new_fields(4) [OF assms(1)])
qed


section \<open>Clusters of more than two sectors\<close>

lemma copy_chunk_fault:
  assumes "length tb - j < n" and "unat br + (length tb - j) < unat sz" and "unat sz \<le> length b"
  shows "copy_chunk n j br sz (map Some tb @ replicate r None) b = None"
  using assms
proof (induction n arbitrary: j br b)
  case 0
  then show ?case by simp
next
  case (Suc n)
  then have lt: "br < sz" "unat br < length b" by (simp_all add: word_less_nat_alt)
  show ?case
  proof (cases "j < length tb")
    case False
    with Suc.prems lt show ?thesis by (simp add: rd_def nth_append)
  next
    case True
    have "unat (br + 1) = unat br + 1"
      using lt unat_u32 [of sz] by (subst unat_add_small) (simp_all add: word_less_nat_alt)
    with True Suc.prems have "copy_chunk n (j + 1) (br + 1) sz (map Some tb @ replicate r None) b' = None"
      if "length b' = length b" for b' using that by (intro Suc.IH) simp_all
    with True lt show ?thesis by (simp add: rd_def nth_append wr_def)
  qed
qed
lemma bytes_per_cluster_512:
  assumes "fat32_file_new path v fsz start = Some f" and "bytes_per_sector v = 512"
  shows "unat (bytes_per_cluster f) = 512 * 2 ^ (unat (sectors_per_cluster v) - 1) mod 2 ^ 32"
proof -
  have "unat (push_bit k (512 :: u32)) = 512 * 2 ^ k mod 2 ^ 32" for k
    by (simp only: unsigned_push_bit_eq) (simp add: push_bit_eq_mult take_bit_eq_mod mult.commute)
  then show ?thesis using fat32_file_new_fields(4) [OF assms(1)] assms(2) by simp
qed

lemma cluster_size_range:
  assumes "3 \<le> (k :: nat)" and "k \<le> 23"
  shows "512 * 2 ^ (k - 1) mod 2 ^ 32 = (512 :: nat) * 2 ^ (k - 1)" and "k * 512 < 512 * 2 ^ (k - 1)"
proof -
  have "(2 :: nat) ^ (k - 1) \<le> 2 ^ 22" using assms(2) by (intro power_increasing) simp_all
  then show "512 * 2 ^ (k - 1) mod 2 ^ 32 = (512 :: nat) * 2 ^ (k - 1)" by simp
  have "m + 3 < 2 ^ (m + 2)" for m :: nat by (induction m) auto
  moreover have "k - 3 + 3 = k" "k - 3 + 2 = k - 1" using assms(1) by simp_all
  ultimately have "k < 2 ^ (k - 1)" by metis
  then show "k * 512 < 512 * 2 ^ (k - 1)" by simp
qed

lemma cluster_size_wraps:
  assumes "24 \<le> (k :: nat)"
  shows "512 * 2 ^ (k - 1) mod 2 ^ 32 = (0 :: nat)"
proof -
  have "(2 :: nat) ^ 32 dvd 2 ^ (9 + (k - 1))" using assms by (intro le_imp_power_dvd) simp
  then show ?thesis by (simp add: power_add)
qed

lemma file_read_loop_fault:
  assumes "serves dev bs content d" and "unat (sectors_per_cluster v) * bs < unat bpc"
    and "off < bpc" and "0 < n" and "unat (sectors_per_cluster v) * bs < unat off + unat n" and "unat n \<le> length b"
  shows "file_read_loop dev v bpc c off 0 n (new_chars (unat bpc)) b d = None"
proof -
  let ?tb = "cluster_bytes v content c" and ?k = "unat (sectors_per_cluster v) * bs"
  have len: "length ?tb = ?k" by (rule cluster_bytes_length [OF assms(1)])
  have "read_into dev (new_chars (unat bpc)) (get_cluster_address v c) (ucast (sectors_per_cluster v)) d =
      Some (False, map Some ?tb @ replicate (unat bpc - ?k) None, d)"
    using assms(1,2) len by (simp add: read_into_def serves_def cluster_bytes_def unat_ucast_byte new_chars_def)
  moreover have "copy_chunk (unat bpc - unat off) (unat off) 0 n (map Some ?tb @ replicate (unat bpc - ?k) None) b = None"
    using assms(2-) len by (intro copy_chunk_fault) (auto simp: word_less_nat_alt)
  ultimately show ?thesis using assms(4) by (subst file_read_loop.simps) simp
qed

lemma file_read_loop_no_room:
  assumes "serves dev bs content d" and "0 < bs" and "1 \<le> unat (sectors_per_cluster v)" and "0 < n"
  shows "file_read_loop dev v 0 c off 0 n (new_chars 0) b d = None"
proof -
  have "0 < length (cluster_bytes v content c)" using cluster_bytes_length [OF assms(1)] assms(2,3) by simp
  then have "read_into dev (new_chars 0) (get_cluster_address v c) (ucast (sectors_per_cluster v)) d = None"
    using assms(1) by (simp add: read_into_def serves_def cluster_bytes_def unat_ucast_byte new_chars_def)
  then show ?thesis using assms(4) by (subst file_read_loop.simps) simp
qed

text \<open>
  C31: clusters of three sectors or more. The size of a cluster is computed by a shift by the
  number of sectors less one instead of a product. With sectors of 512 bytes and 3 to 23 sectors
  per cluster it is larger than the cluster, and a read of some bytes that goes over the end of
  the first cluster, within the computed size, uses bytes of the temporary buffer that no read
  from the device has stored. With 24 to 32 sectors the shift leaves 0: a read of some bytes
  from the start of a file stores a cluster into a buffer of no bytes, and at every other offset
  the read returns false. (A file on a volume with 0 or more than 32 sectors per cluster cannot
  even be opened: the shift is undefined.)
\<close>

theorem fat32_large_clusters_fault:
  assumes "serves dev 512 content d" and "volume_ok v 512" and "bytes_per_sector v = 512"
    and "3 \<le> unat (sectors_per_cluster v)" and "fat32_file_new path v fsz c = Some f"
    and "0 < n" and "unat n \<le> length b"
  shows "(unat (sectors_per_cluster v) \<le> 23 \<longrightarrow>
      unat (bytes_per_cluster f) = 512 * 2 ^ (unat (sectors_per_cluster v) - 1) \<and>
      unat (sectors_per_cluster v) * 512 < unat (bytes_per_cluster f) \<and>
      (offset < bytes_per_cluster f \<and> unat (sectors_per_cluster v) * 512 < unat offset + unat n \<longrightarrow>
         fat32_file_read dev v f b n offset d = None)) \<and>
    (24 \<le> unat (sectors_per_cluster v) \<longrightarrow> bytes_per_cluster f = 0 \<and>
      fat32_file_read dev v f b n offset d = (if offset = 0 then None else Some (False, b, d)))"
proof -
  let ?spc = "unat (sectors_per_cluster v)" and ?bpc = "bytes_per_cluster f"
  note new = fat32_file_new_fields [OF assms(5)] and bpc = bytes_per_cluster_512 [OF assms(5,3)]
  note seek = seek_loop_serves [OF assms(1,2), of ?bpc c offset]
  have "unat ?bpc = 512 * 2 ^ (?spc - 1) \<and> ?spc * 512 < unat ?bpc \<and>
      (offset < ?bpc \<and> ?spc * 512 < unat offset + unat n \<longrightarrow> fat32_file_read dev v f b n offset d = None)"
    if "?spc \<le> 23"
  proof -
    note size = cluster_size_range [OF assms(4) that]
    then have large: "?spc * 512 < unat ?bpc" using bpc by simp
    have "fat32_file_read dev v f b n offset d = None" if "offset < ?bpc" "?spc * 512 < unat offset + unat n"
      using file_read_loop_fault [OF assms(1) large that(1) assms(6) that(2) assms(7), of c] seek new(1) that(1)
      by (simp add: fat32_file_read_def)
    with size bpc large show ?thesis by simp
  qed
  moreover have "?bpc = 0 \<and> fat32_file_read dev v f b n offset d = (if offset = 0 then None else Some (False, b, d))"
    if "24 \<le> ?spc"
  proof -
    have z: "?bpc = 0" using cluster_size_wraps [OF that] bpc by (simp add: unat_eq_0)
    show ?thesis
      using z seek new(1,2) assms(6) file_read_loop_no_room [OF assms(1), of v n c 0 b]
      by (auto simp: fat32_file_read_def word_neq_0_conv)
  qed
  ultimately show ?thesis by blast
qed

text \<open>A small volume: sectors of 512 bytes, one per cluster, the table in sector 1, data from sector 10 on.\<close>

definition example_content :: "u64 \<Rightarrow> bytes" where
  "example_content a = replicate 512 (ucast a)"

definition example_device :: "unit blockdev" where
  "example_device a n d = Some (sectors example_content a (unat n), d)"

definition example_volume :: fat32 where
  "example_volume = \<lparr>fs_this = 0, fs_part = \<lparr>part_name = kstr [], part_block_size = 512, part_start = 0, part_end = 100,
     part_type = 12\<rparr>, fs_usable = True, bytes_per_sector = 512, reserved_sectors = 1, number_of_fats = 1,
     sector_count = 100, sectors_per_fat = 9, first_root_cluster = 2, sectors_per_cluster = 1,
     first_data_sector = 10, fsinfo_sector = 1, volume_id = 0, volume_label = kstr []\<rparr>"

lemma example_serves: "serves example_device 512 example_content ()"
  by (simp add: serves_def example_device_def example_content_def)

lemma example_ok: "volume_ok example_volume 512"
  by (simp add: volume_ok_def example_volume_def)

lemma example_file:
  assumes "1 \<le> unat (sectors_per_cluster v)" and "unat (sectors_per_cluster v) \<le> 32"
  shows "\<exists>f. fat32_file_new (kstr (ascii ''/a'')) v sz c = Some f"
proof -
  have "dirname (kstr ([] @ slash # ascii ''a'')) = Some (kstr [])"
    by (rule dirname_kstr) (simp_all add: ascii_def slash_def text_ok_def)
  moreover have "ascii ''/a'' = [] @ slash # ascii ''a''" by (simp add: ascii_def slash_def)
  ultimately show ?thesis
    using assms by (simp add: fat32_file_new_def file_new_def kstr_simps)
qed


lemma fat32_large_clusters_fault_witness:
  "\<exists>f g. fat32_file_new (kstr (ascii ''/a'')) (example_volume\<lparr>sectors_per_cluster := 4\<rparr>) 9000 2 = Some f \<and>
     bytes_per_cluster f = 4096 \<and>
     fat32_file_read example_device (example_volume\<lparr>sectors_per_cluster := 4\<rparr>) f (new_chars 2049) 2049 0 () = None \<and>
     fat32_file_new (kstr (ascii ''/a'')) (example_volume\<lparr>sectors_per_cluster := 32\<rparr>) 9000 2 = Some g \<and>
     bytes_per_cluster g = 0"
proof -
  let ?v = "example_volume\<lparr>sectors_per_cluster := 4\<rparr>" and ?w = "example_volume\<lparr>sectors_per_cluster := 32\<rparr>"
  have spc: "sectors_per_cluster ?v = 4" "sectors_per_cluster ?w = 32" by simp_all
  obtain f where f: "fat32_file_new (kstr (ascii ''/a'')) ?v 9000 2 = Some f"
    using example_file [of ?v 9000 2] spc by auto
  obtain g where g: "fat32_file_new (kstr (ascii ''/a'')) ?w 9000 2 = Some g"
    using example_file [of ?w 9000 2] spc by auto
  have fields: "bytes_per_sector ?v = 512" "volume_ok ?v 512" "3 \<le> unat (sectors_per_cluster ?v)"
    "bytes_per_sector ?w = 512" "volume_ok ?w 512" "3 \<le> unat (sectors_per_cluster ?w)"
    "(0 :: u32) < 2049" "unat (2049 :: u32) \<le> length (new_chars 2049)"
    by (simp_all add: volume_ok_def example_volume_def new_chars_def)
  have "unat (bytes_per_cluster f) = 4096 \<and> fat32_file_read example_device ?v f (new_chars 2049) 2049 0 () = None"
    using fat32_large_clusters_fault [OF example_serves fields(2,1,3) f fields(7,8), of 0] spc
    by (simp add: word_less_nat_alt)
  moreover from this have "bytes_per_cluster f = 4096" by (simp add: word_unat_eq_iff)
  moreover have "bytes_per_cluster g = 0"
    using fat32_large_clusters_fault [OF example_serves fields(5,4,6) g fields(7,8), of 0] spc by simp
  ultimately show ?thesis using f g by blast
qed

end
