(* ===== verification/Fat32_Directory.thy ===== *)
theory Fat32_Directory
  imports Fat32_Read
begin

text \<open>
  What reading a directory of a FAT32 volume gives: the linked list of entries holds, in order,
  what \<open>dir_parse\<close> makes of the records of 32 bytes in the first sector of the directory's
  first cluster. A directory that does not end there gives no list.
\<close>

unbundle bit_operations_syntax

section \<open>C strings with something behind them\<close>

lemma strlen_junk [simp]: "0 \<notin> set ys \<Longrightarrow> strlen (cstr ys @ junk) = Some (length ys)"
  using strlen_prefix [of ys junk] by (simp add: cstr_def)

lemma copy_loop_junk:
  assumes "0 \<notin> set ys"
  shows "copy_loop off dest i (cstr ys @ junk) = copy_loop off dest i (cstr ys)"
proof (induction off dest i "cstr ys @ junk" rule: copy_loop.induct)
  case (1 off dest i)
  have rd: "rd (cstr ys @ junk) i = rd (cstr ys) i" if "i < length ys + 1"
    using that by (cases "i = length ys") (auto simp: rd_def cstr_def nth_append)
  have c: "\<exists>c. rd (cstr ys) i = Some c" if "i < length ys + 1"
    using that by (auto simp: cstr_def rd_def nth_append)
  show ?case
  proof (cases "i < length ys + 1")
    case False
    with assms show ?thesis by (simp add: copy_loop.simps)
  next
    case True
    with c obtain x where x: "rd (cstr ys) i = Some x" by blast
    show ?thesis
    proof (cases "wr dest (off + i) x")
      case None
      with True assms rd x show ?thesis by (simp add: copy_loop.simps)
    next
      case (Some dest')
      with 1 [of "length ys" x dest'] True assms rd x show ?thesis
        by (subst (1 2) copy_loop.simps) simp
    qed
  qed
qed

lemma strcpy_junk [simp]: "0 \<notin> set ys \<Longrightarrow> strcpy d (cstr ys @ junk) = strcpy d (cstr ys)"
  by (simp add: strcpy_def copy_loop_junk)

lemma kstring_c_junk: "text_ok ys \<Longrightarrow> kstring_c (cstr ys @ junk) = Some (kstr ys)"
  using kstring_c_kstr [of ys]
  by (simp add: kstring_c_def strdup_def text_ok_def)

lemma kstring_prepend_c_junk:
  assumes "text_ok xs" and "text_ok ys"
  shows "kstring_prepend_c (kstr xs) (cstr ys @ junk) = Some (kstr (ys @ xs))"
  using kstring_prepend_c_kstr [OF assms] assms
  by (cases "ys = []") (simp_all add: kstring_prepend_c_def text_ok_def)

lemma zero_terminated:
  "\<exists>junk. map Some xs @ [Some (0 :: u8)] @ rest = cstr (takeWhile (\<lambda>c. c \<noteq> 0) xs) @ junk"
proof (induction xs)
  case Nil
  show ?case by (simp add: cstr_def)
next
  case (Cons x xs)
  then obtain junk where "map Some xs @ [Some 0] @ rest = cstr (takeWhile (\<lambda>c. c \<noteq> 0) xs) @ junk" by blast
  then show ?case by (cases "x = 0") (auto simp: cstr_def)
qed

section \<open>The records of a directory\<close>

definition long_part :: "bytes \<Rightarrow> bytes" where
  "long_part r = takeWhile (\<lambda>c. c \<noteq> 0) (map (\<lambda>j. r ! j) long_name_offsets)"

definition short_name :: "bytes \<Rightarrow> bytes" where
  "short_name r = filter (\<lambda>c. c \<noteq> 0x20) (takeWhile (\<lambda>c. c \<noteq> 0) (take 11 r))"

definition record_cluster :: "bytes \<Rightarrow> u32" where
  "record_cluster r = push_bit 16 (ucast (r ! 20)) OR push_bit 24 (ucast (r ! 21)) OR ucast (r ! 26)
     OR push_bit 8 (ucast (r ! 27))"

definition record_entry :: "nat \<Rightarrow> bytes \<Rightarrow> bytes \<Rightarrow> direntry" where
  "record_entry fs name r = \<lparr>de_name = kstr name,
     entry_type = (if r ! 11 AND attr_directory \<noteq> 0 then Directory else File), de_next = None, de_fs = Some fs,
     inode = record_cluster r, file_size = ucast (le32 r 28), permissions = 0x124, de_owner = 0, de_group = 0\<rparr>"

text \<open>
  The records in order: an unused one ends a long name, a zero ends the directory, a part of a
  long name goes before the parts read so far, any other record is an entry.
\<close>

fun dir_parse :: "nat \<Rightarrow> bytes list \<Rightarrow> bytes \<times> direntry list \<Rightarrow> bool \<times> bytes \<times> direntry list" where
  "dir_parse fs [] (ln, ds) = (False, ln, ds)"
| "dir_parse fs (r # rs) (ln, ds) =
     (if r ! 0 = 0xe5 then dir_parse fs rs ([], ds)
      else if r ! 0 = 0 then (True, ln, ds)
      else if r ! 11 AND attr_long_name = attr_long_name then dir_parse fs rs (long_part r @ ln, ds)
      else dir_parse fs rs ([], ds @ [record_entry fs (if ln \<noteq> [] then ln else short_name r) r]))"

lemma dir_parse_append:
  "dir_parse fs (rs @ qs) st = (let (fin, st') = dir_parse fs rs st in if fin then (True, st') else dir_parse fs qs st')"
  by (induction fs rs st rule: dir_parse.induct) auto

lemma long_part_ok: "text_ok (long_part r)" "length (long_part r) \<le> 13"
proof -
  show "length (long_part r) \<le> 13"
    unfolding long_part_def by (rule order_trans [OF length_takeWhile_le]) (simp add: long_name_offsets_def)
  then show "text_ok (long_part r)"
    by (auto simp: text_ok_def long_part_def dest: set_takeWhileD)
qed

lemma short_name_ok: "text_ok (short_name r)" "text_ok (takeWhile (\<lambda>c. c \<noteq> 0) (take 11 r))"
proof -
  have "length (takeWhile (\<lambda>c. c \<noteq> 0) (take 11 r)) \<le> 11"
    by (rule order_trans [OF length_takeWhile_le]) simp
  moreover from this have "length (short_name r) \<le> 11"
    unfolding short_name_def by (rule order_trans [OF length_filter_le])
  ultimately show "text_ok (short_name r)" "text_ok (takeWhile (\<lambda>c. c \<noteq> 0) (take 11 r))"
    by (auto simp: text_ok_def short_name_def dest: set_takeWhileD)
qed

lemma decode_83_loop_kstr:
  assumes "text_ok xs" and "text_ok ys" and "i + n = length xs" and "length ys + n < 2 ^ 31"
  shows "decode_83_loop n i (kstr xs) (kstr ys) = Some (kstr (ys @ filter (\<lambda>c. c \<noteq> 0x20) (drop i xs)))"
  using assms(2-)
proof (induction n arbitrary: i ys)
  case 0
  then show ?case by simp
next
  case (Suc n)
  then have i: "i < length xs" by simp
  then have c: "char_at (kstr xs) (int i) = Some (xs ! i)" by (simp add: char_at_kstr)
  have nz: "xs ! i \<noteq> 0" using i assms(1) by (auto simp: text_ok_def in_set_conv_nth)
  show ?case
  proof (cases "xs ! i = 0x20")
    case True
    with Suc c i show ?thesis by (simp add: Cons_nth_drop_Suc [symmetric])
  next
    case False
    have "text_ok (ys @ [xs ! i])" using Suc.prems nz i by (auto simp: text_ok_def)
    with Suc.IH [of "ys @ [xs ! i]" "i + 1"] Suc.prems i
    have "decode_83_loop n (i + 1) (kstr xs) (kstr (ys @ [xs ! i])) =
        Some (kstr (ys @ [xs ! i] @ filter (\<lambda>c. c \<noteq> 0x20) (drop (i + 1) xs)))"
      by simp
    with False c nz Suc.prems i show ?thesis
      by (simp add: kstring_append_char_kstr Cons_nth_drop_Suc [symmetric])
  qed
qed

lemma decode_83_kstr:
  assumes "text_ok xs"
  shows "decode_83_filename (kstr xs) = Some (kstr (filter (\<lambda>c. c \<noteq> 0x20) xs))"
  using decode_83_loop_kstr [OF assms, of "[]" 0 "length xs"] assms
  by (simp add: decode_83_filename_def kstr_simps text_ok_def)

section \<open>One record\<close>

text \<open>
  The state of the loop stands for a long name and a list of entries. Compared with the store
  before, exactly the entries of the list are new.
\<close>

definition scan_rep :: "direntry store \<Rightarrow> nat list \<Rightarrow> bytes \<times> direntry list \<Rightarrow> scan \<Rightarrow> bool" where
  "scan_rep s0 as st sc \<longleftrightarrow> listing (scan_entries sc) (scan_head sc) as (snd st) \<and>
     scan_previous sc = last_ptr None as \<and> long_filename sc = kstr (fst st) \<and> text_ok (fst st) \<and>
     store_ok (scan_entries sc) \<and> fresh s0 \<le> fresh (scan_entries sc) \<and> (\<forall>a \<in> set as. fresh s0 \<le> a) \<and>
     (\<forall>a. a \<notin> set as \<longrightarrow> cells (scan_entries sc) a = cells s0 a)"

lemma scan_rep_long:
  "scan_rep s0 as (ln, ds) sc \<Longrightarrow> text_ok ln' \<Longrightarrow> scan_rep s0 as (ln', ds) (sc\<lparr>long_filename := kstr ln'\<rparr>)"
  by (simp add: scan_rep_def)

lemma insert_entry_rep:
  assumes "scan_rep s0 as (ln, ds) sc" and "de_next e = None"
  shows "\<exists>a sc'. insert_entry e sc = Some sc' \<and> scan_rep s0 (as @ [a]) (ln, ds @ [e]) sc'"
proof -
  let ?s = "scan_entries sc" let ?a = "fresh (scan_entries sc)"
  from assms(1) have l: "listing ?s (scan_head sc) as ds" and prev: "scan_previous sc = last_ptr None as"
    and ok: "store_ok ?s" by (simp_all add: scan_rep_def)
  from l have h: "scan_head sc = hd_ptr as None" "distinct as" "linked (cells ?s) as"
    "map (\<lambda>a. info (the (cells ?s a))) as = ds" by (simp_all add: listing_def)
  have new: "?a \<notin> set as" using linked_dom [OF h(3)] store_ok_fresh [OF ok] by force
  have ie: "info e = e" using assms(2) by (simp add: info_def)
  show ?thesis
  proof (cases as rule: rev_cases)
    case Nil
    with h ok ie assms show ?thesis
      by (intro exI [of _ ?a]) (auto simp: insert_entry_def new_obj_def scan_rep_def listing_def store_ok_def)
  next
    case (snoc bs b)
    then obtain f where f: "cells ?s b = Some f" using linked_dom [OF h(3), of b] by auto
    let ?s' = "?s\<lparr>cells := (cells ?s)(?a \<mapsto> e, b \<mapsto> f\<lparr>de_next := Some ?a\<rparr>), fresh := Suc ?a\<rparr>"
    let ?sc = "sc\<lparr>scan_previous := Some ?a, scan_entries := ?s'\<rparr>"
    have ba: "b \<noteq> ?a" using new snoc by auto
    obtain hd where hd: "scan_head sc = Some hd" using h(1) snoc by (cases bs) auto
    have "insert_entry e sc = Some ?sc"
      using hd prev snoc f ba by (simp add: insert_entry_def new_obj_def modify_def)
    moreover have "linked (cells ?s') (as @ [?a])"
      using linked_append [of "cells ?s" bs b f ?a e] h(2,3) f new snoc assms(2) by simp
    moreover have "map (\<lambda>a. info (the (cells ?s' a))) (as @ [?a]) = ds @ [e]"
      using h(2,4) f new snoc ie ba by (auto simp: map_eq_conv)
    moreover have "store_ok ?s'" using ok f ba store_ok_cell [OF ok f] by (auto simp: store_ok_def)
    ultimately show ?thesis
      using h(1,2) new snoc assms(1) hd by (intro exI [of _ ?a] exI [of _ ?sc])
        (auto simp: scan_rep_def listing_def)
  qed
qed

lemma those_map_Some: "(\<And>x. x \<in> set xs \<Longrightarrow> f x = Some (g x)) \<Longrightarrow> those (map f xs) = Some (map g xs)"
  by (induction xs) auto

lemma scan_entry_rep:
  assumes "scan_rep s0 as (ln, ds) sc" and "i + 32 \<le> length xs" and "r = take 32 (drop i xs)"
    and "length ln + 13 < 2 ^ 31" and "dir_parse (fs_this v) [r] (ln, ds) = (fin, st')"
  shows "\<exists>as' sc'. scan_entry v (map Some xs) i sc = Some (fin, sc') \<and> scan_rep s0 (as @ as') st' sc' \<and>
    length (fst st') \<le> length ln + 13"
proof -
  from assms(1) have lf: "long_filename sc = kstr ln" "text_ok ln" by (simp_all add: scan_rep_def)
  have rd: "rd (map Some xs) (i + j) = Some (r ! j)" if "j < 32" for j
    using that assms(2,3) by (simp add: rd_map_Some)
  from rd [of 0] have rd0: "rd (map Some xs) i = Some (r ! 0)" by simp
  have rd32: "rd32 (map Some xs) (i + 28) = Some (le32 r 28)"
    using rd [of 28] rd [of 29] rd [of 30] rd [of 31] by (simp add: rd32_def le32_def ac_simps)
  note reads = rd [of 20, simplified] rd [of 21, simplified] rd [of 26, simplified] rd [of 27, simplified]
    rd [of 11, simplified] rd0 rd32
  show ?thesis
  proof (cases "r ! 0 = 0xe5")
    case True
    have "scan_rep s0 as ([], ds) (sc\<lparr>long_filename := kstr []\<rparr>)" by (rule scan_rep_long [OF assms(1)]) simp
    then show ?thesis
      using True assms(5) lf by (intro exI [of _ "[]"])
        (cases "ln = []", auto simp: scan_entry_def reads kstr_simps)
  next
    case unused: False
    show ?thesis
    proof (cases "r ! 0 = 0")
      case True
      then show ?thesis
        using assms(1,5) by (intro exI [of _ "[]"]) (auto simp: scan_entry_def reads)
    next
      case zero: False
      show ?thesis
      proof (cases "r ! 11 AND attr_long_name = attr_long_name")
        case True
        let ?t = "map (\<lambda>j. r ! j) long_name_offsets"
        have "those (map (\<lambda>j. rd (map Some xs) (i + j)) long_name_offsets) = Some ?t"
          by (rule those_map_Some) (auto simp: long_name_offsets_def intro!: rd)
        moreover obtain junk where "map Some ?t @ [Some 0] = cstr (long_part r) @ junk"
          using zero_terminated [of ?t "[]"] by (auto simp: long_part_def)
        moreover have "kstring_prepend_c (kstr ln) (cstr (long_part r) @ junk) = Some (kstr (long_part r @ ln))"
          by (rule kstring_prepend_c_junk [OF lf(2) long_part_ok(1)])
        moreover have "text_ok (long_part r @ ln)"
          using lf(2) long_part_ok [of r] assms(4) by (auto simp: text_ok_def)
        note scan_rep_long [OF assms(1) this]
        ultimately show ?thesis
          using True unused zero assms(5) lf long_part_ok(2) [of r]
          by (intro exI [of _ "[]"]) (auto simp: scan_entry_def reads)
      next
        case False
        let ?n = "if ln \<noteq> [] then ln else short_name r"
        let ?en = "takeWhile (\<lambda>c. c \<noteq> 0) (take 11 r)"
        have t: "map (\<lambda>j. r ! j) [0..<11] = take 11 r"
          using assms(2,3) by (intro nth_equalityI) simp_all
        have "those (map (\<lambda>j. rd (map Some xs) (i + j)) [0..<11]) = Some (take 11 r)"
          unfolding t [symmetric] by (rule those_map_Some) (auto intro!: rd)
        moreover obtain junk where "map Some (take 11 r) @ [Some 0, Some 0] = cstr ?en @ junk"
          using zero_terminated [of "take 11 r" "[Some 0]"] by auto
        moreover have "kstring_c (cstr ?en @ junk) = Some (kstr ?en)"
          by (rule kstring_c_junk) (rule short_name_ok)
        moreover have "decode_83_filename (kstr ?en) = Some (kstr (short_name r))"
          unfolding short_name_def by (rule decode_83_kstr) (rule short_name_ok)
        moreover have "text_ok ?n" using lf(2) short_name_ok(1) by simp
        note new = direntry_new_kstr [OF this, of _ "Some (fs_this v)" _ _ "0x124" 0 0]
        have "scan_rep s0 as ([], ds) (sc\<lparr>long_filename := kstr []\<rparr>)" by (rule scan_rep_long [OF assms(1)]) simp
        from insert_entry_rep [OF this, of "record_entry (fs_this v) ?n r"] obtain a sc' where
          "insert_entry (record_entry (fs_this v) ?n r) (sc\<lparr>long_filename := kstr []\<rparr>) = Some sc'"
          "scan_rep s0 (as @ [a]) ([], ds @ [record_entry (fs_this v) ?n r]) sc'"
          by (auto simp: record_entry_def)
        ultimately show ?thesis
          using False unused zero assms(5) lf new
          by (intro exI [of _ "[a]"] exI [of _ sc'])
            (cases "ln = []", auto simp: scan_entry_def reads kstr_simps record_entry_def record_cluster_def)
      qed
    qed
  qed
qed

section \<open>The first sector\<close>

definition records :: "bytes \<Rightarrow> nat \<Rightarrow> nat \<Rightarrow> bytes list" where
  "records xs i n = map (\<lambda>k. take 32 (drop (i + 32 * k) xs)) [0..<n]"

lemma records_Suc: "records xs i (Suc n) = take 32 (drop i xs) # records xs (i + 32) n"
  by (simp add: records_def upt_conv_Cons map_Suc_upt [symmetric] add.assoc del: upt_Suc)

text \<open>The records of the first sector of a cluster.\<close>

definition dir_records :: "fat32 \<Rightarrow> (u64 \<Rightarrow> bytes) \<Rightarrow> nat \<Rightarrow> u32 \<Rightarrow> bytes list" where
  "dir_records v content bs c = records (content (get_cluster_address v c)) 0 (bs div 32)"

lemma few_records: "volume_ok v bs \<Longrightarrow> 13 * (bs div 32) < 2 ^ 31"
proof -
  assume "volume_ok v bs"
  then have "bs < 65536" by (simp add: volume_ok_def)
  moreover have "bs div 32 \<le> bs" by simp
  ultimately have "13 * (bs div 32) < 13 * 65536" by linarith
  then show ?thesis by simp
qed

lemma dir_parse_Cons:
  "dir_parse fs (r # rs) st = (let (fin, st') = dir_parse fs [r] st in if fin then (True, st') else dir_parse fs rs st')"
  using dir_parse_append [of fs "[r]" rs st] by simp

lemma scan_sector_rep:
  assumes "scan_rep s0 as st sc" and "i + 32 * n \<le> length xs" and "length (fst st) + 13 * n < 2 ^ 31"
    and "dir_parse (fs_this v) (records xs i n) st = (fin, st')"
  shows "\<exists>as' sc'. scan_sector v n (map Some xs) i sc = Some (fin, sc') \<and> scan_rep s0 (as @ as') st' sc' \<and>
    length (fst st') \<le> length (fst st) + 13 * n"
  using assms
proof (induction n arbitrary: i as st sc)
  case 0
  then show ?case by (cases st) (auto simp: records_def intro: exI [of _ "[]"])
next
  case (Suc n)
  obtain ln ds where st: "st = (ln, ds)" by (cases st)
  let ?r = "take 32 (drop i xs)"
  obtain fin1 st1 where p: "dir_parse (fs_this v) [?r] (ln, ds) = (fin1, st1)" by (cases "dir_parse (fs_this v) [?r] (ln, ds)")
  from Suc.prems st have "i + 32 \<le> length xs" "length ln + 13 < 2 ^ 31" by simp_all
  with scan_entry_rep [OF Suc.prems(1) [unfolded st] _ refl _ p] obtain as1 sc1 where
    1: "scan_entry v (map Some xs) i sc = Some (fin1, sc1)" "scan_rep s0 (as @ as1) st1 sc1"
      "length (fst st1) \<le> length ln + 13" by blast
  have "(if fin1 then (True, st1) else dir_parse (fs_this v) (records xs (i + 32) n) st1) = (fin, st')"
    using Suc.prems(4) dir_parse_Cons [of "fs_this v" ?r "records xs (i + 32) n" st]
    by (simp only: records_Suc st p Let_def prod.case)
  note step = this
  show ?case
  proof (cases fin1)
    case True
    with step have "fin" "st' = st1" by simp_all
    with 1 True st show ?thesis by (intro exI [of _ as1]) auto
  next
    case False
    with step have "dir_parse (fs_this v) (records xs (i + 32) n) st1 = (fin, st')" by simp
    moreover have "i + 32 + 32 * n \<le> length xs" "length (fst st1) + 13 * n < 2 ^ 31"
      using Suc.prems(2,3) st 1(3) by simp_all
    ultimately obtain as2 sc' where
      "scan_sector v n (map Some xs) (i + 32) sc1 = Some (fin, sc')" "scan_rep s0 ((as @ as1) @ as2) st' sc'"
      "length (fst st') \<le> length (fst st1) + 13 * n" using Suc.IH [OF 1(2)] by blast
    with 1 False st show ?thesis by (intro exI [of _ "as1 @ as2"]) auto
  qed
qed

text \<open>After a listing is read its entries are the only new objects.\<close>

definition extends :: "direntry store \<Rightarrow> nat list \<Rightarrow> direntry store \<Rightarrow> bool" where
  "extends s0 as s \<longleftrightarrow> store_ok s \<and> fresh s0 \<le> fresh s \<and> (\<forall>a \<in> set as. fresh s0 \<le> a) \<and>
     (\<forall>a. a \<notin> set as \<longrightarrow> cells s a = cells s0 a)"

lemma scan_rep_extends:
  "scan_rep s0 as st sc \<Longrightarrow> listing (scan_entries sc) (scan_head sc) as (snd st) \<and> extends s0 as (scan_entries sc)"
  by (simp add: scan_rep_def extends_def)

lemma free_extends:
  assumes "listing s p as ds" and "extends s0 as s" and "store_ok s0"
  shows "\<exists>s'. free_list p s = Some s' \<and> extends s0 [] s'"
proof -
  from free_list_listing [OF assms(1)] obtain s' where s': "free_list p s = Some s'" "fresh s' = fresh s"
    "cells s' = (\<lambda>a. if a \<in> set as then None else cells s a)" by blast
  have "cells s' a = cells s0 a" for a
    using s'(3) assms(2,3) by (cases "a \<in> set as") (simp_all add: extends_def store_ok_def)
  with s'(1,2) assms(2,3) show ?thesis by (simp add: extends_def store_ok_def)
qed

lemma directory_sector:
  assumes "serves dev bs content d" and "volume_ok v bs" and "bs mod 32 = 0" and "1 \<le> unat (sectors_per_cluster v)"
    and "scan_rep s0 as st sc" and "length (fst st) + 13 * (bs div 32) < 2 ^ 31"
    and "dir_parse (fs_this v) (dir_records v content bs c) st = (fin, st')"
  shows "\<exists>b as' sc'. read_into dev (new_chars (unat (fs_block_size v * ucast (sectors_per_cluster v))))
      (get_cluster_address v c) (ucast (sectors_per_cluster v)) d = Some (False, b, d) \<and>
    scan_sector v ((unat (fs_block_size v) + 31) div 32) b 0 sc = Some (fin, sc') \<and>
    scan_rep s0 (as @ as') st' sc' \<and> length (fst st') \<le> length (fst st) + 13 * (bs div 32)"
proof -
  let ?cb = "cluster_bytes v content c" and ?a = "get_cluster_address v c"
  obtain m where "bs = 32 * m" using assms(3) by (metis mod_0_imp_dvd dvdE)
  then have "(unat (fs_block_size v) + 31) div 32 = bs div 32"
    using assms(2) by (simp add: volume_ok_def)
  moreover have "read_into dev (new_chars (unat (fs_block_size v * ucast (sectors_per_cluster v)))) ?a
      (ucast (sectors_per_cluster v)) d = Some (False, map Some ?cb, d)"
    by (rule read_cluster_serves [OF assms(1)]) (simp add: new_chars_def cluster_size [OF assms(2)])
  moreover obtain k where k: "unat (sectors_per_cluster v) = Suc k" using assms(4) by (cases "unat (sectors_per_cluster v)") simp_all
  have la: "length (content ?a) = bs" using assms(1) by (simp add: serves_def)
  have cb: "?cb = content ?a @ concat (map (\<lambda>i. content (?a + of_nat i)) [1..<Suc k])"
    by (simp add: cluster_bytes_def sectors_def k upt_conv_Cons del: upt_Suc)
  have "records ?cb 0 (bs div 32) = records (content ?a) 0 (bs div 32)"
    unfolding records_def using la cb by (auto intro!: map_cong)
  moreover have "0 + 32 * (bs div 32) \<le> length ?cb" using la cb by simp
  ultimately show ?thesis
    using scan_sector_rep [OF assms(5) _ assms(6)] assms(7) by (metis dir_records_def)
qed

lemma read_cluster_directory_serves:
  assumes "serves dev bs content d" and "volume_ok v bs" and "bs mod 32 = 0" and "1 \<le> unat (sectors_per_cluster v)"
    and "store_ok s" and "dir_parse (fs_this v) (dir_records v content bs c) ([], []) = (fin, ln, ds)"
  shows "\<exists>p s' as. read_cluster_directory dev v c s d = Some (p, s', d) \<and>
    (fin \<longrightarrow> listing s' p as ds \<and> extends s as s') \<and> (\<not> fin \<longrightarrow> p = None \<and> extends s [] s')"
proof -
  let ?sc = "\<lparr>scan_head = None, scan_previous = None, long_filename = kstr [], scan_entries = s\<rparr>"
  have "scan_rep s [] ([], []) ?sc" using assms(5) by (simp add: scan_rep_def)
  moreover have "length (fst ([] :: bytes, [] :: direntry list)) + 13 * (bs div 32) < 2 ^ 31"
    using few_records [OF assms(2)] by simp
  ultimately obtain b as sc where
    rd: "read_into dev (new_chars (unat (fs_block_size v * ucast (sectors_per_cluster v)))) (get_cluster_address v c)
       (ucast (sectors_per_cluster v)) d = Some (False, b, d)"
    and sc: "scan_sector v ((unat (fs_block_size v) + 31) div 32) b 0 ?sc = Some (fin, sc)" "scan_rep s as (ln, ds) sc"
    using directory_sector [OF assms(1-4) _ _ assms(6)] by (metis append_Nil)
  note ext = scan_rep_extends [OF sc(2)]
  from ext free_extends assms(5) obtain s' where
    "free_list (scan_head sc) (scan_entries sc) = Some s'" "extends s [] s'" by blast
  moreover have "read_cluster_directory dev v c s d = directory_loop dev v c ?sc d"
    by (simp only: read_cluster_directory_def kstring_new_kstr Option.bind.simps)
  ultimately show ?thesis
    using rd sc(1) ext by (subst (asm) directory_loop.simps)
      (cases fin, auto simp: get_next_cluster_serves [OF assms(1,2)])
qed


text \<open>A directory with one entry, a directory at cluster 5 with the long name \<open>a\<close>.\<close>

definition example_long :: bytes where
  "example_long = [0x41, 0x61] @ replicate 9 0 @ [0x0f] @ replicate 20 0"

definition example_short :: bytes where
  "example_short = [0x41] @ replicate 10 0x20 @ [0x10] @ replicate 14 0 @ [5] @ replicate 5 0"

definition directory_content :: "u64 \<Rightarrow> bytes" where
  "directory_content a = (if a = 11 then example_long @ example_short @ replicate 448 0 else example_content a)"

definition directory_device :: "unit blockdev" where
  "directory_device a n d = Some (sectors directory_content a (unat n), d)"

lemma directory_serves: "serves directory_device 512 directory_content ()"
  by (simp add: serves_def directory_device_def directory_content_def example_content_def
      example_long_def example_short_def)

lemma example_parse:
  "dir_parse 0 (dir_records example_volume directory_content 512 3) ([], []) =
    (True, [], [record_entry 0 [0x61] example_short])"
proof -
  let ?xs = "example_long @ example_short @ replicate 448 0"
  have len: "length example_long = 32" "length example_short = 32"
    by (simp_all add: example_long_def example_short_def)
  have "records ?xs 0 (Suc (Suc (Suc 13))) = example_long # example_short # replicate 32 0 # records ?xs 96 13"
    unfolding records_Suc using len by simp
  then have "dir_records example_volume directory_content 512 3 =
      example_long # example_short # replicate 32 0 # records ?xs 96 13"
    by (simp add: dir_records_def get_cluster_address_def example_volume_def directory_content_def)
  moreover have "example_long ! 0 = 0x41" "example_long ! 11 = 0x0f" "long_part example_long = [0x61]"
    "example_short ! 0 = 0x41" "example_short ! 11 = 0x10"
    by (simp_all add: example_long_def example_short_def long_part_def long_name_offsets_def nth_append)
  ultimately show ?thesis by (simp add: attr_long_name_def)
qed


end
