(* ===== verification/Fat32_Path.thy ===== *)
theory Fat32_Path
  imports Fat32_Directory
begin

text \<open>
  Paths on a FAT32 volume: what opening a file gives, in terms of the directories of the volume.
  \<open>dir_entries\<close> are the entries of the directory at a cluster; a directory whose first sector has
  no end mark has none, as reading it gives null.
\<close>

section \<open>Directories of a volume\<close>

definition dir_entries :: "fat32 \<Rightarrow> (u64 \<Rightarrow> bytes) \<Rightarrow> nat \<Rightarrow> u32 \<Rightarrow> direntry list" where
  "dir_entries v content bs c =
     (let (fin, ln, ds) = dir_parse (fs_this v) (dir_records v content bs c) ([], []) in if fin then ds else [])"

definition readable :: "'d blockdev \<Rightarrow> fat32 \<Rightarrow> nat \<Rightarrow> (u64 \<Rightarrow> bytes) \<Rightarrow> 'd \<Rightarrow> bool" where
  "readable dev v bs content d \<longleftrightarrow> serves dev bs content d \<and> volume_ok v bs \<and> bs mod 32 = 0 \<and>
     1 \<le> unat (sectors_per_cluster v) \<and> unat (sectors_per_cluster v) \<le> 32"

text \<open>
  The cluster of the directory a list of names leads to, from the directory at cluster \<open>c\<close>; or,
  on the left, the cluster of the directory where the walk ends without success. Every name but
  the last has to be one of a directory; the type of the last entry does not matter.
\<close>

fun resolve :: "(u32 \<Rightarrow> direntry list) \<Rightarrow> u32 \<Rightarrow> bytes list \<Rightarrow> u32 + u32" where
  "resolve dirs c [] = Inr c"
| "resolve dirs c (n # ns) =
     (case first_named n (dirs c) of
        None \<Rightarrow> Inl c
      | Some e \<Rightarrow> if ns = [] then Inr (inode e)
                  else if entry_type e = Directory then resolve dirs (inode e) ns else Inl c)"

primrec path_of :: "bytes list \<Rightarrow> bytes" where
  "path_of [] = []"
| "path_of (n # ns) = slash # n @ path_of ns"

definition names_of_path :: "bytes list \<Rightarrow> bool" where
  "names_of_path ns \<longleftrightarrow> (\<forall>n \<in> set ns. n \<noteq> [] \<and> slash \<notin> set n) \<and> text_ok (path_of ns)"

lemma dir_parse_names:
  assumes "dir_parse fs rs (ln, ds) = (fin, ln', ds')" and "names_ok ds" and "text_ok ln"
    and "length ln + 13 * length rs < 2 ^ 31"
  shows "names_ok ds'"
  using assms
proof (induction fs rs "(ln, ds)" arbitrary: ln ds rule: dir_parse.induct)
  case (1 fs ln ds)
  then show ?case by simp
next
  case (2 fs r rs ln ds)
  have "text_ok (long_part r @ ln)" "length (long_part r @ ln) + 13 * length rs < 2 ^ 31"
    using 2(6,7) long_part_ok [of r] by (auto simp: text_ok_def)
  moreover have "names_ok (ds @ [record_entry fs (if ln \<noteq> [] then ln else short_name r) r])"
    using 2(5,6) short_name_ok [of r] by (auto simp: names_ok_def record_entry_def)
  ultimately show ?case
    using 2 by (auto split: if_splits)
qed

lemma directory_at:
  assumes "readable dev v bs content d" and "store_ok s"
  shows "names_ok (dir_entries v content bs c) \<and>
    (\<exists>p s' as. read_cluster_directory dev v c s d = Some (p, s', d) \<and>
      listing s' p as (dir_entries v content bs c) \<and> extends s as s')"
proof -
  obtain fin ln ds where p: "dir_parse (fs_this v) (dir_records v content bs c) ([], []) = (fin, ln, ds)"
    by (cases "dir_parse (fs_this v) (dir_records v content bs c) ([], [])")
  from assms(1) have h: "serves dev bs content d" "volume_ok v bs" "bs mod 32 = 0" "1 \<le> unat (sectors_per_cluster v)"
    by (auto simp: readable_def)
  have "13 * (bs div 32) < 2 ^ 31" by (rule few_records [OF h(2)])
  then have "names_ok ds"
    using dir_parse_names [OF p] by (simp add: names_ok_def dir_records_def records_def)
  moreover have e: "dir_entries v content bs c = (if fin then ds else [])"
    by (simp add: dir_entries_def p)
  ultimately have "names_ok (dir_entries v content bs c)" by (simp add: names_ok_def)
  moreover obtain p s' as where l: "read_cluster_directory dev v c s d = Some (p, s', d)"
    "fin \<longrightarrow> listing s' p as ds \<and> extends s as s'" "\<not> fin \<longrightarrow> p = None \<and> extends s [] s'"
    using read_cluster_directory_serves [OF h assms(2) p] by blast
  have "listing s' p (if fin then as else []) (dir_entries v content bs c) \<and> extends s (if fin then as else []) s'"
    using l(2,3) e by (simp add: listing_def)
  ultimately show ?thesis using l(1) by blast
qed

lemma extends_trans:
  "extends s0 [] s1 \<Longrightarrow> extends s1 as s2 \<Longrightarrow> extends s0 as s2"
  by (auto simp: extends_def)

lemma extends_refl: "store_ok s \<Longrightarrow> extends s [] s"
  by (simp add: extends_def)

text \<open>An older list is freed while a newer one stays.\<close>

lemma free_older:
  assumes "store_ok s0" and "listing s p as ds" and "extends s0 as s"
    and "listing s1 p1 as1 ds1" and "extends s as1 s1"
  shows "\<exists>s2. free_list p s1 = Some s2 \<and> listing s2 p1 as1 ds1 \<and> extends s0 as1 s2"
proof -
  have old: "a < fresh s" if "a \<in> set as" for a
    using listing_cells [OF assms(2) that] store_ok_cell assms(3) by (auto simp: extends_def)
  have disj: "a \<notin> set as1" if "a \<in> set as" for a
    using old [OF that] assms(5) by (auto simp: extends_def)
  have "listing s1 p as ds"
    using disj assms(5) by (intro listing_frame [OF assms(2)]) (auto simp: extends_def)
  from free_list_listing [OF this] obtain s2 where s2: "free_list p s1 = Some s2" "fresh s2 = fresh s1"
    "cells s2 = (\<lambda>a. if a \<in> set as then None else cells s1 a)" by blast
  have "listing s2 p1 as1 ds1"
    using s2(3) disj by (intro listing_frame [OF assms(4)]) auto
  moreover have "cells s2 a = cells s0 a" if "a \<notin> set as1" for a
    using that s2(3) assms(1,3,5) by (cases "a \<in> set as") (simp_all add: extends_def store_ok_def)
  moreover have "store_ok s2" using s2(2,3) assms(5) by (simp add: extends_def store_ok_def)
  moreover have "\<forall>a \<in> set as1. fresh s0 \<le> a" "fresh s0 \<le> fresh s2"
    using s2(2) assms(3,5) by (auto simp: extends_def)
  ultimately show ?thesis using s2(1) by (auto simp: extends_def)
qed

section \<open>The walk\<close>

lemma path_index:
  assumes "text_ok (n @ path_of ns)" and "slash \<notin> set n"
  shows "kstring_index (kstr (n @ path_of ns)) slash = Some (if ns = [] then npos else int (length n))"
proof -
  have "takeWhile (\<lambda>d. d \<noteq> slash) (n @ slash # xs) = n" for xs
    using assms(2) by (simp add: takeWhile_append)
  with assms show ?thesis by (cases ns) (auto simp: kstring_index_kstr)
qed

lemma names_of_path_Cons:
  "names_of_path (n # ns) \<Longrightarrow> names_of_path ns \<and> text_ok n \<and> n \<noteq> [] \<and> slash \<notin> set n \<and> text_ok (n @ path_of ns)"
  by (auto simp: names_of_path_def text_ok_def)

lemma walk_path_rep:
  assumes "readable dev v bs content d" and "dirs = dir_entries v content bs"
    and "store_ok s0" and "listing s p as (dirs c)" and "extends s0 as s" and "names_of_path (n # ns)"
  shows "\<exists>p' s' as'. walk_path dev v p (kstr (n @ path_of ns)) s d = Some (p', s', d) \<and> extends s0 as' s' \<and>
    (case resolve dirs c (n # ns) of Inl c' \<Rightarrow> p' = None \<and> (\<exists>q. listing s' q as' (dirs c'))
     | Inr c' \<Rightarrow> listing s' p' as' (dirs c'))"
  using assms(4-)
proof (induction ns arbitrary: c s p as n)
  case Nil
  note path = names_of_path_Cons [OF Nil.prems(3)]
  have ok: "store_ok s" using Nil.prems(2) by (simp add: extends_def)
  have dirs: "names_ok (dirs c)" using directory_at [OF assms(1) ok, of c] assms(2) by simp
  have idx: "kstring_index (kstr n) slash = Some npos" using path_index [of n "[]"] path by simp
  from find_entry_listing [OF Nil.prems(1) dirs] path obtain r where r: "find_entry (kstr n) p s = Some r"
    "case first_named n (dirs c) of None \<Rightarrow> r = None
     | Some d \<Rightarrow> \<exists>a e. r = Some a \<and> a \<in> set as \<and> cells s a = Some e \<and> info e = d" by blast
  show ?case
  proof (cases "first_named n (dirs c)")
    case None
    with r idx Nil.prems(1,2) show ?thesis by (subst walk_path.simps) auto
  next
    case (Some e)
    from r(2) Some obtain a f where f: "r = Some a" "a \<in> set as" "cells s a = Some f" "info f = e" by auto
    then have pn: "p \<noteq> None" using Nil.prems(1) by (cases as) (auto simp: listing_def)
    have fi: "inode f = inode e" using f(4) by auto
    from directory_at [OF assms(1) ok, of "inode e"] assms(2) obtain p1 s1 as1 where
      1: "read_cluster_directory dev v (inode e) s d = Some (p1, s1, d)"
        "listing s1 p1 as1 (dirs (inode e))" "extends s as1 s1" by auto
    from free_older [OF assms(3) Nil.prems(1,2) 1(2,3)] obtain s2 where
      "free_list p s1 = Some s2" "listing s2 p1 as1 (dirs (inode e))" "extends s0 as1 s2" by blast
    with 1 f fi pn r(1) idx Some show ?thesis by (subst walk_path.simps) auto
  qed
next
  case (Cons m ns)
  note path = names_of_path_Cons [OF Cons.prems(3)]
  have ok: "store_ok s" using Cons.prems(2) by (simp add: extends_def)
  have dirs: "names_ok (dirs c)" using directory_at [OF assms(1) ok, of c] assms(2) by simp
  let ?path = "n @ path_of (m # ns)"
  have idx: "kstring_index (kstr ?path) slash = Some (int (length n))"
    using path_index [of n "m # ns"] path by simp
  have sub: "substring (kstr ?path) 0 (int (length n)) = Some (kstr n)"
    using path substring_prefix [of ?path "int (length n)"] by simp
  from find_entry_listing [OF Cons.prems(1) dirs] path obtain r where r: "find_entry (kstr n) p s = Some r"
    "case first_named n (dirs c) of None \<Rightarrow> r = None
     | Some d \<Rightarrow> \<exists>a e. r = Some a \<and> a \<in> set as \<and> cells s a = Some e \<and> info e = d" by blast
  show ?case
  proof (cases "first_named n (dirs c)")
    case None
    with r idx sub Cons.prems(1,2) show ?thesis by (subst walk_path.simps) (auto simp: npos_def)
  next
    case (Some e)
    from r(2) Some obtain a f where f: "r = Some a" "a \<in> set as" "cells s a = Some f" "info f = e" by auto
    then obtain pa where pn: "p = Some pa" using Cons.prems(1) by (cases as) (auto simp: listing_def)
    have fi: "inode f = inode e" "entry_type f = entry_type e" using f(4) by auto
    show ?thesis
    proof (cases "entry_type e = Directory")
      case False
      with Some r f fi pn idx sub Cons.prems(1,2) show ?thesis
        by (subst walk_path.simps) (auto simp: npos_def)
    next
      case True
      from free_extends [OF Cons.prems(1,2) assms(3)] obtain s1 where
        1: "free_list p s = Some s1" "extends s0 [] s1" by blast
      then have "store_ok s1" by (simp add: extends_def)
      from directory_at [OF assms(1) this, of "inode e"] assms(2) obtain p2 s2 as2 where
        2: "read_cluster_directory dev v (inode e) s1 d = Some (p2, s2, d)"
          "listing s2 p2 as2 (dirs (inode e))" "extends s1 as2 s2" by auto
      have "drop (Suc (length n)) (cstr ?path) = cstr (m @ path_of ns)" by (simp add: cstr_def)
      moreover have mp: "names_of_path (m # ns)" "text_ok (m @ path_of ns)"
        using path names_of_path_Cons by blast+
      ultimately have assign: "kstring_assign_c (kstr ?path) (drop (Suc (length n)) (buffer (kstr ?path))) =
          Some (kstr (m @ path_of ns))"
        by (simp add: kstring_assign_c_kstr)
      from Cons.IH [OF 2(2) extends_trans [OF 1(2) 2(3)] mp(1)]
      obtain p' s' as' where 3: "walk_path dev v p2 (kstr (m @ path_of ns)) s2 d = Some (p', s', d)" "extends s0 as' s'"
        "case resolve dirs (inode e) (m # ns) of Inl c' \<Rightarrow> p' = None \<and> (\<exists>q. listing s' q as' (dirs c'))
         | Inr c' \<Rightarrow> listing s' p' as' (dirs c')" by blast
      have "walk_path dev v p (kstr ?path) s d = walk_path dev v p2 (kstr (m @ path_of ns)) s2 d"
        using 1(1) 2(1) assign True r(1) f(1,3) fi pn idx sub
        by (subst walk_path.simps) (simp add: npos_def del: path_of.simps buffer_kstr)
      moreover have "resolve dirs c (n # m # ns) = resolve dirs (inode e) (m # ns)"
        using Some True by simp
      ultimately show ?thesis using 3 by auto
    qed
  qed
qed

section \<open>Opening a file\<close>

lemma read_directory_rep:
  assumes "readable dev v bs content d" and "dirs = dir_entries v content bs"
    and "store_ok s" and "names_of_path ns"
  shows "\<exists>p' s' as'. read_directory dev v (kstr (path_of ns)) s d = Some (p', s', d) \<and> extends s as' s' \<and>
    (case resolve dirs 2 ns of Inl c' \<Rightarrow> p' = None \<and> (\<exists>q. listing s' q as' (dirs c'))
     | Inr c' \<Rightarrow> listing s' p' as' (dirs c'))"
proof -
  have slash_ok: "text_ok [slash]" by (simp add: text_ok_def slash_def)
  from directory_at [OF assms(1,3), of 2] assms(2) obtain p1 s1 as1 where
    1: "read_cluster_directory dev v 2 s d = Some (p1, s1, d)" "listing s1 p1 as1 (dirs 2)" "extends s as1 s1" by auto
  show ?thesis
  proof (cases ns)
    case Nil
    have "char_at (kstr []) 0 = Some 0" by (simp add: char_at_kstr)
    then have "read_directory dev v (kstr (path_of ns)) s d = Some (p1, s1, d)"
      using 1(1) Nil slash_ok by (simp add: read_directory_def kstr_simps slash_def)
    with 1 Nil show ?thesis by auto
  next
    case (Cons n ms)
    note path = names_of_path_Cons [OF assms(4) [unfolded Cons]]
    let ?m = "n @ path_of ms"
    have ok: "text_ok (slash # ?m)" using assms(4) Cons by (simp add: names_of_path_def)
    have "char_at (kstr (slash # ?m)) 0 = Some slash" by (simp add: char_at_kstr)
    moreover have "drop 1 (buffer (kstr (slash # ?m))) = cstr ?m" by (simp add: cstr_def)
    moreover have "kstring_c (cstr ?m) = Some (kstr ?m)" "kstring_copy (kstr ?m) = Some (kstr ?m)"
      "kstring_c (cstr [slash]) = Some (kstr [slash])" "kstring_c (cstr []) = Some (kstr [])"
      using path slash_ok by (simp_all add: kstr_simps)
    moreover have "kstring_equals (kstr (slash # ?m)) (kstr [slash]) = Some False"
      "kstring_equals (kstr ?m) (kstr []) = Some False"
      using path ok slash_ok by (simp_all add: kstr_simps)
    ultimately have "read_directory dev v (kstr (path_of ns)) s d = walk_path dev v p1 (kstr ?m) s1 d"
      using 1(1) Cons by (simp add: read_directory_def del: buffer_kstr)
    with walk_path_rep [OF assms(1-3) 1(2,3) assms(4) [unfolded Cons]] Cons show ?thesis by simp
  qed
qed

lemma path_of_append: "path_of (ns @ [f]) = path_of ns @ slash # f"
  by (induction ns) simp_all

lemma fat32_file_new_path:
  assumes "names_of_path (ns @ [f])" and "1 \<le> unat (sectors_per_cluster v)" and "unat (sectors_per_cluster v) \<le> 32"
  shows "\<exists>fl. fat32_file_new (kstr (path_of (ns @ [f]))) v sz c = Some fl \<and> file_path fl = kstr (path_of ns) \<and>
    fsize fl = sz \<and> start_inode fl = c"
proof -
  have "text_ok (path_of ns @ slash # f)" "slash \<notin> set f"
    using assms(1) by (simp_all add: names_of_path_def path_of_append)
  then have "dirname (kstr (path_of (ns @ [f]))) = Some (kstr (path_of ns))" "text_ok (path_of ns)"
    unfolding path_of_append by (auto simp: dirname_kstr text_ok_def)
  with assms(2,3) show ?thesis by (simp add: fat32_file_new_def file_new_def kstr_simps kfile.defs)
qed


text \<open>The example volume with the example directory as its root.\<close>

definition rooted_volume :: fat32 where
  "rooted_volume = example_volume\<lparr>first_data_sector := 11\<rparr>"

lemma rooted_entries:
  "dir_entries rooted_volume directory_content 512 2 = [record_entry 0 [0x61] example_short]"
proof -
  have "fs_this rooted_volume = 0" by (simp add: rooted_volume_def example_volume_def)
  moreover have "get_cluster_address rooted_volume 2 = get_cluster_address example_volume 3"
    by (simp add: get_cluster_address_def rooted_volume_def example_volume_def)
  then have "dir_records rooted_volume directory_content 512 2 = dir_records example_volume directory_content 512 3"
    by (simp add: dir_records_def)
  ultimately show ?thesis by (simp add: dir_entries_def example_parse)
qed

lemma rooted_readable: "readable directory_device rooted_volume 512 directory_content ()"
  using directory_serves by (simp add: readable_def volume_ok_def rooted_volume_def example_volume_def)


end
