(* ===== verification/Fat32_Volume.thy ===== *)
theory Fat32_Volume
  imports Fat32_Directory
begin

text \<open>
  Which partitions the FAT32 driver accepts, what it takes from the header of the volume, and
  what it reports as free space.
\<close>

unbundle bit_operations_syntax

definition le16 :: "bytes \<Rightarrow> nat \<Rightarrow> u16" where
  "le16 xs i = ucast (xs ! i) OR push_bit 8 (ucast (xs ! (i + 1)))"

text \<open>The header of a volume for the partition: a jump, the sector size and the number of sectors.\<close>

definition header_ok :: "partition \<Rightarrow> bytes \<Rightarrow> bool" where
  "header_ok part xs \<longleftrightarrow> (xs ! 0 = 0xeb \<or> xs ! 0 = 0xe9) \<and> ucast (le16 xs 11) = part_block_size part \<and>
     ucast (le32 xs 32) = partition_size part"

definition label_of :: "bytes \<Rightarrow> bytes" where
  "label_of xs = takeWhile (\<lambda>c. c \<noteq> 0) (take 11 (drop 71 xs))"

lemma rd16_bytes: "i + 1 < length xs \<Longrightarrow> rd16 (map Some xs) i = Some (le16 xs i)"
  by (simp add: rd16_def rd_map_Some le16_def)

lemma label_text: "text_ok (label_of xs)"
proof -
  have "length (label_of xs) \<le> 11"
    unfolding label_of_def by (rule order_trans [OF length_takeWhile_le]) simp
  then show ?thesis by (auto simp: text_ok_def label_of_def dest: set_takeWhileD)
qed

lemma kstring_assign_c_junk: "text_ok ys \<Longrightarrow> kstring_assign_c s (cstr ys @ junk) = Some (kstr ys)"
  using kstring_assign_c_kstr [of ys s] by (simp add: kstring_assign_c_def strdup_def text_ok_def)

lemma map_nth_slice: "a + n \<le> length xs \<Longrightarrow> map ((!) xs) [a..<a + n] = take n (drop a xs)"
  by (rule nth_equalityI) simp_all

lemma read_label:
  assumes "82 \<le> length xs"
  shows "\<exists>name. those (map (rd (map Some xs)) [71..<82]) = Some name \<and>
    kstring_assign_c s (map Some name @ [Some 0]) = Some (kstr (label_of xs))"
proof -
  have "map ((!) xs) [71..<82] = take 11 (drop 71 xs)"
    using map_nth_slice [of 71 11 xs] assms by (simp del: upt_rec_numeral)
  moreover have "those (map (rd (map Some xs)) [71..<82]) = Some (map ((!) xs) [71..<82])"
    using assms by (intro those_map_Some) (auto simp: rd_map_Some)
  moreover obtain junk where "map Some (take 11 (drop 71 xs)) @ [Some 0] = cstr (label_of xs) @ junk"
    using zero_terminated [of "take 11 (drop 71 xs)" "[]"] by (auto simp: label_of_def)
  ultimately show ?thesis using kstring_assign_c_junk [OF label_text] by auto
qed

lemma fat32_new_serves:
  assumes "serves dev bs content d" and "unat (part_block_size part) = bs" and "82 \<le> bs"
    and "xs = content (part_start part)"
  shows "\<exists>v. fat32_new dev part raw d = Some (v, d) \<and> fs_this v = fs_this raw \<and> fs_part v = part \<and>
    fs_usable v = header_ok part xs \<and>
    (header_ok part xs \<longrightarrow> sectors_per_cluster v = xs ! 13 \<and> bytes_per_sector v = le16 xs 11 \<and>
       reserved_sectors v = le16 xs 14 \<and> number_of_fats v = xs ! 16 \<and> sector_count v = le32 xs 32 \<and>
       sectors_per_fat v = le32 xs 36 \<and> first_root_cluster v = le32 xs 44 \<and> volume_id v = le32 xs 67 \<and> volume_label v = kstr (label_of xs) \<and>
       fsinfo_sector v = ucast (le16 xs 48) + part_start part \<and>
       first_data_sector v = part_start part + ucast (ucast (le16 xs 14) + ucast (xs ! 16) * le32 xs 36 :: u32))"
proof -
  have len: "length xs = bs" using assms(1,4) by (simp add: serves_def)
  have r: "read_into dev (new_chars (unat (part_block_size part))) (part_start part) 1 d = Some (False, map Some xs, d)"
    using read_into_serves [OF assms(1), of "new_chars (unat (part_block_size part))" 1] assms(2,4)
    by (simp add: new_chars_def sectors_def)
  obtain name where name: "those (map (rd (map Some xs)) [71..<82]) = Some name"
    "kstring_assign_c (kstr []) (map Some name @ [Some 0]) = Some (kstr (label_of xs))"
    using read_label assms(3) len by blast
  have reads: "rd (map Some xs) 0 = Some (xs ! 0)" "rd16 (map Some xs) 11 = Some (le16 xs 11)"
    "rd (map Some xs) 13 = Some (xs ! 13)" "rd16 (map Some xs) 14 = Some (le16 xs 14)"
    "rd (map Some xs) 16 = Some (xs ! 16)" "rd32 (map Some xs) 32 = Some (le32 xs 32)"
    "rd32 (map Some xs) 36 = Some (le32 xs 36)" "rd32 (map Some xs) 44 = Some (le32 xs 44)"
    "rd16 (map Some xs) 48 = Some (le16 xs 48)" "rd32 (map Some xs) 67 = Some (le32 xs 67)"
    using assms(3) len by (simp_all add: rd_map_Some rd16_bytes rd32_bytes)
  show ?thesis
  proof (cases "header_ok part xs")
    case True
    then show ?thesis
      using r reads name by (auto simp: fat32_new_def kstr_simps header_ok_def Let_def add.commute)
  next
    case False
    then consider "xs ! 0 \<noteq> 0xeb \<and> xs ! 0 \<noteq> 0xe9" | "xs ! 0 = 0xeb \<or> xs ! 0 = 0xe9" "ucast (le16 xs 11) \<noteq> part_block_size part"
      | "xs ! 0 = 0xeb \<or> xs ! 0 = 0xe9" "ucast (le16 xs 11) = part_block_size part" "ucast (le32 xs 32) \<noteq> partition_size part"
      by (auto simp: header_ok_def)
    then show ?thesis
      by cases (use False r reads in \<open>auto simp: fat32_new_def kstr_simps Let_def\<close>)
  qed
qed

text \<open>
  C32: a partition becomes a usable volume exactly when its first sector has the header of a
  volume of the same sector size and the same number of sectors as the partition, and then
  every field is the one of the header: the first data sector is behind the reserved sectors and
  all file allocation tables, with the number of sectors before it computed modulo 2 to the 32.
  The address of the object does not change, and the result of the read, which is false, is not looked at.
\<close>

theorem volume_mount:
  assumes "serves dev bs content d" and "unat (part_block_size part) = bs" and "82 \<le> bs"
    and "xs = content (part_start part)"
  shows "\<exists>v. fat32_new dev part raw d = Some (v, d) \<and> fs_this v = fs_this raw \<and> fs_part v = part \<and>
    fs_usable v = header_ok part xs \<and>
    (header_ok part xs \<longrightarrow> sectors_per_cluster v = xs ! 13 \<and> bytes_per_sector v = le16 xs 11 \<and>
       reserved_sectors v = le16 xs 14 \<and> number_of_fats v = xs ! 16 \<and> sector_count v = le32 xs 32 \<and>
       sectors_per_fat v = le32 xs 36 \<and> first_root_cluster v = le32 xs 44 \<and> volume_id v = le32 xs 67 \<and> volume_label v = kstr (label_of xs) \<and>
       fsinfo_sector v = ucast (le16 xs 48) + part_start part \<and>
       first_data_sector v = part_start part + ucast (ucast (le16 xs 14) + ucast (xs ! 16) * le32 xs 36 :: u32))"
  by (rule fat32_new_serves [OF assms])

text \<open>
  The reported free space is the product of the sectors per cluster, the number of free
  clusters in the information sector and the block size modulo 2 to the 32, although the
  result has 64 bits; it is 0 when the number is unknown.
\<close>

theorem free_space_wraps:
  assumes "serves dev bs content d" and "unat (fs_block_size v) = bs" and "492 \<le> bs"
    and "n = le32 (content (fsinfo_sector v)) 488"
  shows "\<exists>s. get_free_space dev v d = Some (s, d) \<and>
    unat s = (if n = 0xffffffff then 0 else unat (sectors_per_cluster v) * unat n * bs mod 2 ^ 32)"
proof -
  let ?xs = "content (fsinfo_sector v)"
  have "length ?xs = bs" using assms(1) by (simp add: serves_def)
  then have "rd32 (map Some ?xs) 488 = Some n" using assms(3,4) by (simp add: rd32_bytes)
  moreover have "read_into dev (new_chars (unat (fs_block_size v))) (fsinfo_sector v) 1 d = Some (False, map Some ?xs, d)"
    using read_into_serves [OF assms(1), of "new_chars (unat (fs_block_size v))" 1] assms(2)
    by (simp add: new_chars_def sectors_def)
  moreover have "unat (ucast (x :: u32) :: u64) = unat x" for x
    using unat_u32 [of x] by (simp add: unsigned_ucast_eq take_bit_nat_eq_self)
  moreover have "unat (ucast (sectors_per_cluster v) * n * fs_block_size v :: u32) =
      unat (sectors_per_cluster v) * unat n * bs mod 2 ^ 32"
    using assms(2) by (simp add: unat_word_ariths(2) unat_ucast_byte mod_mult_left_eq)
  ultimately show ?thesis by (simp add: get_free_space_def)
qed

text \<open>A device whose sectors all are the same.\<close>

definition same_sector :: "bytes \<Rightarrow> unit blockdev" where
  "same_sector xs a n d = Some (sectors (\<lambda>_. xs) a (unat n), d)"

lemma same_sector_serves: "serves (same_sector xs) (length xs) (\<lambda>_. xs) ()"
  by (simp add: serves_def same_sector_def)

definition example_header :: bytes where
  "example_header = [0xeb] @ replicate 10 0 @ [0, 2, 4, 32, 0, 2] @ replicate 15 0 @ [100, 0, 0, 0, 9, 0, 0, 0]
     @ replicate 4 0 @ [2, 0, 0, 0, 1, 0] @ replicate 462 0"

lemma volume_mount_witness:
  "\<exists>v. fat32_new (same_sector example_header) (fs_part example_volume) example_volume () = Some (v, ()) \<and>
     fs_usable v \<and> sectors_per_cluster v = 4 \<and> first_data_sector v = 50"
proof -
  let ?p = "fs_part example_volume"
  have len: "length example_header = 512" by (simp add: example_header_def)
  have p: "unat (part_block_size ?p) = 512" "part_start ?p = 0" "partition_size ?p = 100" "part_block_size ?p = 512"
    by (simp_all add: example_volume_def partition_size_def)
  have f: "example_header ! 0 = 0xeb" "le16 example_header 11 = 512" "le32 example_header 32 = 100"
    "example_header ! 13 = 4" "le16 example_header 14 = 32" "example_header ! 16 = 2" "le32 example_header 36 = 9"
    by (simp_all add: example_header_def le16_def le32_def nth_append)
  have "header_ok ?p example_header" using p f by (simp add: header_ok_def)
  with volume_mount [OF same_sector_serves, of ?p example_header example_header example_volume] len p f
  show ?thesis by auto
qed

lemma free_space_wraps_witness:
  "get_free_space (same_sector (replicate 488 0 @ [0, 0, 0x80, 0] @ replicate 20 0)) example_volume () = Some (0, ())"
proof -
  let ?xs = "replicate 488 0 @ [0, 0, 0x80, 0] @ replicate 20 0 :: bytes"
  have "length ?xs = 512" "unat (fs_block_size example_volume) = 512" "le32 ?xs 488 = 0x00800000"
    "unat (sectors_per_cluster example_volume) = 1"
    by (simp_all add: example_volume_def le32_def nth_append)
  with free_space_wraps [OF same_sector_serves, of example_volume ?xs] obtain s where
    "get_free_space (same_sector ?xs) example_volume () = Some (s, ())" "unat s = 0"
    by auto
  then show ?thesis by (simp add: unat_eq_0)
qed

end
