(* ===== verification/Vfs.thy ===== *)
theory Vfs
  imports Fat32_Path Fat32_Volume "HOL-Library.Sublist"
begin

text \<open>
  Filesystems and the table of mounted ones (\<open>kernel/filesystem.cpp\<close>, \<open>kernel/vfs.cpp\<close>).
  The virtual methods of a filesystem are the fields of \<open>fs_class\<close>; \<open>fat32_class\<close> is the one
  class the source has. The mount list is the doubly linked list of the source; its contract, that
  a path is handed to the filesystem mounted at the longest prefix, is proved for every class.
\<close>

section \<open>Filesystems\<close>

text \<open>The methods of a class; \<open>'f\<close> are its objects, \<open>'s\<close> what they work on.\<close>

record ('f, 's) fs_class =
  fs_open_file :: "'f \<Rightarrow> kstring \<Rightarrow> 's \<Rightarrow> (fat32_file option \<times> 's) option"
  fs_read_directory :: "'f \<Rightarrow> kstring \<Rightarrow> 's \<Rightarrow> (ptr \<times> 's) option"
  fs_free_space :: "'f \<Rightarrow> 's \<Rightarrow> (u64 \<times> 's) option"

definition fat32_class :: "'d blockdev \<Rightarrow> (fat32, direntry store \<times> 'd) fs_class" where
  "fat32_class dev = \<lparr>
     fs_open_file = (\<lambda>v path (s, d). do { (r, s1, d1) \<leftarrow> open_file dev v path s d; Some (r, (s1, d1)) }),
     fs_read_directory = (\<lambda>v path (s, d). do { (r, s1, d1) \<leftarrow> read_directory dev v path s d; Some (r, (s1, d1)) }),
     fs_free_space = (\<lambda>v (s, d). do { (n, d1) \<leftarrow> get_free_space dev v d; Some (n, (s, d1)) })\<rparr>"

definition auto_type :: u8 where
  "auto_type = - 1"

text \<open>
  The choice of the driver. The partition is a pointer: both branches read it, for its name or
  for its type in a message, and so does the test when the type is automatic. A filesystem that
  is not usable is deleted again. \<open>raw\<close> is the memory of a new object.
\<close>

definition filesystem_initialize :: "'d blockdev \<Rightarrow> fat32 \<Rightarrow> partition option \<Rightarrow> u8 \<Rightarrow> direntry store \<times> 'd \<Rightarrow>
    (fat32 option \<times> direntry store \<times> 'd) option" where
  "filesystem_initialize dev raw part ty s = do {
     t \<leftarrow> (if ty \<noteq> auto_type then Some ty else map_option part_type part);
     p \<leftarrow> part;
     if t = 0xc then do {
       (fs, d) \<leftarrow> fat32_new dev p raw (snd s);
       Some (if fs_usable fs then Some fs else None, fst s, d) }
     else Some (None, s) }"

text \<open>The search for an entry in its directory returns a copy of it, and frees the listing.\<close>

definition file_exists :: "(kstring \<Rightarrow> direntry store \<times> 'd \<Rightarrow> (ptr \<times> direntry store \<times> 'd) option) \<Rightarrow>
    kstring \<Rightarrow> direntry store \<times> 'd \<Rightarrow> (ptr \<times> direntry store \<times> 'd) option" where
  "file_exists read_dir path sd = do {
     dn \<leftarrow> dirname path;
     (dir, s, d) \<leftarrow> read_dir dn sd;
     if dir = None then Some (None, s, d)
     else do {
       fn \<leftarrow> filename path;
       r \<leftarrow> find_entry fn dir s;
       (case r of
          None \<Rightarrow> do { s1 \<leftarrow> free_list dir s; Some (None, s1, d) }
        | Some a \<Rightarrow> do {
            e \<leftarrow> deref s (Some a);
            e' \<leftarrow> direntry_copy e;
            let (n, s1) = new_obj e' s;
            s2 \<leftarrow> free_list dir s1;
            Some (Some n, s2, d) }) } }"

section \<open>The virtual filesystem\<close>

record 'f mountpoint =
  mp_path :: kstring
  mp_fs :: 'f
  mp_next :: ptr
  mp_prev :: ptr

record 'f vfs =
  mount_list :: ptr
  mountpoints :: "'f mountpoint store"
  vfs_usable :: bool

definition vfs_new :: "'f vfs" where
  "vfs_new = \<lparr>mount_list = None, mountpoints = empty_store, vfs_usable = False\<rparr>"

partial_function (option) mount_position :: "nat \<Rightarrow> nat \<Rightarrow> 'f mountpoint store \<Rightarrow> nat option" where
  "mount_position len current s = do {
     c \<leftarrow> deref s (Some current);
     (case mp_next c of
        None \<Rightarrow> Some current
      | Some n \<Rightarrow> do {
          l \<leftarrow> kstring_length (mp_path c);
          if l < len then Some current else mount_position len n s }) }"

definition add_mountpoint :: "nat \<Rightarrow> 'f vfs \<Rightarrow> 'f vfs option" where
  "add_mountpoint m v =
     (case mount_list v of
        None \<Rightarrow> Some (v\<lparr>mount_list := Some m\<rparr>)
      | Some first \<Rightarrow> do {
          mp \<leftarrow> deref (mountpoints v) (Some m);
          len \<leftarrow> kstring_length (mp_path mp);
          current \<leftarrow> mount_position len first (mountpoints v);
          c \<leftarrow> deref (mountpoints v) (Some current);
          let v1 = (if current = first then v\<lparr>mount_list := Some m\<rparr> else v);
          s1 \<leftarrow> modify (Some m) (mp_next_update (\<lambda>_. Some current)) (mountpoints v);
          s2 \<leftarrow> modify (Some m) (mp_prev_update (\<lambda>_. mp_prev c)) s1;
          s3 \<leftarrow> (case mp_prev c of None \<Rightarrow> Some s2 | Some p \<Rightarrow> modify (Some p) (mp_next_update (\<lambda>_. Some m)) s2);
          s4 \<leftarrow> modify (Some current) (mp_prev_update (\<lambda>_. Some m)) s3;
          Some (v1\<lparr>mountpoints := s4\<rparr>) })"

definition vfs_mount :: "'d blockdev \<Rightarrow> fat32 \<Rightarrow> kstring \<Rightarrow> partition option \<Rightarrow> u8 \<Rightarrow>
    fat32 vfs \<times> direntry store \<times> 'd \<Rightarrow> (fat32 option \<times> fat32 vfs \<times> direntry store \<times> 'd) option" where
  "vfs_mount dev raw path part ty vs = do {
     (r, s) \<leftarrow> filesystem_initialize dev raw part ty (snd vs);
     let v = fst vs;
     case r of None \<Rightarrow> Some (None, v, s)
     | Some fs \<Rightarrow> do {
         root \<leftarrow> kstring_c (cstr [slash]);
         is_root \<leftarrow> kstring_equals path root;
         if mount_list v = None \<and> \<not> is_root then Some (None, v, s)
         else do {
           let v1 = (if is_root then v\<lparr>vfs_usable := True\<rparr> else v);
           p \<leftarrow> kstring_copy path;
           let (m, ms) = new_obj \<lparr>mp_path = p, mp_fs = fs, mp_next = None, mp_prev = None\<rparr> (mountpoints v1);
           v2 \<leftarrow> add_mountpoint m (v1\<lparr>mountpoints := ms\<rparr>);
           Some (Some fs, v2, s) } } }"

definition vfs_unmount :: "kstring \<Rightarrow> 'f vfs \<Rightarrow> 'f vfs option" where
  "vfs_unmount path v = do {
     root \<leftarrow> kstring_c (cstr [slash]);
     is_root \<leftarrow> kstring_equals path root;
     Some (if is_root then v\<lparr>vfs_usable := False\<rparr> else v) }"

definition vfs_get_filesystem :: "kstring \<Rightarrow> 'f vfs \<Rightarrow> 'f option" where
  "vfs_get_filesystem path v = None"

partial_function (option) free_space_loop :: "('f \<Rightarrow> 's \<Rightarrow> (u64 \<times> 's) option) \<Rightarrow> 'f mountpoint store \<Rightarrow> ptr \<Rightarrow> u64 \<Rightarrow> 's \<Rightarrow>
    (u64 \<times> 's) option" where
  "free_space_loop free ms current retval s =
     (case current of None \<Rightarrow> Some (retval, s)
      | Some c \<Rightarrow> do {
          m \<leftarrow> deref ms (Some c);
          (n, s1) \<leftarrow> free (mp_fs m) s;
          free_space_loop free ms (mp_next m) (retval + n) s1 })"

definition vfs_free_space :: "('f, 's) fs_class \<Rightarrow> 'f vfs \<Rightarrow> 's \<Rightarrow> (u64 \<times> 's) option" where
  "vfs_free_space cls v s = free_space_loop (fs_free_space cls) (mountpoints v) (mount_list v) 0 s"

text \<open>
  \<open>open_file\<close> and \<open>read_directory\<close> run the same loop and call different methods; the
  result of the loop is null when no mount point matches.
\<close>

partial_function (option) vfs_dispatch :: "('f \<Rightarrow> kstring \<Rightarrow> 's \<Rightarrow> ('r option \<times> 's) option) \<Rightarrow> kstring \<Rightarrow>
    'f mountpoint store \<Rightarrow> ptr \<Rightarrow> 's \<Rightarrow> ('r option \<times> 's) option" where
  "vfs_dispatch meth path ms current s =
     (case current of None \<Rightarrow> Some (None, s)
      | Some c \<Rightarrow> do {
          m \<leftarrow> deref ms (Some c);
          len \<leftarrow> kstring_length (mp_path m);
          prefix \<leftarrow> substring path 0 (int len);
          same \<leftarrow> kstring_equals prefix (mp_path m);
          if same then do {
            root \<leftarrow> kstring_c (cstr [slash]);
            is_root \<leftarrow> kstring_equals prefix root;
            if is_root then meth (mp_fs m) path s
            else do {
              plen \<leftarrow> kstring_length path;
              rest \<leftarrow> substring path (int len) (int plen);
              meth (mp_fs m) rest s } }
          else vfs_dispatch meth path ms (mp_next m) s })"

definition vfs_open_file :: "('f, 's) fs_class \<Rightarrow> 'f vfs \<Rightarrow> kstring \<Rightarrow> 's \<Rightarrow> (fat32_file option \<times> 's) option" where
  "vfs_open_file cls v path s = vfs_dispatch (fs_open_file cls) path (mountpoints v) (mount_list v) s"

definition vfs_read_directory :: "('f, 's) fs_class \<Rightarrow> 'f vfs \<Rightarrow> kstring \<Rightarrow> 's \<Rightarrow> (ptr \<times> 's) option" where
  "vfs_read_directory cls v path s = vfs_dispatch (fs_read_directory cls) path (mountpoints v) (mount_list v) s"

section \<open>The mount list\<close>

interpretation mp: dlink mp_next mp_prev "\<lambda>q. mp_next_update (\<lambda>_. q)" "\<lambda>p. mp_prev_update (\<lambda>_. p)"
  by unfold_locales simp_all

definition mounted_at :: "'f mountpoint store \<Rightarrow> nat \<Rightarrow> bytes \<times> 'f \<Rightarrow> bool" where
  "mounted_at s a pf \<longleftrightarrow> (\<exists>m. cells s a = Some m \<and> mp_path m = kstr (fst pf) \<and> mp_fs m = snd pf \<and> text_ok (fst pf))"

definition mounts_rep :: "'f vfs \<Rightarrow> nat list \<Rightarrow> (bytes \<times> 'f) list \<Rightarrow> bool" where
  "mounts_rep v as ms \<longleftrightarrow> mount_list v = hd_ptr as None \<and> distinct as \<and> store_ok (mountpoints v) \<and>
     dseg mp_next mp_prev (cells (mountpoints v)) None as None \<and> list_all2 (mounted_at (mountpoints v)) as ms"

text \<open>Where a mount goes: before the first shorter path, but never to the end.\<close>

fun insert_mount :: "bytes \<times> 'f \<Rightarrow> (bytes \<times> 'f) list \<Rightarrow> (bytes \<times> 'f) list" where
  "insert_mount m [] = [m]"
| "insert_mount m [x] = [m, x]"
| "insert_mount m (x # y # ms) =
     (if length (fst x) < length (fst m) then m # x # y # ms else x # insert_mount m (y # ms))"

lemma mount_position_rep:
  assumes "dseg mp_next mp_prev (cells s) p as None" and "list_all2 (mounted_at s) as ms" and "ms \<noteq> []"
  shows "\<exists>xs c ys us u ws. as = xs @ c # ys \<and> ms = us @ u # ws \<and> length xs = length us \<and>
    mount_position (length (fst m)) (hd as) s = Some c \<and> insert_mount m ms = us @ m # u # ws"
  using assms
proof (induction m ms arbitrary: p as rule: insert_mount.induct)
  case (1 m)
  then show ?case by simp
next
  case (2 m x)
  then obtain a where a: "as = [a]" "mounted_at s a x" by (auto simp: list_all2_Cons2)
  then obtain c where "cells s a = Some c" "mp_next c = None"
    using 2(1) by (auto split: option.splits)
  with a show ?case
    by (intro exI [of _ "[]"] exI [of _ a]) (subst mount_position.simps, simp)
next
  case (3 m x y ms)
  then obtain a as' where as: "as = a # as'" "mounted_at s a x" "list_all2 (mounted_at s) as' (y # ms)"
    by (auto simp: list_all2_Cons2)
  then obtain b where b: "hd_ptr as' None = Some b" "hd as' = b" by (auto simp: list_all2_Cons2)
  with as 3(2) obtain c where c: "cells s a = Some c" "mp_next c = Some b"
    "dseg mp_next mp_prev (cells s) (Some a) as' None" "mp_path c = kstr (fst x)" "text_ok (fst x)"
    by (auto simp: mounted_at_def split: option.splits)
  then have l: "kstring_length (mp_path c) = Some (length (fst x))" by (simp add: kstr_simps)
  show ?case
  proof (cases "length (fst x) < length (fst m)")
    case True
    with as c l show ?thesis
      by (intro exI [of _ "[]"] exI [of _ a] exI [of _ as']) (subst mount_position.simps, simp)
  next
    case False
    with 3(1) [OF _ c(3) as(3)] b obtain xs d ys us u ws where
      IH: "as' = xs @ d # ys" "y # ms = us @ u # ws" "length xs = length us"
        "mount_position (length (fst m)) b s = Some d" "insert_mount m (y # ms) = us @ m # u # ws" by auto
    have "mount_position (length (fst m)) (hd as) s = Some d"
      using False as c l IH(4) by (subst mount_position.simps) simp
    moreover have "as = (a # xs) @ d # ys" "x # y # ms = (x # us) @ u # ws" "length (a # xs) = length (x # us)"
      using IH(1-3) as(1) by simp_all
    moreover have "insert_mount m (x # y # ms) = (x # us) @ m # u # ws"
      using False IH(5) by simp
    ultimately show ?thesis by blast
  qed
qed

lemma mounted_at_links:
  "cells s b = Some n \<Longrightarrow> mp_path n' = mp_path n \<Longrightarrow> mp_fs n' = mp_fs n \<Longrightarrow>
   mounted_at (s\<lparr>cells := (cells s)(b \<mapsto> n')\<rparr>) a pf = mounted_at s a pf"
  by (auto simp: mounted_at_def)

text \<open>Linking a new node \<open>m\<close> in front of the node \<open>c\<close>.\<close>

lemma link_before:
  assumes "dseg mp_next mp_prev h None (xs @ c # ys) None" and "distinct (xs @ c # ys)" and "m \<notin> set (xs @ c # ys)"
    and "h c = Some nc" and "mp_next nm = Some c" and "mp_prev nm = mp_prev nc"
    and "h1 = h(m \<mapsto> nm)"
    and "h2 = (case mp_prev nc of None \<Rightarrow> h1 | Some b \<Rightarrow> h1(b \<mapsto> (the (h b))\<lparr>mp_next := Some m\<rparr>))"
    and "h3 = h2(c \<mapsto> nc\<lparr>mp_prev := Some m\<rparr>)"
  shows "dseg mp_next mp_prev h3 None (xs @ m # c # ys) None"
proof -
  have seg: "dseg mp_next mp_prev h None xs (Some c)" "mp_prev nc = last_ptr None xs"
    "mp_next nc = hd_ptr ys None" "dseg mp_next mp_prev h (Some c) ys None"
    using assms(1,4) by (simp_all add: dseg_split)
  define hx where "hx = (case last_ptr None xs of None \<Rightarrow> h | Some b \<Rightarrow> h(b \<mapsto> (the (h b))\<lparr>mp_next := Some m\<rparr>))"
  have "dseg mp_next mp_prev hx None xs (Some m)"
    using assms(2) by (intro mp.relink_last_opt [OF seg(1)]) (simp_all add: hx_def)
  moreover have "h3 a = hx a" if "a \<in> set xs" for a
  proof -
    have "a \<noteq> c" "a \<noteq> m" using that assms(2,3) by auto
    then show ?thesis
      unfolding assms(9) assms(8) hx_def seg(2) by (cases "last_ptr None xs") (simp_all add: assms(7))
  qed
  then have "dseg mp_next mp_prev h3 None xs (Some m) = dseg mp_next mp_prev hx None xs (Some m)" by (rule dseg_cong)
  ultimately have "dseg mp_next mp_prev h3 None xs (Some m)" by simp
  moreover have lp: "b \<in> set xs" if "last_ptr None xs = Some b" for b
    using that by (auto simp: last_ptr_def split: if_splits)
  moreover have "h3 m = Some nm"
    using assms(3) lp unfolding assms(9) assms(8) seg(2) by (cases "last_ptr None xs") (auto simp: assms(7))
  moreover have "h3 c = Some (nc\<lparr>mp_prev := Some m\<rparr>)" by (simp add: assms(9))
  moreover have "h3 a = h a" if "a \<in> set ys" for a
  proof -
    have "a \<noteq> c" "a \<noteq> m" "a \<notin> set xs" using that assms(2,3) by auto
    then show ?thesis
      using lp unfolding assms(9) assms(8) seg(2) by (cases "last_ptr None xs") (auto simp: assms(7))
  qed
  then have "dseg mp_next mp_prev h3 (Some c) ys None = dseg mp_next mp_prev h (Some c) ys None" by (rule dseg_cong)
  with seg(4) have "dseg mp_next mp_prev h3 (Some c) ys None" by simp
  ultimately show ?thesis
    using seg(2,3) assms(5,6) by (simp add: dseg_append)
qed

lemma mounted_at_frame:
  assumes "list_all2 (mounted_at s) as ms"
    and "\<And>a m. a \<in> set as \<Longrightarrow> cells s a = Some m \<Longrightarrow> \<exists>m'. cells s' a = Some m' \<and> mp_path m' = mp_path m \<and> mp_fs m' = mp_fs m"
  shows "list_all2 (mounted_at s') as ms"
  using assms by (auto simp: list_all2_conv_all_nth mounted_at_def) (metis nth_mem)

lemma add_mountpoint_rep:
  assumes "mounts_rep v as ms" and "text_ok p"
    and "new_obj \<lparr>mp_path = kstr p, mp_fs = f, mp_next = None, mp_prev = None\<rparr> (mountpoints v) = (m, s)"
  shows "\<exists>v' as'. add_mountpoint m (v\<lparr>mountpoints := s\<rparr>) = Some v' \<and> mounts_rep v' as' (insert_mount (p, f) ms)"
proof -
  let ?nm = "\<lparr>mp_path = kstr p, mp_fs = f, mp_next = None, mp_prev = None\<rparr>"
  from assms(1) have rep: "mount_list v = hd_ptr as None" "distinct as" "store_ok (mountpoints v)"
    "dseg mp_next mp_prev (cells (mountpoints v)) None as None" "list_all2 (mounted_at (mountpoints v)) as ms"
    by (simp_all add: mounts_rep_def)
  let ?h = "cells (mountpoints v)"
  from assms(3) have m: "m = fresh (mountpoints v)" and s: "s = (mountpoints v)\<lparr>cells := ?h(m \<mapsto> ?nm), fresh := Suc m\<rparr>"
    by (auto simp: new_obj_def)
  have new: "m \<notin> set as" using store_ok_fresh [OF rep(3)] m dseg_notin [OF rep(4)] by simp
  have sok: "store_ok s" using rep(3) m s by (auto simp: store_ok_def)
  have lm: "kstring_length (kstr p) = Some (length p)" using assms(2) by (simp add: kstr_simps)
  show ?thesis
  proof (cases "as = []")
    case True
    with rep assms(2) sok s show ?thesis
      by (intro exI [of _ "v\<lparr>mountpoints := s, mount_list := Some m\<rparr>"] exI [of _ "[m]"])
        (auto simp: add_mountpoint_def mounts_rep_def mounted_at_def)
  next
    case False
    have d: "dseg mp_next mp_prev (cells s) None as None" using rep(4) new s by simp
    have l: "list_all2 (mounted_at s) as ms"
      using new s by (intro mounted_at_frame [OF rep(5)]) auto
    have "ms \<noteq> []" using False rep(5) by auto
    from mount_position_rep [OF d l this, of "(p, f)"] obtain xs c ys us u ws where
      pos: "as = xs @ c # ys" "ms = us @ u # ws" "length xs = length us"
        "mount_position (length p) (hd as) s = Some c" "insert_mount (p, f) ms = us @ (p, f) # u # ws"
      unfolding fst_conv by blast
    from rep(4) pos(1) obtain nc where nc: "?h c = Some nc" "mp_prev nc = last_ptr None xs"
      by (auto simp: dseg_split)
    have cm: "c \<noteq> m" using new pos(1) by auto
    define nm where "nm = ?nm\<lparr>mp_next := Some c, mp_prev := mp_prev nc\<rparr>"
    define h2 where "h2 = (case mp_prev nc of None \<Rightarrow> ?h(m \<mapsto> nm)
      | Some b \<Rightarrow> (?h(m \<mapsto> nm))(b \<mapsto> (the (?h b))\<lparr>mp_next := Some m\<rparr>))"
    define h3 where "h3 = h2(c \<mapsto> nc\<lparr>mp_prev := Some m\<rparr>)"
    let ?s' = "s\<lparr>cells := h3\<rparr>"
    let ?v' = "v\<lparr>mountpoints := ?s', mount_list := (if xs = [] then Some m else mount_list v)\<rparr>"
    have b: "\<exists>nb. ?h b = Some nb \<and> b \<noteq> m \<and> b \<noteq> c" if "mp_prev nc = Some b" for b
    proof -
      have "b \<in> set xs" using that nc(2) by (auto simp: last_ptr_def split: if_splits)
      moreover from this have "b \<noteq> m" "b \<noteq> c" using pos(1) new rep(2) by auto
      ultimately show ?thesis using dseg_dom [OF rep(4), of b] pos(1) by auto
    qed
    have hd: "mount_list v = Some (hd as)" "c = hd as \<longleftrightarrow> xs = []"
      using rep(1,2) pos(1) by (cases xs; auto)+
    have "add_mountpoint m (v\<lparr>mountpoints := s\<rparr>) = Some ?v'"
    proof (cases "mp_prev nc")
      case None
      then show ?thesis
        using hd pos(4) lm nc(1) cm s
        by (simp add: add_mountpoint_def modify_cell h2_def h3_def nm_def Let_def)
    next
      case (Some b)
      with b obtain nb where "?h b = Some nb" "b \<noteq> m" "b \<noteq> c" by blast
      with Some show ?thesis
        using hd pos(4) lm nc(1) cm s
        by (simp add: add_mountpoint_def modify_cell h2_def h3_def nm_def Let_def)
    qed
    moreover have "dseg mp_next mp_prev h3 None (xs @ m # c # ys) None"
      using link_before [OF rep(4) [unfolded pos(1)] _ _ nc(1) _ _ refl h2_def h3_def] rep(2) new pos(1)
      by (simp add: nm_def)
    moreover have old: "\<exists>m'. h3 a = Some m' \<and> mp_path m' = mp_path n \<and> mp_fs m' = mp_fs n"
      if "a \<in> set as" "?h a = Some n" for a n
    proof -
      have "a \<noteq> m" using that(1) new by auto
      then show ?thesis
        using that(2) nc(1) by (cases "mp_prev nc") (auto simp: h3_def h2_def)
    qed
    have "list_all2 (mounted_at ?s') as ms" by (rule mounted_at_frame [OF rep(5)]) (use old in auto)
    moreover have "h3 m = Some nm" using cm b by (cases "mp_prev nc") (auto simp: h3_def h2_def)
    then have "mounted_at ?s' m (p, f)" using assms(2) by (auto simp: mounted_at_def nm_def)
    ultimately have l3: "list_all2 (mounted_at ?s') (xs @ m # c # ys) (us @ (p, f) # u # ws)"
      using pos(1-3) by (auto simp: list_all2_append)
    have "h3 a = None" if "Suc m \<le> a" for a
    proof -
      have "?h a = None" "a \<noteq> m" using that rep(3) m by (auto simp: store_ok_def)
      moreover from this have "a \<noteq> c" using nc(1) by auto
      moreover have "mp_prev nc \<noteq> Some a" using b [of a] \<open>?h a = None\<close> by auto
      ultimately show ?thesis by (cases "mp_prev nc") (auto simp: h3_def h2_def)
    qed
    then have "store_ok ?s'" using s by (simp add: store_ok_def)
    with \<open>dseg mp_next mp_prev h3 None (xs @ m # c # ys) None\<close> l3 rep(1,2) new pos(1,5)
    have "mounts_rep ?v' (xs @ m # c # ys) (insert_mount (p, f) ms)"
      by (cases xs) (auto simp: mounts_rep_def)
    with \<open>add_mountpoint m (v\<lparr>mountpoints := s\<rparr>) = Some ?v'\<close> show ?thesis by blast
  qed
qed

lemma add_mountpoint_usable:
  "add_mountpoint m v = Some v' \<Longrightarrow> vfs_usable v' = vfs_usable v"
  by (auto simp: add_mountpoint_def Let_def split: Option.bind_splits option.splits if_splits)

section \<open>The longest prefix\<close>

definition sorted_mounts :: "(bytes \<times> 'f) list \<Rightarrow> bool" where
  "sorted_mounts ms \<longleftrightarrow> ms \<noteq> [] \<and> fst (last ms) = [slash] \<and> sorted_wrt (\<lambda>x y. length (fst y) \<le> length (fst x)) ms"

lemma insert_mount_set: "set (insert_mount m ms) = insert m (set ms)"
  by (induction m ms rule: insert_mount.induct) auto

lemma insert_mount_last: "ms \<noteq> [] \<Longrightarrow> last (insert_mount m ms) = last ms"
  by (induction m ms rule: insert_mount.induct) (auto simp: insert_mount_set dest: arg_cong [where f = set])

lemma insert_mount_sorted:
  assumes "sorted_mounts ms" and "fst m \<noteq> []"
  shows "sorted_mounts (insert_mount m ms)"
proof -
  have ne: "insert_mount m ms \<noteq> []" using insert_mount_set [of m ms] by auto
  have "sorted_wrt (\<lambda>x y. length (fst y) \<le> length (fst x)) (insert_mount m ms)"
    using assms unfolding sorted_mounts_def
  proof (induction m ms rule: insert_mount.induct)
    case (2 m x)
    then show ?case by (cases "fst m") auto
  qed (auto simp: insert_mount_set split: if_splits)
  with ne assms insert_mount_last [of ms m] show ?thesis by (simp add: sorted_mounts_def)
qed

text \<open>The first match of a sorted list has the longest path, and the root matches every path.\<close>

lemma first_match_longest:
  assumes "sorted_mounts ms" and "prefix [slash] path"
  shows "\<exists>q f. find (\<lambda>x. prefix (fst x) path) ms = Some (q, f) \<and> (q, f) \<in> set ms \<and> prefix q path \<and>
    (\<forall>x \<in> set ms. prefix (fst x) path \<longrightarrow> length (fst x) \<le> length q)"
proof -
  have "last ms \<in> set ms" "prefix (fst (last ms)) path" using assms by (simp_all add: sorted_mounts_def)
  then have "find (\<lambda>x. prefix (fst x) path) ms \<noteq> None" unfolding find_None_iff by blast
  then obtain y where y: "find (\<lambda>x. prefix (fst x) path) ms = Some y" by blast
  then obtain i where i: "i < length ms" "prefix (fst (ms ! i)) path" "y = ms ! i"
    "\<forall>j < i. \<not> prefix (fst (ms ! j)) path"
    by (auto simp: find_Some_iff)
  have "length (fst (ms ! j)) \<le> length (fst y)" if "j < length ms" "prefix (fst (ms ! j)) path" for j
  proof (cases j i rule: linorder_cases)
    case less
    with i(4) that show ?thesis by auto
  next
    case greater
    with assms(1) that(1) i(3) show ?thesis by (auto simp: sorted_mounts_def sorted_wrt_iff_nth_less)
  qed (simp add: i(3))
  then have "\<forall>x \<in> set ms. prefix (fst x) path \<longrightarrow> length (fst x) \<le> length (fst y)"
    by (metis in_set_conv_nth)
  moreover have "y \<in> set ms" "prefix (fst y) path" using i by simp_all
  ultimately show ?thesis using y by (intro exI [of _ "fst y"] exI [of _ "snd y"]) simp
qed

definition in_filesystem :: "bytes \<Rightarrow> bytes \<Rightarrow> bytes" where
  "in_filesystem q path = (if q = [slash] then path else drop (length q) path)"

lemma root_text: "text_ok [slash]"
  by (simp add: text_ok_def slash_def)

lemma vfs_dispatch_rep:
  assumes "dseg mp_next mp_prev (cells ms) p as None" and "list_all2 (mounted_at ms) as xs" and "text_ok path"
    and "find (\<lambda>x. prefix (fst x) path) xs = Some (q, f)"
  shows "vfs_dispatch meth (kstr path) ms (hd_ptr as None) s = meth f (kstr (in_filesystem q path)) s"
  using assms(1,2,4)
proof (induction as arbitrary: p xs)
  case Nil
  then show ?case by simp
next
  case (Cons a as)
  then obtain x ys where xs: "xs = x # ys" "mounted_at ms a x" "list_all2 (mounted_at ms) as ys"
    by (auto simp: list_all2_Cons1)
  then obtain m where m: "cells ms a = Some m" "mp_path m = kstr (fst x)" "mp_fs m = snd x" "text_ok (fst x)"
    by (auto simp: mounted_at_def)
  with Cons.prems(1) have l: "mp_next m = hd_ptr as None" "dseg mp_next mp_prev (cells ms) (Some a) as None"
    by (auto split: option.splits)
  let ?t = "take (length (fst x)) path"
  have pre: "?t = fst x \<longleftrightarrow> prefix (fst x) path" by (metis append_take_drop_id prefixI prefix_length_le take_is_prefix prefix_def append_eq_conv_conj)
  have calls: "kstring_length (kstr (fst x)) = Some (length (fst x))" "kstring_length (kstr path) = Some (length path)"
    "substring (kstr path) 0 (int (length (fst x))) = Some (kstr ?t)"
    "kstring_equals (kstr ?t) (kstr (fst x)) = Some (?t = fst x)"
    "kstring_c (cstr [slash]) = Some (kstr [slash])" "kstring_equals (kstr ?t) (kstr [slash]) = Some (?t = [slash])"
    using m(4) assms(3) substring_prefix [OF assms(3), of "int (length (fst x))"] root_text
    by (simp_all add: kstr_simps)
  show ?case
  proof (cases "prefix (fst x) path")
    case True
    then have "length (fst x) \<le> length path" by (rule prefix_length_le)
    then have "substring (kstr path) (int (length (fst x))) (int (length path)) = Some (kstr (drop (length (fst x)) path))"
      by (rule substring_suffix [OF assms(3)])
    with True pre calls m xs(1) Cons.prems(3) show ?thesis
      by (subst vfs_dispatch.simps) (auto simp: in_filesystem_def)
  next
    case False
    with Cons.prems(3) xs(1) have "find (\<lambda>x. prefix (fst x) path) ys = Some (q, f)" by simp
    from Cons.IH [OF l(2) xs(3) this] False pre calls m l(1) show ?thesis
      by (subst vfs_dispatch.simps) simp
  qed
qed

section \<open>Sequences of mounts\<close>

text \<open>
  Mounts one after the other, each with the type of its partition; a request has the memory of the new
  object, the path and the partition.
\<close>

primrec mount_all :: "'d blockdev \<Rightarrow> (fat32 \<times> kstring \<times> partition) list \<Rightarrow>
    fat32 vfs \<times> direntry store \<times> 'd \<Rightarrow> (fat32 vfs \<times> direntry store \<times> 'd) option" where
  "mount_all dev [] vs = Some vs"
| "mount_all dev (r # rs) vs = do {
     (fs, v, s) \<leftarrow> vfs_mount dev (fst r) (fst (snd r)) (Some (snd (snd r))) auto_type vs;
     mount_all dev rs (v, s) }"

text \<open>The partitions with a filesystem: those of FAT32 type with the header of a volume.\<close>

definition accepted :: "(u64 \<Rightarrow> bytes) \<Rightarrow> partition \<Rightarrow> bool" where
  "accepted content part \<longleftrightarrow> part_type part = 0xc \<and> header_ok part (content (part_start part))"

lemma initialize_serves:
  assumes "serves dev bs content d" and "unat (part_block_size part) = bs" and "82 \<le> bs"
  shows "\<exists>f. fat32_new dev part raw d = Some (f, d) \<and> fs_part f = part \<and>
    filesystem_initialize dev raw (Some part) auto_type (st, d) =
      Some (if accepted content part then Some f else None, st, d)"
proof -
  obtain f where "fat32_new dev part raw d = Some (f, d)" "fs_part f = part"
    "fs_usable f = header_ok part (content (part_start part))"
    using fat32_new_serves [OF assms refl] by blast
  then show ?thesis by (auto simp: filesystem_initialize_def accepted_def)
qed

lemma vfs_mount_rejects:
  assumes "filesystem_initialize dev raw part ty s = Some (None, s)"
  shows "vfs_mount dev raw path part ty (v, s) = Some (None, v, s)"
  using assms by (simp add: vfs_mount_def)

lemma vfs_mount_rep:
  assumes "mounts_rep v as ms" and "text_ok q" and "ms = [] \<longrightarrow> q = [slash]"
    and "filesystem_initialize dev raw part ty s = Some (Some f, s)"
  shows "\<exists>v' as'. vfs_mount dev raw (kstr q) part ty (v, s) = Some (Some f, v', s) \<and>
    mounts_rep v' as' (insert_mount (q, f) ms) \<and> (q = [slash] \<longrightarrow> vfs_usable v')"
proof -
  obtain m st where new: "new_obj \<lparr>mp_path = kstr q, mp_fs = f, mp_next = None, mp_prev = None\<rparr> (mountpoints v) = (m, st)"
    by fastforce
  define v1 where "v1 = (if q = [slash] then v\<lparr>vfs_usable := True\<rparr> else v)"
  have "mounts_rep v1 as ms" "mountpoints v1 = mountpoints v" using assms(1) by (simp_all add: v1_def mounts_rep_def)
  with add_mountpoint_rep [OF this(1) assms(2)] new obtain v' as' where
    1: "add_mountpoint m (v1\<lparr>mountpoints := st\<rparr>) = Some v'" "mounts_rep v' as' (insert_mount (q, f) ms)" by metis
  have calls: "kstring_c (cstr [slash]) = Some (kstr [slash])" "kstring_equals (kstr q) (kstr [slash]) = Some (q = [slash])"
    "kstring_copy (kstr q) = Some (kstr q)"
    using assms(2) root_text by (simp_all add: kstr_simps)
  have "\<not> (mount_list v = None \<and> q \<noteq> [slash])"
    using assms(1,3) by (cases ms) (auto simp: mounts_rep_def list_all2_Cons2)
  with 1 calls new assms(4) have "vfs_mount dev raw (kstr q) part ty (v, s) = Some (Some f, v', s)"
    by (auto simp: vfs_mount_def v1_def Let_def)
  moreover have "vfs_usable v'" if "q = [slash]"
    using add_mountpoint_usable [OF 1(1)] that by (simp add: v1_def)
  ultimately show ?thesis using 1(2) by blast
qed

text \<open>What is mounted: the filesystems of the requests whose partition is accepted.\<close>

definition mounted_from :: "'d blockdev \<Rightarrow> (u64 \<Rightarrow> bytes) \<Rightarrow> 'd \<Rightarrow> (fat32 \<times> bytes \<times> partition) set \<Rightarrow> (bytes \<times> fat32) set" where
  "mounted_from dev content d R =
     {(q, f). \<exists>raw part. (raw, q, part) \<in> R \<and> accepted content part \<and> fat32_new dev part raw d = Some (f, d)}"

lemma mount_all_rep:
  assumes "serves dev bs content d" and "82 \<le> bs" and "mounts_rep v as ms" and "sorted_mounts ms"
    and "\<forall>(raw, q, part) \<in> set reqs. text_ok q \<and> q \<noteq> [] \<and> unat (part_block_size part) = bs"
  shows "\<exists>v' as' ms'. mount_all dev (map (\<lambda>(raw, q, part). (raw, kstr q, part)) reqs) (v, st, d) = Some (v', st, d) \<and>
    mounts_rep v' as' ms' \<and> sorted_mounts ms' \<and> set ms' = set ms \<union> mounted_from dev content d (set reqs)"
  using assms(3-)
proof (induction reqs arbitrary: v as ms)
  case Nil
  then show ?case by (auto simp: mounted_from_def)
next
  case (Cons r reqs)
  obtain raw q part where r: "r = (raw, q, part)" by (cases r)
  with Cons.prems have ok: "text_ok q" "q \<noteq> []" "ms \<noteq> []" "unat (part_block_size part) = bs"
    by (auto simp: sorted_mounts_def)
  from initialize_serves [OF assms(1) ok(4) assms(2)] obtain f where
    f: "fat32_new dev part raw d = Some (f, d)" "filesystem_initialize dev raw (Some part) auto_type (st, d) =
      Some (if accepted content part then Some f else None, st, d)" by blast
  define ms1 where "ms1 = (if accepted content part then insert_mount (q, f) ms else ms)"
  have "\<exists>r1 v1 as1. vfs_mount dev raw (kstr q) (Some part) auto_type (v, st, d) = Some (r1, v1, st, d) \<and> mounts_rep v1 as1 ms1"
  proof (cases "accepted content part")
    case True
    with f(2) vfs_mount_rep [OF Cons.prems(1) ok(1), of dev raw "Some part" auto_type "(st, d)" f] ok(3)
    show ?thesis by (auto simp: ms1_def)
  next
    case False
    with f(2) vfs_mount_rejects [of dev raw "Some part" auto_type "(st, d)" "kstr q" v] Cons.prems(1)
    show ?thesis by (auto simp: ms1_def)
  qed
  then obtain r1 v1 as1 where 1: "vfs_mount dev raw (kstr q) (Some part) auto_type (v, st, d) = Some (r1, v1, st, d)"
    "mounts_rep v1 as1 ms1" by blast
  have "sorted_mounts ms1"
    using Cons.prems(2) ok(2) by (auto simp: ms1_def intro!: insert_mount_sorted)
  from Cons.IH [OF 1(2) this] Cons.prems(3) obtain v' as' ms' where
    2: "mount_all dev (map (\<lambda>(raw, q, part). (raw, kstr q, part)) reqs) (v1, st, d) = Some (v', st, d)"
      "mounts_rep v' as' ms'" "sorted_mounts ms'" "set ms' = set ms1 \<union> mounted_from dev content d (set reqs)"
    by auto
  have "set ms1 = set ms \<union> mounted_from dev content d {r}"
    using f(1) r by (auto simp: ms1_def insert_mount_set mounted_from_def)
  moreover have "mounted_from dev content d (set (r # reqs)) = mounted_from dev content d {r} \<union> mounted_from dev content d (set reqs)"
    by (auto simp: mounted_from_def)
  ultimately have "set ms' = set ms \<union> mounted_from dev content d (set (r # reqs))" using 2(4) by blast
  with 1(1) 2 r show ?case by auto
qed

text \<open>
  C15: in a sequence of mounts of which the first is that of the root, on a partition with a FAT32
  volume, every further mount succeeds or leaves the table as it is, according to whether its
  partition is of FAT32 type and has the header of a volume. After it a path is handed to the
  filesystem that is mounted at the longest path that is a prefix of it, among those whose mount
  succeeded, and this filesystem gets what follows the prefix, or the whole path when it is the
  root. The prefix is one of characters: it may end within a component of the path.
\<close>

theorem vfs_longest_prefix:
  assumes "serves dev bs content d" and "82 \<le> bs"
    and "\<forall>(raw, q, part) \<in> set reqs. text_ok q \<and> q \<noteq> [] \<and> unat (part_block_size part) = bs"
    and "reqs = (raw0, [slash], part0) # rest" and "accepted content part0"
    and "text_ok path" and "prefix [slash] path"
  shows "\<exists>v q f. mount_all dev (map (\<lambda>(raw, q, part). (raw, kstr q, part)) reqs) (vfs_new, st, d) = Some (v, st, d) \<and>
    (q, f) \<in> mounted_from dev content d (set reqs) \<and> prefix q path \<and>
    (\<forall>(raw, q', part) \<in> set reqs. accepted content part \<and> prefix q' path \<longrightarrow> length q' \<le> length q) \<and>
    vfs_open_file (fat32_class dev) v (kstr path) t = fs_open_file (fat32_class dev) f (kstr (in_filesystem q path)) t \<and>
    vfs_read_directory (fat32_class dev) v (kstr path) t =
      fs_read_directory (fat32_class dev) f (kstr (in_filesystem q path)) t"
proof -
  have new: "mounts_rep vfs_new [] []" by (simp add: mounts_rep_def vfs_new_def)
  have p0: "unat (part_block_size part0) = bs" and rest: "\<forall>(raw, q, part) \<in> set rest. text_ok q \<and> q \<noteq> [] \<and> unat (part_block_size part) = bs"
    using assms(3,4) by auto
  from initialize_serves [OF assms(1) p0 assms(2), of raw0 st] assms(5) obtain f0 where
    f0: "fat32_new dev part0 raw0 d = Some (f0, d)"
      "filesystem_initialize dev raw0 (Some part0) auto_type (st, d) = Some (Some f0, st, d)" by auto
  from vfs_mount_rep [OF new root_text _ f0(2)] obtain v1 as1 where
    1: "vfs_mount dev raw0 (kstr [slash]) (Some part0) auto_type (vfs_new, st, d) = Some (Some f0, v1, st, d)"
      "mounts_rep v1 as1 [([slash], f0)]" by auto
  have "sorted_mounts [([slash], f0)]" by (simp add: sorted_mounts_def)
  from mount_all_rep [OF assms(1,2) 1(2) this rest] obtain v as ms where
    2: "mount_all dev (map (\<lambda>(raw, q, part). (raw, kstr q, part)) rest) (v1, st, d) = Some (v, st, d)" "mounts_rep v as ms"
      "sorted_mounts ms" "set ms = set [([slash], f0)] \<union> mounted_from dev content d (set rest)" by blast
  have all: "set ms = mounted_from dev content d (set reqs)"
    using 2(4) f0(1) assms(4,5) by (auto simp: mounted_from_def)
  from first_match_longest [OF 2(3) assms(7)] obtain q f where
    3: "find (\<lambda>x. prefix (fst x) path) ms = Some (q, f)" "(q, f) \<in> set ms" "prefix q path"
      "\<forall>x \<in> set ms. prefix (fst x) path \<longrightarrow> length (fst x) \<le> length q" by blast
  have longest: "length q' \<le> length q" if "(raw, q', part) \<in> set reqs" "accepted content part" "prefix q' path" for raw q' part
  proof -
    have "unat (part_block_size part) = bs" using that(1) assms(3) by auto
    from initialize_serves [OF assms(1) this assms(2)] obtain f' where "fat32_new dev part raw d = Some (f', d)" by blast
    with that have "(q', f') \<in> set ms" unfolding all mounted_from_def by blast
    with 3(4) that(3) show ?thesis by auto
  qed
  from 2(2) have seg: "mount_list v = hd_ptr as None" "dseg mp_next mp_prev (cells (mountpoints v)) None as None"
    "list_all2 (mounted_at (mountpoints v)) as ms" by (simp_all add: mounts_rep_def)
  have "mount_all dev (map (\<lambda>(raw, q, part). (raw, kstr q, part)) reqs) (vfs_new, st, d) = Some (v, st, d)"
    using 1(1) 2(1) assms(4) by simp
  then show ?thesis
    using 3(2,3) all longest seg(1) vfs_dispatch_rep [OF seg(2,3) assms(6) 3(1), of "fs_open_file (fat32_class dev)"]
      vfs_dispatch_rep [OF seg(2,3) assms(6) 3(1), of "fs_read_directory (fat32_class dev)"]
    by (intro exI [of _ v] exI [of _ q] exI [of _ f]) (auto simp: vfs_open_file_def vfs_read_directory_def)
qed

text \<open>Two volumes and a partition of another type, which would be the longest match.\<close>

definition example_partition :: "u64 \<Rightarrow> u8 \<Rightarrow> partition" where
  "example_partition start ty = \<lparr>part_name = kstr [], part_block_size = 512, part_start = start,
     part_end = start + 100, part_type = ty\<rparr>"

lemma example_accepted: "accepted (\<lambda>_. example_header) (example_partition start 12)"
  "\<not> accepted (\<lambda>_. example_header) (example_partition start 1)"
proof -
  have "example_header ! 0 = 0xeb" "le16 example_header 11 = 512" "le32 example_header 32 = 100"
    by (simp_all add: example_header_def le16_def le32_def nth_append)
  then show "accepted (\<lambda>_. example_header) (example_partition start 12)"
    "\<not> accepted (\<lambda>_. example_header) (example_partition start 1)"
    by (simp_all add: accepted_def example_partition_def header_ok_def partition_size_def)
qed

lemma vfs_longest_prefix_witness:
  "\<exists>v f. mount_all (same_sector example_header) [(example_volume, kstr (ascii ''/''), example_partition 0 12),
        (example_volume, kstr (ascii ''/usr''), example_partition 200 12),
        (example_volume, kstr (ascii ''/usr/x''), example_partition 400 1)] (vfs_new, empty_store, ()) = Some (v, empty_store, ()) \<and>
     fs_part f = example_partition 200 12 \<and>
     vfs_open_file (fat32_class (same_sector example_header)) v (kstr (ascii ''/usr/x/y'')) (empty_store, ()) =
       fs_open_file (fat32_class (same_sector example_header)) f (kstr (ascii ''/x/y'')) (empty_store, ())"
proof -
  let ?dev = "same_sector example_header" and ?path = "ascii ''/usr/x/y''"
  let ?rest = "[(example_volume, ascii ''/usr'', example_partition 200 12), (example_volume, ascii ''/usr/x'', example_partition 400 1)]"
  let ?reqs = "(example_volume, [slash], example_partition 0 12) # ?rest"
  have len: "length example_header = 512" by (simp add: example_header_def)
  note serves = same_sector_serves [of example_header, unfolded len]
  have h: "(82 :: nat) \<le> 512" "\<forall>(raw, q, part) \<in> set ?reqs. text_ok q \<and> q \<noteq> [] \<and> unat (part_block_size part) = 512"
    "text_ok ?path" "prefix [slash] ?path"
    by (simp_all add: ascii_def text_ok_def slash_def example_partition_def)
  from vfs_longest_prefix [OF serves h(1,2) refl example_accepted(1) h(3,4), of empty_store "(empty_store, ())"]
  obtain v q f where
    1: "mount_all ?dev (map (\<lambda>(raw, q, part). (raw, kstr q, part)) ?reqs) (vfs_new, empty_store, ()) = Some (v, empty_store, ())"
      "(q, f) \<in> mounted_from ?dev (\<lambda>_. example_header) () (set ?reqs)" "prefix q ?path"
      "\<forall>(raw, q', part) \<in> set ?reqs. accepted (\<lambda>_. example_header) part \<and> prefix q' ?path \<longrightarrow> length q' \<le> length q"
      "vfs_open_file (fat32_class ?dev) v (kstr ?path) (empty_store, ()) =
        fs_open_file (fat32_class ?dev) f (kstr (in_filesystem q ?path)) (empty_store, ())" by blast
  have "prefix (ascii ''/usr'') ?path" by (simp add: ascii_def)
  with 1(4) have "length (ascii ''/usr'') \<le> length q" by (auto simp: example_accepted)
  with 1(2) have q: "q = ascii ''/usr''" and f: "fat32_new ?dev (example_partition 200 12) example_volume () = Some (f, ())"
    by (auto simp: mounted_from_def example_accepted ascii_def)
  have "unat (part_block_size (example_partition 200 12)) = 512" by (simp add: example_partition_def)
  with fat32_new_serves [OF serves _ h(1) refl, of "example_partition 200 12" example_volume] f
  have "fs_part f = example_partition 200 12" by auto
  with 1(1,5) q show ?thesis
    by (intro exI [of _ v] exI [of _ f]) (simp add: in_filesystem_def ascii_def slash_def)
qed

section \<open>Files that exist\<close>

lemma first_named_entry: "first_named n ds = Some e \<Longrightarrow> e \<in> set ds \<and> de_name e = kstr n"
  by (auto simp: first_named_def find_Some_iff)

text \<open>
  \<open>file_exists\<close> finds the first entry with the name of the file in its directory and
  returns a copy of it that is not part of any list; the listing is deleted, so the copy is the only
  new object, and without such an entry there is none.
\<close>

theorem file_exists_copy:
  assumes "text_ok (dn @ slash # fn)" and "slash \<notin> set fn" and "store_ok s0"
    and "read_dir (kstr dn) (s0, d0) = Some (dir, s, d)" and "listing s dir as ds" and "names_ok ds" and "extends s0 as s"
  shows "\<exists>r s'. file_exists read_dir (kstr (dn @ slash # fn)) (s0, d0) = Some (r, s', d) \<and>
    (case first_named fn ds of
       None \<Rightarrow> r = None \<and> extends s0 [] s'
     | Some e \<Rightarrow> \<exists>n. r = Some n \<and> cells s' n = Some e \<and> extends s0 [n] s')"
proof -
  have fok: "text_ok fn" using assms(1) by (simp add: text_ok_def)
  note names = dirname_kstr [OF assms(1,2)] filename_kstr [OF assms(1,2)]
  show ?thesis
  proof (cases dir)
    case None
    with assms(5) have "ds = []" "as = []" by (cases as; auto simp: listing_def)+
    with None assms(4,7) names show ?thesis by (auto simp: file_exists_def first_named_def)
  next
    case (Some h)
    from find_entry_listing [OF assms(5,6) fok] obtain r where r: "find_entry (kstr fn) dir s = Some r"
      "case first_named fn ds of None \<Rightarrow> r = None
       | Some d \<Rightarrow> \<exists>a e. r = Some a \<and> a \<in> set as \<and> cells s a = Some e \<and> info e = d" by blast
    show ?thesis
    proof (cases "first_named fn ds")
      case None
      with free_extends [OF assms(5,7,3)] Some r names assms(4) show ?thesis
        by (auto simp: file_exists_def)
    next
      case (Some e)
      with r(2) obtain a f where f: "r = Some a" "cells s a = Some f" "info f = e" by auto
      from first_named_entry [OF Some] assms(6) obtain n where n: "de_name f = kstr n" "text_ok n"
        using f(3) by (auto simp: names_ok_def)
      have copy: "direntry_copy f = Some e" using direntry_copy_info [OF n] f(3) by simp
      define m where "m = fresh s"
      let ?s1 = "s\<lparr>cells := (cells s)(m \<mapsto> e), fresh := Suc m\<rparr>"
      have ok: "store_ok s" using assms(7) by (simp add: extends_def)
      have ext: "extends s [m] ?s1" using ok by (auto simp: extends_def m_def store_ok_def)
      have "de_next e = None" using f(3) by auto
      moreover have "info e = e" using f(3) by auto
      ultimately have one: "listing ?s1 (Some m) [m] [e]" by (simp add: listing_def)
      from free_older [OF assms(3,5,7) one ext] obtain s2 where
        "free_list dir ?s1 = Some s2" "listing s2 (Some m) [m] [e]" "extends s0 [m] s2" by blast
      moreover from this(2) \<open>info e = e\<close> have "cells s2 m = Some e"
        by (auto simp: listing_def info_def split: option.splits)
      ultimately show ?thesis
        using \<open>dir = Some h\<close> Some r f copy names assms(4)
        by (auto simp: file_exists_def new_obj_def m_def)
    qed
  qed
qed

lemma file_exists_copy_witness:
  "\<exists>n s' e. file_exists (\<lambda>p (s, d). read_directory directory_device rooted_volume p s d) (kstr (ascii ''/a''))
       (empty_store, ()) = Some (Some n, s', ()) \<and> cells s' n = Some e \<and> inode e = 5 \<and> extends empty_store [n] s'"
proof -
  let ?rd = "\<lambda>p (s, d). read_directory directory_device rooted_volume p s d"
  let ?e = "record_entry 0 [0x61] example_short"
  have "names_of_path []" by (simp add: names_of_path_def)
  from read_directory_rep [OF rooted_readable refl store_ok_empty this] obtain p s as where
    1: "?rd (kstr []) (empty_store, ()) = Some (p, s, ())" "extends empty_store as s" "listing s p as [?e]"
    by (auto simp: rooted_entries)
  have path: "[] @ slash # ascii ''a'' = ascii ''/a''" "text_ok ([] @ slash # ascii ''a'')" "slash \<notin> set (ascii ''a'')"
    by (simp_all add: ascii_def slash_def text_ok_def)
  have e: "names_ok [?e]" "first_named (ascii ''a'') [?e] = Some ?e" "inode ?e = 5"
    by (simp_all add: names_ok_def first_named_def record_entry_def ascii_def text_ok_def
        example_short_def record_cluster_def nth_append)
  from file_exists_copy [where read_dir = ?rd, OF path(2,3) store_ok_empty 1(1,3) e(1) 1(2)] e(2,3)
  show ?thesis unfolding path(1) by auto
qed

end
