(* ===== verification/Kstream.thy ===== *)
theory Kstream
  imports Kstring
begin

text \<open>
  Output streams (\<open>kernel/kstream.cpp\<close>). The one method a stream has to provide is the output of
  a character; it is the argument \<open>put\<close> of the functions here, with a result of \<open>None\<close> when it
  does not return. \<open>put_all\<close> puts the characters of a text one after the other.
\<close>

unbundle bit_operations_syntax

type_synonym 's put_char = "u8 \<Rightarrow> 's \<Rightarrow> 's option"

primrec put_all :: "'s put_char \<Rightarrow> bytes \<Rightarrow> 's \<Rightarrow> 's option" where
  "put_all put [] s = Some s"
| "put_all put (c # cs) s = do { s1 \<leftarrow> put c s; put_all put cs s1 }"

definition newline :: bytes where
  "newline = [10, 13]"

partial_function (option) put_string :: "'s put_char \<Rightarrow> cbuf \<Rightarrow> nat \<Rightarrow> 's \<Rightarrow> 's option" where
  "put_string put b i s = do {
     c \<leftarrow> rd b i;
     if c \<noteq> 0 then do { s1 \<leftarrow> put c s; put_string put b (i + 1) s1 } else Some s }"

definition put_kstring :: "'s put_char \<Rightarrow> kstring \<Rightarrow> 's \<Rightarrow> 's option" where
  "put_kstring put k s = put_string put (buffer k) 0 s"

definition hex_digits :: bytes where
  "hex_digits = ascii ''0123456789abcdef''"

text \<open>A pointer as eight digits: the shifts go from 28 down to 0 in steps of 4.\<close>

primrec put_hex :: "'s put_char \<Rightarrow> nat \<Rightarrow> u32 \<Rightarrow> 's \<Rightarrow> 's option" where
  "put_hex put 0 p s = Some s"
| "put_hex put (Suc n) p s = do {
     s1 \<leftarrow> put (hex_digits ! unat (drop_bit (4 * n) p AND 0xf)) s;
     put_hex put n p s1 }"

definition put_pointer :: "'s put_char \<Rightarrow> u32 \<Rightarrow> 's \<Rightarrow> 's option" where
  "put_pointer put p s = do { s1 \<leftarrow> put 0x30 s; s2 \<leftarrow> put 0x78 s1; put_hex put 8 p s2 }"

text \<open>
  A signed number: its digits are stored from the back into a static buffer of ten, and printed
  without the leading zeroes. Negating the least number overflows, which is undefined: a fault.
\<close>

primrec fill_digits :: "nat \<Rightarrow> int \<Rightarrow> bytes \<Rightarrow> bytes" where
  "fill_digits 0 number b = b"
| "fill_digits (Suc i) number b = fill_digits i (number div 10) (b[i := 0x30 + of_int (number mod 10)])"

primrec put_digits :: "'s put_char \<Rightarrow> nat \<Rightarrow> nat \<Rightarrow> bool \<Rightarrow> bytes \<Rightarrow> 's \<Rightarrow> 's option" where
  "put_digits put 0 i inside_num b s = Some s"
| "put_digits put (Suc n) i inside_num b s =
     (if \<not> inside_num \<and> b ! i = 0x30 \<and> i \<noteq> 9 then put_digits put n (i + 1) inside_num b s
      else do { s1 \<leftarrow> put (b ! i) s; put_digits put n (i + 1) True b s1 })"

definition put_int :: "'s put_char \<Rightarrow> u32 \<Rightarrow> 's \<Rightarrow> 's option" where
  "put_int put x s =
     (if x AND 0x80000000 \<noteq> 0 then
        (if x = 0x80000000 then None
         else do {
           s1 \<leftarrow> put 0x2d s;
           put_digits put 10 0 False (fill_digits 10 (sint (NOT x + 1)) (replicate 10 0x30)) s1 })
      else put_digits put 10 0 False (fill_digits 10 (sint x) (replicate 10 0x30)) s)"

definition put_bool :: "'s put_char \<Rightarrow> bool \<Rightarrow> 's \<Rightarrow> 's option" where
  "put_bool put b s = put_string put (cstr (if b then ascii ''true'' else ascii ''false'')) 0 s"

section \<open>Texts\<close>

lemma put_all_append: "put_all put (xs @ ys) s = do { s1 \<leftarrow> put_all put xs s; put_all put ys s1 }"
  by (induction xs arbitrary: s) (auto split: Option.bind_splits)

lemma put_string_cstr:
  assumes "0 \<notin> set xs" and "i \<le> length xs"
  shows "put_string put (cstr xs) i s = put_all put (drop i xs) s"
  using assms(2)
proof (induction "length xs - i" arbitrary: i s)
  case 0
  then show ?case by (subst put_string.simps) (simp add: cstr_def rd_def nth_append)
next
  case (Suc n)
  then have i: "i < length xs" by simp
  then have "xs ! i \<noteq> 0" using assms(1) nth_mem by fastforce
  moreover have "rd (cstr xs) i = Some (xs ! i)" using i by (simp add: cstr_def rd_def nth_append)
  moreover have "put_string put (cstr xs) (i + 1) s1 = put_all put (drop (i + 1) xs) s1" for s1
    using Suc.hyps i by simp
  ultimately show ?case
    using i by (subst put_string.simps) (cases "put (xs ! i) s"; simp add: Cons_nth_drop_Suc [symmetric])
qed

lemma put_kstring_kstr: "text_ok xs \<Longrightarrow> put_kstring put (kstr xs) s = put_all put xs s"
  using put_string_cstr [of xs 0] by (simp add: put_kstring_def text_ok_def)

section \<open>Numbers\<close>

text \<open>What a decimal text means.\<close>

definition digits_value :: "bytes \<Rightarrow> int" where
  "digits_value ds = foldl (\<lambda>v c. 10 * v + (uint c - 0x30)) 0 ds"

definition decimal_value :: "bytes \<Rightarrow> int" where
  "decimal_value t = (if t \<noteq> [] \<and> hd t = 0x2d then - digits_value (tl t) else digits_value t)"

definition is_digit :: "u8 \<Rightarrow> bool" where
  "is_digit c \<longleftrightarrow> 0x30 \<le> c \<and> c \<le> 0x39"

lemma digits_value_append: "digits_value (xs @ [c]) = 10 * digits_value xs + (uint c - 0x30)"
  by (simp add: digits_value_def)

lemma digit_char:
  assumes "0 \<le> d" and "d < 10"
  shows "uint (0x30 + of_int d :: u8) = 0x30 + d"
  using assms by (simp add: uint_word_ariths unsigned_of_int take_bit_eq_mod)

lemma digit_ok: "0 \<le> d \<Longrightarrow> d < 10 \<Longrightarrow> is_digit (0x30 + of_int d)"
  by (simp add: is_digit_def word_le_def digit_char)

lemma fill_digits_length [simp]: "length (fill_digits n number b) = length b"
  by (induction n arbitrary: number b) simp_all

lemma fill_digits_rest: "n \<le> i \<Longrightarrow> fill_digits n number b ! i = b ! i"
  by (induction n arbitrary: number b) simp_all

lemma fill_digits_value:
  assumes "0 \<le> number" and "number < 10 ^ n" and "n \<le> length b"
  shows "digits_value (take n (fill_digits n number b)) = number \<and>
    (\<forall>c \<in> set (take n (fill_digits n number b)). is_digit c)"
  using assms
proof (induction n arbitrary: number b)
  case 0
  then show ?case by (simp add: digits_value_def)
next
  case (Suc n)
  let ?c = "0x30 + of_int (number mod 10) :: u8"
  let ?f = "fill_digits n (number div 10) (b[n := ?c])"
  have "take (Suc n) ?f = take n ?f @ [?c]"
    using Suc.prems(3) by (simp add: take_Suc_conv_app_nth fill_digits_rest)
  moreover have "digits_value (take n ?f) = number div 10 \<and> (\<forall>c \<in> set (take n ?f). is_digit c)"
    using Suc.prems by (intro Suc.IH) (simp_all add: div_less_iff_less_mult mult.commute)
  ultimately show ?case
    using digit_char [of "number mod 10"] digit_ok [of "number mod 10"] by (simp add: digits_value_append)
qed

text \<open>The digits that are printed: without leading zeroes, but at least one.\<close>

primrec strip :: "bytes \<Rightarrow> bytes" where
  "strip [] = []"
| "strip (c # cs) = (if c = 0x30 \<and> cs \<noteq> [] then strip cs else c # cs)"

lemma strip_value: "digits_value (strip xs) = digits_value xs"
  by (induction xs) (simp_all add: digits_value_def)

lemma strip_set: "set (strip xs) \<subseteq> set xs"
  by (induction xs) auto

lemma strip_hd: "xs \<noteq> [] \<Longrightarrow> strip xs \<noteq> [] \<and> (hd (strip xs) = 0x30 \<longrightarrow> length (strip xs) = 1)"
  by (induction xs) auto

lemma put_digits_strip:
  assumes "length b = 10" and "i + n = 10"
  shows "put_digits put n i inside b s = put_all put (if inside then drop i b else strip (drop i b)) s"
  using assms(2)
proof (induction n arbitrary: i inside s)
  case 0
  with assms(1) show ?case by simp
next
  case (Suc n)
  then have d: "drop i b = b ! i # drop (Suc i) b" "drop (Suc i) b = [] \<longleftrightarrow> i = 9"
    using assms(1) by (auto simp: Cons_nth_drop_Suc)
  have IH: "put_digits put n (Suc i) t b s1 = put_all put (if t then drop (Suc i) b else strip (drop (Suc i) b)) s1" for t s1
    using Suc.IH [of "Suc i"] Suc.prems by simp
  show ?case
    using d by (cases "put (b ! i) s") (auto simp: IH)
qed

text \<open>
  C26: printing a signed number other than the least one puts its decimal representation into the
  stream, whatever the stream does with characters: digits without a leading zero, after a minus
  sign for a negative number, with the value of the number. The least number is negated first,
  which overflows.
\<close>

theorem put_int_decimal:
  assumes "x \<noteq> 0x80000000"
  shows "\<exists>sign ds. (\<forall>s. put_int put x s = put_all put (sign @ ds) s) \<and> decimal_value (sign @ ds) = sint x \<and>
    sign = (if sint x < 0 then [0x2d] else []) \<and> ds \<noteq> [] \<and> (\<forall>c \<in> set ds. is_digit c) \<and>
    (hd ds = 0x30 \<longrightarrow> length ds = 1)"
proof -
  define z where "z = replicate 10 (0x30 :: u8)"
  define ds where "ds = strip (fill_digits 10 \<bar>sint x\<bar> z)"
  have neg: "x AND 0x80000000 \<noteq> 0 \<longleftrightarrow> sint x < 0"
    using bit_last_iff [of x] and_exp_eq_0_iff_not_bit [of x 31] by simp
  have minus: "sint (NOT x + 1) = - sint x"
  proof -
    have "sint x \<noteq> sint (0x80000000 :: u32)" using assms by (metis signed_word_eqI)
    moreover have "- (2 ^ 31) \<le> sint x" using sint_ge [of x] by simp
    ultimately have "- (2 ^ 31) < sint x" by simp
    then have "signed_take_bit 31 (- sint x) = - sint x"
      using sint_less [of x] by (intro signed_take_bit_int_eq_self) simp_all
    moreover have "NOT x + 1 = - x" by (simp add: minus_eq_not_plus_1)
    ultimately show ?thesis by (simp add: sint_word_ariths)
  qed
  have small: "\<bar>sint x\<bar> < 10 ^ 10"
    using sint_less [of x] sint_ge [of x] by simp
  have val: "digits_value (fill_digits 10 \<bar>sint x\<bar> z) = \<bar>sint x\<bar>" "\<forall>c \<in> set (fill_digits 10 \<bar>sint x\<bar> z). is_digit c"
    using fill_digits_value [OF _ small, of z] by (simp_all add: z_def)
  have ne: "fill_digits 10 \<bar>sint x\<bar> z \<noteq> []"
  proof -
    have "length (fill_digits 10 \<bar>sint x\<bar> z) = 10" by (simp add: z_def)
    then show ?thesis by (metis list.size(3) zero_neq_numeral)
  qed
  have put: "put_digits put 10 0 False (fill_digits 10 \<bar>sint x\<bar> z) s = put_all put ds s" for s
    by (subst put_digits_strip) (simp_all add: ds_def z_def)
  have digits: "\<forall>c \<in> set ds. is_digit c" using val(2) strip_set by (auto simp: ds_def)
  have hd: "ds \<noteq> [] \<and> (hd ds = 0x30 \<longrightarrow> length ds = 1)" unfolding ds_def by (rule strip_hd [OF ne])
  with digits have nm: "hd ds \<noteq> 0x2d" by (cases ds) (auto simp: is_digit_def)
  have v: "digits_value ds = \<bar>sint x\<bar>" using val(1) by (simp add: ds_def strip_value)
  show ?thesis
  proof (cases "sint x < 0")
    case True
    with neg minus put assms have "put_int put x s = put_all put ([0x2d] @ ds) s" for s
      by (cases "put 0x2d s") (simp_all add: put_int_def z_def)
    with True v hd digits show ?thesis
      by (intro exI [of _ "[0x2d]"] exI [of _ ds]) (simp add: decimal_value_def)
  next
    case False
    with neg put have "put_int put x s = put_all put ([] @ ds) s" for s
      by (simp add: put_int_def z_def)
    with False v hd nm digits show ?thesis
      by (intro exI [of _ "[]"] exI [of _ ds]) (simp add: decimal_value_def)
  qed
qed

lemma ten_zeroes: "replicate 10 (0x30 :: u8) = [0x30, 0x30, 0x30, 0x30, 0x30, 0x30, 0x30, 0x30, 0x30, 0x30]"
  by (simp add: eval_nat_numeral)

lemma fill_digits_numeral:
  "fill_digits (numeral k) n b =
     fill_digits (pred_numeral k) (n div 10) (b[pred_numeral k := 0x30 + of_int (n mod 10)])"
  by (simp only: numeral_eq_Suc fill_digits.simps)

lemma put_digits_numeral:
  "put_digits put (numeral k) i inside b s =
     (if \<not> inside \<and> b ! i = 0x30 \<and> i \<noteq> 9 then put_digits put (pred_numeral k) (i + 1) inside b s
      else do { s1 \<leftarrow> put (b ! i) s; put_digits put (pred_numeral k) (i + 1) True b s1 })"
  by (simp only: numeral_eq_Suc put_digits.simps)

lemma put_int_decimal_witness:
  "put_int (\<lambda>c s. Some (s @ [c])) (- 207) [] = Some (ascii ''-207'') \<and>
   (\<exists>sign ds. put_int (\<lambda>c s. Some (s @ [c])) (- 207) [] = put_all (\<lambda>c s. Some (s @ [c])) (sign @ ds) [] \<and>
      decimal_value (sign @ ds) = - 207)"
proof -
  let ?put = "\<lambda>c s. Some (s @ [c]) :: bytes option"
  have ne: "(- 207 :: u32) \<noteq> 0x80000000" and val: "sint (- 207 :: u32) = - 207" by simp_all
  from put_int_decimal [OF ne, of ?put] obtain sign ds where
    "\<forall>s. put_int ?put (- 207) s = put_all ?put (sign @ ds) s" "decimal_value (sign @ ds) = - 207"
    unfolding val by blast
  moreover have "put_int ?put (- 207) [] = Some (ascii ''-207'')"
    by (simp add: put_int_def ascii_def ten_zeroes fill_digits_numeral put_digits_numeral)
  ultimately show ?thesis by blast
qed

text \<open>The hexadecimal output of a pointer.\<close>

lemma put_hex_text:
  "put_hex put n p s = put_all put (map (\<lambda>i. hex_digits ! unat (drop_bit (4 * i) p AND 0xf)) (rev [0..<n])) s"
proof (induction n arbitrary: s)
  case 0
  then show ?case by simp
next
  case (Suc n)
  then show ?case
    by (cases "put (hex_digits ! unat (drop_bit (4 * n) p AND 0xf)) s") simp_all
qed

lemma put_pointer_text:
  "put_pointer put p s = put_all put (0x30 # 0x78 #
     map (\<lambda>i. hex_digits ! unat (drop_bit (4 * i) p AND 0xf)) (rev [0..<8])) s"
  unfolding put_pointer_def put_hex_text put_all.simps ..

lemma put_bool_text: "put_bool put b s = put_all put (if b then ascii ''true'' else ascii ''false'') s"
proof -
  have "put_string put (cstr (ascii t)) 0 s = put_all put (ascii t) s" if "0 \<notin> set (ascii t)" for t
    using put_string_cstr [OF that, of 0 put s] by simp
  moreover have "0 \<notin> set (ascii ''true'')" "0 \<notin> set (ascii ''false'')" by (simp_all add: ascii_def)
  ultimately show ?thesis by (simp add: put_bool_def)
qed

end
