(* ===== verification/Uart.thy ===== *)
theory Uart
  imports Io Irq_Handler Kstream
begin

text \<open>
  The driver of the serial ports (\<open>kernel/uart.cpp\<close>): the output stream of the kernel. The
  registers are accessed as characters; of the word that the hardware parameter returns such a
  read takes the low byte, and such a write gives it a byte without its sign.
\<close>

unbundle bit_operations_syntax

definition io_read8 :: "'d hardware \<Rightarrow> u32 \<Rightarrow> u32 \<Rightarrow> 'd bus \<Rightarrow> u8 \<times> 'd bus" where
  "io_read8 hw base off b = (let (v, b') = io_read hw base off b in (ucast v, b'))"

definition io_write8 :: "'d hardware \<Rightarrow> u8 \<Rightarrow> u32 \<Rightarrow> u32 \<Rightarrow> 'd bus \<Rightarrow> 'd bus" where
  "io_write8 hw data base off b = io_write hw (ucast data) base off b"

definition or_register8 :: "'d hardware \<Rightarrow> u8 \<Rightarrow> u32 \<Rightarrow> u32 \<Rightarrow> 'd bus \<Rightarrow> 'd bus" where
  "or_register8 hw data base off b =
     (let (temp, b') = io_read8 hw base off b in io_write8 hw (temp OR data) base off b')"

section \<open>Registers\<close>

definition uart_thr :: u32 where "uart_thr = 0x00"
definition uart_rhr :: u32 where "uart_rhr = 0x00"
definition uart_dll :: u32 where "uart_dll = 0x00"
definition uart_dlh :: u32 where "uart_dlh = 0x04"
definition uart_iir :: u32 where "uart_iir = 0x08"
definition uart_ier :: u32 where "uart_ier = 0x04"
definition ier_rhr_it :: u8 where "ier_rhr_it = push_bit 0 1"
definition ier_sleep_mode :: u8 where "ier_sleep_mode = push_bit 4 1"
definition uart_efr :: u32 where "uart_efr = 0x08"
definition efr_enhanced_en :: u8 where "efr_enhanced_en = push_bit 4 1"
definition uart_lcr :: u32 where "uart_lcr = 0x0c"
definition lcr_parity_en :: u8 where "lcr_parity_en = push_bit 3 1"
definition lcr_parity_type1 :: u8 where "lcr_parity_type1 = push_bit 4 1"
definition uart_mdr1 :: u32 where "uart_mdr1 = 0x20"
definition uart_ssr :: u32 where "uart_ssr = 0x44"
definition ssr_tx_fifo_full :: u8 where "ssr_tx_fifo_full = push_bit 0 1"
definition uart_sysc :: u32 where "uart_sysc = 0x54"
definition sysc_autoidle :: u8 where "sysc_autoidle = push_bit 0 1"
definition sysc_softreset :: u8 where "sysc_softreset = push_bit 1 1"

datatype idlemode_t = force | no | smart

definition idlemode :: "idlemode_t \<Rightarrow> u8" where
  "idlemode x = push_bit 3 (case x of force \<Rightarrow> 0 | no \<Rightarrow> 1 | smart \<Rightarrow> 2)"

section \<open>Output\<close>

text \<open>A loop that reads a register as long as a bit in it is set.\<close>

partial_function (option) wait_while :: "'d hardware \<Rightarrow> u8 \<Rightarrow> u32 \<Rightarrow> u32 \<Rightarrow> 'd bus \<Rightarrow> 'd bus option" where
  "wait_while hw msk base off b =
     (let (v, b') = io_read8 hw base off b
      in if v AND msk \<noteq> 0 then wait_while hw msk base off b' else Some b')"

definition send :: "'d hardware \<Rightarrow> u32 \<Rightarrow> u8 \<Rightarrow> 'd bus \<Rightarrow> 'd bus option" where
  "send hw base character b = do {
     b1 \<leftarrow> wait_while hw ssr_tx_fifo_full base uart_ssr b;
     Some (io_write8 hw character base uart_thr b1) }"

text \<open>A newline first puts a carriage return by a call of the operator itself.\<close>

definition uart_put :: "'d hardware \<Rightarrow> u32 \<Rightarrow> 'd bus put_char" where
  "uart_put hw base character b = do {
     b1 \<leftarrow> (if character = 0x0a then send hw base 0x0d b else Some b);
     send hw base character b1 }"

primrec uart_write_loop :: "nat \<Rightarrow> nat \<Rightarrow> 'd hardware \<Rightarrow> u32 \<Rightarrow> cbuf \<Rightarrow> 'd bus \<Rightarrow> 'd bus option" where
  "uart_write_loop 0 i hw base buf b = Some b"
| "uart_write_loop (Suc n) i hw base buf b = do {
     c \<leftarrow> rd buf i;
     b1 \<leftarrow> uart_put hw base c b;
     uart_write_loop n (i + 1) hw base buf b1 }"

definition uart_write :: "'d hardware \<Rightarrow> u32 \<Rightarrow> cbuf \<Rightarrow> u32 \<Rightarrow> 'd bus \<Rightarrow> (u32 \<times> 'd bus) option" where
  "uart_write hw base buf n b = map_option (Pair n) (uart_write_loop (unat n) 0 hw base buf b)"

definition uart_read :: "cbuf \<Rightarrow> u32 \<Rightarrow> 'd bus \<Rightarrow> u32 \<times> 'd bus" where
  "uart_read buf n b = (0, b)"

section \<open>Initialisation and interrupts\<close>

definition uart_irq_base :: int where
  "uart_irq_base = 72"

text \<open>
  The constructor. The complement of an eight bit constant is an \<open>int\<close>, so the one \<open>and_register\<close>
  accesses a word. The handler that it registers is the argument \<open>h\<close>.
\<close>

definition uart_new :: "'d hardware \<Rightarrow> 'h \<Rightarrow> int \<Rightarrow> u32 \<Rightarrow> 'h irq_handler \<times> 'd bus \<Rightarrow>
    ('h irq_handler \<times> 'd bus) option" where
  "uart_new hw h module base s =
     (if module \<noteq> 2 then Some s else do {
        let (ih, b) = s;
        b1 \<leftarrow> wait_while hw sysc_softreset base uart_sysc (or_register8 hw sysc_softreset base uart_sysc b);
        let b2 = io_write8 hw (sysc_autoidle OR idlemode smart) base uart_sysc b1;
        let b3 = or_register8 hw efr_enhanced_en base uart_efr b2;
        let b4 = or_register8 hw ier_sleep_mode base uart_ier b3;
        let b5 = and_register hw (NOT (ucast efr_enhanced_en)) base uart_efr b4;
        let b6 = io_write8 hw 0x80 base uart_lcr b5;
        let b7 = io_write8 hw 0x00 base uart_dlh (io_write8 hw 0x1a base uart_dll b6);
        let b8 = io_write8 hw (0x3 OR lcr_parity_en OR lcr_parity_type1) base uart_lcr b7;
        (ih1, b9) \<leftarrow> register_handler hw h (uart_irq_base + module) priority_mid (ih, b8);
        let b10 = or_register8 hw ier_rhr_it base uart_ier b9;
        Some (ih1, io_write8 hw 0 base uart_mdr1 b10) })"

text \<open>The source of the interrupt, and the handler that prints what was received to the stream.\<close>

definition interrupt_source :: "'d hardware \<Rightarrow> u32 \<Rightarrow> 'd bus \<Rightarrow> u8 \<times> 'd bus" where
  "interrupt_source hw base b = (let (v, b') = io_read8 hw base uart_iir b in (drop_bit 1 v AND 0x1f, b'))"

partial_function (option) echo_received :: "'d hardware \<Rightarrow> u32 \<Rightarrow> u32 \<Rightarrow> 'd bus \<Rightarrow> 'd bus option" where
  "echo_received hw base message_base b = do {
     let (source, b1) = interrupt_source hw base b;
     if source = 2 then do {
       let (c, b2) = io_read8 hw base uart_rhr b1;
       b3 \<leftarrow> uart_put hw message_base c b2;
       b4 \<leftarrow> put_string (uart_put hw message_base) (cstr newline) 0 b3;
       echo_received hw base message_base b4 }
     else Some b1 }"

definition uart_interrupt_handler :: "'d hardware \<Rightarrow> u32 \<Rightarrow> u32 \<Rightarrow> 'd bus \<Rightarrow> 'd bus option" where
  "uart_interrupt_handler hw base message_base b = do {
     let (source, b1) = interrupt_source hw base b;
     if source = 2 then echo_received hw base message_base b1
     else if source = 6 then do {
       let (c, b2) = io_read8 hw base uart_rhr b1;
       uart_put hw message_base c b2 }
     else Some b1 }"

section \<open>What a text sends\<close>

text \<open>
  The FIFO drains: a read that finds it full brings it nearer to having room, in the sense of a
  measure of the state of the hardware.
\<close>

definition fifo_drains :: "'d hardware \<Rightarrow> u32 \<Rightarrow> ('d \<Rightarrow> nat) \<Rightarrow> bool" where
  "fifo_drains hw base f \<longleftrightarrow>
     (\<forall>d. bit (fst (hw_read hw (base + uart_ssr) d)) 0 \<longrightarrow> f (snd (hw_read hw (base + uart_ssr) d)) < f d)"

text \<open>The accesses of one character: reads of the status until there is room, then the write.\<close>

definition sends :: "u32 \<Rightarrow> u8 \<Rightarrow> access list \<Rightarrow> bool" where
  "sends base c t \<longleftrightarrow> (\<exists>vs v. t = List.map (Read (base + uart_ssr)) (vs @ [v]) @ [Write (base + uart_thr) (ucast c)] \<and>
     (\<forall>x \<in> set vs. bit x 0) \<and> \<not> bit v 0)"

primrec sends_all :: "u32 \<Rightarrow> bytes \<Rightarrow> access list \<Rightarrow> bool" where
  "sends_all base [] t \<longleftrightarrow> t = []"
| "sends_all base (c # cs) t \<longleftrightarrow> (\<exists>t1 t2. t = t1 @ t2 \<and> sends base c t1 \<and> sends_all base cs t2)"

definition crlf :: "bytes \<Rightarrow> bytes" where
  "crlf cs = concat (List.map (\<lambda>c. if c = 0x0a then [0x0d, 0x0a] else [c]) cs)"

lemma ssr_bit: "(ucast v :: u8) AND ssr_tx_fifo_full \<noteq> 0 \<longleftrightarrow> bit (v :: u32) 0"
  by (simp add: ssr_tx_fifo_full_def and_exp_eq_0_iff_not_bit [of _ 0, simplified] bit_simps)

lemma wait_while_drains:
  assumes "fifo_drains hw base f"
  shows "\<exists>b' vs v. wait_while hw ssr_tx_fifo_full base uart_ssr b = Some b' \<and>
    trace b' = trace b @ List.map (Read (base + uart_ssr)) (vs @ [v]) \<and> (\<forall>x \<in> set vs. bit x 0) \<and> \<not> bit v 0"
proof (induction "f (dev b)" arbitrary: b rule: less_induct)
  case less
  obtain v b1 where r: "io_read hw base uart_ssr b = (v, b1)" by fastforce
  then have t: "trace b1 = trace b @ [Read (base + uart_ssr) v]" "dev b1 = snd (hw_read hw (base + uart_ssr) (dev b))"
    "v = fst (hw_read hw (base + uart_ssr) (dev b))"
    using io_read_trace [of hw base uart_ssr b] by simp_all
  show ?case
  proof (cases "bit v 0")
    case True
    with assms t have "f (dev b1) < f (dev b)" by (simp add: fifo_drains_def)
    from less.hyps [OF this] obtain b' vs w where
      "wait_while hw ssr_tx_fifo_full base uart_ssr b1 = Some b'"
      "trace b' = trace b1 @ List.map (Read (base + uart_ssr)) (vs @ [w])" "\<forall>x \<in> set vs. bit x 0" "\<not> bit w 0"
      by blast
    with True t r show ?thesis
      by (subst wait_while.simps) (auto simp: io_read8_def ssr_bit intro!: exI [of _ "v # vs"] exI [of _ w])
  next
    case False
    with t r show ?thesis
      by (subst wait_while.simps) (auto simp: io_read8_def ssr_bit intro!: exI [of _ "[]"] exI [of _ v])
  qed
qed

lemma send_sends:
  assumes "fifo_drains hw base f"
  shows "\<exists>b' t. send hw base c b = Some b' \<and> trace b' = trace b @ t \<and> sends base c t"
proof -
  obtain b1 vs v where "wait_while hw ssr_tx_fifo_full base uart_ssr b = Some b1"
    "trace b1 = trace b @ List.map (Read (base + uart_ssr)) (vs @ [v])" "\<forall>x \<in> set vs. bit x 0" "\<not> bit v 0"
    using wait_while_drains [OF assms, of b] by blast
  then show ?thesis
    unfolding sends_def by (force simp: send_def io_write8_def)
qed

lemma sends_all_append: "sends_all base xs t \<Longrightarrow> sends_all base ys u \<Longrightarrow> sends_all base (xs @ ys) (t @ u)"
proof (induction xs arbitrary: t)
  case Nil
  then show ?case by simp
next
  case (Cons x xs)
  then obtain t1 t2 where "t = t1 @ t2" "sends base x t1" "sends_all base xs t2" by auto
  moreover from this Cons have "sends_all base (xs @ ys) (t2 @ u)" by blast
  ultimately have "sends_all base (x # (xs @ ys)) (t1 @ (t2 @ u))"
    unfolding sends_all.simps by blast
  with \<open>t = t1 @ t2\<close> show ?case by simp
qed

lemma sends_all_one: "sends base c t \<Longrightarrow> sends_all base [c] t"
  by simp

lemma crlf_Cons: "crlf (c # cs) = crlf [c] @ crlf cs"
  by (simp add: crlf_def)

lemma uart_put_sends:
  assumes "fifo_drains hw base f"
  shows "\<exists>b' t. uart_put hw base c b = Some b' \<and> trace b' = trace b @ t \<and> sends_all base (crlf [c]) t"
proof (cases "c = 0x0a")
  case True
  obtain b1 t1 where 1: "send hw base 0x0d b = Some b1" "trace b1 = trace b @ t1" "sends base 0x0d t1"
    using send_sends [OF assms, of "0x0d" b] by blast
  obtain b2 t2 where 2: "send hw base c b1 = Some b2" "trace b2 = trace b1 @ t2" "sends base c t2"
    using send_sends [OF assms, of c b1] by blast
  have "sends_all base (crlf [c]) (t1 @ t2)"
    using sends_all_append [OF sends_all_one [OF 1(3)] sends_all_one [OF 2(3)]] True by (simp only: crlf_def) simp
  with True 1 2 show ?thesis by (auto simp: uart_put_def)
next
  case False
  then show ?thesis
    using send_sends [OF assms, of c b] by (auto simp: uart_put_def crlf_def)
qed

lemma put_all_sends:
  assumes "fifo_drains hw base f"
  shows "\<exists>b' t. put_all (uart_put hw base) cs b = Some b' \<and> trace b' = trace b @ t \<and> sends_all base (crlf cs) t"
proof (induction cs arbitrary: b)
  case Nil
  then show ?case by (auto simp: crlf_def)
next
  case (Cons c cs)
  obtain b1 t1 where 1: "uart_put hw base c b = Some b1" "trace b1 = trace b @ t1" "sends_all base (crlf [c]) t1"
    using uart_put_sends [OF assms, of c b] by blast
  obtain b2 t2 where 2: "put_all (uart_put hw base) cs b1 = Some b2" "trace b2 = trace b1 @ t2" "sends_all base (crlf cs) t2"
    using Cons.IH [of b1] by blast
  from 1 2 show ?case
    using sends_all_append [OF 1(3) 2(3)] by (auto simp: crlf_Cons [of c cs])
qed

lemma sends_written: "sends base c t \<Longrightarrow> written (base + uart_thr) t = [ucast c]"
  by (auto simp: sends_def simp del: map_append)

lemma sends_all_written: "sends_all base cs t \<Longrightarrow> written (base + uart_thr) t = List.map ucast cs"
  by (induction cs arbitrary: t) (auto simp: sends_written)

text \<open>
  C23: if the FIFO of the port drains, putting a text into its stream returns. The accesses it makes
  are, for every character in order, reads of the status until one finds room, and then the write
  of the character; a newline is sent as a carriage return and a newline.
\<close>

theorem uart_sends_text:
  assumes "fifo_drains hw base f" and "0 \<notin> set cs"
  shows "\<exists>b' t. put_string (uart_put hw base) (cstr cs) 0 b = Some b' \<and> trace b' = trace b @ t \<and>
    sends_all base (crlf cs) t \<and> written (base + uart_thr) t = List.map ucast (crlf cs)"
  using put_all_sends [OF assms(1), of cs b] put_string_cstr [OF assms(2), of 0 "uart_put hw base" b] sends_all_written
  by fastforce

definition filling_fifo :: "nat hardware" where
  "filling_fifo = \<lparr>hw_read = (\<lambda>a d. (if 0 < d then 1 else 0, d - 1)), hw_write = (\<lambda>a v d. d + 2)\<rparr>"

lemma uart_sends_text_witness:
  "\<exists>b' t. put_string (uart_put filling_fifo 0x1000) (cstr [0x6f, 0x6b, 0x0a]) 0 \<lparr>dev = 1, trace = []\<rparr> = Some b' \<and>
     trace b' = t \<and> written 0x1000 t = [0x6f, 0x6b, 0x0d, 0x0a]"
proof -
  have "fifo_drains filling_fifo 0x1000 id"
    by (simp add: fifo_drains_def filling_fifo_def)
  then show ?thesis
    using uart_sends_text [of filling_fifo "0x1000" id "[0x6f, 0x6b, 0x0a]" "\<lparr>dev = 1, trace = []\<rparr>"]
    by (auto simp: crlf_def uart_thr_def)
qed

lemma uart_write_put_all:
  "\<forall>c \<in> set (take n (drop i buf)). c \<noteq> None \<Longrightarrow> i + n \<le> length buf \<Longrightarrow>
    uart_write_loop n i hw base buf b = put_all (uart_put hw base) (List.map the (take n (drop i buf))) b"
proof (induction n arbitrary: i b)
  case 0
  then show ?case by simp
next
  case (Suc n)
  then have i: "i < length buf" "take (Suc n) (drop i buf) = buf ! i # take n (drop (Suc i) buf)"
    by (simp_all add: Cons_nth_drop_Suc [symmetric])
  with Suc.prems obtain c where c: "buf ! i = Some c" by auto
  then have "rd buf i = Some c" using i by (simp add: rd_def)
  then show ?case
    using Suc i c by (cases "uart_put hw base c b") simp_all
qed

end
