(* ===== verification/Device_Mgr.thy ===== *)
theory Device_Mgr
  imports Kstring
begin

text \<open>
  Devices and their registry (\<open>kernel/device.h\<close>, \<open>kernel/device_mgr.cpp\<close>), over the array that
  grows when it is indexed beyond its end (\<open>kernel/expandable_array.h\<close>). An element that nothing
  was written to is \<open>None\<close>. The constructor of the array initialises its capacity with itself, so
  the value that the memory had before is an argument of the model. Array sizes are not bounded
  by the 32 bits of an \<open>int\<close>.
\<close>

section \<open>The expandable array\<close>

record 'a expandable_array =
  capacity :: int
  expand_amount :: int
  elements :: "'a option list"

definition new_elements :: "int \<Rightarrow> 'a option list option" where
  "new_elements n = (if n < 0 then None else Some (replicate (nat n) None))"

definition expandable_array_new :: "int \<Rightarrow> int \<Rightarrow> int \<Rightarrow> 'a expandable_array option" where
  "expandable_array_new garbage initial_capacity amount =
     map_option (\<lambda>es. \<lparr>capacity = garbage, expand_amount = amount, elements = es\<rparr>) (new_elements initial_capacity)"

primrec copy_elements :: "nat \<Rightarrow> nat \<Rightarrow> 'a option list \<Rightarrow> 'a option list \<Rightarrow> 'a option list option" where
  "copy_elements 0 i old new = Some new"
| "copy_elements (Suc n) i old new =
     (if i < length old \<and> i < length new then copy_elements n (i + 1) old (new[i := old ! i]) else None)"

definition expand :: "int \<Rightarrow> 'a expandable_array \<Rightarrow> 'a expandable_array option" where
  "expand new_capacity a = do {
     let n = (if new_capacity = -1 then capacity a + expand_amount a else new_capacity);
     new_array \<leftarrow> new_elements n;
     new_array' \<leftarrow> copy_elements (nat (capacity a)) 0 (elements a) new_array;
     Some (a\<lparr>capacity := n, elements := new_array'\<rparr>) }"

text \<open>\<open>get\<close> returns a reference: the array after a possible expansion and the checked index.\<close>

definition get_ref :: "int \<Rightarrow> 'a expandable_array \<Rightarrow> (nat \<times> 'a expandable_array) option" where
  "get_ref index a = do {
     a1 \<leftarrow> (if capacity a \<le> index \<and> index < capacity a + expand_amount a then expand (-1) a
            else if capacity a \<le> index then expand index a
            else Some a);
     if 0 \<le> index \<and> nat index < length (elements a1) then Some (nat index, a1) else None }"

text \<open>Using the reference: reading an element that was never written is a fault.\<close>

definition array_read :: "int \<Rightarrow> 'a expandable_array \<Rightarrow> ('a \<times> 'a expandable_array) option" where
  "array_read index a = do { (i, a1) \<leftarrow> get_ref index a; v \<leftarrow> elements a1 ! i; Some (v, a1) }"

definition array_write :: "int \<Rightarrow> 'a \<Rightarrow> 'a expandable_array \<Rightarrow> 'a expandable_array option" where
  "array_write index v a = do {
     (i, a1) \<leftarrow> get_ref index a;
     Some (a1\<lparr>elements := (elements a1)[i := Some v]\<rparr>) }"

section \<open>Devices\<close>

record device =
  dname :: kstring
  dnumber :: u32
  reserved :: bool

record device_mgr =
  next_devnum :: u32
  devices :: "ptr expandable_array"

definition preallocate_devices :: nat where
  "preallocate_devices = 32"

primrec clear_devices :: "nat \<Rightarrow> nat \<Rightarrow> ptr expandable_array \<Rightarrow> ptr expandable_array option" where
  "clear_devices 0 i a = Some a"
| "clear_devices (Suc n) i a = do { a1 \<leftarrow> array_write (int i) None a; clear_devices n (i + 1) a1 }"

definition device_mgr_new :: "int \<Rightarrow> device_mgr option" where
  "device_mgr_new garbage = do {
     a \<leftarrow> expandable_array_new garbage (int preallocate_devices) 1;
     a1 \<leftarrow> clear_devices preallocate_devices 0 a;
     Some \<lparr>next_devnum = 0, devices = a1\<rparr> }"

primrec find_device :: "nat \<Rightarrow> nat \<Rightarrow> kstring \<Rightarrow> device store \<Rightarrow> ptr expandable_array \<Rightarrow>
    (ptr \<times> ptr expandable_array) option" where
  "find_device 0 i name ds a = Some (None, a)"
| "find_device (Suc n) i name ds a = do {
     (p, a1) \<leftarrow> array_read (int i) a;
     case p of
       None \<Rightarrow> find_device n (i + 1) name ds a1
     | Some d \<Rightarrow> do {
         dv \<leftarrow> cells ds d;
         same \<leftarrow> kstring_equals (dname dv) name;
         if same then Some (Some d, a1) else find_device n (i + 1) name ds a1 } }"

definition get_device_by_name :: "kstring \<Rightarrow> device store \<Rightarrow> device_mgr \<Rightarrow> (ptr \<times> device_mgr) option" where
  "get_device_by_name name ds m = do {
     (p, a) \<leftarrow> find_device (nat (capacity (devices m))) 0 name ds (devices m);
     Some (p, m\<lparr>devices := a\<rparr>) }"

definition get_device_by_number :: "u32 \<Rightarrow> device_mgr \<Rightarrow> (ptr \<times> device_mgr) option" where
  "get_device_by_number number m = do {
     (p, a) \<leftarrow> array_read (sint number) (devices m);
     Some (p, m\<lparr>devices := a\<rparr>) }"

definition register_device :: "nat \<Rightarrow> device store \<Rightarrow> device_mgr \<Rightarrow> (u32 \<times> device_mgr) option" where
  "register_device dev ds m = do {
     let retval = next_devnum m;
     let m1 = m\<lparr>next_devnum := next_devnum m + 1\<rparr>;
     dv \<leftarrow> cells ds dev;
     (found, m2) \<leftarrow> get_device_by_name (dname dv) ds m1;
     if found \<noteq> None then Some (- 1, m2)
     else do {
       a \<leftarrow> array_write (sint retval) (Some dev) (devices m2);
       Some (retval, m2\<lparr>devices := a\<rparr>) } }"

definition unregister_device :: "u32 \<Rightarrow> device_mgr \<Rightarrow> device_mgr option" where
  "unregister_device number m = do {
     a \<leftarrow> array_write (sint number) None (devices m);
     Some (m\<lparr>devices := a\<rparr>) }"

text \<open>The constructor of a device: its members in their order, then their default values.\<close>

definition device_new :: "kstring \<Rightarrow> device store \<times> device_mgr \<Rightarrow> (nat \<times> device store \<times> device_mgr) option" where
  "device_new name s = do {
     let (ds, m) = s;
     name' \<leftarrow> kstring_copy name;
     let (d, ds1) = new_obj \<lparr>dname = name', dnumber = 0, reserved = False\<rparr> ds;
     (n, m1) \<leftarrow> register_device d ds1 m;
     ds2 \<leftarrow> modify (Some d) (dnumber_update (\<lambda>_. n)) ds1;
     Some (d, ds2, m1) }"

definition set_name :: "nat \<Rightarrow> kstring \<Rightarrow> device store \<Rightarrow> device store option" where
  "set_name d name ds = do {
     name' \<leftarrow> kstring_copy name;
     modify (Some d) (dname_update (\<lambda>_. name')) ds }"

definition set_number :: "nat \<Rightarrow> int \<Rightarrow> device store \<Rightarrow> device store option" where
  "set_number d n ds = modify (Some d) (dnumber_update (\<lambda>_. word_of_int n)) ds"

definition reserve :: "nat \<Rightarrow> device store \<Rightarrow> device store option" where
  "reserve d ds = modify (Some d) (reserved_update (\<lambda>_. True)) ds"

definition release :: "nat \<Rightarrow> device store \<Rightarrow> device store option" where
  "release d ds = modify (Some d) (reserved_update (\<lambda>_. False)) ds"

section \<open>The array of the manager\<close>

text \<open>An array whose capacity is its size and whose elements were all written.\<close>

definition arr :: "'a list \<Rightarrow> 'a expandable_array" where
  "arr xs = \<lparr>capacity = int (length xs), expand_amount = 1, elements = List.map Some xs\<rparr>"

lemma copy_elements_append:
  assumes "i + n \<le> length old" and "i + n \<le> length new"
  shows "copy_elements n i old new = Some (take i new @ take n (drop i old) @ drop (i + n) new)"
  using assms
proof (induction n arbitrary: i new)
  case 0
  then show ?case by simp
next
  case (Suc n)
  then have i: "i < length old" "i < length new" by simp_all
  have "take (Suc i) (new[i := old ! i]) = take i new @ [old ! i]"
    using i by (simp add: take_Suc_conv_app_nth list_update_append)
  moreover have "take (Suc n) (drop i old) = old ! i # take n (drop (Suc i) old)"
    using i by (simp add: Cons_nth_drop_Suc [symmetric])
  ultimately show ?case
    using Suc.IH [of "Suc i" "new[i := old ! i]"] Suc.prems i by simp
qed

lemma expand_by_one:
  assumes "n \<le> length es"
  shows "expand (-1) \<lparr>capacity = int n, expand_amount = 1, elements = es\<rparr> =
    Some \<lparr>capacity = int n + 1, expand_amount = 1, elements = take n es @ [None]\<rparr>"
proof -
  have "None # replicate n None = replicate n None @ [None :: 'a option]" by (simp add: replicate_append_same)
  with assms show ?thesis by (simp add: expand_def new_elements_def nat_add_distrib copy_elements_append)
qed

lemma array_write_inside:
  "0 \<le> i \<Longrightarrow> i < capacity a \<Longrightarrow> nat i < length (elements a) \<Longrightarrow>
    array_write i v a = Some (a\<lparr>elements := (elements a)[nat i := Some v]\<rparr>)"
  by (simp add: array_write_def get_ref_def)

lemma array_write_next:
  assumes "n \<le> length es"
  shows "array_write (int n) v \<lparr>capacity = int n, expand_amount = 1, elements = es\<rparr> =
    Some \<lparr>capacity = int n + 1, expand_amount = 1, elements = take n es @ [Some v]\<rparr>"
  using assms by (simp add: array_write_def get_ref_def expand_by_one list_update_append)

lemma arr_read: "i < length xs \<Longrightarrow> array_read (int i) (arr xs) = Some (xs ! i, arr xs)"
  by (simp add: array_read_def get_ref_def arr_def)

lemma arr_write:
  assumes "i \<le> length xs"
  shows "array_write (int i) v (arr xs) = Some (arr (if i < length xs then xs[i := v] else xs @ [v]))"
proof (cases "i < length xs")
  case True
  then show ?thesis by (simp add: arr_def array_write_inside map_update)
next
  case False
  with assms have "i = length xs" by simp
  then show ?thesis by (simp add: arr_def array_write_next)
qed

lemma arr_write_beyond: "length xs < i \<Longrightarrow> array_write (int i) v (arr xs) = None"
  by (simp add: array_write_def get_ref_def arr_def expand_def new_elements_def copy_elements_append)

lemma capacity_arr [simp]: "capacity (arr xs) = int (length xs)"
  by (simp add: arr_def)

text \<open>The constructor: while the index is below the old value of the capacity it only writes.\<close>

lemma clear_devices_steps:
  assumes "i + n \<le> 32" and "g \<le> 32"
    and "a = (if i \<le> g then \<lparr>capacity = int g, expand_amount = 1,
        elements = replicate i (Some None) @ replicate (32 - i) None\<rparr> else arr (replicate i None))"
  shows "clear_devices n i a = Some (if i + n \<le> g then \<lparr>capacity = int g, expand_amount = 1,
        elements = replicate (i + n) (Some None) @ replicate (32 - (i + n)) None\<rparr> else arr (replicate (i + n) None))"
  using assms
proof (induction n arbitrary: i a)
  case 0
  then show ?case by simp
next
  case (Suc n)
  let ?a = "if Suc i \<le> g then \<lparr>capacity = int g, expand_amount = 1,
        elements = replicate (Suc i) (Some None) @ replicate (32 - Suc i) None\<rparr> else arr (replicate (Suc i) None)"
  have "array_write (int i) None a = Some ?a"
  proof -
    consider "i < g" | "i = g" | "g < i" by linarith
    then show ?thesis
    proof cases
      case 1
      then obtain k where "32 - i = Suc k" "32 - Suc i = k"
        using assms(2) by (metis Suc_diff_Suc order_less_le_trans)
      with 1 show ?thesis
        by (simp add: Suc.prems(3) array_write_inside list_update_append replicate_append_same)
    next
      case 2
      then show ?thesis
        by (simp add: Suc.prems(3) array_write_next arr_def replicate_append_same)
    next
      case 3
      then show ?thesis
        using arr_write [of i "replicate i None" None] by (simp add: Suc.prems(3) replicate_append_same)
    qed
  qed
  moreover have "Suc i + n \<le> 32" using Suc.prems(1) by simp
  ultimately show ?case
    using Suc.IH [OF _ assms(2) refl] by simp
qed

section \<open>The registry\<close>

lemma device_mgr_new_small:
  assumes "0 \<le> g" and "g \<le> 32"
  shows "device_mgr_new g = Some \<lparr>next_devnum = 0, devices = arr (replicate 32 None)\<rparr>"
proof -
  have "\<lparr>capacity = 32, expand_amount = 1, elements = replicate 32 (Some None)\<rparr> = arr (replicate 32 None)"
    by (simp add: arr_def)
  with clear_devices_steps [OF _ _ refl, of 0 32 "nat g"] show ?thesis
    using assms by (auto simp: device_mgr_new_def expandable_array_new_def new_elements_def preallocate_devices_def)
qed

lemma clear_devices_first: "array_write (int i) None a = None \<Longrightarrow> 0 < n \<Longrightarrow> clear_devices n i a = None"
  by (cases n) simp_all

lemma device_mgr_new_negative: "g < 0 \<Longrightarrow> device_mgr_new g = None"
proof -
  assume "g < 0"
  then have "array_write (int 0) None \<lparr>capacity = g, expand_amount = 1, elements = replicate 32 None\<rparr> =
      (None :: ptr expandable_array option)"
    by (simp add: array_write_def get_ref_def expand_def new_elements_def)
  then have "clear_devices 32 0 \<lparr>capacity = g, expand_amount = 1, elements = replicate 32 None\<rparr> = None"
    by (rule clear_devices_first) simp
  then show ?thesis
    by (simp add: device_mgr_new_def expandable_array_new_def new_elements_def preallocate_devices_def)
qed

lemma clear_devices_inside:
  assumes "i + n \<le> length es" and "int (length es) \<le> g"
  shows "clear_devices n i \<lparr>capacity = g, expand_amount = 1, elements = es\<rparr> =
    Some \<lparr>capacity = g, expand_amount = 1, elements = take i es @ replicate n (Some None) @ drop (i + n) es\<rparr>"
  using assms
proof (induction n arbitrary: i es)
  case 0
  then show ?case by simp
next
  case (Suc n)
  then have i: "i < length es" by simp
  have "take (Suc i) (es[i := Some None]) = take i es @ [Some None]"
    using i by (simp add: take_Suc_conv_app_nth list_update_append)
  with Suc i show ?case by (simp add: array_write_inside)
qed

lemma device_mgr_new_large:
  assumes "32 < g"
  shows "device_mgr_new g = Some \<lparr>next_devnum = 0,
     devices = \<lparr>capacity = g, expand_amount = 1, elements = replicate 32 (Some None)\<rparr>\<rparr>"
  using assms clear_devices_inside [of 0 32 "replicate 32 None" g]
  by (simp add: device_mgr_new_def expandable_array_new_def new_elements_def preallocate_devices_def)

lemma find_device_beyond:
  assumes "i + n > 32" and "i \<le> 32" and "a = \<lparr>capacity = g, expand_amount = 1, elements = replicate 32 (Some None)\<rparr>"
    and "32 < g"
  shows "find_device n i name ds a = None"
  using assms
proof (induction n arbitrary: i)
  case 0
  then show ?case by simp
next
  case (Suc n)
  show ?case
  proof (cases "i = 32")
    case True
    with Suc.prems have "array_read (int i) a = None"
      by (simp add: array_read_def get_ref_def)
    then show ?thesis by simp
  next
    case False
    with Suc.prems have "array_read (int i) a = Some (None, a)"
      by (simp add: array_read_def get_ref_def)
    with False Suc show ?thesis by simp
  qed
qed

text \<open>The search by name in an array without gaps.\<close>

lemma find_device_arr:
  assumes "i + n = length ps"
    and "\<And>d. Some d \<in> set ps \<Longrightarrow> \<exists>dv. cells ds d = Some dv \<and> dname dv = kstr (nm d) \<and> text_ok (nm d)"
    and "text_ok x"
  shows "find_device n i (kstr x) ds (arr ps) =
    Some (case find (\<lambda>p. \<exists>d. p = Some d \<and> nm d = x) (drop i ps) of None \<Rightarrow> None | Some p \<Rightarrow> p, arr ps)"
  using assms(1)
proof (induction n arbitrary: i)
  case 0
  then show ?case by simp
next
  case (Suc n)
  then have i: "i < length ps" "drop i ps = ps ! i # drop (Suc i) ps"
    by (simp_all add: Cons_nth_drop_Suc)
  show ?case
  proof (cases "ps ! i")
    case None
    with Suc i show ?thesis by (simp add: arr_read)
  next
    case (Some d)
    then have "Some d \<in> set ps" using i nth_mem by metis
    with assms(2) obtain dv where "cells ds d = Some dv" "dname dv = kstr (nm d)" "text_ok (nm d)" by blast
    with Some Suc i assms(3) show ?thesis by (simp add: arr_read kstring_equals_kstr)
  qed
qed

text \<open>
  C39: the manager is usable exactly when the memory of its array held a number from 0 to 32 where
  the capacity is: with a negative one the constructor writes outside the array, with a larger one
  the constructor works, and the first search for a name that no device has reads outside it.
\<close>

theorem device_mgr_initial_capacity:
  "(\<exists>m. device_mgr_new g = Some m \<and> get_device_by_name name ds m \<noteq> None) \<longleftrightarrow> 0 \<le> g \<and> g \<le> 32"
proof -
  consider "g < 0" | "0 \<le> g" "g \<le> 32" | "32 < g" by linarith
  then show ?thesis
  proof cases
    case 1
    then show ?thesis by (simp add: device_mgr_new_negative)
  next
    case 2
    have "find_device n i name ds (arr (replicate 32 None)) \<noteq> None" if "i + n \<le> 32" for i n
      using that by (induction n arbitrary: i) (simp_all add: arr_read)
    from this [of 0 32] 2 show ?thesis
      by (auto simp: device_mgr_new_small get_device_by_name_def)
  next
    case 3
    then have "find_device (nat g) 0 name ds \<lparr>capacity = g, expand_amount = 1, elements = replicate 32 (Some None)\<rparr> = None"
      by (intro find_device_beyond [OF _ _ refl]) simp_all
    with 3 show ?thesis
      by (simp add: device_mgr_new_large get_device_by_name_def)
  qed
qed

section \<open>Registration\<close>

text \<open>Making devices with the names of a list, in order.\<close>

primrec new_devices :: "bytes list \<Rightarrow> device store \<times> device_mgr \<Rightarrow> (nat list \<times> device store \<times> device_mgr) option" where
  "new_devices [] s = Some ([], s)"
| "new_devices (n # ns) s = do {
     (d, s1) \<leftarrow> device_new (kstr n) s;
     (as, s2) \<leftarrow> new_devices ns s1;
     Some (d # as, s2) }"

lemma new_devices_append:
  "new_devices (xs @ ys) s = do {
     (as, s1) \<leftarrow> new_devices xs s; (bs, s2) \<leftarrow> new_devices ys s1; Some (as @ bs, s2) }"
  by (induction xs arbitrary: s) (auto split: Option.bind_splits)

text \<open>The registry of devices with the names \<open>ns\<close> at the addresses \<open>as\<close>.\<close>

definition registry :: "bytes list \<Rightarrow> nat list \<Rightarrow> device store \<times> device_mgr \<Rightarrow> bool" where
  "registry ns as s \<longleftrightarrow> (let (ds, m) = s in
     store_ok ds \<and> length as = length ns \<and> distinct ns \<and> (\<forall>n \<in> set ns. text_ok n) \<and>
     (\<forall>i < length ns. \<exists>dv. cells ds (as ! i) = Some dv \<and> dname dv = kstr (ns ! i)) \<and>
     next_devnum m = of_nat (length ns) \<and>
     devices m = arr (List.map Some as @ replicate (32 - length as) None))"

definition device_text :: "device store \<Rightarrow> nat \<Rightarrow> bytes" where
  "device_text ds d = List.map the (butlast (buffer (dname (the (cells ds d)))))"

lemma device_text_kstr: "cells ds d = Some dv \<Longrightarrow> dname dv = kstr n \<Longrightarrow> device_text ds d = n"
  by (simp add: device_text_def kstr_def cstr_def comp_def)

lemma registry_find:
  assumes "registry ns as (ds, m)" and "text_ok x"
  shows "get_device_by_name (kstr x) ds m =
    Some (case find (\<lambda>p. \<exists>d. p = Some d \<and> device_text ds d = x) (List.map Some as @ replicate (32 - length as) None)
          of None \<Rightarrow> None | Some p \<Rightarrow> p, m)"
proof -
  let ?ps = "List.map Some as @ replicate (32 - length as) None"
  have m: "devices m = arr ?ps" using assms(1) by (simp add: registry_def)
  have "\<exists>dv. cells ds d = Some dv \<and> dname dv = kstr (device_text ds d) \<and> text_ok (device_text ds d)"
    if "Some d \<in> set ?ps" for d
  proof -
    from that obtain i where i: "i < length as" "d = as ! i" by (auto simp: in_set_conv_nth)
    with assms(1) obtain dv where dv: "cells ds d = Some dv" "dname dv = kstr (ns ! i)" "i < length ns"
      by (auto simp: registry_def)
    then have "device_text ds d = ns ! i" by (auto intro: device_text_kstr)
    with dv assms(1) show ?thesis by (simp add: registry_def)
  qed
  then have "find_device (length ?ps) 0 (kstr x) ds (arr ?ps) =
      Some (case find (\<lambda>p. \<exists>d. p = Some d \<and> device_text ds d = x) (drop 0 ?ps) of None \<Rightarrow> None | Some p \<Rightarrow> p, arr ?ps)"
    by (intro find_device_arr assms(2)) simp_all
  then show ?thesis
    unfolding get_device_by_name_def m capacity_arr nat_int by (simp add: m [symmetric])
qed

lemma registry_lookup:
  assumes "registry ns as (ds, m)" and "text_ok x"
  shows "x \<notin> set ns \<Longrightarrow> get_device_by_name (kstr x) ds m = Some (None, m)"
    and "i < length ns \<Longrightarrow> x = ns ! i \<Longrightarrow> get_device_by_name (kstr x) ds m = Some (Some (as ! i), m)"
proof -
  let ?P = "\<lambda>p. \<exists>d. p = Some d \<and> device_text ds d = x"
  let ?ps = "List.map Some as @ replicate (32 - length as) None"
  have len: "length as = length ns" and dist: "distinct ns" using assms(1) by (simp_all add: registry_def)
  have dt: "device_text ds (as ! i) = ns ! i" if "i < length ns" for i
    using assms(1) that device_text_kstr by (auto simp: registry_def)
  have P: "?P (?ps ! i) \<longleftrightarrow> i < length ns \<and> ns ! i = x" if "i < length ?ps" for i
    using that dt len by (auto simp: nth_append)
  {
    assume "x \<notin> set ns"
    then have "find ?P ?ps = None"
      unfolding find_None_iff using P by (auto simp only: in_set_conv_nth)
    then show "get_device_by_name (kstr x) ds m = Some (None, m)"
      by (simp add: registry_find [OF assms])
  next
    assume i: "i < length ns" "x = ns ! i"
    then have "find ?P ?ps = Some (Some (as ! i))"
      unfolding find_Some_iff using dt dist len
      by (intro exI [of _ i]) (auto simp: nth_append nth_eq_iff_index_eq)
    then show "get_device_by_name (kstr x) ds m = Some (Some (as ! i), m)"
      by (simp add: registry_find [OF assms])
  }
qed

lemma sint_of_nat_small: "n < 2 ^ 31 \<Longrightarrow> sint (of_nat n :: u32) = int n"
proof -
  assume n: "n < 2 ^ 31"
  then have "unat (of_nat n :: u32) = n" by (simp add: unat_word_of_nat_small)
  with n sint_u32_small [of "of_nat n"] show ?thesis by simp
qed

lemma registry_number:
  assumes "registry ns as (ds, m)" and "i < length ns" and "length ns < 2 ^ 31"
  shows "get_device_by_number (of_nat i) m = Some (Some (as ! i), m)"
proof -
  have m: "devices m = arr (List.map Some as @ replicate (32 - length as) None)" and len: "length as = length ns"
    using assms(1) by (simp_all add: registry_def)
  have "sint (of_nat i :: u32) = int i" using assms by (simp add: sint_of_nat_small)
  moreover have "m\<lparr>devices := arr (List.map Some as @ replicate (32 - length as) None)\<rparr> = m"
    using m by (cases m) simp
  ultimately show ?thesis
    using arr_read [of i "List.map Some as @ replicate (32 - length as) None"] assms(2) len
    unfolding get_device_by_number_def m by (simp add: nth_append)
qed

text \<open>A step of the registry: the array has room for the next device, or grows by one element.\<close>

lemma registry_objects:
  assumes "registry ns as (ds, m)" and "store_ok ds'"
    and "\<And>i dv. i < length ns \<Longrightarrow> cells ds (as ! i) = Some dv \<Longrightarrow> cells ds' (as ! i) = Some dv"
  shows "registry ns as (ds', m)"
  using assms by (fastforce simp: registry_def)

lemma get_device_by_name_next:
  "get_device_by_name x ds m = Some (p, m) \<Longrightarrow>
    get_device_by_name x ds (m\<lparr>next_devnum := k\<rparr>) = Some (p, m\<lparr>next_devnum := k\<rparr>)"
  by (cases m) (auto simp: get_device_by_name_def split: Option.bind_splits)

lemma register_device_free:
  assumes "cells ds d = Some dv" and "get_device_by_name (dname dv) ds m = Some (None, m)"
  shows "register_device d ds m = map_option
    (\<lambda>a. (next_devnum m, \<lparr>next_devnum = next_devnum m + 1, devices = a\<rparr>))
    (array_write (sint (next_devnum m)) (Some d) (devices m))"
  using assms(1) get_device_by_name_next [OF assms(2), of "next_devnum m + 1"]
  by (cases m) (auto simp: register_device_def Let_def split: Option.bind_splits)

lemma register_device_taken:
  assumes "cells ds d = Some dv" and "get_device_by_name (dname dv) ds m = Some (Some e, m)"
  shows "register_device d ds m = Some (- 1, m\<lparr>next_devnum := next_devnum m + 1\<rparr>)"
  using assms(1) get_device_by_name_next [OF assms(2), of "next_devnum m + 1"]
  by (simp add: register_device_def Let_def)

text \<open>The constructor of a device, given the result of its registration.\<close>

definition fresh_device :: "kstring \<Rightarrow> u32 \<Rightarrow> device store \<Rightarrow> device store" where
  "fresh_device name k ds = ds\<lparr>cells := (cells ds)(fresh ds \<mapsto> \<lparr>dname = name, dnumber = k, reserved = False\<rparr>),
     fresh := Suc (fresh ds)\<rparr>"

lemma device_new_register:
  assumes "text_ok n"
  shows "device_new (kstr n) (ds, m) = map_option (\<lambda>(k, m1). (fresh ds, fresh_device (kstr n) k ds, m1))
    (register_device (fresh ds) (fresh_device (kstr n) 0 ds) m)"
  using assms
  by (cases "register_device (fresh ds) (fresh_device (kstr n) 0 ds) m")
     (auto simp: device_new_def kstring_copy_kstr new_obj_def fresh_device_def modify_cell)

lemma registry_fresh:
  assumes "registry ns as (ds, m)"
  shows "registry ns as (fresh_device name k ds, m)"
    and "\<And>i. i < length ns \<Longrightarrow> as ! i \<noteq> fresh ds"
proof -
  have ok: "store_ok ds" using assms by (simp add: registry_def)
  show fr: "as ! i \<noteq> fresh ds" if "i < length ns" for i
    using assms that store_ok_fresh [OF ok] by (auto simp: registry_def)
  show "registry ns as (fresh_device name k ds, m)"
    using ok fr by (intro registry_objects [OF assms]) (auto simp: fresh_device_def store_ok_def)
qed

lemma registry_new_device:
  assumes "registry ns as (ds, m)" and "text_ok n" and "n \<notin> set ns" and "length ns < 2 ^ 31"
  shows "\<exists>ds' m'. device_new (kstr n) (ds, m) = Some (fresh ds, ds', m') \<and>
    registry (ns @ [n]) (as @ [fresh ds]) (ds', m')"
proof -
  let ?ps = "List.map Some as @ replicate (32 - length as) None"
  let ?qs = "List.map Some (as @ [fresh ds]) @ replicate (32 - length (as @ [fresh ds])) None"
  let ?m = "\<lparr>next_devnum = next_devnum m + 1, devices = arr ?qs\<rparr>"
  have m: "devices m = arr ?ps" "next_devnum m = of_nat (length ns)" "length as = length ns"
    using assms(1) by (simp_all add: registry_def)
  have "get_device_by_name (kstr n) (fresh_device (kstr n) 0 ds) m = Some (None, m)"
    by (rule registry_lookup(1) [OF registry_fresh(1) [OF assms(1)] assms(2, 3)])
  moreover have "array_write (sint (next_devnum m)) (Some (fresh ds)) (devices m) = Some (arr ?qs)"
  proof -
    have "(if length as < length ?ps then ?ps[length as := Some (fresh ds)] else ?ps @ [Some (fresh ds)]) = ?qs"
    proof (cases "length as < 32")
      case True
      then obtain k where "32 - length as = Suc k" "32 - Suc (length as) = k" by (metis Suc_diff_Suc)
      then show ?thesis by (simp add: list_update_append)
    next
      case False
      then show ?thesis by simp
    qed
    with arr_write [of "length as" ?ps "Some (fresh ds)"] m show ?thesis
      using assms(4) by (simp add: sint_of_nat_small)
  qed
  ultimately have "register_device (fresh ds) (fresh_device (kstr n) 0 ds) m = Some (next_devnum m, ?m)"
    using register_device_free [of "fresh_device (kstr n) 0 ds" "fresh ds" "\<lparr>dname = kstr n, dnumber = 0, reserved = False\<rparr>" m]
    by (simp add: fresh_device_def)
  then have new: "device_new (kstr n) (ds, m) = Some (fresh ds, fresh_device (kstr n) (next_devnum m) ds, ?m)"
    by (simp add: device_new_register [OF assms(2)])
  have "registry ns as (fresh_device (kstr n) (next_devnum m) ds, m)"
    by (rule registry_fresh(1) [OF assms(1)])
  then have "registry (ns @ [n]) (as @ [fresh ds]) (fresh_device (kstr n) (next_devnum m) ds, ?m)"
    using assms(2, 3) registry_fresh(2) [OF assms(1)]
    by (auto simp: registry_def nth_append less_Suc_eq fresh_device_def)
  then show ?thesis using new by blast
qed

lemma registry_new_devices:
  assumes "registry ns as (ds, m)" and "distinct (ns @ xs)" and "\<forall>x \<in> set xs. text_ok x"
    and "length ns + length xs < 2 ^ 31"
  shows "\<exists>bs ds' m'. new_devices xs (ds, m) = Some (bs, ds', m') \<and> registry (ns @ xs) (as @ bs) (ds', m')"
  using assms
proof (induction xs arbitrary: ns as ds m)
  case Nil
  then show ?case by simp
next
  case (Cons x xs)
  then obtain ds1 m1 where 1: "device_new (kstr x) (ds, m) = Some (fresh ds, ds1, m1)"
    "registry (ns @ [x]) (as @ [fresh ds]) (ds1, m1)"
    using registry_new_device [OF Cons.prems(1), of x] by auto
  with Cons.IH [OF 1(2)] Cons.prems obtain bs ds' m' where
    "new_devices xs (ds1, m1) = Some (bs, ds', m')" "registry (ns @ x # xs) (as @ fresh ds # bs) (ds', m')"
    by auto
  with 1 show ?case by simp
qed

lemma registry_empty: "registry [] [] (empty_store, \<lparr>next_devnum = 0, devices = arr (replicate 32 None)\<rparr>)"
  by (simp add: registry_def)

text \<open>
  C24: on a manager whose array was initialised, any number of devices with different names gets
  registered: the array grows as it has to, every name and every number then leads to its device,
  and a name that no device has to the null pointer.
\<close>

theorem device_registry:
  assumes "0 \<le> g" and "g \<le> 32" and "distinct ns" and "\<forall>n \<in> set ns. text_ok n" and "length ns < 2 ^ 31"
  shows "\<exists>m0 as ds m. device_mgr_new g = Some m0 \<and> new_devices ns (empty_store, m0) = Some (as, ds, m) \<and>
    length as = length ns \<and>
    (\<forall>i < length ns. get_device_by_name (kstr (ns ! i)) ds m = Some (Some (as ! i), m) \<and>
       get_device_by_number (of_nat i) m = Some (Some (as ! i), m)) \<and>
    (\<forall>n. text_ok n \<and> n \<notin> set ns \<longrightarrow> get_device_by_name (kstr n) ds m = Some (None, m))"
proof -
  obtain as ds m where n: "new_devices ns (empty_store, \<lparr>next_devnum = 0, devices = arr (replicate 32 None)\<rparr>) = Some (as, ds, m)"
    and r: "registry ns as (ds, m)"
    using registry_new_devices [OF registry_empty, of ns] assms by auto
  have "text_ok (ns ! i)" if "i < length ns" for i using assms(4) that by simp
  with n r registry_lookup [OF r] registry_number [OF r] assms show ?thesis
    by (auto simp: device_mgr_new_small registry_def)
qed

lemma device_registry_witness:
  "\<exists>m0 as ds m. device_mgr_new 5 = Some m0 \<and>
     new_devices [ascii ''uart2'', ascii ''sd0''] (empty_store, m0) = Some (as, ds, m) \<and>
     get_device_by_name (kstr (ascii ''sd0'')) ds m = Some (Some (as ! 1), m)"
  using device_registry [of 5 "[ascii ''uart2'', ascii ''sd0'']"]
  by (fastforce simp: ascii_def text_ok_def)

text \<open>
  A registration refused for its name uses up a number all the same. Once the array is full,
  the next device gets a number beyond the element the array grows by, and its registration
  writes outside the array.
\<close>

theorem refused_registration_breaks_next:
  assumes "0 \<le> g" and "g \<le> 32" and "distinct ns" and "\<forall>n \<in> set ns. text_ok n" and "length ns < 2 ^ 31 - 1"
    and "32 \<le> length ns" and "x \<in> set ns" and "y \<notin> set ns" and "text_ok y"
  shows "\<exists>m0 as ds m. device_mgr_new g = Some m0 \<and> new_devices (ns @ [x]) (empty_store, m0) = Some (as, ds, m) \<and>
    map_option dnumber (cells ds (last as)) = Some (- 1) \<and> device_new (kstr y) (ds, m) = None"
proof -
  define m0 where "m0 = \<lparr>next_devnum = 0, devices = arr (replicate 32 None)\<rparr>"
  obtain as ds m where n: "new_devices ns (empty_store, m0) = Some (as, ds, m)" and r: "registry ns as (ds, m)"
    using registry_new_devices [OF registry_empty, of ns] assms by (auto simp: m0_def)
  have m: "devices m = arr (List.map Some as)" "next_devnum m = of_nat (length ns)" "length as = length ns"
    using r assms(6) by (simp_all add: registry_def)
  obtain i where i: "i < length ns" "x = ns ! i" using assms(7) by (auto simp: in_set_conv_nth)
  define m1 where "m1 = m\<lparr>next_devnum := next_devnum m + 1\<rparr>"
  define ds1 where "ds1 = fresh_device (kstr x) (- 1) ds"
  have r0: "registry ns as (fresh_device (kstr z) k ds, m)" for z k by (rule registry_fresh(1) [OF r])
  have x: "text_ok x" using assms(4, 7) by blast
  have "get_device_by_name (kstr x) (fresh_device (kstr x) 0 ds) m = Some (Some (as ! i), m)"
    by (rule registry_lookup(2) [OF r0 x i])
  then have "register_device (fresh ds) (fresh_device (kstr x) 0 ds) m = Some (- 1, m1)"
    using register_device_taken [of "fresh_device (kstr x) 0 ds" "fresh ds" "\<lparr>dname = kstr x, dnumber = 0, reserved = False\<rparr>" m]
    by (simp add: fresh_device_def m1_def)
  then have 1: "device_new (kstr x) (ds, m) = Some (fresh ds, ds1, m1)"
    by (simp add: device_new_register [OF x] ds1_def)
  have "get_device_by_name (kstr y) (fresh_device (kstr y) 0 ds1) m = Some (None, m)"
    unfolding ds1_def by (rule registry_lookup(1) [OF registry_fresh(1) [OF r0] assms(9, 8)])
  then have "get_device_by_name (kstr y) (fresh_device (kstr y) 0 ds1) m1 = Some (None, m1)"
    unfolding m1_def by (rule get_device_by_name_next)
  moreover have "sint (next_devnum m1) = int (Suc (length ns))"
    using sint_of_nat_small [of "Suc (length ns)"] assms(5) m by (simp add: m1_def add.commute)
  moreover have "array_write (int (Suc (length ns))) (Some (fresh ds1)) (devices m1) = None"
    using m by (simp add: m1_def arr_write_beyond del: of_nat_Suc)
  ultimately have "device_new (kstr y) (ds1, m1) = None"
    using register_device_free [of "fresh_device (kstr y) 0 ds1" "fresh ds1" "\<lparr>dname = kstr y, dnumber = 0, reserved = False\<rparr>" m1]
    by (simp add: device_new_register [OF assms(9)] fresh_device_def)
  moreover have "new_devices (ns @ [x]) (empty_store, m0) = Some (as @ [fresh ds], ds1, m1)"
    by (simp add: new_devices_append n 1)
  ultimately show ?thesis
    using assms(1, 2) by (auto simp: device_mgr_new_small m0_def ds1_def fresh_device_def)
qed

lemma refused_registration_breaks_next_witness:
  "\<exists>m0 as ds m. device_mgr_new 0 = Some m0 \<and>
     new_devices (List.map (\<lambda>i. [of_nat (Suc i)]) [0..<32] @ [[1]]) (empty_store, m0) = Some (as, ds, m) \<and>
     device_new (kstr (ascii ''sd0'')) (ds, m) = None"
proof -
  let ?ns = "List.map (\<lambda>i. [of_nat (Suc i)]) [0..<32] :: bytes list"
  have of_nat: "unat (of_nat (Suc i) :: u8) = Suc i" if "i < 32" for i
    using that by (simp add: unat_word_of_nat_small del: of_nat_Suc)
  have "distinct ?ns"
    unfolding distinct_map by (auto intro!: inj_onI dest: arg_cong [of _ _ unat] simp: of_nat simp del: of_nat_Suc)
  moreover have "\<forall>n \<in> set ?ns. text_ok n"
    using of_nat by (auto simp: text_ok_def simp del: of_nat_Suc dest: arg_cong [of _ _ unat])
  moreover have "[1] \<in> set ?ns" by (auto simp: image_iff intro!: bexI [of _ 0])
  moreover have "ascii ''sd0'' \<notin> set ?ns" "text_ok (ascii ''sd0'')" by (auto simp: ascii_def text_ok_def)
  ultimately show ?thesis
    using refused_registration_breaks_next [of 0 ?ns "[1]" "ascii ''sd0''"] by auto
qed

end
