(* ===== verification/Kernel_Devices.thy ===== *)
theory Kernel_Devices
  imports Mmu Uart Timer Device_Mgr
begin

text \<open>
  The static initialisation of the drivers: the registers of the serial ports and of the timers
  are mapped into the kernel's address space, one page each, in the order of the arrays
  \<open>uart_base\<close> and \<open>timer_base\<close>, and the objects of the drivers are constructed over them. Every
  such object is a device: its constructor first enters its name in the registry of devices.
\<close>

definition uart_physical :: "u32 list" where
  "uart_physical = [0x4906a000, 0x4806c000, 0x49020000, 0x49042000]"

definition timer_physical :: "u32 list" where
  "timer_physical = [0x48318000, 0x49032000, 0x49034000, 0x49036000, 0x49038000, 0x4903a000,
     0x4903c000, 0x4903e000, 0x49040000, 0x48086000, 0x48088000]"

primrec map_devices :: "(u32 \<Rightarrow> u32) \<Rightarrow> u32 list \<Rightarrow> mmu \<Rightarrow> (u32 list \<times> mmu) option" where
  "map_devices par [] s = Some ([], s)"
| "map_devices par (p # ps) s = do {
     (v, s1) \<leftarrow> map_device par p 4096 s;
     (vs, s2) \<leftarrow> map_devices par ps s1;
     Some (v # vs, s2) }"

text \<open>The constructor of the base class, given a literal.\<close>

definition named_device :: "bytes \<Rightarrow> device store \<times> device_mgr \<Rightarrow> (device store \<times> device_mgr) option" where
  "named_device text s = do { name \<leftarrow> kstring_c (cstr text); (d, s1) \<leftarrow> device_new name s; Some s1 }"

definition timer_names :: "bytes list" where
  "timer_names = map ascii [''timer0'', ''timer1'', ''timer2'', ''timer3'', ''timer4'', ''timer5'', ''timer6'',
     ''timer7'', ''timer8'', ''timer9'', ''timer10'']"

definition uart_names :: "bytes list" where
  "uart_names = map ascii [''uart0'', ''uart1'', ''uart2'', ''uart3'']"

text \<open>The arrays of objects; a module has its name and the address of its registers.\<close>

primrec timer_modules_new :: "'d hardware \<Rightarrow> int \<Rightarrow> (bytes \<times> u32) list \<Rightarrow> (device store \<times> device_mgr) \<times> 'd bus \<Rightarrow>
    ('c timer list \<times> (device store \<times> device_mgr) \<times> 'd bus) option" where
  "timer_modules_new hw n [] s = Some ([], s)"
| "timer_modules_new hw n (m # ms) s = do {
     s1 \<leftarrow> named_device (fst m) (fst s);
     (t, b1) \<leftarrow> timer_new hw n (snd m) (snd s);
     (ts, s2) \<leftarrow> timer_modules_new hw (n + 1) ms (s1, b1);
     Some (t # ts, s2) }"

text \<open>The handler of a port is the value \<open>h\<close> of its number.\<close>

primrec uart_modules_new :: "'d hardware \<Rightarrow> (int \<Rightarrow> 'h) \<Rightarrow> int \<Rightarrow> (bytes \<times> u32) list \<Rightarrow>
    (device store \<times> device_mgr) \<times> 'h irq_handler \<times> 'd bus \<Rightarrow>
    ((device store \<times> device_mgr) \<times> 'h irq_handler \<times> 'd bus) option" where
  "uart_modules_new hw h n [] s = Some s"
| "uart_modules_new hw h n (m # ms) s = do {
     s1 \<leftarrow> named_device (fst m) (fst s);
     r \<leftarrow> uart_new hw (h n) n (snd m) (snd s);
     uart_modules_new hw h (n + 1) ms (s1, r) }"

lemma page_no_add: "unat a + 4096 * n < 2 ^ 32 \<Longrightarrow> page_no (a + 4096 * of_nat n) = page_no a + n"
proof -
  assume a: "unat a + 4096 * n < 2 ^ 32"
  then have "unat (4096 * of_nat n :: u32) = 4096 * n" by (simp add: unat_word_ariths(2) unat_of_nat)
  with a show ?thesis by (simp add: page_no_def unat_add_small)
qed

text \<open>
  The effect of mapping devices with the page addresses \<open>ps\<close>: they have the next pages of the device space, in order,
  and all other translations stay. Two such steps compose to one.
\<close>

definition device_step :: "(u32 \<Rightarrow> u32) \<Rightarrow> nat \<Rightarrow> nat \<Rightarrow> (u32 \<times> u32) list \<Rightarrow> u32 list \<Rightarrow> mmu \<Rightarrow> mmu \<Rightarrow> bool" where
  "device_step par lo hi xs ps s s' \<longleftrightarrow> kernel_table s' = kernel_table s \<and>
     tt_core par lo hi xs (kernel_table s') (kmem s') \<and> mmem (kmem s') = mmem (kmem s) \<and>
     next_device_addr s' = next_device_addr s + 4096 * of_nat (length ps) \<and>
     (\<forall>v d. translates par (kernel_table s') (kmem s') v d \<longleftrightarrow>
       (if page_no (next_device_addr s) \<le> page_no v \<and> page_no v < page_no (next_device_addr s) + length ps
        then d = page_entry (ps ! (page_no v - page_no (next_device_addr s))) RW_NA DEVICE False
        else translates par (kernel_table s) (kmem s) v d))"

definition tables_present :: "translation_table \<Rightarrow> u32 \<Rightarrow> nat \<Rightarrow> bool" where
  "tables_present tt a n \<longleftrightarrow> (\<forall>v. page_no a \<le> page_no v \<and> page_no v < page_no a + n \<longrightarrow>
     (\<exists>e. read_l1 tt v = Some e \<and> e AND 1 \<noteq> 0))"

lemma device_step_refl: "tt_core par lo hi xs (kernel_table s) (kmem s) \<Longrightarrow> device_step par lo hi xs [] s s"
  by (auto simp: device_step_def)

lemma device_step_simps:
  assumes "device_step par lo hi xs ps s s'"
  shows "kernel_table s' = kernel_table s" and "tt_core par lo hi xs (kernel_table s') (kmem s')" and "mmem (kmem s') = mmem (kmem s)"
    and "next_device_addr s' = next_device_addr s + 4096 * of_nat (length ps)"
    and "translates par (kernel_table s') (kmem s') v d \<longleftrightarrow>
       (if page_no (next_device_addr s) \<le> page_no v \<and> page_no v < page_no (next_device_addr s) + length ps
        then d = page_entry (ps ! (page_no v - page_no (next_device_addr s))) RW_NA DEVICE False
        else translates par (kernel_table s) (kmem s) v d)"
  using assms unfolding device_step_def by blast+

lemma device_step_trans:
  assumes "device_step par lo hi xs ps s s1" and "device_step par lo hi xs qs s1 s2"
    and "unat (next_device_addr s) + 4096 * (length ps + length qs) < 2 ^ 32"
  shows "device_step par lo hi xs (ps @ qs) s s2"
proof -
  let ?a = "next_device_addr s"
  note 1 = device_step_simps [OF assms(1)] and 2 = device_step_simps [OF assms(2)]
  have no: "page_no (next_device_addr s1) = page_no ?a + length ps"
    unfolding 1(4) using assms(3) by (intro page_no_add) simp
  have "translates par (kernel_table s2) (kmem s2) v d \<longleftrightarrow> (if page_no ?a \<le> page_no v \<and> page_no v < page_no ?a + length (ps @ qs)
      then d = page_entry ((ps @ qs) ! (page_no v - page_no ?a)) RW_NA DEVICE False
      else translates par (kernel_table s) (kmem s) v d)" for v d
    unfolding 2(5) no 1(5) by (auto simp: nth_append)
  then show ?thesis using 1(1, 3, 4) 2(1-4) unfolding device_step_def by (simp add: algebra_simps)
qed

text \<open>One device of some pages.\<close>

lemma map_device_step:
  assumes "tt_core par lo hi xs (kernel_table s) (kmem s)" and "unat p + 4096 * n < 2 ^ 32"
    and "unat (next_device_addr s) + 4096 * n < 2 ^ 32" and "tables_present (kernel_table s) (next_device_addr s) n"
  shows "\<exists>s'. map_device par p (4096 * of_nat n) s = Some (next_device_addr s, s') \<and>
    device_step par lo hi xs (map (\<lambda>i. p + 4096 * of_nat i) [0..<n]) s s'"
proof -
  let ?a = "next_device_addr s"
  have "unat (4096 * of_nat n :: u32) = 4096 * n" using assms(2) by (simp add: unat_word_ariths(2) unat_of_nat)
  then have "unat p + 4096 * n = unat (p + 4096 * of_nat n)" using assms(2) by (simp add: unat_add_small)
  moreover have "\<exists>e. read_l1 (kernel_table s) v = Some e \<and> e AND 1 \<noteq> 0"
    if "page_no ?a \<le> page_no v" "page_no v < page_no ?a + n" for v
    using assms(4) that by (simp add: tables_present_def)
  ultimately have "\<exists>mem'. map_interval par p (p + 4096 * of_nat n) ?a RW_NA DEVICE False (kernel_table s, kmem s) =
      Some (kernel_table s, mem') \<and> tt_core par lo hi xs (kernel_table s) mem' \<and> mmem mem' = mmem (kmem s) \<and>
      dom (tables mem') = dom (tables (kmem s)) \<and>
    (\<forall>v d. translates par (kernel_table s) mem' v d \<longleftrightarrow>
      (if page_no ?a \<le> page_no v \<and> page_no v < page_no ?a + n
       then d = page_entry (p + 4096 * word_of_nat (page_no v - page_no ?a)) RW_NA DEVICE False
       else translates par (kernel_table s) (kmem s) v d))"
    unfolding map_interval_def using assms(3) by (intro map_interval_loop_present [OF assms(1)])
  then show ?thesis by (auto simp: map_device_def device_step_def)
qed

lemma map_devices_step:
  assumes "tt_core par lo hi xs (kernel_table s) (kmem s)" and "\<forall>p \<in> set ps. unat p + 4096 < 2 ^ 32"
    and "unat (next_device_addr s) + 4096 * length ps < 2 ^ 32" and "tables_present (kernel_table s) (next_device_addr s) (length ps)"
  shows "\<exists>s'. map_devices par ps s = Some (map (\<lambda>i. next_device_addr s + 4096 * of_nat i) [0..<length ps], s') \<and>
    device_step par lo hi xs ps s s'"
  using assms
proof (induction ps arbitrary: s)
  case Nil
  then show ?case by (auto intro: device_step_refl)
next
  case (Cons p ps)
  let ?a = "next_device_addr s"
  have small: "unat p + 4096 * 1 < 2 ^ 32" "unat ?a + 4096 * 1 < 2 ^ 32" using Cons.prems(2, 3) by simp_all
  have "tables_present (kernel_table s) ?a 1" using Cons.prems(4) by (simp add: tables_present_def)
  from map_device_step [OF Cons.prems(1) small this] obtain s1 where
    1: "map_device par p 4096 s = Some (?a, s1)" "device_step par lo hi xs [p] s s1" by auto
  have s1: "kernel_table s1 = kernel_table s" "tt_core par lo hi xs (kernel_table s1) (kmem s1)" "next_device_addr s1 = ?a + 4096"
    using device_step_simps [OF 1(2)] by simp_all
  have no: "page_no (next_device_addr s1) = Suc (page_no ?a)" using page_no_add [OF small(2)] s1(3) by simp
  have "\<exists>s'. map_devices par ps s1 = Some (map (\<lambda>i. next_device_addr s1 + 4096 * of_nat i) [0..<length ps], s') \<and>
      device_step par lo hi xs ps s1 s'"
    using Cons.prems(2-4) s1 no by (intro Cons.IH) (simp_all add: unat_add_small tables_present_def)
  then obtain s' where 2: "map_devices par ps s1 = Some (map (\<lambda>i. ?a + 4096 + 4096 * of_nat i) [0..<length ps], s')"
    "device_step par lo hi xs ps s1 s'" unfolding s1(3) by blast
  have "map (\<lambda>i. ?a + 4096 * of_nat i) [0..<length (p # ps)] = ?a # map (\<lambda>i. ?a + 4096 + 4096 * of_nat i) [0..<length ps]"
    by (simp add: upt_conv_Cons map_Suc_upt [symmetric] comp_def algebra_simps del: upt_Suc)
  then have "map_devices par (p # ps) s = Some (map (\<lambda>i. ?a + 4096 * of_nat i) [0..<length (p # ps)], s')"
    using 1(1) 2(1) by (simp del: upt_Suc)
  moreover have "device_step par lo hi xs ([p] @ ps) s s'"
    using Cons.prems(3) by (intro device_step_trans [OF 1(2) 2(2)]) simp
  ultimately show ?case by auto
qed

text \<open>
  C21: mapping devices gives them consecutive pages of the kernel's device space, in order; each of
  these pages translates to the registers of its device, for the kernel only and as device memory,
  and every other translation stays. The page tables of the device space are present.
\<close>

theorem device_pages:
  assumes "tt_core par lo hi xs (kernel_table s) (kmem s)"
    and "\<forall>p \<in> set ps. unat p + 4096 < 2 ^ 32" and "unat (next_device_addr s) + 4096 * length ps < 2 ^ 32"
    and "\<And>v. page_no (next_device_addr s) \<le> page_no v \<Longrightarrow> page_no v < page_no (next_device_addr s) + length ps \<Longrightarrow>
      \<exists>e. read_l1 (kernel_table s) v = Some e \<and> e AND 1 \<noteq> 0"
  shows "\<exists>s'. map_devices par ps s = Some (List.map (\<lambda>i. next_device_addr s + 4096 * of_nat i) [0..<length ps], s') \<and>
    kernel_table s' = kernel_table s \<and> next_device_addr s' = next_device_addr s + 4096 * of_nat (length ps) \<and>
    (\<forall>v d. translates par (kernel_table s') (kmem s') v d \<longleftrightarrow>
      (if page_no (next_device_addr s) \<le> page_no v \<and> page_no v < page_no (next_device_addr s) + length ps
       then d = page_entry (ps ! (page_no v - page_no (next_device_addr s))) RW_NA DEVICE False
       else translates par (kernel_table s) (kmem s) v d))"
proof -
  have "tables_present (kernel_table s) (next_device_addr s) (length ps)" using assms(4) by (simp add: tables_present_def)
  from map_devices_step [OF assms(1-3) this] show ?thesis unfolding device_step_def by blast
qed

lemma device_pages_witness:
  "\<exists>s s'. map_devices (\<lambda>p. p) uart_physical s = Some ([0x8000, 0x9000, 0xa000, 0xb000], s') \<and>
     translates (\<lambda>p. p) (kernel_table s') (kmem s') 0xa014 (page_entry 0x49020000 RW_NA DEVICE False)"
proof -
  obtain d where inv: "tt_inv (\<lambda>p. p) 0x13f0 [(0x13f0, 0x400, True)] 0x1800 [(0x1400, 0x1400)]
     \<lparr>table = (replicate 16 0)[0 := 0x1401], tdirectory = d\<rparr> one_table_mem" (is "tt_inv _ _ _ _ _ ?tt _")
    using one_table_inv by blast
  define s where "s = \<lparr>kernel_table = ?tt, kmem = one_table_mem, next_device_addr = 0x8000,
    current_application_table = 0, asid = 0,
    ttbcr = 0, ttbr0 = 0, ttbr1 = 0, dacr = 0, contextidr = 0\<rparr>"
  have no: "page_no 0x8000 = 8" "page_no 0xa014 = 10" by (simp_all add: page_no_def)
  have present: "\<exists>e. read_l1 ?tt v = Some e \<and> e AND 1 \<noteq> 0" if "page_no v < 8 + length uart_physical" for v
  proof -
    have "unat v < 2 ^ 20" using that by (simp add: uart_physical_def page_no_def)
    then have "table_index v = 0" by (simp add: index_arith(1))
    then show ?thesis by (simp add: read_l1_def)
  qed
  have "\<exists>s'. map_devices (\<lambda>p. p) uart_physical s =
      Some (List.map (\<lambda>i. next_device_addr s + 4096 * of_nat i) [0..<length uart_physical], s') \<and>
    kernel_table s' = kernel_table s \<and> next_device_addr s' = next_device_addr s + 4096 * of_nat (length uart_physical) \<and>
    (\<forall>v d. translates (\<lambda>p. p) (kernel_table s') (kmem s') v d \<longleftrightarrow>
      (if page_no (next_device_addr s) \<le> page_no v \<and> page_no v < page_no (next_device_addr s) + length uart_physical
       then d = page_entry (uart_physical ! (page_no v - page_no (next_device_addr s))) RW_NA DEVICE False
       else translates (\<lambda>p. p) (kernel_table s) (kmem s) v d))"
    using tt_inv_core [OF inv] present by (intro device_pages) (simp_all add: s_def no uart_physical_def)
  then obtain s' where "map_devices (\<lambda>p. p) uart_physical s =
      Some (List.map (\<lambda>i. next_device_addr s + 4096 * of_nat i) [0..<length uart_physical], s')"
    and tr: "\<And>v d. translates (\<lambda>p. p) (kernel_table s') (kmem s') v d \<longleftrightarrow>
      (if page_no (next_device_addr s) \<le> page_no v \<and> page_no v < page_no (next_device_addr s) + length uart_physical
       then d = page_entry (uart_physical ! (page_no v - page_no (next_device_addr s))) RW_NA DEVICE False
       else translates (\<lambda>p. p) (kernel_table s) (kmem s) v d)"
    by blast
  moreover have "List.map (\<lambda>i. next_device_addr s + 4096 * of_nat i) [0..<length uart_physical] = [0x8000, 0x9000, 0xa000, 0xb000]"
    by (simp add: s_def uart_physical_def upt_rec)
  moreover have "translates (\<lambda>p. p) (kernel_table s') (kmem s') 0xa014 (page_entry 0x49020000 RW_NA DEVICE False)"
    unfolding tr by (simp add: s_def no uart_physical_def)
  ultimately show ?thesis by metis
qed

section \<open>The modules\<close>

text \<open>A register that is read as busy only finitely often, as the measure \<open>f\<close> of the hardware bounds.\<close>

definition settles :: "'d hardware \<Rightarrow> u32 \<Rightarrow> (u32 \<Rightarrow> bool) \<Rightarrow> ('d \<Rightarrow> nat) \<Rightarrow> bool" where
  "settles hw a busy f \<longleftrightarrow> (\<forall>d. busy (fst (hw_read hw a d)) \<longrightarrow> f (snd (hw_read hw a d)) < f d)"

lemma settles_read:
  assumes "settles hw (base + off) busy f" and "io_read hw base off b = (v, b1)" and "busy v"
  shows "f (dev b1) < f (dev b)"
  using assms io_read_trace(2, 3) [of hw base off b] by (simp add: settles_def)

lemma wait_for_bit_settles:
  assumes "settles hw (base + off) (\<lambda>v. v AND msk = 0) f"
  shows "\<exists>b'. wait_for_bit hw msk base off b = Some b'"
proof (induction "f (dev b)" arbitrary: b rule: less_induct)
  case less
  obtain v b1 where r: "io_read hw base off b = (v, b1)" by fastforce
  show ?case
  proof (cases "v AND msk = 0")
    case True
    from less.hyps [OF settles_read [OF assms r this]] True r show ?thesis by (subst wait_for_bit.simps) simp
  next
    case False
    with r show ?thesis by (subst wait_for_bit.simps) simp
  qed
qed

lemma wait_while_settles:
  assumes "settles hw (base + off) (\<lambda>v. (ucast v :: u8) AND msk \<noteq> 0) f"
  shows "\<exists>b'. wait_while hw msk base off b = Some b'"
proof (induction "f (dev b)" arbitrary: b rule: less_induct)
  case less
  obtain v b1 where r: "io_read hw base off b = (v, b1)" by fastforce
  show ?case
  proof (cases "(ucast v :: u8) AND msk \<noteq> 0")
    case True
    from less.hyps [OF settles_read [OF assms r this]] True r show ?thesis
      by (subst wait_while.simps) (simp add: io_read8_def)
  next
    case False
    with r show ?thesis by (subst wait_while.simps) (simp add: io_read8_def)
  qed
qed

text \<open>A device with a new name is entered behind the others.\<close>

lemma named_device_registry:
  assumes "registry ns as s" and "text_ok n" and "n \<notin> set ns" and "length ns < 2 ^ 31"
  shows "\<exists>a s'. named_device n s = Some s' \<and> registry (ns @ [n]) (as @ [a]) s'"
proof -
  obtain ds m where s: "s = (ds, m)" by (cases s)
  from registry_new_device [OF assms(1) [unfolded s] assms(2-4)] show ?thesis
    using assms(2) by (auto simp: named_device_def s kstr_simps)
qed

lemma timer_modules_reset:
  assumes "\<forall>m \<in> set ms. settles hw (snd m + tistat) (\<lambda>v. v AND tistat_resetdone = 0) f"
    and "registry ns as s" and "distinct (ns @ map fst ms)" and "\<forall>m \<in> set ms. text_ok (fst m)"
    and "length ns + length ms < 2 ^ 31"
  shows "\<exists>(ts :: 'c timer list) bs s' b'. timer_modules_new hw n ms (s, b) = Some (ts, s', b') \<and> length ts = length ms \<and>
    registry (ns @ map fst ms) (as @ bs) s' \<and>
    (\<forall>i < length ms. ts ! i = \<lparr>module = n + int i, mode = disabled, tcallback = None, interval = 0, tbase = snd (ms ! i)\<rparr>)"
  using assms
proof (induction ms arbitrary: n b ns as s)
  case Nil
  then show ?case by (auto intro: exI [of _ "[]"])
next
  case (Cons m ms)
  obtain x base where m: "m = (x, base)" by (cases m)
  let ?t = "\<lparr>module = n, mode = disabled, tcallback = None, interval = 0, tbase = base\<rparr> :: 'c timer"
  obtain a s1 where d: "named_device x s = Some s1" "registry (ns @ [x]) (as @ [a]) s1"
    using named_device_registry [OF Cons.prems(2), of x] Cons.prems(3-5) m by auto
  have "settles hw (base + tistat) (\<lambda>v. v AND tistat_resetdone = 0) f" using Cons.prems(1) m by simp
  from wait_for_bit_settles [OF this, of "io_write hw tiocp_softreset base tiocp_cfg b"]
  obtain b1 where 1: "timer_new hw n base b = Some (?t, b1)" by (auto simp: timer_new_def)
  obtain ts :: "'c timer list" and bs s' b' where 2: "timer_modules_new hw (n + 1) ms (s1, b1) = Some (ts, s', b')"
    "length ts = length ms" "registry ((ns @ [x]) @ map fst ms) ((as @ [a]) @ bs) s'"
    "\<forall>i < length ms. ts ! i = \<lparr>module = n + 1 + int i, mode = disabled, tcallback = None, interval = 0, tbase = snd (ms ! i)\<rparr>"
    using Cons.IH [OF _ d(2), of "n + 1" b1] Cons.prems m by auto
  have "(?t # ts) ! i = \<lparr>module = n + int i, mode = disabled, tcallback = None, interval = 0, tbase = snd ((m # ms) ! i)\<rparr>"
    if "i < length (m # ms)" for i
    using 2(4) that m by (cases i) simp_all
  moreover have "timer_modules_new hw n (m # ms) (s, b) = Some (?t # ts, s', b')" using d(1) 1 2(1) m by simp
  moreover have "registry (ns @ map fst (m # ms)) (as @ (a # bs)) s'" using 2(3) m by simp
  ultimately show ?case using 2(2) by (metis length_Cons)
qed

lemma register_handler_known:
  assumes "0 \<le> n" and "nat n < length (irq_handlers ih)"
  shows "\<exists>ih' b'. register_handler hw h n p (ih, b) = Some (ih', b') \<and> intc_base ih' = intc_base ih \<and>
    length (irq_handlers ih') = length (irq_handlers ih)"
  using assms by (simp add: register_handler_def set_handler_def Let_def)

lemma uart_new_reset:
  assumes "settles hw (base + uart_sysc) (\<lambda>v. (ucast v :: u8) AND sysc_softreset \<noteq> 0) f"
    and "length (irq_handlers ih) = number_of_irqs"
  shows "\<exists>ih1 b1. uart_new hw (h n) n base (ih, b) = Some (ih1, b1) \<and> intc_base ih1 = intc_base ih \<and>
      length (irq_handlers ih1) = number_of_irqs"
proof (cases "n = 2")
  case True
  from wait_while_settles [OF assms(1), of "or_register8 hw sysc_softreset base uart_sysc b"]
  obtain b1 where 1: "wait_while hw sysc_softreset base uart_sysc (or_register8 hw sysc_softreset base uart_sysc b) = Some b1" by blast
  have n: "0 \<le> uart_irq_base + n" "nat (uart_irq_base + n) < length (irq_handlers ih)"
    using True assms(2) by (simp_all add: uart_irq_base_def number_of_irqs_def)
  have "\<exists>b8. uart_new hw (h n) n base (ih, b) = do {
      (ih1, b9) \<leftarrow> register_handler hw (h n) (uart_irq_base + n) priority_mid (ih, b8);
      Some (ih1, io_write8 hw 0 base uart_mdr1 (or_register8 hw ier_rhr_it base uart_ier b9)) }"
    unfolding uart_new_def Let_def using 1 True by (simp only: simp_thms if_False split bind.bind_lunit) (rule exI, rule refl)
  then obtain b8 where 2: "uart_new hw (h n) n base (ih, b) = do {
      (ih1, b9) \<leftarrow> register_handler hw (h n) (uart_irq_base + n) priority_mid (ih, b8);
      Some (ih1, io_write8 hw 0 base uart_mdr1 (or_register8 hw ier_rhr_it base uart_ier b9)) }" ..
  obtain ih1 b9 where "register_handler hw (h n) (uart_irq_base + n) priority_mid (ih, b8) = Some (ih1, b9)"
    "intc_base ih1 = intc_base ih" "length (irq_handlers ih1) = length (irq_handlers ih)"
    using register_handler_known [OF n, of hw "h n" priority_mid b8] by blast
  then show ?thesis using 2 assms(2) by simp
qed (use assms(2) in \<open>simp add: uart_new_def\<close>)

lemma uart_modules_reset:
  assumes "\<forall>m \<in> set ms. settles hw (snd m + uart_sysc) (\<lambda>v. (ucast v :: u8) AND sysc_softreset \<noteq> 0) f"
    and "length (irq_handlers ih) = number_of_irqs"
    and "registry ns as s" and "distinct (ns @ map fst ms)" and "\<forall>m \<in> set ms. text_ok (fst m)"
    and "length ns + length ms < 2 ^ 31"
  shows "\<exists>bs s' ih' b'. uart_modules_new hw h n ms (s, ih, b) = Some (s', ih', b') \<and> intc_base ih' = intc_base ih \<and>
    length (irq_handlers ih') = number_of_irqs \<and> registry (ns @ map fst ms) (as @ bs) s'"
  using assms
proof (induction ms arbitrary: n ih b ns as s)
  case Nil
  then show ?case by (auto intro: exI [of _ "[]"])
next
  case (Cons m ms)
  obtain x base where m: "m = (x, base)" by (cases m)
  obtain a s1 where d: "named_device x s = Some s1" "registry (ns @ [x]) (as @ [a]) s1"
    using named_device_registry [OF Cons.prems(3), of x] Cons.prems(4-6) m by auto
  have "settles hw (base + uart_sysc) (\<lambda>v. (ucast v :: u8) AND sysc_softreset \<noteq> 0) f" using Cons.prems(1) m by simp
  from uart_new_reset [OF this Cons.prems(2)] obtain ih1 b1 where
    1: "uart_new hw (h n) n base (ih, b) = Some (ih1, b1)" "intc_base ih1 = intc_base ih"
      "length (irq_handlers ih1) = number_of_irqs" by blast
  obtain bs s' ih' b' where 2: "uart_modules_new hw h (n + 1) ms (s1, ih1, b1) = Some (s', ih', b')" "intc_base ih' = intc_base ih1"
    "length (irq_handlers ih') = number_of_irqs" "registry ((ns @ [x]) @ map fst ms) ((as @ [a]) @ bs) s'"
    using Cons.IH [OF _ 1(3) d(2), of "n + 1" b1] Cons.prems m by auto
  have "uart_modules_new hw h n (m # ms) (s, ih, b) = Some (s', ih', b')" using d(1) 1(1) 2(1) m by simp
  moreover have "registry (ns @ map fst (m # ms)) (as @ (a # bs)) s'" using 2(4) m by simp
  ultimately show ?case using 1(2) 2(2, 3) by metis
qed

end
