(* ===== verification/Kernel_Messages.thy ===== *)
theory Kernel_Messages
  imports Kstream Scheduler Io_Operation Vfs
begin

text \<open>
  What the kernel prints at its start, in a panic, in the abort handlers and for a register block
  (\<open>kernel/kernel.cpp\<close>, \<open>kernel/aborts.cpp\<close>, \<open>kernel/register_contents.cpp\<close>), over any stream, and
  the wrappers of the system calls in the library of the applications (\<open>library/*.c\<close>). The fault
  registers of the coprocessor are arguments; the system call instruction is the argument \<open>svc\<close>.
\<close>

unbundle bit_operations_syntax

definition put_literal :: "'s put_char \<Rightarrow> string \<Rightarrow> 's \<Rightarrow> 's option" where
  "put_literal put t s = put_string put (cstr (ascii t)) 0 s"

definition put_newline :: "'s put_char \<Rightarrow> 's \<Rightarrow> 's option" where
  "put_newline put s = put_string put (cstr newline) 0 s"

section \<open>Messages\<close>

definition kernel_heading :: "'s put_char \<Rightarrow> 's \<Rightarrow> 's option" where
  "kernel_heading put s = do {
     s1 \<leftarrow> put_literal put ''Welcome to Wagtail OS v'' s;
     s2 \<leftarrow> put_int put 0 s1;
     s3 \<leftarrow> put 0x2e s2;
     s4 \<leftarrow> put_int put 1 s3;
     s5 \<leftarrow> put_literal put '' :-)'' s4;
     put_newline put s5 }"

definition panic_message :: "'s put_char \<Rightarrow> 's \<Rightarrow> 's option" where
  "panic_message put s = do {
     s1 \<leftarrow> put_newline put s;
     s2 \<leftarrow> put_literal put ''*** KERNEL PANIC ***'' s1;
     s3 \<leftarrow> put_newline put s2;
     s4 \<leftarrow> put_literal put ''A fatal error occurred, and Wagtail cannot recover.'' s3;
     s5 \<leftarrow> put_newline put s4;
     s6 \<leftarrow> put_literal put ''Reboot and try again.'' s5;
     s7 \<leftarrow> put_newline put s6;
     put_newline put s7 }"

definition data_abort :: "'s put_char \<Rightarrow> u32 \<Rightarrow> u32 \<Rightarrow> 's \<Rightarrow> 's option" where
  "data_abort put fault_status fault_address s = do {
     s1 \<leftarrow> put_newline put s;
     s2 \<leftarrow> put_literal put ''Data abort while trying to '' s1;
     s3 \<leftarrow> (if fault_status AND push_bit 11 1 \<noteq> 0 then put_literal put ''write '' s2
            else put_literal put ''read '' s2);
     s4 \<leftarrow> put_pointer put fault_address s3;
     put_newline put s4 }"

definition prefetch_abort :: "'s put_char \<Rightarrow> u32 \<Rightarrow> 's \<Rightarrow> 's option" where
  "prefetch_abort put fault_address s = do {
     s1 \<leftarrow> put_newline put s;
     s2 \<leftarrow> put_literal put ''Prefetch abort when trying to access '' s1;
     s3 \<leftarrow> put_pointer put fault_address s2;
     put_newline put s3 }"

definition invalid_handler :: "'s put_char \<Rightarrow> u8 \<Rightarrow> 's \<Rightarrow> 's option" where
  "invalid_handler put number s = do {
     s1 \<leftarrow> put_literal put ''Error: invalid syscall: '' s;
     s2 \<leftarrow> put_int put (ucast number) s1;
     put_newline put s2 }"

text \<open>The fifteen registers, then the status and the return address.\<close>

primrec put_registers :: "'s put_char \<Rightarrow> nat \<Rightarrow> nat \<Rightarrow> u32 list \<Rightarrow> 's \<Rightarrow> 's option" where
  "put_registers put 0 i rs s = Some s"
| "put_registers put (Suc n) i rs s = do {
     s1 \<leftarrow> put_literal put ''r'' s;
     s2 \<leftarrow> put_int put (of_nat i) s1;
     s3 \<leftarrow> put_literal put '': '' s2;
     s4 \<leftarrow> put_pointer put (rs ! i) s3;
     s5 \<leftarrow> put_newline put s4;
     put_registers put n (i + 1) rs s5 }"

definition put_register_contents :: "'s put_char \<Rightarrow> register_contents \<Rightarrow> 's \<Rightarrow> 's option" where
  "put_register_contents put r s = do {
     s1 \<leftarrow> put_registers put 15 0 (regs r) s;
     s2 \<leftarrow> put_literal put ''SPSR: '' s1;
     s3 \<leftarrow> put_pointer put (spsr r) s2;
     s4 \<leftarrow> put_newline put s3;
     s5 \<leftarrow> put_literal put ''Return address: '' s4;
     s6 \<leftarrow> put_pointer put (return_address r) s5;
     put_newline put s6 }"

definition put_read_operation :: "'s put_char \<Rightarrow> read_operation \<Rightarrow> 's \<Rightarrow> 's option" where
  "put_read_operation put op s = do {
     s1 \<leftarrow> put_literal put ''{read operation: [dest = '' s;
     s2 \<leftarrow> put_pointer put (rdestination op) s1;
     s3 \<leftarrow> put_literal put ''] [size = '' s2;
     s4 \<leftarrow> put_int put (rsize op) s3;
     s5 \<leftarrow> put_literal put ''] '' s4;
     s6 \<leftarrow> put_literal put ''[offset = '' s5;
     s7 \<leftarrow> put_pointer put (roffset op) s6;
     put_literal put '']}'' s7 }"

definition put_block_read_operation :: "'s put_char \<Rightarrow> block_read_operation \<Rightarrow> 's \<Rightarrow> 's option" where
  "put_block_read_operation put op s = do {
     s1 \<leftarrow> put_literal put ''{block read operation: [dest = '' s;
     s2 \<leftarrow> put_pointer put (destination op) s1;
     s3 \<leftarrow> put_literal put ''] [blocks = '' s2;
     s4 \<leftarrow> put_int put (nblocks op) s3;
     s5 \<leftarrow> put_literal put ''] '' s4;
     s6 \<leftarrow> put_literal put ''[address = '' s5;
     s7 \<leftarrow> put_pointer put (baddress op) s6;
     put_literal put '']}'' s7 }"

text \<open>The calls that end in a panic, which does not return.\<close>

definition cxa_pure_virtual :: "'s put_char \<Rightarrow> 's \<Rightarrow> 's option" where
  "cxa_pure_virtual put s = do {
     s1 \<leftarrow> put_newline put s;
     s2 \<leftarrow> put_literal put ''*** FATAL ERROR: A pure virtual function call failed! ***'' s1;
     s3 \<leftarrow> put_newline put s2;
     s4 \<leftarrow> put_literal put ''*** FATAL ERROR: Your kernel binary is probably erroneously compiled and linked.'' s3;
     s5 \<leftarrow> put_newline put s4;
     s6 \<leftarrow> panic_message put s5;
     None }"

definition throw_bad_function_call :: "'s put_char \<Rightarrow> 's \<Rightarrow> 's option" where
  "throw_bad_function_call put s = do {
     s1 \<leftarrow> put_newline put s;
     s2 \<leftarrow> put_literal put ''*** FATAL ERROR: A callback function call failed! ***'' s1;
     s3 \<leftarrow> put_newline put s2;
     s4 \<leftarrow> put_literal put ''*** FATAL ERROR: This is most likely caused by calling a nullptr function pointer.'' s3;
     s5 \<leftarrow> put_newline put s4;
     s6 \<leftarrow> panic_message put s5;
     None }"

text \<open>
  The list of mounts and that of the blocks of the heap, for debugging. The partition of a
  filesystem is the argument \<open>part_of\<close>.
\<close>

partial_function (option) print_mountlist_loop :: "'s put_char \<Rightarrow> ('f \<Rightarrow> partition) \<Rightarrow> 'f mountpoint store \<Rightarrow> ptr \<Rightarrow> 's \<Rightarrow> 's option" where
  "print_mountlist_loop put part_of ms current s =
     (case current of None \<Rightarrow> Some s
      | Some c \<Rightarrow> do {
          m \<leftarrow> deref ms (Some c);
          s1 \<leftarrow> put_literal put ''Mountpoint: '' s;
          s2 \<leftarrow> put_kstring put (mp_path m) s1;
          s3 \<leftarrow> put_literal put '' - partition: '' s2;
          s4 \<leftarrow> put_kstring put (part_name (part_of (mp_fs m))) s3;
          s5 \<leftarrow> put_newline put s4;
          print_mountlist_loop put part_of ms (mp_next m) s5 })"

definition print_mountlist :: "'s put_char \<Rightarrow> ('f \<Rightarrow> partition) \<Rightarrow> 'f vfs \<Rightarrow> 's \<Rightarrow> 's option" where
  "print_mountlist put part_of v s = print_mountlist_loop put part_of (mountpoints v) (mount_list v) s"

definition put_block :: "'s put_char \<Rightarrow> u32 \<Rightarrow> u32 \<Rightarrow> block \<Rightarrow> 's \<Rightarrow> 's option" where
  "put_block put n a b s = do {
     s1 \<leftarrow> put_literal put (char_of (9 :: nat) # ''Block '') s;
     s2 \<leftarrow> put_int put n s1;
     s3 \<leftarrow> put_literal put '' @ '' s2;
     s4 \<leftarrow> put_pointer put a s3;
     s5 \<leftarrow> put_literal put '': '' s4;
     s6 \<leftarrow> put_int put (bsize b) s5;
     s7 \<leftarrow> put_literal put '' bytes - '' s6;
     s8 \<leftarrow> put_literal put (if bused b then ''used'' else ''unused'') s7;
     put_newline put s8 }"

partial_function (option) print_blocks :: "'s put_char \<Rightarrow> (u32 \<Rightarrow> block option) \<Rightarrow> u32 \<Rightarrow> u32 \<Rightarrow> 's \<Rightarrow> 's option" where
  "print_blocks put h n a s = do {
     b \<leftarrow> h a;
     s1 \<leftarrow> put_block put n a b s;
     case bnext b of None \<Rightarrow> Some s1 | Some a' \<Rightarrow> print_blocks put h (n + 1) a' s1 }"

definition print_debug_info :: "'s put_char \<Rightarrow> mm \<Rightarrow> 's \<Rightarrow> 's option" where
  "print_debug_info put m s = do {
     s1 \<leftarrow> put_literal put ''Total RAM size: '' s;
     s2 \<leftarrow> put_int put (ramsize m) s1;
     s3 \<leftarrow> put_literal put '' bytes'' s2;
     s4 \<leftarrow> put_newline put s3;
     s5 \<leftarrow> put_literal put ''Block header size: '' s4;
     s6 \<leftarrow> put_int put sizeof_block s5;
     s7 \<leftarrow> put_literal put '' bytes'' s6;
     s8 \<leftarrow> put_newline put s7;
     s9 \<leftarrow> put_literal put ''Kernel dataspace end: '' s8;
     s10 \<leftarrow> put_pointer put (kernel_dataspace_end m) s9;
     s11 \<leftarrow> put_newline put s10;
     s12 \<leftarrow> put_literal put ''Block info: '' s11;
     s13 \<leftarrow> put_newline put s12;
     first \<leftarrow> first_block m;
     print_blocks put (blocks m) 0 first s13 }"

section \<open>The texts that are printed\<close>

definition pointer_text :: "u32 \<Rightarrow> bytes" where
  "pointer_text p = 0x30 # 0x78 # List.map (\<lambda>i. hex_digits ! unat (drop_bit (4 * i) p AND 0xf)) (rev [0..<8])"

lemma put_all_bind: "do { s1 \<leftarrow> put_all put xs s; put_all put ys s1 } = put_all put (xs @ ys) s"
  by (simp add: put_all_append)

lemma put_literal_text: "0 \<notin> set (ascii t) \<Longrightarrow> put_literal put t = put_all put (ascii t)"
  by (rule ext) (use put_string_cstr [of "ascii t" 0 put] in \<open>simp add: put_literal_def\<close>)

lemma put_newline_text: "put_newline put = put_all put newline"
  by (rule ext) (use put_string_cstr [of newline 0 put] in \<open>simp add: put_newline_def newline_def\<close>)

lemma put_pointer_all: "put_pointer put p = put_all put (pointer_text p)"
  by (rule ext) (simp only: put_pointer_text pointer_text_def)

lemma data_abort_message:
  "data_abort put fault_status fault_address s = put_all put (newline @ ascii ''Data abort while trying to '' @
     (if bit fault_status 11 then ascii ''write '' else ascii ''read '') @ pointer_text fault_address @ newline) s"
proof -
  have "fault_status AND push_bit 11 1 \<noteq> 0 \<longleftrightarrow> bit fault_status 11"
    by (simp add: and_exp_eq_0_iff_not_bit [of _ 11, simplified])
  moreover have "put_literal put ''Data abort while trying to '' = put_all put (ascii ''Data abort while trying to '')"
    "put_literal put ''write '' = put_all put (ascii ''write '')" "put_literal put ''read '' = put_all put (ascii ''read '')"
    by (rule put_literal_text; simp add: ascii_def)+
  ultimately show ?thesis
    unfolding data_abort_def put_newline_text put_pointer_all put_all_append
    by (cases "bit fault_status 11") simp_all
qed

text \<open>
  The entries of the aborts (\<open>kernel/interrupts.S\<close>). The handler runs with the registers it may change saved, and
  the program continues 4 before the address in the link register, which is 4 behind an instruction that
  could not be fetched and 8 behind one that could not access its data.
\<close>

definition int_prefetch_abort :: "'s put_char \<Rightarrow> u32 \<Rightarrow> u32 \<Rightarrow> 's \<Rightarrow> (u32 \<times> 's) option" where
  "int_prefetch_abort put fault_address link s = do {
     s1 \<leftarrow> prefetch_abort put fault_address s;
     Some (link - 4, s1) }"

definition int_data_abort :: "'s put_char \<Rightarrow> u32 \<Rightarrow> u32 \<Rightarrow> u32 \<Rightarrow> 's \<Rightarrow> (u32 \<times> 's) option" where
  "int_data_abort put fault_status fault_address link s = do {
     s1 \<leftarrow> data_abort put fault_status fault_address s;
     Some (link - 4, s1) }"

text \<open>Undefined instructions are skipped, and fast interrupts, which are not used, return at once.\<close>

definition int_undef :: "u32 \<Rightarrow> 's \<Rightarrow> (u32 \<times> 's) option" where
  "int_undef link s = Some (link, s)"

definition int_fiq :: "u32 \<Rightarrow> 's \<Rightarrow> (u32 \<times> 's) option" where
  "int_fiq link s = Some (link - 4, s)"

text \<open>
  A jump to an address that cannot be fetched is tried again and again, with a message every time. After
  an access that faulted the program goes on behind the instruction as if it had been made.
\<close>

primrec prefetch_aborts :: "nat \<Rightarrow> 's put_char \<Rightarrow> u32 \<Rightarrow> 's \<Rightarrow> (u32 \<times> 's) option" where
  "prefetch_aborts 0 put pc s = Some (pc, s)"
| "prefetch_aborts (Suc n) put pc s = do {
     (pc1, s1) \<leftarrow> int_prefetch_abort put pc (pc + 4) s;
     prefetch_aborts n put pc1 s1 }"

lemma prefetch_abort_text:
  "prefetch_abort put a = put_all put (newline @ ascii ''Prefetch abort when trying to access '' @ pointer_text a @ newline)"
proof -
  have "put_literal put ''Prefetch abort when trying to access '' = put_all put (ascii ''Prefetch abort when trying to access '')"
    by (rule put_literal_text; simp add: ascii_def)
  then show ?thesis unfolding prefetch_abort_def put_newline_text put_pointer_all put_all_append by (rule_tac ext) simp
qed

lemma prefetch_aborts_repeat:
  "prefetch_aborts n put pc s = map_option (Pair pc)
     (put_all put (concat (replicate n (newline @ ascii ''Prefetch abort when trying to access '' @ pointer_text pc @ newline))) s)"
proof (induction n arbitrary: s)
  case (Suc n)
  let ?t = "newline @ ascii ''Prefetch abort when trying to access '' @ pointer_text pc @ newline"
  show ?case
    by (cases "put_all put ?t s")
      (simp_all only: prefetch_aborts.simps int_prefetch_abort_def prefetch_abort_text replicate_Suc concat.simps put_all_append Suc.IH
        bind.simps split add_diff_cancel_right' option.map)
qed simp

lemma data_abort_continues:
  "int_data_abort put fault_status a (pc + 8) s = map_option (Pair (pc + 4)) (data_abort put fault_status a s)"
  by (cases "data_abort put fault_status a s") (simp_all add: int_data_abort_def)

section \<open>The system calls of the library\<close>

type_synonym 's svc = "u8 \<Rightarrow> u32 \<Rightarrow> u32 \<Rightarrow> 's \<Rightarrow> (u32 \<times> 's) option"

definition syscall_exit_num :: u8 where "syscall_exit_num = 1"
definition syscall_fork_num :: u8 where "syscall_fork_num = 2"
definition syscall_wait_num :: u8 where "syscall_wait_num = 3"

text \<open>\<open>fork\<close> has no arguments: the registers keep what they hold.\<close>

definition lib_fork :: "'s svc \<Rightarrow> u32 \<Rightarrow> u32 \<Rightarrow> 's \<Rightarrow> (u32 \<times> 's) option" where
  "lib_fork svc r0 r1 s = svc syscall_fork_num r0 r1 s"

definition lib_exit :: "'s svc \<Rightarrow> u32 \<Rightarrow> u32 \<Rightarrow> 's \<Rightarrow> (u32 \<times> 's) option" where
  "lib_exit svc status r1 s = svc syscall_exit_num status r1 s"

definition lib_wait :: "'s svc \<Rightarrow> u32 \<Rightarrow> 's \<Rightarrow> (u32 \<times> 's) option" where
  "lib_wait svc stat_loc s = svc syscall_wait_num (- 1) stat_loc s"

definition lib_waitpid :: "'s svc \<Rightarrow> u32 \<Rightarrow> u32 \<Rightarrow> u32 \<Rightarrow> 's \<Rightarrow> (u32 \<times> 's) option" where
  "lib_waitpid svc which stat_loc options s = svc syscall_wait_num (- 1) stat_loc s"

text \<open>The documentation promises to wait for the given process; the argument has no effect.\<close>

lemma waitpid_is_wait: "lib_waitpid svc which stat_loc options = lib_wait svc stat_loc"
  by (rule ext) (simp add: lib_waitpid_def lib_wait_def)

text \<open>
  The test program (\<open>apps/proctest/proctest.c\<close>). The calls of \<open>exit\<close> do not return: the result is the state while the
  process waits behind its system call. \<open>status\<close> is the address of the local variable, and \<open>r1\<close> what the second register
  holds at the exit.
\<close>

definition proctest_main :: "'s svc \<Rightarrow> u32 \<Rightarrow> u32 \<Rightarrow> u32 \<Rightarrow> u32 \<Rightarrow> 's \<Rightarrow> 's option" where
  "proctest_main svc status r1 argc argv s = do {
     (retval, s1) \<leftarrow> lib_fork svc argc argv s;
     if retval = 0 then map_option snd (lib_exit svc 2 r1 s1)
     else do {
       (r, s2) \<leftarrow> lib_waitpid svc retval status 0 s1;
       map_option snd (lib_exit svc 1 r1 s2) } }"

text \<open>The system calls of the parent and of the child, recorded in the order in which they are made.\<close>

lemma proctest_calls:
  assumes "\<And>n a b t. svc n a b t = Some (answer n, t @ [n])"
  shows "proctest_main svc status r1 argc argv [] = Some (if answer 2 = 0 then [2, 1] else [2, 3, 1])"
  using assms by (simp add: proctest_main_def lib_fork_def lib_exit_def lib_waitpid_def syscall_exit_num_def syscall_fork_num_def
    syscall_wait_num_def)

end
