(* ===== verification/Start_Code.thy ===== *)
theory Start_Code
  imports Prelude
begin

text \<open>
  The assembler code that runs before the main functions of the kernel (\<open>kernel/start.S\<close>) and of an
  application (\<open>apps/start.S\<close>): clearing the section of uninitialised data, then the constructors
  of global objects, whose addresses are in a table.
\<close>

section \<open>Uninitialised data\<close>

definition store_zero :: "u32 \<Rightarrow> (u32 \<Rightarrow> u8) \<Rightarrow> u32 \<Rightarrow> u8" where
  "store_zero a m = m(a := 0, a + 1 := 0, a + 2 := 0, a + 3 := 0)"

text \<open>The loop compares the address for equality only, after each word.\<close>

partial_function (option) clear_bss :: "u32 \<Rightarrow> u32 \<Rightarrow> (u32 \<Rightarrow> u8) \<Rightarrow> (u32 \<Rightarrow> u8) option" where
  "clear_bss stop a m = (if a = stop then Some m else clear_bss stop (a + 4) (store_zero a m))"

lemma store_zero_range:
  assumes "unat (stop - a) = 4 * Suc n"
  shows "(if x - (a + 4) < stop - (a + 4) then 0 else store_zero a m x) = (if x - a < stop - a then 0 else m x)"
proof -
  define y where "y = x - a"
  have x: "x = a + y" by (simp add: y_def)
  have d: "unat (stop - (a + 4)) = 4 * n"
    using assms by (simp add: diff_diff_eq [symmetric] unat_sub_if_size word_size)
  have z: "store_zero a m x = (if unat y < 4 then 0 else m x)"
  proof -
    have "unat y < 4 \<longleftrightarrow> y = 0 \<or> y = 1 \<or> y = 2 \<or> y = 3"
      by (auto simp: word_unat_eq_iff)
    then show ?thesis by (auto simp: store_zero_def x)
  qed
  have "unat (x - (a + 4)) = (if unat y < 4 then unat y + 2 ^ 32 - 4 else unat y - 4)"
    using unat_u32 [of y] by (auto simp: x diff_diff_eq [symmetric] unat_sub_if_size word_size)
  moreover have "unat (stop - a) < 2 ^ 32" by (rule unat_u32)
  ultimately show ?thesis
    using assms d z by (auto simp: word_less_nat_alt x)
qed

lemma clear_bss_words:
  "unat (stop - a) = 4 * n \<Longrightarrow> clear_bss stop a m = Some (\<lambda>x. if x - a < stop - a then 0 else m x)"
proof (induction n arbitrary: a m)
  case 0
  then have "stop = a" by (metis mult_0_right eq_iff_diff_eq_0 unat_eq_0)
  then show ?case by (subst clear_bss.simps) simp
next
  case (Suc n)
  then have "a \<noteq> stop" "unat (stop - (a + 4)) = 4 * n"
    by (auto simp: diff_diff_eq [symmetric] unat_sub_if_size word_size)
  with Suc.IH [of "a + 4" "store_zero a m"] store_zero_range [OF Suc.prems] show ?case
    by (subst clear_bss.simps) simp
qed

lemma multiple_step:
  fixes d :: u32
  assumes "4 dvd unat (d - 4)"
  shows "4 dvd unat d"
proof (cases "4 \<le> unat d")
  case True
  then have "unat d = unat (d - 4) + 4" by (simp add: unat_sub_if_size word_size)
  with assms show ?thesis by simp
next
  case False
  then have "unat (d - 4) = unat d + 4 * 1073741823" by (simp add: unat_sub_if_size word_size)
  with assms show ?thesis by (simp only: dvd_add_left_iff dvd_triv_left)
qed

lemma clear_bss_multiple:
  assumes "clear_bss stop a m = Some m'"
  shows "4 dvd unat (stop - a)"
proof (rule clear_bss.raw_induct [OF _ assms])
  fix f stop a m m'
  assume IH: "\<And>stop a m m'. f stop a m = Some m' \<Longrightarrow> 4 dvd unat (stop - a)"
    and step: "(if a = stop then Some m else f stop (a + 4) (store_zero a m)) = Some m'"
  show "4 dvd unat (stop - a)"
  proof (cases "a = stop")
    case False
    with step IH have "4 dvd unat (stop - (a + 4))" by simp
    then have "4 dvd unat (stop - a - 4)" by (simp add: diff_diff_eq)
    then show ?thesis by (rule multiple_step)
  qed simp
qed

text \<open>
  Clearing returns exactly when the length of the section is a multiple of 4, and then exactly the
  bytes of the section are zero; otherwise the loop misses the end and never stops.
\<close>

theorem clear_bss_zeroes:
  "clear_bss stop a m = (if 4 dvd unat (stop - a) then Some (\<lambda>x. if x - a < stop - a then 0 else m x) else None)"
proof (cases "4 dvd unat (stop - a)")
  case True
  then obtain n where "unat (stop - a) = 4 * n" by blast
  with True clear_bss_words show ?thesis by simp
next
  case False
  with clear_bss_multiple [of stop a m] show ?thesis by (cases "clear_bss stop a m") auto
qed

section \<open>Tables of functions\<close>

text \<open>The functions of a table are called in order.\<close>

primrec call_all :: "('s \<Rightarrow> 's option) list \<Rightarrow> 's \<Rightarrow> 's option" where
  "call_all [] s = Some s"
| "call_all (f # fs) s = do { s1 \<leftarrow> f s; call_all fs s1 }"

lemma call_all_append: "call_all (fs @ gs) s = do { s1 \<leftarrow> call_all fs s; call_all gs s1 }"
  by (induction fs arbitrary: s) (auto split: Option.bind_split)

text \<open>
  An application: the functions it is linked with are arguments, over its memory. The table of
  destructors ends with a jump behind the system call for the exit, into a loop that waits for
  interrupts, so the value of \<open>main\<close> is not used and the result is the memory while the process waits.
\<close>

definition application_start :: "u32 \<Rightarrow> u32 \<Rightarrow> ((u32 \<Rightarrow> u8) \<Rightarrow> (u32 \<Rightarrow> u8) option) list \<Rightarrow>
    (u32 \<Rightarrow> u32 \<Rightarrow> (u32 \<Rightarrow> u8) \<Rightarrow> (u32 \<times> (u32 \<Rightarrow> u8)) option) \<Rightarrow> ((u32 \<Rightarrow> u8) \<Rightarrow> (u32 \<Rightarrow> u8) option) list \<Rightarrow>
    (u32 \<Rightarrow> u8) \<Rightarrow> (u32 \<Rightarrow> u8) option" where
  "application_start bss stop constructors main destructors m = do {
     m1 \<leftarrow> clear_bss stop bss m;
     m2 \<leftarrow> call_all constructors m1;
     (r, m3) \<leftarrow> main 0 0 m2;
     call_all destructors m3 }"

lemma application_without_objects:
  assumes "4 dvd unat (stop - bss)"
  shows "application_start bss stop [] main [] m = map_option snd (main 0 0 (\<lambda>x. if x - bss < stop - bss then 0 else m x))"
  using assms by (auto simp: application_start_def clear_bss_zeroes map_option_case split: option.split Option.bind_split)

text \<open>The greeting program (\<open>apps/hello/main.cpp\<close>) does nothing; started, it clears its memory and waits.\<close>

definition hello_main :: "u32 \<Rightarrow> u32 \<Rightarrow> (u32 \<Rightarrow> u8) \<Rightarrow> (u32 \<times> (u32 \<Rightarrow> u8)) option" where
  "hello_main argc argv m = Some (0, m)"

lemma hello_starts:
  "4 dvd unat (stop - bss) \<Longrightarrow>
     application_start bss stop [] hello_main [] m = Some (\<lambda>x. if x - bss < stop - bss then 0 else m x)"
  by (simp add: application_without_objects hello_main_def)

end
