(* ===== verification/Kernel_Memory.thy ===== *)
theory Kernel_Memory
  imports Mm_Init
begin

text \<open>
  The memory of the kernel from reset to the first use of the heap: \<open>mmu_init\<close> maps the kernel with
  the memory management unit still off, and \<open>mm_init\<close> runs with it on (\<open>kernel/start.S\<close> calls
  both). The page tables made on the way are taken from the memory behind the kernel, as there is no
  heap yet. The theorem states the address space that results.
\<close>

unbundle bit_operations_syntax

section \<open>Memory before there is a heap\<close>

abbreviation data_limit :: "mmu_mem \<Rightarrow> nat" where
  "data_limit mem \<equiv> unat (kernel_data_end (mmem mem))"

lemma early_allocation:
  assumes "\<not> initialization_completed m" and "unat (kernel_data_end m) + 2047 < 2 ^ 32"
  shows "\<exists>p r. operator_new_aligned 1024 1024 m = Some (p, m\<lparr>kernel_data_end := p + 1024, ram := r\<rparr>) \<and>
    unat p = (unat (kernel_data_end m) + 1023) div 1024 * 1024"
proof -
  let ?a = "kernel_data_end m"
  have mk: "mask_left 1024 = NOT (mask 10)" using mask_left_pow2 [of 10] by simp
  have rs: "round_size 1024 = 1024" by (simp add: round_size_def)
  have low: "unat (x AND mask_left 1024) = unat x div 1024 * 1024" for x
    using round_down [of 10 x] minus_mod_eq_div_mult [of "unat x" 1024] by simp
  let ?p = "if ?a AND NOT (mask_left 1024) \<noteq> 0 then (?a + 1023) AND mask_left 1024 else ?a"
  have p: "unat ?p = (unat ?a + 1023) div 1024 * 1024"
  proof (cases "?a AND NOT (mask_left 1024) = 0")
    case True
    then have "unat (?a AND mask 10) = 0" by (simp add: mk)
    then have "unat ?a mod 1024 = 0" by (simp add: unat_and_mask)
    then show ?thesis using True by auto
  next
    case False
    then show ?thesis using assms(2) low [of "?a + 1023"] by (simp add: unat_add_small)
  qed
  have "operator_new_aligned 1024 1024 m = Some (?p, m\<lparr>kernel_data_end := ?p + 1024, ram := zero_loop 1024 ?p 0 (ram m)\<rparr>)"
    using assms(1) by (simp add: operator_new_aligned_def mm_allocate_def early_allocate_def rs Let_def)
  with p show ?thesis by blast
qed

text \<open>
  The invariant of the start. The page tables lie between \<open>b\<close>, the end of the kernel, and the end of the
  memory used so far, which translates to itself; there are as many as entries of the
  first level, so they cannot reach \<open>hi\<close>.
\<close>

definition present :: "translation_table \<Rightarrow> nat set" where
  "present tt = {i. i < length (table tt) \<and> table tt ! i AND 1 \<noteq> 0}"

definition early_ok :: "(u32 \<Rightarrow> u32) \<Rightarrow> nat \<Rightarrow> nat \<Rightarrow> translation_table \<Rightarrow> mmu_mem \<Rightarrow> bool" where
  "early_ok par b hi tt mem \<longleftrightarrow>
     (\<exists>xs. tt_core par b hi xs tt mem \<and> (\<forall>k \<in> fst ` set xs. unat k + 1024 \<le> data_limit mem)) \<and>
     (\<forall>pt \<in> dom (tables mem). unat pt + 1024 \<le> data_limit mem) \<and>
     \<not> initialization_completed (mmem mem) \<and> length (table tt) = 4096 \<and> 4 dvd data_limit mem \<and> 0 < b \<and> b \<le> data_limit mem \<and>
     (data_limit mem + 1023) div 1024 * 1024 \<le> b + 1023 + 1024 * card (present tt) \<and>
     b + 4195327 \<le> hi \<and> hi + 8192 \<le> 2 ^ 32 \<and>
     (\<forall>p. b \<le> unat p \<and> unat p < hi \<longrightarrow> virtual_to_physical par p = p)"

definition grown :: "mm \<Rightarrow> mm \<Rightarrow> bool" where
  "grown m m' \<longleftrightarrow> (\<exists>e r. m' = m\<lparr>kernel_data_end := e, ram := r\<rparr>) \<and> kernel_data_end m \<le> kernel_data_end m'"

lemma grown_refl [simp]: "grown m m"
proof -
  have "m = m\<lparr>kernel_data_end := kernel_data_end m, ram := ram m\<rparr>" by simp
  then show ?thesis unfolding grown_def by blast
qed

lemma grown_trans: "grown m m1 \<Longrightarrow> grown m1 m2 \<Longrightarrow> grown m m2"
proof -
  assume g: "grown m m1" "grown m1 m2"
  then obtain e r e2 r2 where "m1 = m\<lparr>kernel_data_end := e, ram := r\<rparr>" "m2 = m1\<lparr>kernel_data_end := e2, ram := r2\<rparr>"
    by (auto simp: grown_def)
  then have "m2 = m\<lparr>kernel_data_end := e2, ram := r2\<rparr>" by simp
  with g show "grown m m2" by (auto simp: grown_def)
qed

lemma grown_fields:
  "grown m m' \<Longrightarrow> kernel_dataspace_end m' = kernel_dataspace_end m \<and> ramsize m' = ramsize m"
  by (auto simp: grown_def)

lemma table_index_limit: "table_index v < 4096"
  using unat_u32 [of v] by (simp add: index_arith(1) less_mult_imp_div_less)

lemma table_index_page: "table_index v = page_no v div 256"
  by (simp add: index_arith(1) page_no_def flip: div_mult2_eq)

lemma present_finite [simp]: "finite (present tt)"
  by (simp add: present_def)

lemma present_same: "table tt' = table tt \<Longrightarrow> present tt' = present tt"
  by (simp add: present_def)

lemma early_limit:
  assumes "early_ok par b hi tt mem"
  shows "data_limit mem \<le> b + 4195327 \<and> (i < 4096 \<longrightarrow> i \<notin> present tt \<longrightarrow> data_limit mem + 1024 \<le> b + 4195327)"
proof -
  have c: "length (table tt) = 4096" "(data_limit mem + 1023) div 1024 * 1024 \<le> b + 1023 + 1024 * card (present tt)"
    using assms by (simp_all add: early_ok_def)
  have sub: "present tt \<subseteq> {..<4096}" using c(1) by (auto simp: present_def)
  then have "card (present tt) \<le> 4096" using card_mono [OF _ sub] by simp
  moreover have "card (present tt) < 4096" if "i < 4096" "i \<notin> present tt"
    using psubset_card_mono [of "{..<4096}" "present tt"] sub that by fastforce
  ultimately show ?thesis using c(2) by fastforce
qed

lemma read_l1_present:
  assumes "length (table tt) = 4096"
  shows "\<exists>e. read_l1 tt v = Some e \<and> (e AND 1 \<noteq> 0 \<longleftrightarrow> table_index v \<in> present tt)"
  using assms table_index_limit [of v] by (simp add: read_l1_def present_def)

section \<open>Mapping a page\<close>

lemma early_map_page:
  assumes ok: "early_ok par b hi tt mem"
  obtains tt' mem' where "map_page par page virt perms ty ng (tt, mem) = Some (tt', mem')" "early_ok par b hi tt' mem'"
    "present tt' = insert (table_index virt) (present tt)" "grown (mmem mem) (mmem mem')"
    "\<And>v d. translates par tt' mem' v d \<longleftrightarrow>
      (if page_no v = page_no virt then d = page_entry page perms ty ng else translates par tt mem v d)"
proof -
  let ?i = "table_index virt"
  obtain xs where core: "tt_core par b hi xs tt mem" and keys: "\<forall>k \<in> fst ` set xs. unat k + 1024 \<le> data_limit mem"
    and doms: "\<forall>pt \<in> dom (tables mem). unat pt + 1024 \<le> data_limit mem"
    and rest: "\<not> initialization_completed (mmem mem)" "length (table tt) = 4096" "4 dvd data_limit mem" "b \<le> data_limit mem"
      "(data_limit mem + 1023) div 1024 * 1024 \<le> b + 1023 + 1024 * card (present tt)" "b + 4195327 \<le> hi" "hi + 8192 \<le> 2 ^ 32"
    and id: "\<And>p. b \<le> unat p \<Longrightarrow> unat p < hi \<Longrightarrow> virtual_to_physical par p = p"
    using ok by (auto simp: early_ok_def)
  obtain e where e: "read_l1 tt virt = Some e" "e AND 1 \<noteq> 0 \<longleftrightarrow> ?i \<in> present tt"
    using read_l1_present [OF rest(2), of virt] by blast
  show thesis
  proof (cases "?i \<in> present tt")
    case True
    with e have e1: "e AND 1 \<noteq> 0" by simp
    obtain mem' where m: "map_page par page virt perms ty ng (tt, mem) = Some (tt, mem')" "tt_core par b hi xs tt mem'"
      "mmem mem' = mmem mem" "dom (tables mem') = dom (tables mem)" "\<forall>v d. translates par tt mem' v d \<longleftrightarrow>
      (if drop_bit 12 v = drop_bit 12 virt then d = page_entry page perms ty ng else translates par tt mem v d)"
      using map_page_present [OF core e(1) e1, of page perms ty ng] by blast
    have "early_ok par b hi tt mem'"
      using ok m(2) keys by (auto simp: early_ok_def m(3, 4))
    then show thesis
      using m True by (intro that [of tt mem']) (auto simp: page_no_eq)
  next
    case False
    with e have e0: "e AND 1 = 0" by simp
    let ?r = "(data_limit mem + 1023) div 1024 * 1024"
    have lim: "data_limit mem \<le> b + 4195327" using early_limit [OF ok, of ?i] by simp
    have c: "card (present tt) < 4096"
      using psubset_card_mono [of "{..<4096}" "present tt"] False table_index_limit [of virt] rest(2)
      by (fastforce simp: present_def)
    have r: "data_limit mem \<le> ?r" "?r + 1024 \<le> b + 1023 + 1024 * 4096" using rest(5) c by linarith+
    obtain p r' where p: "operator_new_aligned 1024 1024 (mmem mem) = Some (p, (mmem mem)\<lparr>kernel_data_end := p + 1024, ram := r'\<rparr>)"
      "unat p = ?r" using early_allocation [OF rest(1)] lim rest(6, 7) by (fastforce simp del: One_nat_def)
    have p1: "unat (p + 1024) = ?r + 1024" using p(2) r rest(6, 7) by (simp add: unat_add_small)
    have lo: "b + 4195327 < 2 ^ 32" using rest(6, 7) by simp
    have pin: "b \<le> unat p" "unat p < hi" using p(2) r rest(4, 6) by linarith+
    moreover have "p \<noteq> 0" using pin(1) ok by (auto simp: early_ok_def)
    ultimately have range: "p \<noteq> 0 \<and> b \<le> unat p \<and> unat p < hi" by simp
    have p1024: "1024 dvd unat p" using p(2) by simp
    have fresh: "tables mem p = None" using doms p(2) r(1) by force
    have vp: "virtual_to_physical par p = p" by (rule id [OF pin])
    have kp: "\<forall>k \<in> fst ` set xs. k \<le> virtual_to_physical par p"
    proof
      fix k assume "k \<in> fst ` set xs"
      with keys have "unat k + 1024 \<le> data_limit mem" by blast
      with p(2) r(1) show "k \<le> virtual_to_physical par p" by (simp add: vp word_le_nat_alt)
    qed
    define mem1 where "mem1 = \<lparr>mmem = (mmem mem)\<lparr>kernel_data_end := p + 1024, ram := r'\<rparr>, tables = (tables mem)(p \<mapsto> page_table_new)\<rparr>"
    obtain tt1 where t1: "get_page_table par virt (tt, mem) = Some (p, tt1, mem1)" "tt_core par b hi (xs @ [(p, p)]) tt1 mem1"
      "read_l1 tt1 virt = Some (p OR 1)" "refers par mem1 (xs @ [(p, p)]) (p OR 1) p"
      "table tt1 = (table tt)[?i := p OR 1]" "\<forall>v d. translates par tt1 mem1 v d \<longleftrightarrow> translates par tt mem v d"
      using page_table_added [OF core e(1) e0 p(1) range p1024 fresh kp mem1_def] unfolding vp by blast
    have odd: "(p OR 1) AND 1 \<noteq> 0" using v2p_low(3) [OF p1024, of par] vp by simp
    have dir: "dir_ok par b hi tt1 (xs @ [(p, p)])" "inj_on (virtual_to_physical par) {p. b \<le> unat p \<and> unat p < hi}"
      using t1(2) by (simp_all add: tt_core_def)
    note ra = refers_address [OF dir(1) t1(4) dir(2)]
    obtain mem' where m: "map_page par page virt perms ty ng (tt1, mem1) = Some (tt1, mem')" "tt_core par b hi (xs @ [(p, p)]) tt1 mem'"
      "mmem mem' = mmem mem1" "dom (tables mem') = dom (tables mem1)" "\<forall>v d. translates par tt1 mem' v d \<longleftrightarrow>
      (if drop_bit 12 v = drop_bit 12 virt then d = page_entry page perms ty ng else translates par tt1 mem1 v d)"
      using map_page_present [OF t1(2, 3) odd, of page perms ty ng] by blast
    have "map_page par page virt perms ty ng (tt, mem) = map_page par page virt perms ty ng (tt1, mem1)"
      using t1(1, 3) ra odd by (simp add: map_page_def get_page_table_def [of par virt] l1_page_table_def)
    with m(1) have mp: "map_page par page virt perms ty ng (tt, mem) = Some (tt1, mem')" by simp
    have pr: "present tt1 = insert ?i (present tt)"
      using rest(2) odd table_index_limit [of virt] by (auto simp: present_def t1(5) nth_list_update)
    have dl: "data_limit mem' = ?r + 1024" by (simp add: m(3) mem1_def p1)
    have g: "grown (mmem mem) (mmem mem')"
      using dl r(1) by (auto simp: m(3) mem1_def grown_def word_le_nat_alt p1)
    have "early_ok par b hi tt1 mem'"
      unfolding early_ok_def
    proof (intro conjI exI [of _ "xs @ [(p, p)]"])
      show "\<forall>k \<in> fst ` set (xs @ [(p, p)]). unat k + 1024 \<le> data_limit mem'"
        using keys dl r(1) p(2) by fastforce
      show "\<forall>pt \<in> dom (tables mem'). unat pt + 1024 \<le> data_limit mem'"
      proof
        fix pt assume "pt \<in> dom (tables mem')"
        then have "pt = p \<or> pt \<in> dom (tables mem)" by (auto simp: m(4) mem1_def split: if_splits)
        with doms have "pt = p \<or> unat pt + 1024 \<le> data_limit mem" by blast
        then show "unat pt + 1024 \<le> data_limit mem'" using dl r(1) p(2) by auto
      qed
      show "\<not> initialization_completed (mmem mem')" using rest(1) by (simp add: m(3) mem1_def)
      show "length (table tt1) = 4096" using rest(2) by (simp add: t1(5))
      show "4 dvd data_limit mem'" by (simp add: dl)
      show "b \<le> data_limit mem'" using dl r(1) rest(4) by linarith
      have "card (present tt1) = Suc (card (present tt))" using False by (simp add: pr)
      then show "(data_limit mem' + 1023) div 1024 * 1024 \<le> b + 1023 + 1024 * card (present tt1)"
        using rest(5) by (simp add: dl)
    qed (use m(2) ok in \<open>simp_all add: early_ok_def\<close>)
    then show thesis
      using mp pr g m(5) t1(6) by (intro that [of tt1 mem']) (simp_all add: page_no_eq)
  qed
qed

section \<open>Mapping intervals\<close>

text \<open>The address of a page.\<close>

lemma page_base: "4096 dvd unat a \<Longrightarrow> page_no v = page_no a \<Longrightarrow> v AND 0xfffff000 = (a :: u32)"
proof -
  assume a: "4096 dvd unat a" "page_no v = page_no a"
  have m: "(0xfffff000 :: u32) = NOT (mask 12)" by (simp add: mask_eq_decr_exp)
  have "unat (v AND 0xfffff000) = unat v div 4096 * 4096"
    unfolding m unat_and_not_mask by (simp add: minus_mod_eq_div_mult)
  also have "\<dots> = unat a" using a by (simp add: page_no_def)
  finally show "v AND 0xfffff000 = a" by (simp only: word_unat_eq_iff)
qed

definition pages_from :: "u32 \<Rightarrow> nat \<Rightarrow> nat set" where
  "pages_from virt n = {page_no virt..<page_no virt + n}"

lemma pages_from_Suc:
  assumes "unat virt + 4096 < 2 ^ 32"
  shows "pages_from virt (Suc n) = insert (page_no virt) (pages_from (virt + 4096) n)"
  using assms by (auto simp: pages_from_def page_no_def unat_add_small)

lemma interval_step:
  assumes "Suc a \<le> page_no v"
  shows "(start :: u32) + 4096 + 4096 * word_of_nat (page_no v - Suc a) = start + 4096 * word_of_nat (page_no v - a)"
proof -
  have "page_no v - a = Suc (page_no v - Suc a)" using assms by simp
  then show ?thesis by (simp add: algebra_simps)
qed

lemma early_interval:
  assumes "early_ok par b hi tt mem" and "unat start + 4096 * n = unat stop" and "unat virt + 4096 * n < 2 ^ 32"
  obtains tt' mem' where "map_interval par start stop virt perms ty ng (tt, mem) = Some (tt', mem')" "early_ok par b hi tt' mem'"
    "present tt' = present tt \<union> (\<lambda>i. i div 256) ` pages_from virt n" "grown (mmem mem) (mmem mem')"
    "\<And>v d. translates par tt' mem' v d \<longleftrightarrow> (if page_no v \<in> pages_from virt n
       then d = page_entry (start + 4096 * word_of_nat (page_no v - page_no virt)) perms ty ng
       else translates par tt mem v d)"
  using assms unfolding map_interval_def
proof (induction n arbitrary: start virt tt mem thesis)
  case 0
  then have "start = stop" by (simp add: word_unat_eq_iff)
  with 0 show ?case by (simp add: map_interval_loop.simps pages_from_def)
next
  case (Suc n)
  have s1: "unat (start + 4096) = unat start + 4096" "unat (virt + 4096) = unat virt + 4096"
    using Suc.prems(3, 4) unat_u32 [of stop] by (subst unat_add_small; simp)+
  have p1: "page_no (virt + 4096) = Suc (page_no virt)" by (simp add: page_no_def s1)
  have lt: "start < stop" using Suc.prems(3) by (simp add: word_less_nat_alt)
  obtain tt1 mem1 where m1: "map_page par start virt perms ty ng (tt, mem) = Some (tt1, mem1)" "early_ok par b hi tt1 mem1"
    "present tt1 = insert (table_index virt) (present tt)" "grown (mmem mem) (mmem mem1)"
    "\<And>v d. translates par tt1 mem1 v d \<longleftrightarrow>
      (if page_no v = page_no virt then d = page_entry start perms ty ng else translates par tt mem v d)"
    using early_map_page [OF Suc.prems(2), of start virt perms ty ng] by blast
  obtain tt' mem' where m': "map_interval_loop par stop perms ty ng (start + 4096) (virt + 4096) (tt1, mem1) = Some (tt', mem')"
    "early_ok par b hi tt' mem'" "present tt' = present tt1 \<union> (\<lambda>i. i div 256) ` pages_from (virt + 4096) n"
    "grown (mmem mem1) (mmem mem')" "\<And>v d. translates par tt' mem' v d \<longleftrightarrow> (if page_no v \<in> pages_from (virt + 4096) n
       then d = page_entry (start + 4096 + 4096 * word_of_nat (page_no v - page_no (virt + 4096))) perms ty ng
       else translates par tt1 mem1 v d)"
    using Suc.IH [OF _ m1(2), of "start + 4096" "virt + 4096"] Suc.prems(3, 4) s1 by auto
  have ps: "pages_from virt (Suc n) = insert (page_no virt) (pages_from (virt + 4096) n)"
    using Suc.prems(4) by (intro pages_from_Suc) simp
  have "translates par tt' mem' v d \<longleftrightarrow> (if page_no v \<in> pages_from virt (Suc n)
       then d = page_entry (start + 4096 * word_of_nat (page_no v - page_no virt)) perms ty ng
       else translates par tt mem v d)" for v d
  proof (cases "page_no v \<in> pages_from (virt + 4096) n")
    case True
    then have le: "Suc (page_no virt) \<le> page_no v" by (simp add: pages_from_def p1)
    show ?thesis unfolding ps m'(5) p1 interval_step [OF le] using True by simp
  next
    case False
    then show ?thesis unfolding ps m'(5) m1(5) by auto
  qed
  moreover have "map_interval_loop par stop perms ty ng start virt (tt, mem) = Some (tt', mem')"
    using m1(1) m'(1) lt by (simp add: map_interval_loop.simps [of par stop perms ty ng start])
  moreover have "present tt' = present tt \<union> (\<lambda>i. i div 256) ` pages_from virt (Suc n)"
    unfolding ps m'(3) m1(3) by (auto simp: table_index_page)
  ultimately show ?case using m'(2) grown_trans [OF m1(4) m'(4)] by (intro Suc.prems(1))
qed

lemma present_interval:
  assumes "tt_core par b hi xs tt mem" and "length (table tt) = 4096" and "unat start + 4096 * n = unat stop"
    and "unat virt + 4096 * n < 2 ^ 32" and "(\<lambda>i. i div 256) ` pages_from virt n \<subseteq> present tt"
  shows "\<exists>mem'. map_interval par start stop virt perms ty ng (tt, mem) = Some (tt, mem') \<and>
    tt_core par b hi xs tt mem' \<and> mmem mem' = mmem mem \<and> dom (tables mem') = dom (tables mem) \<and>
    (\<forall>v d. translates par tt mem' v d \<longleftrightarrow> (if page_no v \<in> pages_from virt n
       then d = page_entry (start + 4096 * word_of_nat (page_no v - page_no virt)) perms ty ng
       else translates par tt mem v d))"
proof -
  have "\<exists>e. read_l1 tt v = Some e \<and> e AND 1 \<noteq> 0" if "page_no virt \<le> page_no v" "page_no v < page_no virt + n" for v
  proof -
    have "page_no v div 256 \<in> present tt" using assms(5) that by (auto simp: pages_from_def)
    then show ?thesis using read_l1_present [OF assms(2), of v] by (auto simp: table_index_page)
  qed
  from map_interval_loop_present [OF assms(1, 3, 4) this] show ?thesis
    by (simp add: map_interval_def pages_from_def)
qed

text \<open>
  C36: mapping an interval of whole pages returns, and maps every page of it, in order, to the
  corresponding page of the virtual interval, with the requested attributes; every other
  translation stays. It holds from the reset to the first use of the heap, where the page tables that are
  missing are made, one for each megabyte, and the state stays fit for further intervals; and it holds
  later, whenever the page tables of the interval are there, and then no memory is allocated.
\<close>

theorem map_interval_maps_all:
  assumes "unat start + 4096 * n = unat stop" and "unat virt + 4096 * n < 2 ^ 32"
    and "early_ok par b hi tt mem \<or> (\<exists>xs. tt_core par b hi xs tt mem) \<and> length (table tt) = 4096 \<and>
      (\<lambda>i. i div 256) ` pages_from virt n \<subseteq> present tt"
  shows "\<exists>tt' mem'. map_interval par start stop virt perms ty ng (tt, mem) = Some (tt', mem') \<and>
    present tt' = present tt \<union> (\<lambda>i. i div 256) ` pages_from virt n \<and>
    (\<forall>v d. translates par tt' mem' v d \<longleftrightarrow> (if page_no v \<in> pages_from virt n
       then d = page_entry (start + 4096 * word_of_nat (page_no v - page_no virt)) perms ty ng
       else translates par tt mem v d)) \<and>
    (early_ok par b hi tt mem \<longrightarrow> early_ok par b hi tt' mem' \<and> grown (mmem mem) (mmem mem')) \<and>
    ((\<lambda>i. i div 256) ` pages_from virt n \<subseteq> present tt \<longrightarrow> tt' = tt \<and> mmem mem' = mmem mem \<and>
       dom (tables mem') = dom (tables mem))"
proof (cases "(\<lambda>i. i div 256) ` pages_from virt n \<subseteq> present tt")
  case True
  obtain xs where core: "tt_core par b hi xs tt mem" "length (table tt) = 4096"
    and keys: "early_ok par b hi tt mem \<longrightarrow> (\<forall>k \<in> fst ` set xs. unat k + 1024 \<le> data_limit mem)"
  proof (cases "early_ok par b hi tt mem")
    case True
    then show ?thesis using that by (auto simp: early_ok_def)
  next
    case False
    then show ?thesis using that assms(3) by auto
  qed
  from present_interval [OF core assms(1, 2) True, of perms ty ng] obtain mem' where
    m: "map_interval par start stop virt perms ty ng (tt, mem) = Some (tt, mem')" "tt_core par b hi xs tt mem'"
      "mmem mem' = mmem mem" "dom (tables mem') = dom (tables mem)"
      "\<forall>v d. translates par tt mem' v d \<longleftrightarrow> (if page_no v \<in> pages_from virt n
         then d = page_entry (start + 4096 * word_of_nat (page_no v - page_no virt)) perms ty ng
         else translates par tt mem v d)" by blast
  have "early_ok par b hi tt mem'" if e: "early_ok par b hi tt mem"
  proof -
    have "\<forall>k \<in> fst ` set xs. unat k + 1024 \<le> data_limit mem" using keys e by blast
    with e m(2) show ?thesis by (auto simp: early_ok_def m(3, 4))
  qed
  with m True show ?thesis by (intro exI [of _ tt] exI [of _ mem']) (simp add: Un_absorb2)
next
  case False
  with assms(3) have "early_ok par b hi tt mem" by blast
  from early_interval [OF this assms(1, 2), of perms ty ng] obtain tt' mem' where
    "map_interval par start stop virt perms ty ng (tt, mem) = Some (tt', mem')" "early_ok par b hi tt' mem'"
    "present tt' = present tt \<union> (\<lambda>i. i div 256) ` pages_from virt n" "grown (mmem mem) (mmem mem')"
    "\<And>v d. translates par tt' mem' v d \<longleftrightarrow> (if page_no v \<in> pages_from virt n
       then d = page_entry (start + 4096 * word_of_nat (page_no v - page_no virt)) perms ty ng
       else translates par tt mem v d)" by blast
  with False show ?thesis by (intro exI [of _ tt'] exI [of _ mem']) simp
qed

text \<open>
  The pages that the page tables took beyond the data of the kernel. The tables grow while the loop
  maps pages, but a page of tables holds those of four megabytes, so the loop ends.
\<close>

lemma early_dataspace:
  assumes "early_ok par b hi tt mem" and "4096 dvd unat (kernel_dataspace_end (mmem mem))"
    and "unat (kernel_dataspace_end (mmem mem)) \<le> hi + 4096"
  obtains tt' mem' n where "map_dataspace par (tt, mem) = Some (tt', mem')" "early_ok par b hi tt' mem'"
    "present tt' = present tt \<union> (\<lambda>i. i div 256) ` pages_from (kernel_dataspace_end (mmem mem)) n"
    "grown ((mmem mem)\<lparr>kernel_dataspace_end := kernel_dataspace_end (mmem mem')\<rparr>) (mmem mem')"
    "unat (kernel_dataspace_end (mmem mem')) = unat (kernel_dataspace_end (mmem mem)) + 4096 * n"
    "data_limit mem' < unat (kernel_dataspace_end (mmem mem'))"
    "n = 0 \<or> unat (kernel_dataspace_end (mmem mem')) \<le> data_limit mem' + 4096"
    "\<And>v d. translates par tt' mem' v d \<longleftrightarrow> (if page_no v \<in> pages_from (kernel_dataspace_end (mmem mem)) n
       then d = page_entry (v AND 0xfffff000) RW_NA DATA False else translates par tt mem v d)"
  using assms
proof (induction "hi + 4096 - unat (kernel_dataspace_end (mmem mem))" arbitrary: tt mem thesis rule: less_induct)
  case less
  let ?e = "kernel_dataspace_end (mmem mem)"
  show ?case
  proof (cases "?e \<le> kernel_data_end (mmem mem)")
    case False
    have "(mmem mem)\<lparr>kernel_dataspace_end := ?e\<rparr> = mmem mem" by simp
    with False show ?thesis
      by (intro less.prems(1) [of tt mem 0]) (use less.prems(2) in \<open>simp_all add: map_dataspace.simps pages_from_def word_le_nat_alt\<close>)
  next
    case True
    have lim: "data_limit mem \<le> b + 4195327" using early_limit [OF less.prems(2), of 0] by simp
    have bounds: "b + 4195327 \<le> hi" "hi + 8192 \<le> 2 ^ 32" using less.prems(2) by (simp_all add: early_ok_def)
    have e: "unat ?e \<le> hi" using True lim bounds by (simp add: word_le_nat_alt)
    then have e1: "unat (?e + 4096) = unat ?e + 4096" using bounds by (simp add: unat_add_small)
    obtain tt1 mem1 where m1: "map_page par ?e ?e RW_NA DATA False (tt, mem) = Some (tt1, mem1)" "early_ok par b hi tt1 mem1"
      "present tt1 = insert (table_index ?e) (present tt)" "grown (mmem mem) (mmem mem1)"
      "\<And>v d. translates par tt1 mem1 v d \<longleftrightarrow>
        (if page_no v = page_no ?e then d = page_entry ?e RW_NA DATA False else translates par tt mem v d)"
      using early_map_page [OF less.prems(2), of ?e ?e RW_NA DATA False] by blast
    define mem2 where "mem2 = mem1\<lparr>mmem := (mmem mem1)\<lparr>kernel_dataspace_end := kernel_dataspace_end (mmem mem1) + 4096\<rparr>\<rparr>"
    have f: "kernel_dataspace_end (mmem mem2) = ?e + 4096" using grown_fields [OF m1(4)] by (simp add: mem2_def)
    have ok2: "early_ok par b hi tt1 mem2" using m1(2) unfolding early_ok_def mem2_def by simp
    have lt: "hi + 4096 - unat (kernel_dataspace_end (mmem mem2)) < hi + 4096 - unat ?e" using e e1 by (simp add: f)
    have dv: "4096 dvd unat (kernel_dataspace_end (mmem mem2))" using less.prems(3) by (simp add: f e1)
    have le: "unat (kernel_dataspace_end (mmem mem2)) \<le> hi + 4096" using e e1 by (simp add: f)
    obtain tt' mem' n where m': "map_dataspace par (tt1, mem2) = Some (tt', mem')" "early_ok par b hi tt' mem'"
      "present tt' = present tt1 \<union> (\<lambda>i. i div 256) ` pages_from (kernel_dataspace_end (mmem mem2)) n"
      "grown ((mmem mem2)\<lparr>kernel_dataspace_end := kernel_dataspace_end (mmem mem')\<rparr>) (mmem mem')"
      "unat (kernel_dataspace_end (mmem mem')) = unat (kernel_dataspace_end (mmem mem2)) + 4096 * n"
      "data_limit mem' < unat (kernel_dataspace_end (mmem mem'))"
      "n = 0 \<or> unat (kernel_dataspace_end (mmem mem')) \<le> data_limit mem' + 4096"
      and tr: "\<And>v d. translates par tt' mem' v d \<longleftrightarrow> (if page_no v \<in> pages_from (kernel_dataspace_end (mmem mem2)) n
         then d = page_entry (v AND 0xfffff000) RW_NA DATA False else translates par tt1 mem2 v d)"
      by (rule less.hyps [OF lt _ ok2 dv le]) blast
    let ?e' = "kernel_dataspace_end (mmem mem')"
    have ps: "pages_from ?e (Suc n) = insert (page_no ?e) (pages_from (?e + 4096) n)"
      using e bounds by (intro pages_from_Suc) simp
    have same: "page_no v = page_no ?e \<Longrightarrow> v AND 0xfffff000 = ?e" for v
      using page_base [of ?e v] less.prems(3) by simp
    show ?thesis
    proof (rule less.prems(1) [of tt' mem' "Suc n"])
      show "map_dataspace par (tt, mem) = Some (tt', mem')"
        using True m1(1) m'(1) grown_fields [OF m1(4)] by (simp add: map_dataspace.simps [of par "(tt, mem)"] mem2_def)
      show "present tt' = present tt \<union> (\<lambda>i. i div 256) ` pages_from ?e (Suc n)"
        unfolding m'(3) m1(3) ps f by (auto simp: table_index_page)
      show "grown ((mmem mem)\<lparr>kernel_dataspace_end := ?e'\<rparr>) (mmem mem')"
      proof -
        obtain x r where "mmem mem1 = (mmem mem)\<lparr>kernel_data_end := x, ram := r\<rparr>" "kernel_data_end (mmem mem) \<le> x"
          using m1(4) by (auto simp: grown_def)
        then have "grown ((mmem mem)\<lparr>kernel_dataspace_end := ?e'\<rparr>) ((mmem mem2)\<lparr>kernel_dataspace_end := ?e'\<rparr>)"
          unfolding grown_def by (intro conjI exI [of _ x] exI [of _ r]) (simp_all add: mem2_def)
        with m'(4) show ?thesis by (rule grown_trans [rotated])
      qed
      show "unat ?e' = unat ?e + 4096 * Suc n" using m'(5) e1 by (simp add: f)
      show "Suc n = 0 \<or> unat ?e' \<le> data_limit mem' + 4096"
      proof (cases "n = 0")
        case True
        then have "unat ?e' = unat ?e + 4096" using m'(5) e1 by (simp add: f)
        moreover have "?e \<le> kernel_data_end (mmem mem')"
          using \<open>?e \<le> kernel_data_end (mmem mem)\<close> m1(4) m'(4) by (auto simp: grown_def mem2_def)
        ultimately show ?thesis by (simp add: word_le_nat_alt)
      qed (use m'(7) in simp)
      show "translates par tt' mem' v d \<longleftrightarrow> (if page_no v \<in> pages_from ?e (Suc n)
        then d = page_entry (v AND 0xfffff000) RW_NA DATA False else translates par tt mem v d)" for v d
        unfolding ps tr f unfolding mem2_def tt_memory(2) m1(5) using same [of v] by auto
    qed (rule m'(2, 6))+
  qed
qed

section \<open>The unit is set up\<close>

text \<open>What an address of the kernel translates to, when the data of the kernel ends at \<open>stop\<close>.\<close>

definition boot_map :: "u32 \<Rightarrow> u32 \<Rightarrow> u32 \<Rightarrow> u32 \<Rightarrow> u32 option" where
  "boot_map text data stop v = (let page = v AND 0xfffff000 in
     if 0x9fff8000 \<le> v \<and> v < 0xa0000000 then Some (page_entry (page - 0x1fff8000) RW_NA STACK False)
     else if text \<le> v \<and> v < data then Some (page_entry page RO_NA CODE False)
     else if data \<le> v \<and> v < stop then Some (page_entry page RW_NA DATA False)
     else None)"

lemma pages_range:
  assumes "4096 dvd unat start" and "unat start + 4096 * n = unat stop"
  shows "page_no v \<in> pages_from start n \<longleftrightarrow> start \<le> v \<and> v < stop"
proof -
  obtain k where k: "unat start = 4096 * k" using assms(1) by blast
  then have "unat stop = 4096 * (k + n)" using assms(2) by simp
  with k show ?thesis
    by (simp add: pages_from_def page_no_def word_le_nat_alt word_less_nat_alt less_eq_div_iff_mult_less_eq div_less_iff_less_mult mult.commute)
qed

lemma page_word: "4096 * word_of_nat (page_no v) = v AND 0xfffff000"
proof -
  have "unat (4096 * word_of_nat (page_no v) :: u32) = 4096 * page_no v"
    using unat_u32 [of v] by (simp add: page_no_def unat_word_ariths(2) unat_of_nat)
  moreover have m: "(0xfffff000 :: u32) = NOT (mask 12)" by (simp add: mask_eq_decr_exp)
  have "unat (v AND 0xfffff000) = 4096 * page_no v"
    unfolding m unat_and_not_mask by (simp add: page_no_def minus_mod_eq_mult_div)
  ultimately show ?thesis by (simp only: word_unat_eq_iff)
qed

lemma interval_page:
  assumes "4096 dvd unat virt" and "page_no virt \<le> page_no v"
  shows "start + 4096 * word_of_nat (page_no v - page_no virt) = start + ((v AND 0xfffff000) - virt)"
proof -
  have "virt AND 0xfffff000 = virt" by (rule page_base [OF assms(1) refl])
  with assms(2) show ?thesis by (simp add: of_nat_diff right_diff_distrib page_word)
qed

lemma interval_map:
  assumes "4096 dvd unat virt" and "unat virt + 4096 * n = unat vstop"
  shows "(if page_no v \<in> pages_from virt n then d = page_entry (start + 4096 * word_of_nat (page_no v - page_no virt)) perms ty ng else P) =
    (if virt \<le> v \<and> v < vstop then d = page_entry (start + ((v AND 0xfffff000) - virt)) perms ty ng else P)"
proof (cases "page_no v \<in> pages_from virt n")
  case True
  then have "page_no virt \<le> page_no v" by (simp add: pages_from_def)
  with True show ?thesis
    unfolding interval_page [OF assms(1) \<open>page_no virt \<le> page_no v\<close>] using pages_range [OF assms, of v] by simp
qed (use pages_range [OF assms, of v] in auto)

lemma early_new_table:
  assumes "tables mem = Map.empty" and "\<not> initialization_completed (mmem mem)" and "4 dvd data_limit mem"
    and "0 < data_limit mem" and "data_limit mem + 4203519 \<le> 2 ^ 32"
    and "\<And>p. data_limit mem \<le> unat p \<Longrightarrow> unat p < data_limit mem + 4195327 \<Longrightarrow> virtual_to_physical par p = p"
  shows "early_ok par (data_limit mem) (data_limit mem + 4195327) (tt_new 4096) mem"
proof -
  have "inj_on (virtual_to_physical par) {p. data_limit mem \<le> unat p \<and> unat p < data_limit mem + 4195327}"
    using assms(6) by (auto simp: inj_on_def)
  then have "tt_core par (data_limit mem) (data_limit mem + 4195327) [] (tt_new 4096) mem"
    using assms(1) by (simp add: tt_core_def dir_ok_def rbtree_new_rep tt_new_def)
  moreover have "present (tt_new 4096) = {}" by (simp add: present_def tt_new_def)
  moreover have "(n + 1023) div 1024 * 1024 \<le> n + 1023" for n :: nat by simp
  ultimately show ?thesis
    using assms unfolding early_ok_def by (intro conjI exI [of _ "[]"]) (simp_all add: tt_new_def)
qed

text \<open>The entries of the first level that some pages need.\<close>

lemma tables_of_pages:
  assumes "4096 dvd unat start" and "unat start + 4096 * n = unat stop" and "1048576 * l \<le> unat start" and "unat stop \<le> 1048576 * u"
  shows "(\<lambda>i. i div 256) ` pages_from start n \<subseteq> {l..<u}"
proof
  fix j assume "j \<in> (\<lambda>i. i div 256) ` pages_from start n"
  then obtain i where i: "j = i div 256" "unat start div 4096 \<le> i" "i < unat start div 4096 + n"
    by (auto simp: pages_from_def page_no_def)
  have "4096 * (unat start div 4096) = unat start" using assms(1) by simp
  with i(2, 3) assms(2-4) have "256 * l \<le> i" "i < 256 * u" by linarith+
  then show "j \<in> {l..<u}" unfolding i(1) by (auto simp: less_eq_div_iff_mult_less_eq div_less_iff_less_mult mult.commute)
qed

text \<open>
  The state at reset: no page table, no heap, and the kernel from \<open>text\<close> to the end of
  its uninitialised data. The linker script puts it at \<open>0x81000000\<close>. While the unit is off and in the
  kernel's own mappings the memory behind the kernel translates to itself.
\<close>

definition at_reset :: "(u32 \<Rightarrow> u32) \<Rightarrow> u32 \<Rightarrow> u32 \<Rightarrow> mmu \<Rightarrow> bool" where
  "at_reset par text data s \<longleftrightarrow> kernel_table s = tt_new 4096 \<and> tables (kmem s) = Map.empty \<and>
     next_device_addr s = 0xc0000000 \<and> \<not> initialization_completed (mmem (kmem s)) \<and> ramsize (mmem (kmem s)) = 0 \<and>
     4 dvd data_limit (kmem s) \<and> 4096 dvd unat text \<and> 4096 dvd unat data \<and>
     4096 dvd unat (kernel_dataspace_end (mmem (kmem s))) \<and>
     0x80000000 \<le> text \<and> text \<le> data \<and> data \<le> kernel_data_end (mmem (kmem s)) \<and>
     kernel_data_end (mmem (kmem s)) \<le> kernel_dataspace_end (mmem (kmem s)) \<and>
     unat (kernel_dataspace_end (mmem (kmem s))) < data_limit (kmem s) + 4096 \<and>
     kernel_dataspace_end (mmem (kmem s)) \<le> 0x90000000 \<and>
     (\<forall>p. data_limit (kmem s) \<le> unat p \<and> unat p < data_limit (kmem s) + 0x4003ff \<longrightarrow> virtual_to_physical par p = p)"

lemma word_interval:
  "4096 dvd unat a \<Longrightarrow> 4096 dvd unat b \<Longrightarrow> a \<le> b \<Longrightarrow> \<exists>n. unat (a :: u32) + 4096 * n = unat b"
  by (metis dvd_def dvd_diff_nat le_add_diff_inverse word_le_nat_alt)

lemma mmu_initialized:
  assumes "at_reset par text data s"
  obtains s1 where "mmu_initialize par text data (kernel_dataspace_end (mmem (kmem s))) kt s = Some s1"
    "early_ok par (data_limit (kmem s)) (data_limit (kmem s) + 0x4003ff) (kernel_table s1) (kmem s1)"
    "next_device_addr s1 = 0xc0000000" "ramsize (mmem (kmem s1)) = 0" "4096 dvd unat (kernel_dataspace_end (mmem (kmem s1)))"
    "kernel_dataspace_end (mmem (kmem s)) \<le> kernel_dataspace_end (mmem (kmem s1))"
    "data_limit (kmem s1) < unat (kernel_dataspace_end (mmem (kmem s1)))"
    "unat (kernel_dataspace_end (mmem (kmem s1))) < 0x90402000" "present (kernel_table s1) \<subseteq> insert 2559 {2048..<2309}"
    "unat (kernel_dataspace_end (mmem (kmem s1))) \<le> data_limit (kmem s) + 0x4013ff"
    "\<And>v d. translates par (kernel_table s1) (kmem s1) v d \<longleftrightarrow>
       boot_map text data (kernel_dataspace_end (mmem (kmem s1))) v = Some d"
proof -
  let ?m = "mmem (kmem s)"
  let ?B = "data_limit (kmem s)" and ?D = "kernel_dataspace_end ?m"
  have tt: "kernel_table s = tt_new 4096" and r: "tables (kmem s) = Map.empty" "\<not> initialization_completed ?m" "ramsize ?m = 0" "4 dvd ?B"
    and al: "4096 dvd unat text" "4096 dvd unat data" "4096 dvd unat ?D"
    and ord: "0x80000000 \<le> text" "text \<le> data" "data \<le> kernel_data_end ?m" "kernel_data_end ?m \<le> ?D" "?D \<le> 0x90000000" "unat ?D < ?B + 4096"
    and id: "\<And>p. ?B \<le> unat p \<Longrightarrow> unat p < ?B + 4195327 \<Longrightarrow> virtual_to_physical par p = p"
    using assms by (auto simp: at_reset_def)
  have un: "2147483648 \<le> unat text" "unat text \<le> unat data" "unat data \<le> ?B" "?B \<le> unat ?D" "unat ?D \<le> 2415919104"
    using ord by (simp_all add: word_le_nat_alt)
  have dD: "data \<le> ?D" using ord(3, 4) by simp
  obtain n1 where n1: "unat text + 4096 * n1 = unat data" using word_interval [OF al(1, 2) ord(2)] by blast
  obtain n2 where n2: "unat data + 4096 * n2 = unat ?D" using word_interval [OF al(2, 3) dD] by blast
  have small: "unat text + 4096 * n1 < 2 ^ 32" "unat data + 4096 * n2 < 2 ^ 32" using n1 n2 un by simp_all
  have ok0: "early_ok par ?B (?B + 4195327) (tt_new 4096) (kmem s)"
    using un by (intro early_new_table r id) simp_all
  obtain tt1 mem1 where 1: "map_interval par text data text RO_NA CODE False (tt_new 4096, kmem s) = Some (tt1, mem1)"
    "early_ok par ?B (?B + 4195327) tt1 mem1" "present tt1 = present (tt_new 4096) \<union> (\<lambda>i. i div 256) ` pages_from text n1"
    "grown ?m (mmem mem1)" "\<And>v d. translates par tt1 mem1 v d \<longleftrightarrow> (if page_no v \<in> pages_from text n1
       then d = page_entry (text + 4096 * word_of_nat (page_no v - page_no text)) RO_NA CODE False
       else translates par (tt_new 4096) (kmem s) v d)"
    by (rule early_interval [OF ok0 n1 small(1), of RO_NA CODE False]) blast
  obtain tt2 mem2 where 2: "map_interval par data ?D data RW_NA DATA False (tt1, mem1) = Some (tt2, mem2)"
    "early_ok par ?B (?B + 4195327) tt2 mem2" "present tt2 = present tt1 \<union> (\<lambda>i. i div 256) ` pages_from data n2"
    "grown (mmem mem1) (mmem mem2)" "\<And>v d. translates par tt2 mem2 v d \<longleftrightarrow> (if page_no v \<in> pages_from data n2
       then d = page_entry (data + 4096 * word_of_nat (page_no v - page_no data)) RW_NA DATA False
       else translates par tt1 mem1 v d)"
    by (rule early_interval [OF 1(2) n2 small(2), of RW_NA DATA False]) blast
  have st: "unat (0x80000000 :: u32) + 4096 * 8 = unat (0x80008000 :: u32)" "unat (0x9fff8000 :: u32) + 4096 * 8 < 2 ^ 32" by simp_all
  have st2: "unat (0x9fff8000 :: u32) + 4096 * 8 = unat (0xa0000000 :: u32)" by simp
  obtain tt3 mem3 where 3: "map_interval par 0x80000000 0x80008000 0x9fff8000 RW_NA STACK False (tt2, mem2) = Some (tt3, mem3)"
    "early_ok par ?B (?B + 4195327) tt3 mem3" "present tt3 = present tt2 \<union> (\<lambda>i. i div 256) ` pages_from 0x9fff8000 8"
    "grown (mmem mem2) (mmem mem3)" "\<And>v d. translates par tt3 mem3 v d \<longleftrightarrow> (if page_no v \<in> pages_from 0x9fff8000 8
       then d = page_entry (0x80000000 + 4096 * word_of_nat (page_no v - page_no 0x9fff8000)) RW_NA STACK False
       else translates par tt2 mem2 v d)"
    by (rule early_interval [OF 2(2) st, of RW_NA STACK False]) blast
  have D3: "kernel_dataspace_end (mmem mem3) = ?D" "ramsize (mmem mem3) = 0"
    using grown_fields [OF 1(4)] grown_fields [OF 2(4)] grown_fields [OF 3(4)] r(3) by simp_all
  have dv: "4096 dvd unat (kernel_dataspace_end (mmem mem3))" "unat (kernel_dataspace_end (mmem mem3)) \<le> ?B + 4195327 + 4096"
    unfolding D3(1) using al(3) ord(6) by simp_all
  obtain tt4 mem4 n4 where 4: "map_dataspace par (tt3, mem3) = Some (tt4, mem4)" "early_ok par ?B (?B + 4195327) tt4 mem4"
    "present tt4 = present tt3 \<union> (\<lambda>i. i div 256) ` pages_from ?D n4"
    "grown ((mmem mem3)\<lparr>kernel_dataspace_end := kernel_dataspace_end (mmem mem4)\<rparr>) (mmem mem4)"
    "unat (kernel_dataspace_end (mmem mem4)) = unat ?D + 4096 * n4"
    "data_limit mem4 < unat (kernel_dataspace_end (mmem mem4))"
    "n4 = 0 \<or> unat (kernel_dataspace_end (mmem mem4)) \<le> data_limit mem4 + 4096"
    "\<And>v d. translates par tt4 mem4 v d \<longleftrightarrow> (if page_no v \<in> pages_from ?D n4
       then d = page_entry (v AND 0xfffff000) RW_NA DATA False else translates par tt3 mem3 v d)"
    by (rule early_dataspace [OF 3(2) dv, unfolded D3(1)]) blast
  let ?E = "kernel_dataspace_end (mmem mem4)"
  have "data_limit mem4 \<le> ?B + 4195327" using early_limit [OF 4(2)] by simp
  with 4(5, 7) un have E: "unat ?E < 2420121600" and EB: "unat ?E \<le> ?B + 4199423" using ord(6) by auto
  have n4: "unat ?D + 4096 * n4 = unat ?E" using 4(5) by simp
  have E12: "unat text \<le> 2420121600" "unat data \<le> 2420121600" "unat ?D \<le> 2420121600" "unat ?E \<le> 2420121600" using E un by simp_all
  have "present tt4 \<subseteq> insert 2559 {2048..<2309}"
  proof -
    have "(\<lambda>i. i div 256) ` pages_from text n1 \<subseteq> {2048..<2309}" "(\<lambda>i. i div 256) ` pages_from data n2 \<subseteq> {2048..<2309}"
      "(\<lambda>i. i div 256) ` pages_from ?D n4 \<subseteq> {2048..<2309}"
      using un E12 by (intro tables_of_pages [OF al(1) n1] tables_of_pages [OF al(2) n2] tables_of_pages [OF al(3) n4]; simp)+
    moreover have "(\<lambda>i. i div 256) ` pages_from 0x9fff8000 8 \<subseteq> {2559..<2560}"
      by (rule tables_of_pages [OF _ st2]) simp_all
    moreover have "present (tt_new 4096) = {}" by (simp add: present_def tt_new_def)
    ultimately show ?thesis unfolding 4(3) 3(3) 2(3) 1(3) by auto
  qed
  moreover have "translates par tt4 mem4 v d \<longleftrightarrow> boot_map text data ?E v = Some d" for v d
  proof -
    have none: "\<not> translates par (tt_new 4096) (kmem s) v d" using r(1) by (simp add: translates_def)
    have D: "page_no v \<in> pages_from ?D n4 \<longleftrightarrow> ?D \<le> v \<and> v < ?E" by (rule pages_range [OF al(3) n4])
    have s0: "0x80000000 + ((v AND 0xfffff000) - 0x9fff8000) = (v AND 0xfffff000) - 0x1fff8000" by simp
    have sa: "4096 dvd unat (0x9fff8000 :: u32)" by simp
    have off: "\<not> (0x9fff8000 \<le> v \<and> v < ?E)" "\<not> (0x9fff8000 \<le> v \<and> v < ?D)" "\<not> (0x9fff8000 \<le> v \<and> v < data)"
      using E12 E by (auto simp: word_le_nat_alt word_less_nat_alt)
    show ?thesis
      unfolding 4(8) 3(5) 2(5) 1(5) D interval_map [OF sa st2] interval_map [OF al(2) n2] interval_map [OF al(1) n1] s0
      using none off dD ord(2) n4 by (auto simp: boot_map_def Let_def word_le_nat_alt word_less_nat_alt)
  qed
  moreover have "ramsize (mmem mem4) = 0" using grown_fields [OF 4(4)] D3(2) by simp
  moreover have "4096 dvd unat ?E" using al(3) n4 by (metis dvd_add dvd_triv_left)
  moreover have "?D \<le> ?E" using n4 by (simp add: word_le_nat_alt)
  moreover define s1 where "s1 = s\<lparr>kernel_table := tt4, kmem := mem4, ttbcr := 1,
    ttbr1 := kt OR (push_bit 3 0b10 OR 0b11), dacr := 0x55555555\<rparr>"
  have "mmu_initialize par text data ?D kt s = Some s1"
    using 1(1) 2(1) 3(1) 4(1) by (simp add: mmu_initialize_def tt s1_def)
  ultimately show thesis
    using 4(2, 6) E EB assms by (intro that [of s1]) (simp_all add: s1_def at_reset_def)
qed

section \<open>The heap and the free pages\<close>

lemma early_ok_memory:
  "kernel_data_end m = kernel_data_end (mmem mem) \<Longrightarrow> initialization_completed m = initialization_completed (mmem mem) \<Longrightarrow>
     early_ok par b hi tt (mem\<lparr>mmem := m\<rparr>) = early_ok par b hi tt mem"
  by (simp add: early_ok_def)

text \<open>The size of the RAM that the memory controller reports, and the address space with the controller.\<close>

definition ram_size :: "(u32 \<Rightarrow> u32) \<Rightarrow> u32" where
  "ram_size io = push_bit 21 ((drop_bit 8 (io 0xc0000080) AND 0x3ff) + (drop_bit 8 (io 0xc00000b0) AND 0x3ff))"

definition kernel_map :: "u32 \<Rightarrow> u32 \<Rightarrow> u32 \<Rightarrow> u32 \<Rightarrow> u32 option" where
  "kernel_map text data stop v = (let page = v AND 0xfffff000 in
     if 0xc0000000 \<le> v \<and> v < 0xc0010000 then Some (page_entry (page - 0xc0000000 + 0x6d000000) RW_NA DEVICE False)
     else boot_map text data stop v)"

lemma ram_size_pages: "4096 dvd unat (ram_size io)"
proof -
  have "4096 dvd unat (x * 2 ^ 21 :: u32)" for x
    unfolding unat_word_ariths(2) by (rule dvd_mod) simp_all
  then show ?thesis unfolding ram_size_def push_bit_eq_mult .
qed

lemma mm_initialized:
  assumes ok: "early_ok par b hi (kernel_table s) (kmem s)" and dev: "next_device_addr s = 0xc0000000"
    and m: "ramsize (mmem (kmem s)) = 0" "4096 dvd unat (kernel_dataspace_end (mmem (kmem s)))"
      "data_limit (kmem s) < unat (kernel_dataspace_end (mmem (kmem s)))"
      "unat (kernel_dataspace_end (mmem (kmem s))) < 0x90402000"
    and b: "0x80000000 \<le> b" "b \<le> unat (kernel_dataspace_end (mmem (kmem s)))"
    and pr: "present (kernel_table s) \<subseteq> insert 2559 {2048..<2309}"
    and stop: "stop = kernel_dataspace_end (mmem (kmem s)) + 0x400000"
    and ram: "unat (ram_size io) < 0x80000000" "unat stop \<le> 0x80000000 + unat (ram_size io)"
    and n: "n = (0x80000000 + unat (ram_size io) - unat stop) div 4096"
    and tr: "\<And>v d. translates par (kernel_table s) (kmem s) v d \<longleftrightarrow>
       boot_map text data (kernel_dataspace_end (mmem (kmem s))) v = Some d"
    and data: "data \<le> kernel_dataspace_end (mmem (kmem s))"
  obtains s2 lo segs st xs where "mm_initialize par io 0x80000000 s = Some s2" "next_device_addr s2 = 0xc0010000"
    "\<And>v d. translates par (kernel_table s2) (kmem s2) v d \<longleftrightarrow> kernel_map text data stop v = Some d"
    "tt_core par b hi xs (kernel_table s2) (kmem s2)" "present (kernel_table s2) = insert 3072 (present (kernel_table s) \<union> (\<lambda>i. i div 256) ` pages_from (kernel_dataspace_end (mmem (kmem s))) 1024)"
    "\<forall>pt \<in> dom (tables (kmem s2)). unat pt + 1024 \<le> lo" "mm_heap (mmem (kmem s2)) lo segs (unat stop)"
    "page_stack_initialized (mmem (kmem s2))" "page_stack (mmem (kmem s2)) = Some st"
    "stack_rep st n (rev (map (\<lambda>i. stop + 4096 * word_of_nat i) [0..<n]))" "\<exists>x r. (x, r, False) \<in> set segs \<and> 0x100000 \<le> unat r"
proof -
  let ?E = "kernel_dataspace_end (mmem (kmem s))" and ?R = "ram_size io"
  have dst: "unat (0x6d000000 :: u32) + 4096 * 16 = unat (0x6d010000 :: u32)" "unat (0xc0000000 :: u32) + 4096 * 16 < 2 ^ 32"
    "unat (0xc0000000 :: u32) + 4096 * 16 = unat (0xc0010000 :: u32)" by simp_all
  obtain tt1 mem1 where 1: "map_interval par 0x6d000000 0x6d010000 0xc0000000 RW_NA DEVICE False (kernel_table s, kmem s) = Some (tt1, mem1)"
    "early_ok par b hi tt1 mem1" "present tt1 = present (kernel_table s) \<union> (\<lambda>i. i div 256) ` pages_from 0xc0000000 16"
    "grown (mmem (kmem s)) (mmem mem1)" "\<And>v d. translates par tt1 mem1 v d \<longleftrightarrow> (if page_no v \<in> pages_from 0xc0000000 16
       then d = page_entry (0x6d000000 + 4096 * word_of_nat (page_no v - page_no 0xc0000000)) RW_NA DEVICE False
       else translates par (kernel_table s) (kmem s) v d)"
    by (rule early_interval [OF ok dst(1, 2), of RW_NA DEVICE False]) blast
  have f1: "kernel_dataspace_end (mmem mem1) = ?E" "ramsize (mmem mem1) = 0" using grown_fields [OF 1(4)] m(1) by simp_all
  have up: "(?E + 4095) AND mask_left 4096 = ?E"
  proof -
    obtain k where k: "unat ?E = 4096 * k" using m(2) by blast
    have "unat ((?E + 4095) AND mask_left (2 ^ 12)) = unat (?E + 4095) - unat (?E + 4095) mod 2 ^ 12" by (rule round_down) simp
    moreover have "unat (?E + 4095) = 4096 * k + 4095" using m(4) k by (simp add: unat_add_small)
    ultimately show ?thesis using k by (simp add: word_unat_eq_iff)
  qed
  have es: "unat stop = unat ?E + 4194304" using m(4) unfolding stop by (simp add: unat_add_small)
  have down: "stop AND mask_left 4096 = stop"
  proof -
    have "unat (stop AND mask_left (2 ^ 12)) = unat stop - unat stop mod 2 ^ 12" by (rule round_down) simp
    moreover have "4096 dvd unat stop" unfolding es using m(2) by (rule dvd_add) simp
    ultimately show ?thesis by (simp add: word_unat_eq_iff)
  qed
  define mm1 where "mm1 = (mmem mem1)\<lparr>sdrc_base := 0xc0000000, ramsize := ?R, kernel_dataspace_end := ?E\<rparr>"
  have ok1: "early_ok par b hi tt1 (mem1\<lparr>mmem := mm1\<rparr>)" using 1(2) by (simp add: early_ok_memory mm1_def)
  have mmeq: "mmem (mem1\<lparr>mmem := mm1\<rparr>) = mm1" by simp
  have hst: "unat ?E + 4096 * 1024 = unat stop" "unat ?E + 4096 * 1024 < 2 ^ 32" using es m(4) by simp_all
  obtain tt2 mem2 where 2: "map_interval par ?E stop ?E RW_NA DATA False (tt1, mem1\<lparr>mmem := mm1\<rparr>) = Some (tt2, mem2)"
    "early_ok par b hi tt2 mem2" "present tt2 = present tt1 \<union> (\<lambda>i. i div 256) ` pages_from ?E 1024"
    "grown mm1 (mmem mem2)" "\<And>v d. translates par tt2 mem2 v d \<longleftrightarrow> (if page_no v \<in> pages_from ?E 1024
       then d = page_entry (?E + 4096 * word_of_nat (page_no v - page_no ?E)) RW_NA DATA False
       else translates par tt1 (mem1\<lparr>mmem := mm1\<rparr>) v d)"
    by (rule early_interval [OF ok1 hst, of RW_NA DATA False, unfolded mmeq]) blast
  have f2: "kernel_dataspace_end (mmem mem2) = ?E" "ramsize (mmem mem2) = ?R"
    using grown_fields [OF 2(4)] by (simp_all add: mm1_def)
  have p2: "present tt2 = insert 3072 (present (kernel_table s) \<union> (\<lambda>i. i div 256) ` pages_from ?E 1024)"
  proof -
    have "(\<lambda>i. i div 256) ` pages_from 0xc0000000 16 = {3072}"
    proof -
      have "pages_from 0xc0000000 16 = {786432..<786448}" by (simp add: pages_from_def page_no_def)
      then show ?thesis by (auto simp: image_iff) (rule bexI [of _ 786432]; simp)
    qed
    then show ?thesis unfolding 2(3) 1(3) by auto
  qed
  have lim: "unat (kernel_data_end (mmem mem2)) \<le> b + 274431"
  proof -
    have "(\<lambda>i. i div 256) ` pages_from ?E 1024 \<subseteq> {2048..<2313}"
      using m(4) es b by (intro tables_of_pages [OF m(2) hst(1)]) simp_all
    then have "present tt2 \<subseteq> {2559, 3072} \<union> {2048..<2313}" unfolding p2 using pr by fastforce
    from card_mono [OF _ this] have "card (present tt2) \<le> 267" by simp
    moreover have "(data_limit mem2 + 1023) div 1024 * 1024 \<le> b + 1023 + 1024 * card (present tt2)"
      using 2(2) by (simp add: early_ok_def)
    ultimately show ?thesis by linarith
  qed
  have "4 dvd unat (kernel_data_end (mmem mem2))" using 2(2) by (simp add: early_ok_def)
  moreover have "4096 * n \<le> 0x80000000 + unat ?R - unat stop" unfolding n by (rule times_div_less_eq_dividend)
  then have "4096 * n \<le> 0x80000000" using ram es b by linarith
  then have "unat (kernel_data_end (mmem mem2)) + 80 + 4 * n < unat stop" using lim b(2) es by linarith
  moreover have sp: "4096 dvd unat stop" unfolding es using m(2) by (rule dvd_add) simp
  ultimately have "\<exists>m' st segs. create_page_stack 0x80000000 (create_heap stop (mmem mem2)) = Some m' \<and>
    page_stack_initialized m' \<and> page_stack m' = Some st \<and>
    stack_rep st n (rev (map (\<lambda>i. stop + 4096 * word_of_nat i) [0..<n])) \<and>
    mm_heap m' (unat (kernel_data_end (mmem mem2))) segs (unat stop) \<and>
    (\<exists>x r. (x, r, False) \<in> set segs \<and> unat stop \<le> unat (kernel_data_end (mmem mem2)) + 64 + 4 * n + unat r)"
    using es b ram n ram_size_pages [of io] f2(2) by (intro memory_initialized) simp_all
  then obtain m' st segs where m': "create_page_stack 0x80000000 (create_heap stop (mmem mem2)) = Some m'"
    "page_stack_initialized m'" "page_stack m' = Some st"
    "stack_rep st n (rev (map (\<lambda>i. stop + 4096 * word_of_nat i) [0..<n]))"
    "mm_heap m' (unat (kernel_data_end (mmem mem2))) segs (unat stop)"
    "\<exists>x r. (x, r, False) \<in> set segs \<and> unat stop \<le> unat (kernel_data_end (mmem mem2)) + 64 + 4 * n + unat r" by blast
  have room: "\<exists>x r. (x, r, False) \<in> set segs \<and> 0x100000 \<le> unat r"
  proof -
    obtain x r where "(x, r, False) \<in> set segs" "unat stop \<le> unat (kernel_data_end (mmem mem2)) + 64 + 4 * n + unat r"
      using m'(6) by blast
    moreover from this(2) have "0x100000 \<le> unat r" using lim b(2) es \<open>4096 * n \<le> 0x80000000\<close> by linarith
    ultimately show ?thesis by blast
  qed
  define s2 where "s2 = s\<lparr>kernel_table := tt2, kmem := mem2\<lparr>mmem := m'\<rparr>, next_device_addr := 0xc0010000\<rparr>"
  have "map_device par sdrc_physical (64 * 1024) s = Some (0xc0000000, s\<lparr>kernel_table := tt1, kmem := mem1, next_device_addr := 0xc0010000\<rparr>)"
    using 1(1) dev by (simp add: map_device_def sdrc_physical_def)
  then have run: "mm_initialize par io 0x80000000 s = Some s2"
    using 2(1) m'(1) up down f1 stop by (simp add: mm_initialize_def Let_def mm1_def ram_size_def
        mcfg0_offset_def mcfg1_offset_def kernel_heap_size_def s2_def)
  have trs: "translates par tt2 mem2 v d \<longleftrightarrow> kernel_map text data stop v = Some d" for v d
  proof -
    have H: "page_no v \<in> pages_from ?E 1024 \<longleftrightarrow> ?E \<le> v \<and> v < stop" by (rule pages_range [OF m(2) hst(1)])
    have ha: "4096 dvd unat (0xc0000000 :: u32)" by simp
    have s0: "0x6d000000 + ((v AND 0xfffff000) - 0xc0000000) = (v AND 0xfffff000) - 0xc0000000 + 0x6d000000"
      "?E + ((v AND 0xfffff000) - ?E) = v AND 0xfffff000" by simp_all
    have off: "\<not> (0x9fff8000 \<le> v \<and> v < stop)" "\<not> (0xc0000000 \<le> v \<and> v < stop)"
      using es m(4) by (auto simp: word_le_nat_alt word_less_nat_alt)
    show ?thesis
      unfolding 2(5) tt_memory(2) 1(5) interval_map [OF m(2) hst(1)] interval_map [OF ha dst(3)] s0 tr
      using off data es by (auto simp: kernel_map_def boot_map_def Let_def word_le_nat_alt word_less_nat_alt)
  qed
  obtain xs where xs: "tt_core par b hi xs tt2 mem2" "\<forall>pt \<in> dom (tables mem2). unat pt + 1024 \<le> data_limit mem2"
    using 2(2) by (auto simp: early_ok_def)
  show thesis
    by (rule that [OF run]) (use trs xs p2 m'(1-5) room in \<open>simp_all add: s2_def\<close>)
qed

section \<open>From reset to the heap\<close>

text \<open>What the kernel's addresses translate to lies below the free pages.\<close>

lemma page_minus:
  assumes "c AND 0xfff = 0"
  shows "((v AND 0xfffff000) - c) AND 0xfff = (0 :: u32)" and "((v AND 0xfffff000) + c) AND 0xfff = (0 :: u32)"
proof -
  have z: "(4096 * w :: u32) AND 0xfff = 0" for w
  proof -
    have "push_bit 12 w AND mask 12 = (0 :: u32)" by (simp add: bit_eq_iff bit_simps)
    then show ?thesis by (simp add: push_bit_eq_mult mult.commute mask_eq_exp_minus_1)
  qed
  have c: "c = 4096 * word_of_nat (page_no c)" using page_of_aligned [OF assms] by (simp add: page_word)
  have "(v AND 0xfffff000) - c = 4096 * (word_of_nat (page_no v) - word_of_nat (page_no c))"
    "(v AND 0xfffff000) + c = 4096 * (word_of_nat (page_no v) + word_of_nat (page_no c))"
    by (subst c; simp add: right_diff_distrib distrib_left flip: page_word)+
  then show "((v AND 0xfffff000) - c) AND 0xfff = 0" "((v AND 0xfffff000) + c) AND 0xfff = 0" by (simp_all only: z)
qed

lemma page_below: "unat (v AND 0xfffff000 :: u32) \<le> unat v"
proof -
  have m: "(0xfffff000 :: u32) = NOT (mask 12)" by (simp add: mask_eq_decr_exp)
  show ?thesis unfolding m unat_and_not_mask by simp
qed

lemma kernel_map_below:
  assumes "kernel_map text data stop v = Some d" and "0x80008000 \<le> stop" and "data \<le> stop"
  shows "hw_page d < stop"
proof -
  let ?p = "v AND 0xfffff000"
  have h: "hw_page (page_entry p perms ty ng) = p" if "p AND 0xfff = 0" for p perms ty ng
    unfolding hw_page_def by (rule page_entry_page [OF that])
  have p0: "?p AND 0xfff = 0" using page_minus(1) [of 0 v] by simp
  have up: "unat ?p \<le> unat v" by (rule page_below)
  have floor: "unat a \<le> unat ?p" if "4096 dvd unat a" "a \<le> v" for a :: u32
  proof -
    have "page_no a \<le> page_no v" using that(2) unfolding page_no_def by (simp add: word_le_nat_alt div_le_mono)
    moreover have "unat ?p = 4096 * page_no v"
      using page_word [of v] unat_u32 [of v] by (simp add: page_no_def unat_word_ariths(2) unat_of_nat flip: page_word)
    ultimately show ?thesis using that(1) by (auto simp: page_no_def)
  qed
  consider (device) "0xc0000000 \<le> v" "v < 0xc0010000" "d = page_entry (?p - 0xc0000000 + 0x6d000000) RW_NA DEVICE False"
    | (stack) "0x9fff8000 \<le> v" "v < 0xa0000000" "d = page_entry (?p - 0x1fff8000) RW_NA STACK False"
    | (code) "v < data" "d = page_entry ?p RO_NA CODE False" | (rest) "v < stop" "d = page_entry ?p RW_NA DATA False"
    using assms(1) by (auto simp: kernel_map_def boot_map_def Let_def split: if_splits)
  then show ?thesis
  proof cases
    case device
    have "hw_page d = ?p - 0x53000000" using device(3) h [of "?p - 0x53000000"] page_minus(1) [of "0x53000000" v] by simp
    moreover have "unat ?p < 0xc0010000" using up device(2) by (simp add: word_less_nat_alt)
    moreover have "3221225472 \<le> unat ?p" using floor [of "0xc0000000"] device(1) by simp
    ultimately show ?thesis using assms(2) by (simp add: word_less_nat_alt word_le_nat_alt unat_sub)
  next
    case stack
    have "hw_page d = ?p - 0x1fff8000" using stack(3) h page_minus(1) [of "0x1fff8000" v] by simp
    moreover have "unat ?p < 0xa0000000" using up stack(2) by (simp add: word_less_nat_alt)
    moreover have "2684321792 \<le> unat ?p" using floor [of "0x9fff8000"] stack(1) by simp
    ultimately show ?thesis using assms(2) by (simp add: word_less_nat_alt word_le_nat_alt unat_sub)
  qed (use h [OF p0] up assms(3) in \<open>simp_all add: word_less_nat_alt word_le_nat_alt\<close>)
qed

text \<open>The free pages, as a set.\<close>

lemma page_range_set:
  assumes "4096 dvd unat stop" and "unat stop + 4096 * n \<le> 2 ^ 32" and "4096 * n = up - unat stop" and "unat stop \<le> up"
  shows "set (map (\<lambda>i. stop + 4096 * word_of_nat i) [0..<n]) = {p :: u32. 4096 dvd unat p \<and> stop \<le> p \<and> unat p < up}"
    and "distinct (map (\<lambda>i. stop + 4096 * word_of_nat i) [0..<n])"
proof -
  have u: "unat (stop + 4096 * word_of_nat i) = unat stop + 4096 * i" if "i < n" for i
  proof -
    have "unat (4096 * word_of_nat i :: u32) = 4096 * i" using assms(2) that by (simp add: unat_word_ariths(2) unat_of_nat)
    then show ?thesis using assms(2) that by (simp add: unat_add_small)
  qed
  show "distinct (map (\<lambda>i. stop + 4096 * word_of_nat i) [0..<n])"
    unfolding distinct_map
  proof (intro conjI inj_onI)
    fix i j
    assume "i \<in> set [0..<n]" "j \<in> set [0..<n]" and eq: "stop + 4096 * word_of_nat i = stop + 4096 * word_of_nat j"
    then have "i < n" "j < n" by simp_all
    from arg_cong [OF eq, of unat] show "i = j" unfolding u [OF \<open>i < n\<close>] u [OF \<open>j < n\<close>] by simp
  qed simp
  show "set (map (\<lambda>i. stop + 4096 * word_of_nat i) [0..<n]) = {p. 4096 dvd unat p \<and> stop \<le> p \<and> unat p < up}"
  proof (intro equalityI subsetI)
    fix p assume "p \<in> set (map (\<lambda>i. stop + 4096 * word_of_nat i) [0..<n])"
    then obtain i where "i < n" "p = stop + 4096 * word_of_nat i" by auto
    with u [of i] assms show "p \<in> {p. 4096 dvd unat p \<and> stop \<le> p \<and> unat p < up}" by (simp add: word_le_nat_alt)
  next
    fix p assume p: "p \<in> {p. 4096 dvd unat p \<and> stop \<le> p \<and> unat p < up}"
    with assms(1) word_interval [of stop p] obtain i where i: "unat stop + 4096 * i = unat p" by auto
    with p assms(3) have "i < n" by auto
    moreover have "p = stop + 4096 * word_of_nat i" using i u [OF \<open>i < n\<close>] by (simp add: word_unat_eq_iff)
    ultimately show "p \<in> set (map (\<lambda>i. stop + 4096 * word_of_nat i) [0..<n])" by simp
  qed
qed

text \<open>
  What the kernel has to start with: \<open>stop\<close> is the end of its heap, \<open>top\<close> that of the RAM, in bytes.
\<close>

definition memory_ready :: "(u32 \<Rightarrow> u32) \<Rightarrow> u32 \<Rightarrow> u32 \<Rightarrow> u32 \<Rightarrow> nat \<Rightarrow> mmu \<Rightarrow> bool" where
  "memory_ready par text data stop ramtop s \<longleftrightarrow>
     (\<forall>v d. translates par (kernel_table s) (kmem s) v d \<longleftrightarrow> kernel_map text data stop v = Some d) \<and>
     (\<exists>b hi xs. tt_core par b hi xs (kernel_table s) (kmem s) \<and>
       (\<forall>p. b \<le> unat p \<and> unat p < hi \<longrightarrow> virtual_to_physical par p = p)) \<and> next_device_addr s = 0xc0010000 \<and>
     (\<exists>lo segs. mm_heap (mmem (kmem s)) lo segs (unat stop) \<and> (\<exists>x r. (x, r, False) \<in> set segs \<and> 0x100000 \<le> unat r) \<and>
       (\<forall>pt \<in> dom (tables (kmem s)). unat pt + 1024 \<le> lo)) \<and>
     page_stack_initialized (mmem (kmem s)) \<and> 4096 dvd unat stop \<and>
     (\<exists>st. page_stack (mmem (kmem s)) = Some st \<and> stack_rep st ((ramtop - unat stop) div 4096)
       (rev (map (\<lambda>i. stop + 4096 * word_of_nat i) [0..<(ramtop - unat stop) div 4096])))"

lemma memory_started:
  assumes "at_reset par text data s" and "unat (ram_size io) < 0x80000000"
    and "data_limit (kmem s) + 0x900000 \<le> 0x80000000 + unat (ram_size io)"
  obtains s1 s2 stop where "mmu_initialize par text data (kernel_dataspace_end (mmem (kmem s))) kt s = Some s1"
    "mm_initialize par io 0x80000000 s1 = Some s2" "memory_ready par text data stop (0x80000000 + unat (ram_size io)) s2"
    "unat (kernel_dataspace_end (mmem (kmem s))) + 0x400000 \<le> unat stop" "unat stop \<le> data_limit (kmem s) + 0x8013ff"
proof -
  let ?D = "kernel_dataspace_end (mmem (kmem s))"
  from mmu_initialized [OF assms(1), of kt] obtain s1 where
    1: "mmu_initialize par text data ?D kt s = Some s1"
    "early_ok par (data_limit (kmem s)) (data_limit (kmem s) + 0x4003ff) (kernel_table s1) (kmem s1)"
    "next_device_addr s1 = 0xc0000000" "ramsize (mmem (kmem s1)) = 0" "4096 dvd unat (kernel_dataspace_end (mmem (kmem s1)))"
    "?D \<le> kernel_dataspace_end (mmem (kmem s1))" "data_limit (kmem s1) < unat (kernel_dataspace_end (mmem (kmem s1)))"
    "unat (kernel_dataspace_end (mmem (kmem s1))) < 0x90402000" "present (kernel_table s1) \<subseteq> insert 2559 {2048..<2309}"
    "unat (kernel_dataspace_end (mmem (kmem s1))) \<le> data_limit (kmem s) + 0x4013ff"
    "\<And>v d. translates par (kernel_table s1) (kmem s1) v d \<longleftrightarrow>
       boot_map text data (kernel_dataspace_end (mmem (kmem s1))) v = Some d" by blast
  let ?E = "kernel_dataspace_end (mmem (kmem s1))"
  define stop where "stop = ?E + 0x400000"
  have es: "unat stop = unat ?E + 0x400000" using 1(8) unfolding stop_def by (simp add: unat_add_small)
  have dv: "4096 dvd unat stop" unfolding es using 1(5) by (rule dvd_add) simp
  have r: "0x80000000 \<le> text" "text \<le> data" "data \<le> kernel_data_end (mmem (kmem s))" "kernel_data_end (mmem (kmem s)) \<le> ?D"
    using assms(1) by (simp_all add: at_reset_def)
  have b: "0x80000000 \<le> data_limit (kmem s)" "data_limit (kmem s) \<le> unat ?E" "data \<le> ?E"
    using r 1(6) by (simp_all add: word_le_nat_alt)
  have ram: "unat stop \<le> 0x80000000 + unat (ram_size io)" using 1(10) es assms(3) by linarith
  obtain s2 lo segs st xs where 2: "mm_initialize par io 0x80000000 s1 = Some s2" "next_device_addr s2 = 0xc0010000"
    "\<And>v d. translates par (kernel_table s2) (kmem s2) v d \<longleftrightarrow> kernel_map text data stop v = Some d"
    "tt_core par (data_limit (kmem s)) (data_limit (kmem s) + 0x4003ff) xs (kernel_table s2) (kmem s2)"
    "\<forall>pt \<in> dom (tables (kmem s2)). unat pt + 1024 \<le> lo" "mm_heap (mmem (kmem s2)) lo segs (unat stop)"
    "page_stack_initialized (mmem (kmem s2))" "page_stack (mmem (kmem s2)) = Some st"
    "stack_rep st ((0x80000000 + unat (ram_size io) - unat stop) div 4096)
      (rev (map (\<lambda>i. stop + 4096 * word_of_nat i) [0..<(0x80000000 + unat (ram_size io) - unat stop) div 4096]))"
    "\<exists>x r. (x, r, False) \<in> set segs \<and> 0x100000 \<le> unat r"
    by (rule mm_initialized [OF 1(2, 3, 4, 5, 7, 8) b(1, 2) 1(9) stop_def assms(2) ram refl 1(11) b(3)]) blast
  have id: "\<forall>p. data_limit (kmem s) \<le> unat p \<and> unat p < data_limit (kmem s) + 0x4003ff \<longrightarrow> virtual_to_physical par p = p"
    using assms(1) by (simp add: at_reset_def)
  have "memory_ready par text data stop (0x80000000 + unat (ram_size io)) s2"
    unfolding memory_ready_def using 2(2, 3, 5-10) dv 2(4) id by blast
  then show thesis
    by (rule that [OF 1(1) 2(1)]) (use es 1(6, 10) in \<open>simp_all add: word_le_nat_alt\<close>)
qed

text \<open>
  C11: from reset, with less than two gigabytes of RAM and room for the heap, both initialisations return, though the page
  tables and the kernel's data grow into each other. An address then translates exactly as \<open>kernel_map\<close>
  says: the code without write access, the data and the heap to themselves, the stack and the memory
  controller. The heap is well formed and starts behind all page tables. The stack of free pages
  holds every page from the end of the heap to the end of the RAM once, and no address of the kernel
  translates to one of them.
\<close>

theorem kernel_memory_starts:
  assumes "at_reset par text data s" and "unat (ram_size io) < 0x80000000"
    and "data_limit (kmem s) + 0x900000 \<le> 0x80000000 + unat (ram_size io)"
  shows "\<exists>s1 s2 stop lo segs st pages.
    mmu_initialize par text data (kernel_dataspace_end (mmem (kmem s))) kt s = Some s1 \<and>
    mm_initialize par io 0x80000000 s1 = Some s2 \<and>
    (\<forall>v d. translates par (kernel_table s2) (kmem s2) v d \<longleftrightarrow> kernel_map text data stop v = Some d) \<and>
    mm_heap (mmem (kmem s2)) lo segs (unat stop) \<and> (\<forall>pt \<in> dom (tables (kmem s2)). unat pt + 1024 \<le> lo) \<and>
    page_stack (mmem (kmem s2)) = Some st \<and> stack_rep st (length pages) pages \<and> distinct pages \<and>
    set pages = {p. 4096 dvd unat p \<and> stop \<le> p \<and> unat p < 0x80000000 + unat (ram_size io)} \<and>
    (\<forall>v d. translates par (kernel_table s2) (kmem s2) v d \<longrightarrow> hw_page d \<notin> set pages)"
proof -
  from memory_started [OF assms, of kt] obtain s1 s2 stop where
    1: "mmu_initialize par text data (kernel_dataspace_end (mmem (kmem s))) kt s = Some s1"
      "mm_initialize par io 0x80000000 s1 = Some s2" "memory_ready par text data stop (0x80000000 + unat (ram_size io)) s2"
      "unat (kernel_dataspace_end (mmem (kmem s))) + 0x400000 \<le> unat stop" "unat stop \<le> data_limit (kmem s) + 0x8013ff" by blast
  let ?top = "0x80000000 + unat (ram_size io)"
  define n where "n = (?top - unat stop) div 4096"
  define pages where "pages = rev (map (\<lambda>i. stop + 4096 * word_of_nat i) [0..<n])"
  obtain lo segs st where 2: "mm_heap (mmem (kmem s2)) lo segs (unat stop)" "\<forall>pt \<in> dom (tables (kmem s2)). unat pt + 1024 \<le> lo"
    "page_stack (mmem (kmem s2)) = Some st" "stack_rep st (length pages) pages" "4096 dvd unat stop"
    and tr: "\<forall>v d. translates par (kernel_table s2) (kmem s2) v d \<longleftrightarrow> kernel_map text data stop v = Some d"
    using 1(3) unfolding memory_ready_def by (auto simp: n_def pages_def)
  have le: "unat stop \<le> ?top" using 1(5) assms(3) by linarith
  have "4096 dvd ?top" by (rule dvd_add [OF _ ram_size_pages]) simp
  then have n: "4096 * n = ?top - unat stop" unfolding n_def using 2(5) by simp
  have "unat stop + 4096 * n \<le> 2 ^ 32" using n le assms(2) by simp
  note set = page_range_set [OF 2(5) this n le]
  have "0x80000000 \<le> text" "text \<le> data" "data \<le> kernel_data_end (mmem (kmem s))"
    "kernel_data_end (mmem (kmem s)) \<le> kernel_dataspace_end (mmem (kmem s))"
    using assms(1) by (simp_all add: at_reset_def)
  then have "0x80008000 \<le> stop" "data \<le> stop" using 1(4) by (simp_all add: word_le_nat_alt)
  then have "hw_page d \<notin> set pages" if "translates par (kernel_table s2) (kmem s2) v d" for v d
    using kernel_map_below [of "text" data stop v d] that tr set(1) by (auto simp: pages_def)
  then show ?thesis
    using 1(1, 2) 2(1-4) tr set by (intro exI conjI) (assumption | simp add: pages_def)+
qed

text \<open>A machine with 256 megabytes of RAM and a kernel of 72 kilobytes.\<close>

definition reset_mmu :: mmu where
  "reset_mmu = \<lparr>kernel_table = tt_new 4096, kmem = \<lparr>mmem = (one_block 0 0)\<lparr>initialization_completed := False,
     kernel_data_end := 0x81011f00, kernel_dataspace_end := 0x81012000\<rparr>, tables = Map.empty\<rparr>,
     next_device_addr = 0xc0000000, current_application_table = 0, asid = 0,
     ttbcr = 0, ttbr0 = 0, ttbr1 = 0, dacr = 0, contextidr = 0\<rparr>"

lemma reset_mmu_at_reset: "at_reset (\<lambda>p. p) 0x81000000 0x81010000 reset_mmu"
  by (simp add: at_reset_def reset_mmu_def one_block_def v2p_identity)

lemma map_interval_maps_all_witness:
  "\<exists>tt' mem'. present (kernel_table reset_mmu) = {} \<and>
     map_interval (\<lambda>p. p) 0x81000000 0x81010000 0x81000000 RO_NA CODE False (kernel_table reset_mmu, kmem reset_mmu) =
       Some (tt', mem') \<and> present tt' = {0x810} \<and>
     translates (\<lambda>p. p) tt' mem' 0x81002345 (page_entry 0x81002000 RO_NA CODE False)"
proof -
  have dl: "data_limit (kmem reset_mmu) = 0x81011f00" by (simp add: reset_mmu_def)
  have ok: "early_ok (\<lambda>p. p) 0x81011f00 (0x81011f00 + 4195327) (tt_new 4096) (kmem reset_mmu)"
    unfolding dl [symmetric] by (rule early_new_table) (simp_all add: reset_mmu_def one_block_def v2p_identity)
  have tt: "kernel_table reset_mmu = tt_new 4096" by (simp add: reset_mmu_def)
  have none: "present (tt_new 4096) = {}" by (simp add: present_def tt_new_def)
  have ps: "pages_from 0x81000000 16 = {0x81000..<0x81010}" by (simp add: pages_from_def page_no_def)
  have "(\<lambda>i. i div 256) ` {0x81000..<0x81010} = {0x810 :: nat}"
    by (rule set_eqI) (auto simp: image_iff intro!: bexI [of _ "0x81000"])
  then have "\<exists>tt' mem'. map_interval (\<lambda>p. p) 0x81000000 0x81010000 0x81000000 RO_NA CODE False (tt_new 4096, kmem reset_mmu) =
       Some (tt', mem') \<and> present tt' = {0x810} \<and>
     translates (\<lambda>p. p) tt' mem' 0x81002345 (page_entry 0x81002000 RO_NA CODE False)"
    using map_interval_maps_all [of "0x81000000" 16 "0x81010000" "0x81000000", OF _ _ disjI1 [OF ok], of RO_NA CODE False]
    by (auto simp: none ps page_no_def)
  then show ?thesis by (simp add: tt none)
qed

lemma ram_size_example: "ram_size (\<lambda>a. 0x4000) = 0x10000000"
  by (simp add: ram_size_def)

lemma kernel_memory_starts_witness:
  "\<exists>s1 s2. mmu_initialize (\<lambda>p. p) 0x81000000 0x81010000 0x81012000 0x81014000 reset_mmu = Some s1 \<and>
     mm_initialize (\<lambda>p. p) (\<lambda>a. 0x4000) 0x80000000 s1 = Some s2 \<and>
     translates (\<lambda>p. p) (kernel_table s2) (kmem s2) 0x9fffffff (page_entry 0x80007000 RW_NA STACK False)"
proof -
  have "unat (ram_size (\<lambda>a. 0x4000)) < 0x80000000"
    "data_limit (kmem reset_mmu) + 0x900000 \<le> 0x80000000 + unat (ram_size (\<lambda>a. 0x4000))"
    by (simp_all add: ram_size_example reset_mmu_def)
  from kernel_memory_starts [OF reset_mmu_at_reset this, of "0x81014000"] show ?thesis
    by (fastforce simp: reset_mmu_def kernel_map_def boot_map_def)
qed

end
