(* ===== verification/Kernel_Start.thy ===== *)
theory Kernel_Start
  imports Kernel_Context Kernel_Devices Kernel_Memory Kernel_Messages Partition Device_Mgr Vfs
begin

text \<open>
  The start of the kernel: the interrupt controller and its stack (\<open>irq_handler\<close>'s constructor),
  \<open>kernel_main\<close> with everything it initialises, and the initialisation thread's mount of the root
  filesystem (\<open>kernel/kernel.cpp\<close>). Components that are modelled on their own meet here: the page
  tables, the serial port, the heap, the scheduler, the timer and the context switch in the first
  part, the registry of devices and the mount table in the second.
\<close>

section \<open>The interrupt controller\<close>

text \<open>The result has the top of the stack of interrupts, a variable of the assembler code.\<close>

definition irq_handler_start :: "(u32 \<Rightarrow> u32) \<Rightarrow> 'd hardware \<Rightarrow> mmu \<times> 'd bus \<Rightarrow> (u32 \<times> 'h irq_handler \<times> mmu \<times> 'd bus) option" where
  "irq_handler_start par hw s = do {
     let (m, b) = s;
     (base, m1) \<leftarrow> map_device par 0x48200000 4096 m;
     (page, pm) \<leftarrow> allocate_page (mmem (kmem m1));
     (tt, mem) \<leftarrow> map_page par page (0xa0000000 - 0x8000 - 0x2000) RW_NA STACK False
       (kernel_table m1, (kmem m1)\<lparr>mmem := pm\<rparr>);
     let (ih, b1) = irq_handler_new hw base b;
     Some (0xa0000000 - 0x8000 - 0x1000, ih, m1\<lparr>kernel_table := tt, kmem := mem\<rparr>, b1) }"

text \<open>
  The start of the interrupt handling maps the controller to the next page of the device space,
  and the interrupt stack to the topmost free page. The pointer of the stack is the end of exactly
  that page, and every other translation stays.
\<close>

lemma irq_start_maps:
  assumes "tt_core par lo hi xs (kernel_table m) (kmem m)" and "unat (next_device_addr m) + 4096 < 2 ^ 32"
    and "tables_present (kernel_table m) (next_device_addr m) 1"
    and "read_l1 (kernel_table m) 0x9fff6000 = Some e" and "e AND 1 \<noteq> 0"
    and "page_stack_initialized (mmem (kmem m))" and "page_stack (mmem (kmem m)) = Some st"
    and "stack_rep st n (page # pages)"
  shows "\<exists>(ih :: 'h irq_handler) m' b' st'. irq_handler_start par hw (m, b) = Some (0x9fff7000, ih, m', b') \<and>
    intc_base ih = next_device_addr m \<and> irq_handlers ih = replicate number_of_irqs None \<and>
    kernel_table m' = kernel_table m \<and> tt_core par lo hi xs (kernel_table m') (kmem m') \<and>
    mmem (kmem m') = (mmem (kmem m))\<lparr>page_stack := Some st'\<rparr> \<and> stack_rep st' n pages \<and>
    next_device_addr m' = next_device_addr m + 4096 \<and>
    (\<forall>v d. translates par (kernel_table m') (kmem m') v d \<longleftrightarrow>
      (if page_no v = page_no 0x9fff6000 then d = page_entry page RW_NA STACK False
       else if page_no v = page_no (next_device_addr m) then d = page_entry 0x48200000 RW_NA DEVICE False
       else translates par (kernel_table m) (kmem m) v d))"
proof -
  have small: "unat (0x48200000 :: u32) + 4096 * 1 < 2 ^ 32" "unat (next_device_addr m) + 4096 * 1 < 2 ^ 32"
    using assms(2) by simp_all
  from map_device_step [OF assms(1) small assms(3)] obtain m1 where
    1: "map_device par 0x48200000 4096 m = Some (next_device_addr m, m1)" "device_step par lo hi xs [0x48200000] m m1" by auto
  note m1 = device_step_simps [OF 1(2)]
  obtain st1 where st1: "stack_pop st = Some (page, st1)" "stack_rep st1 n pages" using sks.pop_top [OF assms(8)] by auto
  define pm where "pm = (mmem (kmem m1))\<lparr>page_stack := Some st1\<rparr>"
  have pg: "allocate_page (mmem (kmem m1)) = Some (page, pm)"
    using assms(6, 7) m1(3) sks.is_empty_iff [OF assms(8)] st1 by (simp add: allocate_page_def pm_def)
  have inv: "tt_core par lo hi xs (kernel_table m1) ((kmem m1)\<lparr>mmem := pm\<rparr>)"
    using m1(2) by simp
  have "read_l1 (kernel_table m1) 0x9fff6000 = Some e" using assms(4) m1(1) by simp
  from map_page_present [OF inv this assms(5), of page RW_NA STACK False] obtain mem where
    2: "map_page par page 0x9fff6000 RW_NA STACK False (kernel_table m1, (kmem m1)\<lparr>mmem := pm\<rparr>) = Some (kernel_table m1, mem)"
      "tt_core par lo hi xs (kernel_table m1) mem" "mmem mem = pm"
    and tr2: "\<And>v d. translates par (kernel_table m1) mem v d \<longleftrightarrow>
      (if drop_bit 12 v = drop_bit 12 (0x9fff6000 :: u32) then d = page_entry page RW_NA STACK False
       else translates par (kernel_table m1) ((kmem m1)\<lparr>mmem := pm\<rparr>) v d)" by auto
  obtain ih :: "'h irq_handler" and b' where ih: "irq_handler_new hw (next_device_addr m) b = (ih, b')" by fastforce
  then have ihs: "intc_base ih = next_device_addr m" "irq_handlers ih = replicate number_of_irqs None"
    by (auto simp: irq_handler_new_def)
  have "irq_handler_start par hw (m, b) = Some (0x9fff7000, ih, m1\<lparr>kmem := mem\<rparr>, b')"
    using 1(1) pg 2(1) ih by (simp add: irq_handler_start_def)
  moreover have "translates par (kernel_table m1) mem v d \<longleftrightarrow>
      (if page_no v = page_no 0x9fff6000 then d = page_entry page RW_NA STACK False
       else if page_no v = page_no (next_device_addr m) then d = page_entry 0x48200000 RW_NA DEVICE False
       else translates par (kernel_table m) (kmem m) v d)" for v d
    unfolding tr2 tt_memory(2) m1(5) page_no_eq by auto
  ultimately show ?thesis
    using ihs m1(1, 3, 4) 2(2, 3) st1(2) by (intro exI [of _ ih] exI [of _ "m1\<lparr>kmem := mem\<rparr>"] exI [of _ b'] exI [of _ st1] conjI) (simp_all add: pm_def)
qed

section \<open>The main function\<close>

text \<open>The log is the third serial port. Its output changes the state of the hardware only.\<close>

definition message_put :: "'d hardware \<Rightarrow> u32 \<Rightarrow> 'd system put_char" where
  "message_put hw base c st =
     map_option (\<lambda>b. st\<lparr>irqs := (fst (irqs st), b)\<rparr>) (uart_put hw base c (snd (irqs st)))"

definition scm_start :: "(u32 \<Rightarrow> u32) \<Rightarrow> 'd system put_char \<Rightarrow> 'd system \<Rightarrow> (u32 \<times> 'd system) option" where
  "scm_start par put st = do {
     (base, m) \<leftarrow> map_device par 0x48002000 4096 (kmmu (clients st));
     st1 \<leftarrow> put_literal put ''Initializing system control module... '' (st\<lparr>clients := (clients st)\<lparr>kmmu := m\<rparr>\<rparr>);
     st2 \<leftarrow> put_literal put ''ok'' st1;
     st3 \<leftarrow> put_newline put st2;
     Some (padconfs base, st3) }"

definition scheduler_initialize :: "(u32 \<Rightarrow> u32) \<Rightarrow> 'd system put_char \<Rightarrow> (u8 \<Rightarrow> kernel syscall option) \<Rightarrow> 'd system \<Rightarrow>
    ((u8 \<Rightarrow> kernel syscall option) \<times> 'd system) option" where
  "scheduler_initialize par put handlers st = do {
     st1 \<leftarrow> put_literal put ''Initializing scheduler...'' st;
     st2 \<leftarrow> put_newline put st1;
     Some (scheduler_syscalls par handlers, st2\<lparr>clients := scheduler_new (clients st2)\<rparr>) }"

text \<open>
  The state when the scheduler has been started and the CPU waits for the first interrupt, with
  the table of system calls, the registers of the pads and the thread. The address of the entry point of
  kernel threads is an argument.
\<close>

definition kernel_main :: "'d hardware \<Rightarrow> (u32 \<Rightarrow> u32) \<Rightarrow> u32 \<Rightarrow> u32 \<Rightarrow> 'd system \<Rightarrow>
    ((u8 \<Rightarrow> kernel syscall option) \<times> u32 \<times> nat \<times> 'd system) option" where
  "kernel_main hw par base entry st = do {
     let put = message_put hw base;
     st1 \<leftarrow> kernel_heading put st;
     (pads, st2) \<leftarrow> scm_start par put st1;
     (handlers, st3) \<leftarrow> scheduler_initialize par put syscall_handler_new st2;
     (p, k) \<leftarrow> kthread_new entry default_stack_size (clients st3);
     k1 \<leftarrow> schedule p k;
     st4 \<leftarrow> scheduler_start hw (st3\<lparr>clients := k1\<rparr>);
     Some (handlers, pads, p, st4) }"

text \<open>Output that returns and changes nothing but the hardware.\<close>

definition same_system :: "kernel \<Rightarrow> 'd system \<Rightarrow> 'd system \<Rightarrow> bool" where
  "same_system k st st' \<longleftrightarrow> clients st' = k \<and> timer_modules st' = timer_modules st \<and> fst (irqs st') = fst (irqs st)"

definition outputs :: "('d system \<Rightarrow> 'd system option) \<Rightarrow> bool" where
  "outputs f \<longleftrightarrow> (\<forall>st. \<exists>st'. f st = Some st' \<and> same_system (clients st) st st')"

lemma outputs_all:
  assumes "fifo_drains hw base f"
  shows "outputs (put_all (message_put hw base) cs)"
proof -
  have "put_all (message_put hw base) cs st =
      map_option (\<lambda>b. st\<lparr>irqs := (fst (irqs st), b)\<rparr>) (put_all (uart_put hw base) cs (snd (irqs st)))" for st
  proof (induction cs arbitrary: st)
    case Nil
    then show ?case by simp
  next
    case (Cons c cs)
    then show ?case by (cases "uart_put hw base c (snd (irqs st))") (simp_all add: message_put_def)
  qed
  then show ?thesis using put_all_sends [OF assms] unfolding outputs_def same_system_def by fastforce
qed

lemma outputs_bind:
  assumes "outputs f" and "outputs g"
  shows "outputs (\<lambda>st. f st \<bind> g)"
  unfolding outputs_def
proof
  fix st
  obtain st1 where 1: "f st = Some st1" "same_system (clients st) st st1" using assms(1) by (auto simp: outputs_def)
  obtain st2 where "g st1 = Some st2" "same_system (clients st1) st1 st2" using assms(2) by (auto simp: outputs_def)
  with 1 show "\<exists>st'. f st \<bind> g = Some st' \<and> same_system (clients st) st st'" by (simp add: same_system_def)
qed

lemma outputsE:
  assumes "outputs f"
  obtains st' where "f st = Some st'" "same_system (clients st) st st'"
  using assms by (auto simp: outputs_def)

lemma put_int_positive:
  "x AND 0x80000000 = 0 \<Longrightarrow> put_int put x = put_all put (strip (fill_digits 10 (sint x) (replicate 10 0x30)))"
  by (rule ext) (simp add: put_int_def put_digits_strip)

lemma outputs_literal: "fifo_drains hw base f \<Longrightarrow> 0 \<notin> set (ascii t) \<Longrightarrow> outputs (put_literal (message_put hw base) t)"
  by (simp add: put_literal_text outputs_all)

lemma outputs_newline: "fifo_drains hw base f \<Longrightarrow> outputs (put_newline (message_put hw base))"
  by (simp add: put_newline_text outputs_all)

lemma outputs_heading:
  assumes "fifo_drains hw base f"
  shows "outputs (kernel_heading (message_put hw base))"
proof -
  let ?put = "message_put hw base"
  have c: "outputs (\<lambda>st. ?put c st)" for c using outputs_all [OF assms, of "[c]"] by (simp add: outputs_def)
  have i: "outputs (put_int ?put 0)" "outputs (put_int ?put 1)"
    using outputs_all [OF assms] by (simp_all add: put_int_positive)
  have l: "outputs (put_literal ?put ''Welcome to Wagtail OS v'')" "outputs (put_literal ?put '' :-)'')"
    by (rule outputs_literal [OF assms]; simp add: ascii_def)+
  show ?thesis
    unfolding kernel_heading_def
    using outputs_bind [OF l(1) outputs_bind [OF i(1) outputs_bind [OF c [of "0x2e"] outputs_bind [OF i(2)
      outputs_bind [OF l(2) outputs_newline [OF assms]]]]]] by simp
qed

lemma and_37: "(37 :: u32) AND 0x7f = 37"
  by simp

lemma scm_start_maps:
  assumes "fifo_drains hw base f" and "map_device par 0x48002000 4096 (kmmu (clients st)) = Some (a, m)"
  shows "\<exists>st'. scm_start par (message_put hw base) st = Some (padconfs a, st') \<and>
    same_system ((clients st)\<lparr>kmmu := m\<rparr>) st st'"
proof -
  let ?put = "message_put hw base" and ?st = "st\<lparr>clients := (clients st)\<lparr>kmmu := m\<rparr>\<rparr>"
  have l: "outputs (put_literal ?put ''Initializing system control module... '')" "outputs (put_literal ?put ''ok'')"
    by (rule outputs_literal [OF assms(1)]; simp add: ascii_def)+
  obtain st1 where 1: "put_literal ?put ''Initializing system control module... '' ?st = Some st1"
    "same_system (clients ?st) ?st st1" by (rule outputsE [OF l(1)])
  obtain st2 where 2: "put_literal ?put ''ok'' st1 = Some st2" "same_system (clients st1) st1 st2" by (rule outputsE [OF l(2)])
  obtain st3 where 3: "put_newline ?put st2 = Some st3" "same_system (clients st2) st2 st3"
    by (rule outputsE [OF outputs_newline [OF assms(1)]])
  from 1 2 3 assms(2) show ?thesis by (simp add: scm_start_def same_system_def)
qed

lemma scheduler_initialize_new:
  assumes "fifo_drains hw base f"
  shows "\<exists>st'. scheduler_initialize par (message_put hw base) handlers st = Some (scheduler_syscalls par handlers, st') \<and>
    same_system (scheduler_new (clients st)) st st'"
proof -
  let ?put = "message_put hw base"
  have l: "outputs (put_literal ?put ''Initializing scheduler...'')"
    by (rule outputs_literal [OF assms]) (simp add: ascii_def)
  obtain st1 where 1: "put_literal ?put ''Initializing scheduler...'' st = Some st1" "same_system (clients st) st st1"
    by (rule outputsE [OF l])
  obtain st2 where 2: "put_newline ?put st1 = Some st2" "same_system (clients st1) st1 st2"
    by (rule outputsE [OF outputs_newline [OF assms]])
  from 1 2 show ?thesis by (simp add: scheduler_initialize_def same_system_def)
qed

lemma kernel_main_runs:
  assumes "fifo_drains hw base f" and "map_device par 0x48002000 4096 (kmmu (clients st)) = Some (a, m)"
    and "operator_new_aligned 16384 8192 (mmem (kmem m)) = Some (t, m1)" and "t \<noteq> 0"
    and "operator_new_aligned default_stack_size 8 m1 = Some (stack, m2)" and "processes (clients st) = empty_store"
    and "get_timer 0 st = Some tm" and "module tm = 0" and "length (irq_handlers (fst (irqs st))) = number_of_irqs"
    and "\<And>d. fst (hw_read hw (intc_base (fst (irqs st)) + sir_irq) d) AND 0xff = 37"
  shows "\<exists>st1 pr. kernel_main hw par base entry st =
      Some (scheduler_syscalls par syscall_handler_new, padconfs a, 0, st1) \<and>
    cells (processes (clients st1)) 0 = Some pr \<and> pid pr = 2 \<and> kmmu (clients st1) = m\<lparr>kmem := (kmem m)\<lparr>mmem := m2\<rparr>\<rparr> \<and>
    armed hw st1 \<and> (\<exists>t'. get_timer 0 st1 = Some t' \<and> tbase t' = tbase tm) \<and>
    timer_started (tbase tm) (trace (snd (irqs st1))) \<and>
    (\<exists>st2. int_irq hw par driver (cpu, st1) = Some (\<lparr>regs = (replicate 15 0)[0 := 0, 13 := stack + default_stack_size],
        spsr = psr_t OR processor_mode_sys, return_address = entry + 4\<rparr>, st2) \<and>
      current_process (clients st2) = Some 0)"
proof -
  obtain st1 where 1: "kernel_heading (message_put hw base) st = Some st1" "same_system (clients st) st st1"
    by (rule outputsE [OF outputs_heading [OF assms(1)]])
  define k where "k = (clients st)\<lparr>kmmu := m\<rparr>"
  have "map_device par 0x48002000 4096 (kmmu (clients st1)) = Some (a, m)" using assms(2) 1(2) by (simp add: same_system_def)
  from scm_start_maps [OF assms(1) this] 1(2) obtain st2 where
    2: "scm_start par (message_put hw base) st1 = Some (padconfs a, st2)" "same_system k st st2"
    by (auto simp: k_def same_system_def)
  from scheduler_initialize_new [OF assms(1), of par syscall_handler_new st2] 2(2) obtain st3 where
    3: "scheduler_initialize par (message_put hw base) syscall_handler_new st2 =
      Some (scheduler_syscalls par syscall_handler_new, st3)" "same_system (scheduler_new k) st st3"
    by (auto simp: same_system_def)
  have "operator_new_aligned 16384 8192 (mmem (kmem (kmmu k))) = Some (t, m1)" "processes k = empty_store"
    using assms(3, 6) by (simp_all add: k_def)
  from first_thread [OF this(1) assms(4, 5) this(2), of entry] obtain k1 k2 pr where
    4: "kthread_new entry default_stack_size (scheduler_new k) = Some (0, k1)" "schedule 0 k1 = Some k2"
    and r: "ready k2 [0]" "current_process k2 = None" "register_block k2 = None"
    and pr: "cells (processes k2) 0 = Some pr" "pblock pr = None" "pid pr = 2"
      "registers pr = \<lparr>regs = (replicate 15 0)[0 := 0, 13 := stack + default_stack_size],
        spsr = psr_t OR processor_mode_sys, return_address = entry + 4\<rparr>"
    and mm: "kmmu k2 = (kmmu k)\<lparr>kmem := (kmem (kmmu k))\<lparr>mmem := m2\<rparr>\<rparr>" by blast
  define st4 where "st4 = st3\<lparr>clients := k2\<rparr>"
  have same: "same_system k2 st st4" using 3(2) by (simp add: st4_def same_system_def)
  have flag: "fst (hw_read hw (intc_base (fst (irqs st4)) + sir_irq) d) AND 0xff = 37" for d
    using assms(10) same by (simp add: same_system_def)
  have "v AND 0x7f = (v AND 0xff) AND 0x7f" for v :: u32 by (simp add: and.assoc)
  then have line: "fst (hw_read hw (intc_base (fst (irqs st4)) + sir_irq) d) AND 0x7f = 37" for d
    using flag [of d] by (metis and_37)
  have "get_timer 0 st4 = Some tm" "length (irq_handlers (fst (irqs st4))) = number_of_irqs"
    using assms(7, 9) same by (simp_all add: same_system_def get_timer_def split: if_splits)
  from scheduler_start_armed [OF this(1) assms(8) this(2) line] obtain st5 where
    5: "scheduler_start hw st4 = Some st5" "armed hw st5" "clients st5 = k2"
      "intc_base (fst (irqs st5)) = intc_base (fst (irqs st4))"
      "\<exists>t'. get_timer 0 st5 = Some t' \<and> tbase t' = tbase tm" "timer_started (tbase tm) (trace (snd (irqs st5)))"
    using same by (auto simp: same_system_def)
  have main: "kernel_main hw par base entry st = Some (scheduler_syscalls par syscall_handler_new, padconfs a, 0, st5)"
    using 1(1) 2(1) 3 4 5(1) by (simp add: kernel_main_def same_system_def st4_def)
  have t: "timer_only hw st5" using 5(2, 4) flag by (simp add: timer_only_def)
  have r5: "ready (clients st5) [0]" "block_known (clients st5) [0]" "known (clients st5) [0] = 0 # []"
    and u: "undisturbed (clients st5) 0" "is_blocking 0 (clients st5) = Some False"
    using r pr(1, 2) 5(3) by (simp_all add: block_known_def known_def undisturbed_def is_blocking_def)
  from int_irq_turn [OF t r5, of par driver cpu] u obtain cpu' st6 where
    6: "int_irq hw par driver (cpu, st5) = Some (cpu', st6)" "register_block (clients st6) = Some 0"
      "current_process (clients st6) = Some 0" "own_registers 0 cpu' (clients st6) = own_registers 0 cpu (clients st5)"
    by auto
  then have "cpu' = registers pr" using r(3) pr(1) 5(3) by (simp add: own_registers_def)
  moreover have "kmmu (clients st5) = m\<lparr>kmem := (kmem m)\<lparr>mmem := m2\<rparr>\<rparr>" using mm 5(3) by (simp add: k_def)
  ultimately show ?thesis
    using main 6(1, 3) pr(1, 3, 4) 5(2, 3, 5, 6) by (intro exI [of _ st5] exI [of _ pr]) simp
qed

section \<open>The initialisation thread\<close>

text \<open>
  What the thread does once the SD card and the VFS are initialised. The pointer that the registry
  returns is cast to a partition and passed on, a null pointer as well; the object at another
  pointer is what \<open>part_at\<close> gives. When the mount fails the thread prints a message and panics, which
  disables interrupts and waits forever: the result \<open>Panicked\<close> with the state of the output.
\<close>

definition root_name :: bytes where
  "root_name = ascii ''sd0p0''"

datatype ('a, 'm) thread_result = Panicked 'm | Finished 'a

definition mount_root :: "'m put_char \<Rightarrow> 'd blockdev \<Rightarrow> fat32 \<Rightarrow> (nat \<Rightarrow> partition option) \<Rightarrow> device store \<Rightarrow>
    device_mgr \<times> fat32 vfs \<times> (direntry store \<times> 'd) \<times> 'm \<Rightarrow>
    (fat32 \<times> device_mgr \<times> fat32 vfs \<times> (direntry store \<times> 'd) \<times> 'm, 'm) thread_result option" where
  "mount_root put disk raw part_at ds state = do {
     let (mgr, v, s, o0) = state;
     o1 \<leftarrow> put_literal put ''Mounting sd0p0 as root...'' o0;
     o2 \<leftarrow> put_newline put o1;
     root \<leftarrow> kstring_c (cstr [slash]);
     name \<leftarrow> kstring_c (cstr root_name);
     (found, mgr1) \<leftarrow> get_device_by_name name ds mgr;
     part \<leftarrow> (case found of None \<Rightarrow> Some None | Some a \<Rightarrow> map_option Some (part_at a));
     (fs, v1, s1) \<leftarrow> vfs_mount disk raw root part auto_type (v, s);
     case fs of
       None \<Rightarrow> do {
         o3 \<leftarrow> put_literal put ''*** Fatal error: Could not mount root filesystem!'' o2;
         o4 \<leftarrow> put_newline put o3;
         o5 \<leftarrow> panic_message put o4;
         Some (Panicked o5) }
     | Some f \<Rightarrow> do {
         o3 \<leftarrow> put_literal put ''Kernel initialized!'' o2;
         o4 \<leftarrow> put_newline put o3;
         o5 \<leftarrow> put_newline put o4;
         Some (Finished (f, mgr1, v1, s1, o5)) } }"

lemma root_name_text: "text_ok root_name"
  by (simp add: root_name_def text_ok_def ascii_def)

text \<open>Output to a stream that never fails returns, with the messages of the thread in their order.\<close>

definition total_put :: "'m put_char \<Rightarrow> bool" where
  "total_put put \<longleftrightarrow> (\<forall>c s. put c s \<noteq> None)"

lemma put_all_total: "total_put put \<Longrightarrow> \<exists>s'. put_all put cs s = Some s'"
proof (induction cs arbitrary: s)
  case (Cons c cs)
  then obtain s1 where "put c s = Some s1" by (fastforce simp: total_put_def)
  with Cons show ?case by simp
qed simp

lemma put_text_total:
  assumes "total_put put"
  shows "0 \<notin> set (ascii t) \<Longrightarrow> \<exists>o'. put_literal put t o1 = Some o'" and "\<exists>o'. put_newline put o1 = Some o'"
  using put_all_total [OF assms] by (simp_all add: put_literal_text put_newline_text)

lemma panic_message_total:
  assumes "total_put put"
  shows "\<exists>o'. panic_message put o1 = Some o'"
proof -
  note lit = put_text_total [OF assms]
  have l: "\<exists>o'. put_literal put ''*** KERNEL PANIC ***'' o1 = Some o'"
    "\<exists>o'. put_literal put ''A fatal error occurred, and Wagtail cannot recover.'' o1 = Some o'"
    "\<exists>o'. put_literal put ''Reboot and try again.'' o1 = Some o'" for o1
    by (rule lit(1); simp add: ascii_def)+
  obtain n l1 l2 l3 where "\<forall>o1. put_newline put o1 = Some (n o1)" "\<forall>o1. put_literal put ''*** KERNEL PANIC ***'' o1 = Some (l1 o1)"
    "\<forall>o1. put_literal put ''A fatal error occurred, and Wagtail cannot recover.'' o1 = Some (l2 o1)"
    "\<forall>o1. put_literal put ''Reboot and try again.'' o1 = Some (l3 o1)"
    using lit(2) l by metis
  then show ?thesis by (simp add: panic_message_def)
qed

text \<open>With the root alone mounted, every absolute path goes to it.\<close>

lemma mounted_root_dispatch:
  assumes "mounts_rep v as [([slash], f)]" and "text_ok path" and "prefix [slash] path"
  shows "vfs_open_file cls v (kstr path) t = fs_open_file cls f (kstr path) t"
    and "vfs_read_directory cls v (kstr path) t = fs_read_directory cls f (kstr path) t"
proof -
  have rep: "mount_list v = hd_ptr as None" "dseg mp_next mp_prev (cells (mountpoints v)) None as None"
    "list_all2 (mounted_at (mountpoints v)) as [([slash], f)]" using assms(1) by (simp_all add: mounts_rep_def)
  have "find (\<lambda>x. prefix (fst x) path) [([slash], f)] = Some ([slash], f)" using assms(3) by simp
  note d = vfs_dispatch_rep [OF rep(2, 3) assms(2) this]
  show "vfs_open_file cls v (kstr path) t = fs_open_file cls f (kstr path) t"
    using d [of "fs_open_file cls" t] rep(1) by (simp add: vfs_open_file_def in_filesystem_def)
  show "vfs_read_directory cls v (kstr path) t = fs_read_directory cls f (kstr path) t"
    using d [of "fs_read_directory cls" t] rep(1) by (simp add: vfs_read_directory_def in_filesystem_def)
qed

text \<open>The thread, when the registry has an answer: all that matters is the mount.\<close>

lemma mount_root_mounts:
  assumes "total_put put" and "get_device_by_name (kstr root_name) ds mgr = Some (found, mgr)"
    and "part = (case found of None \<Rightarrow> Some None | Some a \<Rightarrow> map_option Some (part_at a))"
  shows "\<exists>o1 o2. mount_root put disk raw part_at ds (mgr, v, s, out) = do {
      p \<leftarrow> part;
      (fs, v1, s1) \<leftarrow> vfs_mount disk raw (kstr [slash]) p auto_type (v, s);
      Some (case fs of None \<Rightarrow> Panicked o1 | Some f \<Rightarrow> Finished (f, mgr, v1, s1, o2)) }"
proof -
  note lit = put_text_total [OF assms(1)]
  obtain o1 where o1: "put_literal put ''Mounting sd0p0 as root...'' out = Some o1" using lit(1) by (force simp: ascii_def)
  obtain o2 where o2: "put_newline put o1 = Some o2" using lit(2) by blast
  obtain o3 where o3: "put_literal put ''Kernel initialized!'' o2 = Some o3" using lit(1) by (force simp: ascii_def)
  obtain o4 where o4: "put_newline put o3 = Some o4" using lit(2) by blast
  obtain o5 where o5: "put_newline put o4 = Some o5" using lit(2) by blast
  obtain q1 where q1: "put_literal put ''*** Fatal error: Could not mount root filesystem!'' o2 = Some q1"
    using lit(1) by (force simp: ascii_def)
  obtain q2 where q2: "put_newline put q1 = Some q2" using lit(2) by blast
  obtain q3 where q3: "panic_message put q2 = Some q3" using panic_message_total [OF assms(1)] by blast
  have k: "kstring_c (cstr [slash]) = Some (kstr [slash])" "kstring_c (cstr root_name) = Some (kstr root_name)"
    using root_name_text root_text by (simp_all add: kstr_simps)
  have "mount_root put disk raw part_at ds (mgr, v, s, out) = do {
      p \<leftarrow> part;
      (fs, v1, s1) \<leftarrow> vfs_mount disk raw (kstr [slash]) p auto_type (v, s);
      Some (case fs of None \<Rightarrow> Panicked q3 | Some f \<Rightarrow> Finished (f, mgr, v1, s1, o5)) }"
    using o1 o2 o3 o4 o5 q1 q2 q3 k assms(2)
    by (simp add: mount_root_def assms(3) [symmetric] split: Option.bind_split option.split)
  then show ?thesis by blast
qed



end
