(* ===== verification/Kernel_Boot.thy ===== *)
theory Kernel_Boot
  imports Kernel_Start
begin

text \<open>
  The start of the kernel as a whole (\<open>kernel/start.S\<close>): the page tables, the memory manager and the
  interrupt controller, the constructors of the global objects, and \<open>kernel_main\<close>. The theorem follows
  it from reset to the first instruction of the first thread.
\<close>

section \<open>Global objects\<close>

text \<open>The registers of the clock manager.\<close>

definition core_cm_base :: "(u32 \<Rightarrow> u32) \<Rightarrow> mmu \<Rightarrow> (u32 \<times> mmu) option" where
  "core_cm_base par m = map_device par 0x48004000 8192 m"

text \<open>
  The translation table of the kernel has a constructor, because its entries have no initial value. It
  clears the directory, which \<open>mmu_init\<close> used before; the entries stay.
\<close>

definition kernel_table_constructor :: "mmu \<Rightarrow> mmu" where
  "kernel_table_constructor m = m\<lparr>kernel_table := (kernel_table m)\<lparr>tdirectory := rbtree_new\<rparr>\<rparr>"

text \<open>
  The constructors in the order in which \<open>kernel/Makefile\<close> links the files: the clock manager, the
  registry of devices, the table of the kernel, the timers and the serial ports, each of which enters
  its name in the registry. \<open>garbage\<close> is what the memory of the registry's array holds before: it
  becomes the capacity.
\<close>

definition global_constructors :: "(u32 \<Rightarrow> u32) \<Rightarrow> 'd hardware \<Rightarrow> (int \<Rightarrow> 'h) \<Rightarrow> int \<Rightarrow> mmu \<times> 'h irq_handler \<times> 'd bus \<Rightarrow>
    ('c timer list \<times> u32 list \<times> (device store \<times> device_mgr) \<times> mmu \<times> 'h irq_handler \<times> 'd bus) option" where
  "global_constructors par hw h garbage s = do {
     let (m, ih, b) = s;
     (cm, m1) \<leftarrow> core_cm_base par m;
     mgr \<leftarrow> device_mgr_new garbage;
     let m2 = kernel_table_constructor m1;
     (timer_base, m3) \<leftarrow> map_devices par timer_physical m2;
     (timers, devs, b1) \<leftarrow> timer_modules_new hw 0 (zip timer_names timer_base) ((empty_store, mgr), b);
     (uart_base, m4) \<leftarrow> map_devices par uart_physical m3;
     (devs1, ih1, b2) \<leftarrow> uart_modules_new hw h 0 (zip uart_names uart_base) (devs, ih, b1);
     Some (timers, uart_base, devs1, m4, ih1, b2) }"

text \<open>
  The calls of \<open>start.S\<close> behind the clearing of the data. The messages go to the third serial port.
  \<open>entry\<close> is the entry point of kernel threads.
\<close>

definition kernel_start :: "(u32 \<Rightarrow> u32) \<Rightarrow> 'd hardware \<Rightarrow> (u32 \<Rightarrow> u32) \<Rightarrow> (int \<Rightarrow> irq_target) \<Rightarrow> int \<Rightarrow> u32 \<Rightarrow> u32 \<Rightarrow> u32 \<Rightarrow> u32 \<Rightarrow> u32 \<Rightarrow>
    kernel \<times> 'd bus \<Rightarrow> (u32 \<times> (device store \<times> device_mgr) \<times> (u8 \<Rightarrow> kernel syscall option) \<times> u32 \<times> nat \<times> 'd system) option" where
  "kernel_start par hw io h garbage text data data_end kt entry s = do {
     let (k, b) = s;
     m1 \<leftarrow> mmu_initialize par text data data_end kt (kmmu k);
     m2 \<leftarrow> mm_initialize par io 0x80000000 m1;
     (irq_stack, ih, m3, b1) \<leftarrow> irq_handler_start par hw (m2, b);
     (timers, uarts, devs, m4, ih1, b2) \<leftarrow> global_constructors par hw h garbage (m3, ih, b1);
     r \<leftarrow> kernel_main hw par (uarts ! 2) entry \<lparr>timer_modules = timers, irqs = (ih1, b2), clients = k\<lparr>kmmu := m4\<rparr>\<rparr>;
     Some (irq_stack, devs, r) }"

section \<open>The devices of the kernel\<close>

definition kernel_devices :: "u32 list" where
  "kernel_devices = [0x48200000, 0x48004000, 0x48005000] @ timer_physical @ uart_physical @ [0x48002000]"

lemma kernel_devices_nth:
  "kernel_devices ! 0 = 0x48200000" "i < 2 \<Longrightarrow> kernel_devices ! (1 + i) = [0x48004000, 0x48005000] ! i"
  "i < 11 \<Longrightarrow> kernel_devices ! (3 + i) = timer_physical ! i" "i < 4 \<Longrightarrow> kernel_devices ! (14 + i) = uart_physical ! i"
  "kernel_devices ! 18 = 0x48002000" "length kernel_devices = 19"
proof -
  have len: "length timer_physical = 11" "length uart_physical = 4" by (simp_all add: timer_physical_def uart_physical_def)
  show "i < 2 \<Longrightarrow> kernel_devices ! (1 + i) = [0x48004000, 0x48005000] ! i"
    by (auto simp: kernel_devices_def numeral_2_eq_2 less_Suc_eq)
  show "i < 11 \<Longrightarrow> kernel_devices ! (3 + i) = timer_physical ! i" "i < 4 \<Longrightarrow> kernel_devices ! (14 + i) = uart_physical ! i"
    using len by (simp_all add: kernel_devices_def nth_append)
  show "kernel_devices ! 0 = 0x48200000" "kernel_devices ! 18 = 0x48002000" "length kernel_devices = 19"
    using len by (simp_all add: kernel_devices_def nth_append)
qed

text \<open>The address space of the running kernel; \<open>irq_page\<close> is the page of the interrupt stack.\<close>

definition running_map :: "u32 \<Rightarrow> u32 \<Rightarrow> u32 \<Rightarrow> u32 \<Rightarrow> u32 \<Rightarrow> u32 option" where
  "running_map text data stop irq_page v =
     (if 0xc0010 \<le> page_no v \<and> page_no v < 0xc0010 + length kernel_devices
      then Some (page_entry (kernel_devices ! (page_no v - 0xc0010)) RW_NA DEVICE False)
      else if page_no v = page_no 0x9fff6000 then Some (page_entry irq_page RW_NA STACK False)
      else kernel_map text data stop v)"

text \<open>
  What the theorem asks of the hardware: a timer that is reset says so after finitely many reads, a
  serial port that is reset or whose buffer is full becomes ready likewise, and the interrupt
  controller names the line of timer 0. The addresses are those that the devices get.
\<close>

definition hardware_ready :: "'d hardware \<Rightarrow> ('d \<Rightarrow> nat) \<Rightarrow> bool" where
  "hardware_ready hw f \<longleftrightarrow>
     (\<forall>i < 11. settles hw (0xc0013000 + 4096 * of_nat i + tistat) (\<lambda>v. v AND tistat_resetdone = 0) f) \<and>
     (\<forall>i < 4. settles hw (0xc001e000 + 4096 * of_nat i + uart_sysc) (\<lambda>v. (ucast v :: u8) AND sysc_softreset \<noteq> 0) f) \<and>
     fifo_drains hw 0xc0020000 f \<and> (\<forall>d. fst (hw_read hw (0xc0010000 + sir_irq) d) AND 0xff = 37)"

lemma translated_table:
  assumes "translates par tt mem w d" and "table_index v = table_index w"
  shows "\<exists>e. read_l1 tt v = Some e \<and> e AND 1 \<noteq> 0"
proof -
  have "read_l1 tt v = read_l1 tt w" using assms(2) by (simp add: read_l1_def)
  moreover have "\<exists>e. read_l1 tt w = Some e \<and> e AND 1 \<noteq> 0"
    using assms(1) translates_absent [of tt w] by (cases "read_l1 tt w") auto
  ultimately show ?thesis by simp
qed

text \<open>The page tables of the device space and of the stacks are there after \<open>mm_init\<close>.\<close>

lemma device_tables:
  assumes "\<And>v d. translates par tt mem v d \<longleftrightarrow> kernel_map text data stop v = Some d"
    and "0xc0000 \<le> page_no a" and "page_no a + n \<le> 0xc0100"
  shows "tables_present tt a n" and "\<exists>e. read_l1 tt 0x9fff6000 = Some e \<and> e AND 1 \<noteq> 0"
proof -
  have "kernel_map text data stop 0xc0000000 \<noteq> None" "kernel_map text data stop 0x9fff8000 \<noteq> None"
    by (simp_all add: kernel_map_def boot_map_def Let_def)
  then obtain d1 d2 where d: "translates par tt mem 0xc0000000 d1" "translates par tt mem 0x9fff8000 d2"
    using assms(1) by blast
  show "tables_present tt a n"
    unfolding tables_present_def
  proof (intro allI impI)
    fix v assume "page_no a \<le> page_no v \<and> page_no v < page_no a + n"
    then have "786432 \<le> page_no v" "page_no v < 786688" using assms(2, 3) by simp_all
    then have "page_no v div 256 = 3072" by simp
    then have "table_index v = table_index 0xc0000000" unfolding table_index_page by (simp add: page_no_def)
    with translated_table [OF d(1)] show "\<exists>e. read_l1 tt v = Some e \<and> e AND 1 \<noteq> 0" .
  qed
  have "table_index 0x9fff6000 = table_index 0x9fff8000" unfolding table_index_page by (simp add: page_no_def)
  with translated_table [OF d(2)] show "\<exists>e. read_l1 tt 0x9fff6000 = Some e \<and> e AND 1 \<noteq> 0" .
qed

lemma tables_present_part:
  "tables_present tt a n \<Longrightarrow> page_no a \<le> page_no a' \<Longrightarrow> page_no a' + n' \<le> page_no a + n \<Longrightarrow> tables_present tt a' n'"
  by (auto simp: tables_present_def)

lemma tables_present_cleared [simp]: "tables_present (tt\<lparr>tdirectory := d\<rparr>) a n = tables_present tt a n"
  by (simp add: tables_present_def read_l1_def)

lemma kernel_names:
  "distinct timer_names" "n \<in> set timer_names \<Longrightarrow> text_ok n" "distinct (timer_names @ uart_names)"
  "n \<in> set uart_names \<Longrightarrow> text_ok n"
  by (auto simp: timer_names_def uart_names_def ascii_def text_ok_def)

lemma global_constructed:
  assumes core: "tt_core par lo hi xs (kernel_table m) (kmem m)"
    and id: "\<And>p. lo \<le> unat p \<Longrightarrow> unat p < hi \<Longrightarrow> virtual_to_physical par p = p"
    and dev: "next_device_addr m = 0xc0011000" "tables_present (kernel_table m) 0xc0011000 18"
    and ih: "length (irq_handlers ih) = number_of_irqs" and hw: "hardware_ready hw f" and g: "0 \<le> g" "g \<le> 32"
  obtains ts :: "'c timer list" and ub as devs m' ih' b' where
    "global_constructors par hw h g (m, ih, b) = Some (ts, ub, devs, m', ih', b')"
    "registry (timer_names @ uart_names) as devs"
    "ub ! 2 = 0xc0020000" "length ts = 11" "module (ts ! 0) = 0" "tbase (ts ! 0) = 0xc0013000" "intc_base ih' = intc_base ih" "length (irq_handlers ih') = number_of_irqs"
    "tt_core par lo hi [] (kernel_table m') (kmem m')" "mmem (kmem m') = mmem (kmem m)" "next_device_addr m' = 0xc0022000"
    "tables_present (kernel_table m') 0xc0022000 1"
    "\<And>v d. translates par (kernel_table m') (kmem m') v d \<longleftrightarrow>
      (if 0xc0011 \<le> page_no v \<and> page_no v < 0xc0022
       then d = page_entry (kernel_devices ! (page_no v - 0xc0010)) RW_NA DEVICE False
       else translates par (kernel_table m) (kmem m) v d)"
proof -
  have no: "page_no 0xc0011000 = 0xc0011" "page_no 0xc0013000 = 0xc0013" "page_no 0xc001e000 = 0xc001e" "page_no 0xc0022000 = 0xc0022"
    by (simp_all add: page_no_def)
  have len: "length timer_physical = 11" "length uart_physical = 4" by (simp_all add: timer_physical_def uart_physical_def)
  have c: "unat (0x48004000 :: u32) + 4096 * 2 < 2 ^ 32" "unat (next_device_addr m) + 4096 * 2 < 2 ^ 32"
    "tables_present (kernel_table m) (next_device_addr m) 2"
    using dev by (simp_all add: tables_present_def)
  from map_device_step [OF core c] obtain m1 where
    1: "map_device par 0x48004000 8192 m = Some (0xc0011000, m1)" "device_step par lo hi xs [0x48004000, 0x48005000] m m1"
    by (auto simp: dev(1) upt_rec)
  note m1 = device_step_simps [OF 1(2)]
  define m2 where "m2 = m1\<lparr>kernel_table := (kernel_table m1)\<lparr>tdirectory := rbtree_new\<rparr>\<rparr>"
  have core2: "tt_core par lo hi [] (kernel_table m2) (kmem m2)"
    using tt_core_cleared [OF m1(2) id] by (simp add: m2_def)
  have m2: "mmem (kmem m2) = mmem (kmem m)" "next_device_addr m2 = 0xc0013000" "tables_present (kernel_table m2) 0xc0011000 18"
    using m1(1, 3, 4) dev by (simp_all add: m2_def)
  have t: "\<forall>p \<in> set timer_physical. unat p + 4096 < 2 ^ 32" "unat (next_device_addr m2) + 4096 * length timer_physical < 2 ^ 32"
    "tables_present (kernel_table m2) (next_device_addr m2) (length timer_physical)"
    using tables_present_part [OF m2(3)] by (simp_all add: m2(2) timer_physical_def no)
  from map_devices_step [OF core2 t] obtain m3 where
    3: "map_devices par timer_physical m2 = Some (map (\<lambda>i. 0xc0013000 + 4096 * of_nat i) [0..<11], m3)"
      "device_step par lo hi [] timer_physical m2 m3"
    unfolding m2(2) len by blast
  note m3 = device_step_simps [OF 3(2)]
  have n3: "next_device_addr m3 = 0xc001e000" unfolding m3(4) m2(2) len by simp
  have u: "\<forall>p \<in> set uart_physical. unat p + 4096 < 2 ^ 32" "unat (next_device_addr m3) + 4096 * length uart_physical < 2 ^ 32"
    "tables_present (kernel_table m3) (next_device_addr m3) (length uart_physical)"
    using tables_present_part [OF m2(3)] by (simp_all add: n3 m3(1) uart_physical_def no)
  from map_devices_step [OF m3(2) u] obtain m4 where
    4: "map_devices par uart_physical m3 = Some (map (\<lambda>i. 0xc001e000 + 4096 * of_nat i) [0..<4], m4)"
      "device_step par lo hi [] uart_physical m3 m4"
    unfolding n3 len by blast
  note m4 = device_step_simps [OF 4(2)]
  have n4: "next_device_addr m4 = 0xc0022000" unfolding m4(4) n3 len by simp
  let ?tb = "map (\<lambda>i. 0xc0013000 + 4096 * of_nat i) [0..<11] :: u32 list" and ?ub = "map (\<lambda>i. 0xc001e000 + 4096 * of_nat i) [0..<4] :: u32 list"
  let ?ms = "zip timer_names ?tb" and ?us = "zip uart_names ?ub"
  have names: "map fst ?ms = timer_names" "map fst ?us = uart_names" "length ?ms = 11" "length ?us = 4"
    by (simp_all add: timer_names_def uart_names_def)
  have "\<forall>m \<in> set ?ms. settles hw (snd m + tistat) (\<lambda>v. v AND tistat_resetdone = 0) f"
    using hw by (auto simp: hardware_ready_def dest!: set_zip_rightD)
  moreover have "distinct ([] @ map fst ?ms)" "\<forall>m \<in> set ?ms. text_ok (fst m)"
    unfolding names using kernel_names(1, 2) by (auto dest!: set_zip_leftD)
  moreover have "length ([] :: bytes list) + length ?ms < 2 ^ 31" unfolding names by simp
  ultimately obtain ts :: "'c timer list" and bs devs b1 where
    5: "timer_modules_new hw 0 ?ms ((empty_store, \<lparr>next_devnum = 0, devices = arr (replicate 32 None)\<rparr>), b) = Some (ts, devs, b1)"
      "length ts = 11" "registry timer_names bs devs"
    and ts: "\<forall>i < 11. ts ! i = \<lparr>module = 0 + int i, mode = disabled, tcallback = None, interval = 0, tbase = snd (?ms ! i)\<rparr>"
    using timer_modules_reset [OF _ registry_empty, of ?ms hw f 0 b] unfolding names by auto
  have "?ms ! 0 = (timer_names ! 0, 0xc0013000)" by (subst nth_zip) (simp_all add: timer_names_def)
  then have t0: "module (ts ! 0) = 0" "tbase (ts ! 0) = 0xc0013000" using ts [rule_format, of 0] by simp_all
  have "\<forall>m \<in> set ?us. settles hw (snd m + uart_sysc) (\<lambda>v. (ucast v :: u8) AND sysc_softreset \<noteq> 0) f"
    using hw by (auto simp: hardware_ready_def dest!: set_zip_rightD)
  moreover have "distinct (timer_names @ map fst ?us)" "\<forall>m \<in> set ?us. text_ok (fst m)"
    unfolding names using kernel_names(3, 4) by (auto dest!: set_zip_leftD)
  moreover have "length timer_names + length ?us < 2 ^ 31" unfolding names by (simp add: timer_names_def)
  ultimately obtain cs devs1 ih' b' where
    6: "uart_modules_new hw h 0 ?us (devs, ih, b1) = Some (devs1, ih', b')" "intc_base ih' = intc_base ih"
      "length (irq_handlers ih') = number_of_irqs" "registry (timer_names @ uart_names) (bs @ cs) devs1"
    using uart_modules_reset [OF _ ih 5(3), of ?us hw f h 0 b1] unfolding names by blast
  have run: "global_constructors par hw h g (m, ih, b) = Some (ts, ?ub, devs1, m4, ih', b')"
    using 1(1) 3(1) 4(1) 5(1) 6(1) device_mgr_new_small [OF g]
    by (simp add: global_constructors_def core_cm_base_def kernel_table_constructor_def m2_def)
  have tr: "translates par (kernel_table m4) (kmem m4) v d \<longleftrightarrow> (if 0xc0011 \<le> page_no v \<and> page_no v < 0xc0022
       then d = page_entry (kernel_devices ! (page_no v - 0xc0010)) RW_NA DEVICE False
       else translates par (kernel_table m) (kmem m) v d)" for v d
  proof -
    have t2: "translates par (kernel_table m2) (kmem m2) v d \<longleftrightarrow> translates par (kernel_table m1) (kmem m1) v d"
      by (simp add: m2_def)
    have at: "kernel_devices ! (page_no v - 0xc0010) = kernel_devices ! (n + (page_no v - (0xc0010 + n)))" if "0xc0010 + n \<le> page_no v" for n
      using that by simp
    have tail: "kernel_devices ! (page_no v - 0xc0010) = timer_physical ! (page_no v - 0xc0013)"
      if "0xc0013 \<le> page_no v" "page_no v < 0xc001e"
      using at [of 3] kernel_devices_nth(3) [of "page_no v - 0xc0013"] that by simp
    have tail2: "kernel_devices ! (page_no v - 0xc0010) = uart_physical ! (page_no v - 0xc001e)"
      if "0xc001e \<le> page_no v" "page_no v < 0xc0022"
      using at [of 14] kernel_devices_nth(4) [of "page_no v - 0xc001e"] that by simp
    have head: "kernel_devices ! (page_no v - 0xc0010) = [0x48004000, 0x48005000] ! (page_no v - 0xc0011)"
      if "0xc0011 \<le> page_no v" "page_no v < 0xc0013"
      using at [of 1] kernel_devices_nth(2) [of "page_no v - 0xc0011"] that by simp
    show ?thesis
      unfolding m4(5) m3(5) t2 m1(5) n3 m2(2) dev(1) no len using tail tail2 head by auto
  qed
  show thesis
  proof (rule that [OF run 6(4) _ 5(2) t0 6(2, 3) m4(2) _ n4 _ tr])
    show "mmem (kmem m4) = mmem (kmem m)" using m4(3) m3(3) m2(1) by simp
    show "tables_present (kernel_table m4) 0xc0022000 1"
      unfolding m4(1) m3(1) using tables_present_part [OF m2(3)] by (simp add: no)
  qed simp
qed

section \<open>From reset to the first thread\<close>

text \<open>The page of the interrupt stack is the last one of the RAM.\<close>

lemma last_page:
  assumes "memory_ready par text data stop ramtop s" and "unat stop + 4096 \<le> ramtop" and "ramtop < 2 ^ 32" and "4096 dvd ramtop"
  obtains st n pages where "page_stack (mmem (kmem s)) = Some st" "stack_rep st n (word_of_nat (ramtop - 4096) # pages)"
proof -
  define n where "n = (ramtop - unat stop) div 4096"
  obtain st where st: "page_stack (mmem (kmem s)) = Some st" "4096 dvd unat stop"
    "stack_rep st n (rev (map (\<lambda>i. stop + 4096 * word_of_nat i) [0..<n]))"
    using assms(1) by (auto simp: memory_ready_def n_def)
  have n: "4096 * n = ramtop - unat stop" unfolding n_def using assms(2, 4) st(2) by simp
  with assms(2) obtain k where k: "n = Suc k" by (cases n) auto
  have e: "unat stop + 4096 * k = ramtop - 4096" using n assms(2) unfolding k by simp
  have "unat (4096 * word_of_nat k :: u32) = 4096 * k" using e assms(3) by (simp add: unat_word_ariths(2) unat_of_nat)
  then have "unat (stop + 4096 * word_of_nat k) = ramtop - 4096" using e assms(3) by (simp add: unat_add_small)
  from arg_cong [OF this, of "word_of_nat :: nat \<Rightarrow> u32"]
  have "stop + 4096 * word_of_nat k = word_of_nat (ramtop - 4096)" by simp
  with st(1, 3) that show thesis unfolding k by simp
qed

text \<open>Heap and translations in the state that \<open>kernel_main\<close> starts with.\<close>

lemma kernel_main_room:
  assumes "mm_heap m lo segs hi" and "(x, r, False) \<in> set segs" and "0x100000 \<le> unat r"
  obtains t m1 stack m2 where "operator_new_aligned 16384 8192 m = Some (t, m1)" "t \<noteq> 0"
    "operator_new_aligned default_stack_size 8 m1 = Some (stack, m2)"
proof -
  have "round_size 16384 = 16384" by (simp add: round_size_def)
  then have ok: "request_ok 16384 8192" and room: "has_room 16384 segs"
    using assms(2, 3) by (auto simp: request_ok_def align_ok_def has_room_def word_le_nat_alt intro!: exI [of _ 13] bexI [of _ "(x, r, False)"])
  have ok8: "request_ok default_stack_size 8"
    by (auto simp: request_ok_def align_ok_def default_stack_size_def round_size_def intro!: exI [of _ 3])
  obtain t m1 segs1 where 1: "operator_new_aligned 16384 8192 m = Some (t, m1)" "mm_heap m1 lo segs1 hi" "t \<noteq> 0"
    using allocate_room [OF assms(1) ok] room by blast
  with allocate_room [OF 1(2) ok8] that show thesis by blast
qed

text \<open>
  C7: the kernel starts. From reset, with RAM for its heap, hardware that answers, and memory that
  holds a number from 0 to 32 where the capacity of the registry's array will be, everything that
  \<open>start.S\<close> calls after clearing the data returns: the page tables, the heap and the stack of free pages,
  the interrupt controller, the constructors of the global objects and \<open>kernel_main\<close>. The registry of
  devices has the eleven timers and the four serial ports. An address of the kernel translates exactly as
  \<open>running_map\<close> says: code, data, heap and stack, the devices in their order, and the interrupt
  stack in the last page of the RAM, whose end is the pointer for the interrupt entries. Timer 0 runs:
  it is repeating, has the scheduler as its callback and a handler for its interrupt, and the last accesses
  of all are those that set its period, enable its interrupt and start it. The first interrupt of it
  puts the CPU at the entry point of kernel threads, in the system mode, for the initialisation thread.
\<close>

theorem kernel_starts:
  assumes reset: "at_reset par text data (kmmu k)" and ram: "unat (ram_size io) < 0x80000000"
    "data_limit (kmem (kmmu k)) + 0x901000 \<le> 0x80000000 + unat (ram_size io)"
    and hw: "hardware_ready hw f" and k: "processes k = empty_store" and g: "0 \<le> g" "g \<le> 32"
  shows "\<exists>devs as st tm pr stop stack st2.
    kernel_start par hw io h g text data (kernel_dataspace_end (mmem (kmem (kmmu k)))) kt entry (k, b) =
      Some (0x9fff7000, devs, scheduler_syscalls par syscall_handler_new, 0xc0022030, 0, st) \<and>
    registry (timer_names @ uart_names) as devs \<and>
    get_timer 0 st = Some tm \<and> mode tm = repeating \<and> tcallback tm = Some () \<and> tbase tm = 0xc0013000 \<and>
    handler_of 37 (fst (irqs st)) = Some Timer_irq \<and> timer_started 0xc0013000 (trace (snd (irqs st))) \<and>
    (\<forall>v d. translates par (kernel_table (kmmu (clients st))) (kmem (kmmu (clients st))) v d \<longleftrightarrow>
      running_map text data stop (ram_size io + 0x7ffff000) v = Some d) \<and>
    cells (processes (clients st)) 0 = Some pr \<and> pid pr = 2 \<and>
    int_irq hw par driver (cpu, st) = Some (\<lparr>regs = (replicate 15 0)[0 := 0, 13 := stack],
      spsr = psr_t OR processor_mode_sys, return_address = entry + 4\<rparr>, st2) \<and> current_process (clients st2) = Some 0"
proof -
  let ?m = "kmmu k" and ?top = "0x80000000 + unat (ram_size io)"
  have ram2: "data_limit (kmem ?m) + 0x900000 \<le> ?top" using ram(2) by simp
  from memory_started [OF reset ram(1) ram2, of kt] obtain m1 m2 stop where
    1: "mmu_initialize par text data (kernel_dataspace_end (mmem (kmem ?m))) kt ?m = Some m1"
      "mm_initialize par io 0x80000000 m1 = Some m2" "memory_ready par text data stop ?top m2"
      "unat stop \<le> data_limit (kmem ?m) + 0x8013ff" by blast
  have tr2: "translates par (kernel_table m2) (kmem m2) v d \<longleftrightarrow> kernel_map text data stop v = Some d" for v d
    using 1(3) by (simp add: memory_ready_def)
  obtain lo hi xs seglo segs x r where core2: "tt_core par lo hi xs (kernel_table m2) (kmem m2)"
    and id: "\<And>p. lo \<le> unat p \<Longrightarrow> unat p < hi \<Longrightarrow> virtual_to_physical par p = p"
    and m2: "next_device_addr m2 = 0xc0010000" "page_stack_initialized (mmem (kmem m2))"
    and heap: "mm_heap (mmem (kmem m2)) seglo segs (unat stop)" "(x, r, False) \<in> set segs" "0x100000 \<le> unat r"
    using 1(3) unfolding memory_ready_def by blast
  have no: "page_no 0xc0010000 = 0xc0010" "page_no 0xc0011000 = 0xc0011" "page_no 0xc0022000 = 0xc0022"
    by (simp_all add: page_no_def)
  note tabs = device_tables [where tt = "kernel_table m2" and mem = "kmem m2", OF tr2]
  have pres: "tables_present (kernel_table m2) 0xc0010000 1" "tables_present (kernel_table m2) 0xc0011000 18"
    by (rule tabs(1); simp add: no)+
  obtain e where e: "read_l1 (kernel_table m2) 0x9fff6000 = Some e" "e AND 1 \<noteq> 0"
    using tabs(2) [of "0xc0010000" 1] by (auto simp: no)
  have top: "unat stop + 4096 \<le> ?top" "?top < 2 ^ 32" "4096 dvd ?top"
    using 1(4) ram dvd_add [OF _ ram_size_pages, of "0x80000000"] by simp_all
  obtain sp n pages where sp: "page_stack (mmem (kmem m2)) = Some sp" "stack_rep sp n (word_of_nat (?top - 4096) # pages)"
    by (rule last_page [OF 1(3) top])
  have lim: "unat (next_device_addr m2) + 4096 < 2 ^ 32" by (simp add: m2(1))
  from irq_start_maps [OF core2 lim pres(1) [folded m2(1)] e m2(2) sp, of hw b] obtain ih :: "irq_target irq_handler" and m3 b1 sp1 where
    3: "irq_handler_start par hw (m2, b) = Some (0x9fff7000, ih, m3, b1)" "intc_base ih = 0xc0010000"
      "irq_handlers ih = replicate number_of_irqs None" "kernel_table m3 = kernel_table m2"
      "tt_core par lo hi xs (kernel_table m3) (kmem m3)" "mmem (kmem m3) = (mmem (kmem m2))\<lparr>page_stack := Some sp1\<rparr>"
      "next_device_addr m3 = 0xc0010000 + 4096"
    and tr3: "\<And>v d. translates par (kernel_table m3) (kmem m3) v d \<longleftrightarrow>
      (if page_no v = page_no 0x9fff6000 then d = page_entry (word_of_nat (?top - 4096)) RW_NA STACK False
       else if page_no v = 0xc0010 then d = page_entry 0x48200000 RW_NA DEVICE False
       else translates par (kernel_table m2) (kmem m2) v d)"
    unfolding m2(1) no by blast
  have n3: "next_device_addr m3 = 0xc0011000" by (simp add: 3(7))
  have pres3: "tables_present (kernel_table m3) 0xc0011000 18" using pres(2) by (simp add: 3(4))
  have len: "length (irq_handlers ih) = number_of_irqs" by (simp add: 3(3))
  obtain ts :: "unit timer list" and ub as devs m4 ih1 b2 where
    4: "global_constructors par hw h g (m3, ih, b1) = Some (ts, ub, devs, m4, ih1, b2)"
      "ub ! 2 = 0xc0020000" "length ts = 11" "module (ts ! 0) = 0" "intc_base ih1 = intc_base ih" "length (irq_handlers ih1) = number_of_irqs"
      "tt_core par lo hi [] (kernel_table m4) (kmem m4)" "mmem (kmem m4) = mmem (kmem m3)" "next_device_addr m4 = 0xc0022000"
      "tables_present (kernel_table m4) 0xc0022000 1" "tbase (ts ! 0) = 0xc0013000"
    and reg: "registry (timer_names @ uart_names) as devs"
    and tr4: "\<And>v d. translates par (kernel_table m4) (kmem m4) v d \<longleftrightarrow>
      (if 0xc0011 \<le> page_no v \<and> page_no v < 0xc0022
       then d = page_entry (kernel_devices ! (page_no v - 0xc0010)) RW_NA DEVICE False
       else translates par (kernel_table m3) (kmem m3) v d)"
    by (rule global_constructed [OF 3(5) id n3 pres3 len hw g, of h b1]) blast+
  have c: "unat (0x48002000 :: u32) + 4096 * 1 < 2 ^ 32" "unat (next_device_addr m4) + 4096 * 1 < 2 ^ 32"
    "tables_present (kernel_table m4) (next_device_addr m4) 1"
    using 4(9, 10) by simp_all
  from map_device_step [OF 4(7) c] obtain m5 where
    5: "map_device par 0x48002000 4096 m4 = Some (0xc0022000, m5)" "device_step par lo hi [] [0x48002000] m4 m5"
    by (auto simp: 4(9))
  note m5 = device_step_simps [OF 5(2)]
  have "mm_heap (mmem (kmem m5)) seglo segs (unat stop)"
    using heap(1) by (simp add: m5(3) 4(8) 3(6) mm_heap_def)
  from kernel_main_room [OF this heap(2, 3)] obtain t mm1 stack mm2 where
    6: "operator_new_aligned 16384 8192 (mmem (kmem m5)) = Some (t, mm1)" "t \<noteq> 0"
      "operator_new_aligned default_stack_size 8 mm1 = Some (stack, mm2)" by blast
  let ?st = "\<lparr>timer_modules = ts, irqs = (ih1, b2), clients = k\<lparr>kmmu := m4\<rparr>\<rparr> :: 'a system"
  have f: "fifo_drains hw 0xc0020000 f" and sir: "fst (hw_read hw (intc_base (fst (irqs ?st)) + sir_irq) d) AND 0xff = 37" for d
    using hw by (simp_all add: hardware_ready_def 4(5) 3(2))
  have prems: "map_device par 0x48002000 4096 (kmmu (clients ?st)) = Some (0xc0022000, m5)"
    "processes (clients ?st) = empty_store" "get_timer 0 ?st = Some (ts ! 0)" "length (irq_handlers (fst (irqs ?st))) = number_of_irqs"
    using 5(1) k 4(3, 6) by (simp_all add: get_timer_def)
  from kernel_main_runs [OF f prems(1) 6 prems(2, 3) 4(4) prems(4) sir, of entry driver cpu] obtain st pr st2 where
    7: "kernel_main hw par 0xc0020000 entry ?st = Some (scheduler_syscalls par syscall_handler_new, padconfs 0xc0022000, 0, st)"
      "cells (processes (clients st)) 0 = Some pr" "pid pr = 2" "kmmu (clients st) = m5\<lparr>kmem := (kmem m5)\<lparr>mmem := mm2\<rparr>\<rparr>"
      "int_irq hw par driver (cpu, st) = Some (\<lparr>regs = (replicate 15 0)[0 := 0, 13 := stack + default_stack_size],
        spsr = psr_t OR processor_mode_sys, return_address = entry + 4\<rparr>, st2)" "current_process (clients st2) = Some 0"
      "armed hw st" "\<exists>t'. get_timer 0 st = Some t' \<and> tbase t' = tbase (ts ! 0)" "timer_started (tbase (ts ! 0)) (trace (snd (irqs st)))"
    by auto
  from 7(7, 8) obtain tm where tm: "get_timer 0 st = Some tm" "mode tm = repeating" "tcallback tm = Some ()" "tbase tm = 0xc0013000"
    "handler_of 37 (fst (irqs st)) = Some Timer_irq"
    by (auto simp: armed_def timer_irq_base_def 4(11))
  have "translates par (kernel_table (kmmu (clients st))) (kmem (kmmu (clients st))) v d \<longleftrightarrow>
      running_map text data stop (ram_size io + 0x7ffff000) v = Some d" for v d
  proof -
    let ?T = "ram_size io + 0x7ffff000"
    have "?top - 4096 = 0x7ffff000 + unat (ram_size io)" by simp
    then have "word_of_nat (?top - 4096) = ?T" "page_no 0x9fff6000 = 0x9fff6" by (simp_all add: page_no_def)
    then have tr: "translates par (kernel_table m5) (kmem m5) v d \<longleftrightarrow>
        (if page_no v = 0xc0022 then d = page_entry 0x48002000 RW_NA DEVICE False
         else if 0xc0011 \<le> page_no v \<and> page_no v < 0xc0022 then d = page_entry (kernel_devices ! (page_no v - 0xc0010)) RW_NA DEVICE False
         else if page_no v = 0x9fff6 then d = page_entry ?T RW_NA STACK False
         else if page_no v = 0xc0010 then d = page_entry 0x48200000 RW_NA DEVICE False else kernel_map text data stop v = Some d)"
      unfolding m5(5) tr4 tr3 tr2 4(9) no by (cases "page_no v = 0xc0022") (simp_all add: add.commute)
    have run: "running_map text data stop ?T v = (if 0xc0010 \<le> page_no v \<and> page_no v < 0xc0023
         then Some (page_entry (kernel_devices ! (page_no v - 0xc0010)) RW_NA DEVICE False)
         else if page_no v = 0x9fff6 then Some (page_entry ?T RW_NA STACK False) else kernel_map text data stop v)"
      by (simp add: running_map_def kernel_devices_nth(6) page_no_def)
    have "translates par (kernel_table m5) (kmem m5) v d \<longleftrightarrow> running_map text data stop ?T v = Some d"
    proof -
      consider "page_no v = 0xc0022" | "page_no v = 0xc0010" | "0xc0011 \<le> page_no v \<and> page_no v < 0xc0022"
        | "page_no v < 0xc0010 \<or> 0xc0022 < page_no v" by linarith
      then show ?thesis unfolding tr run by cases (auto simp: kernel_devices_nth(1, 5))
    qed
    then show ?thesis by (simp add: 7(4))
  qed
  moreover have "kernel_start par hw io h g text data (kernel_dataspace_end (mmem (kmem ?m))) kt entry (k, b) =
      Some (0x9fff7000, devs, scheduler_syscalls par syscall_handler_new, 0xc0022030, 0, st)"
    using 1(1, 2) 3(1) 4(1, 2) 7(1) by (simp add: kernel_start_def padconfs_def)
  ultimately show ?thesis using 7(2, 3, 5, 6, 9) reg tm unfolding 4(11) by blast
qed

text \<open>Hardware whose timers are always reset and whose serial ports are always ready.\<close>

definition ready_hardware :: "unit hardware" where
  "ready_hardware = \<lparr>hw_read = (\<lambda>a d. (if a = 0xc0010040 then 37 else if a < 0xc001e000 then 1 else 0, d)), hw_write = (\<lambda>a v d. d)\<rparr>"

lemma ready_hardware_answers: "hardware_ready ready_hardware (\<lambda>d. 0)"
proof -
  have "settles ready_hardware (0xc0013000 + 4096 * of_nat i + tistat) (\<lambda>v. v AND tistat_resetdone = 0) (\<lambda>d. 0)" if "i < 11" for i
  proof -
    have "i \<in> set [0..<11]" using that by simp
    then show ?thesis
      by (auto simp: upt_rec settles_def ready_hardware_def tistat_def tistat_resetdone_def)
  qed
  moreover have "settles ready_hardware (0xc001e000 + 4096 * of_nat i + uart_sysc) (\<lambda>v. (ucast v :: u8) AND sysc_softreset \<noteq> 0) (\<lambda>d. 0)" if "i < 4" for i
  proof -
    have "i \<in> set [0..<4]" using that by simp
    then show ?thesis
      by (auto simp: upt_rec settles_def ready_hardware_def uart_sysc_def)
  qed
  ultimately show ?thesis
    by (simp add: hardware_ready_def fifo_drains_def ready_hardware_def uart_ssr_def sir_irq_def)
qed

lemma kernel_starts_witness:
  "\<exists>devs d handlers st rc st2. kernel_start (\<lambda>p. p) ready_hardware (\<lambda>a. 0x4000) (\<lambda>n. Driver_irq 0) 5 0x81000000 0x81010000 0x81012000 0x81014000 0x81000400
      (early_kernel\<lparr>kmmu := reset_mmu\<rparr>, \<lparr>dev = (), trace = []\<rparr>) = Some (0x9fff7000, devs, handlers, 0xc0022030, 0, st) \<and>
    get_device_by_name (kstr (ascii ''uart2'')) (fst devs) (snd devs) = Some (Some d, snd devs) \<and>
    translates (\<lambda>p. p) (kernel_table (kmmu (clients st))) (kmem (kmmu (clients st))) 0x9fff6ffc (page_entry 0x8ffff000 RW_NA STACK False) \<and>
    timer_started 0xc0013000 (trace (snd (irqs st))) \<and>
    int_irq ready_hardware (\<lambda>p. p) (\<lambda>i n st. None) (register_contents_new, st) = Some (rc, st2) \<and> return_address rc = 0x81000404"
proof -
  let ?k = "early_kernel\<lparr>kmmu := reset_mmu\<rparr>"
  have reset: "at_reset (\<lambda>p. p) 0x81000000 0x81010000 (kmmu ?k)" using reset_mmu_at_reset by simp
  have ram: "unat (ram_size (\<lambda>a. 0x4000)) < 0x80000000"
    "data_limit (kmem (kmmu ?k)) + 0x901000 \<le> 0x80000000 + unat (ram_size (\<lambda>a. 0x4000))"
    by (simp_all add: ram_size_example reset_mmu_def)
  have k: "processes ?k = empty_store" by (simp add: early_kernel_def example_kernel_def empty_store_def)
  have e: "kernel_dataspace_end (mmem (kmem (kmmu ?k))) = 0x81012000" by (simp add: reset_mmu_def)
  have g: "(0 :: int) \<le> 5" "(5 :: int) \<le> 32" by simp_all
  from kernel_starts [OF reset ram ready_hardware_answers k g, of "\<lambda>n. Driver_irq 0" "0x81014000" "0x81000400" "\<lparr>dev = (), trace = []\<rparr>"
      "\<lambda>i n st. None" register_contents_new, unfolded e] obtain devs as and st :: "unit system" and tm pr stop stack st2 where
    1: "kernel_start (\<lambda>p. p) ready_hardware (\<lambda>a. 0x4000) (\<lambda>n. Driver_irq 0) 5 0x81000000 0x81010000 0x81012000 0x81014000 0x81000400
        (?k, \<lparr>dev = (), trace = []\<rparr>) = Some (0x9fff7000, devs, scheduler_syscalls (\<lambda>p. p) syscall_handler_new, 0xc0022030, 0, st)"
      "registry (timer_names @ uart_names) as devs" "timer_started 0xc0013000 (trace (snd (irqs st)))"
      "\<And>v d. translates (\<lambda>p. p) (kernel_table (kmmu (clients st))) (kmem (kmmu (clients st))) v d \<longleftrightarrow>
        running_map 0x81000000 0x81010000 stop (ram_size (\<lambda>a. 0x4000) + 0x7ffff000) v = Some d"
      "int_irq ready_hardware (\<lambda>p. p) (\<lambda>i n st. None) (register_contents_new, st) = Some (\<lparr>regs = (replicate 15 0)[0 := 0, 13 := stack],
        spsr = psr_t OR processor_mode_sys, return_address = 0x81000400 + 4\<rparr>, st2)" by blast
  have "running_map 0x81000000 0x81010000 stop (ram_size (\<lambda>a. 0x4000) + 0x7ffff000) 0x9fff6ffc = Some (page_entry 0x8ffff000 RW_NA STACK False)"
    by (simp add: running_map_def page_no_def ram_size_example)
  moreover have "get_device_by_name (kstr (ascii ''uart2'')) (fst devs) (snd devs) = Some (Some (as ! 13), snd devs)"
  proof -
    have "registry (timer_names @ uart_names) as (fst devs, snd devs)" using 1(2) by simp
    from registry_lookup(2) [OF this, of "ascii ''uart2''" 13] show ?thesis
      by (simp add: timer_names_def uart_names_def text_ok_def ascii_def)
  qed
  moreover note 1
  ultimately show ?thesis by fastforce
qed

end
